(* ===== verification/Prelude.thy ===== *)
theory Prelude
  imports Main "HOL-Library.Char_ord" "HOL-Library.List_Lexorder"
begin

text \<open>
  Shared vocabulary of the development: Go's scalar types, 64-bit wrap-around, the parts of
  the Go standard library the modelled code calls (string and path functions, slice
  sorting), and the generic lemmas on lists and finite tables the component theories use.

  Conventions.

  \<^item> An instant (\<open>time.Time\<close>) is the number of nanoseconds since the Unix
  epoch as an \<open>int\<close>; where the code tests \<open>IsZero\<close>, the model uses an option.
  \<^item> A \<open>time.Duration\<close> is an \<open>int\<close> kept in the range of int64: multiplication wraps
  (\<open>wrap64\<close>), \<open>Time.Sub\<close> saturates (\<open>sub_time\<close>), as Go documents.
  \<^item> Ids and sizes (Go's int64) are \<open>int\<close> where the code only compares and stores them.
  \<^item> A Go string is a list of bytes, which is what Isabelle's \<open>string\<close> is; comparison is
  bytewise lexicographic in both.
\<close>

named_theorems status_simps \<open>effect of the job store's statements on a row\<close>
named_theorems protect_simps \<open>facts on the order of protection\<close>

type_synonym gotime = int
type_synonym duration = int
type_synonym ident = int

section \<open>Go's int64 arithmetic\<close>

definition max_int64 :: int where
  "max_int64 = 9223372036854775807"

definition min_int64 :: int where
  "min_int64 = - 9223372036854775808"

definition wrap64 :: "int \<Rightarrow> int" where
  "wrap64 x = (x + 9223372036854775808) mod 18446744073709551616 - 9223372036854775808"

text \<open>\<open>Time.Sub\<close>: the difference, clamped to the largest and smallest Duration.\<close>

definition sub_time :: "gotime \<Rightarrow> gotime \<Rightarrow> duration" where
  "sub_time a b = max min_int64 (min max_int64 (a - b))"

definition hour_ns :: int where
  "hour_ns = 3600000000000"

lemma wrap64_range: "min_int64 \<le> wrap64 x \<and> wrap64 x \<le> max_int64"
proof -
  have "0 \<le> (x + 9223372036854775808) mod 18446744073709551616" by simp
  moreover have "(x + 9223372036854775808) mod 18446744073709551616 < (18446744073709551616::int)"
    by (rule pos_mod_bound) simp
  ultimately show ?thesis by (simp add: wrap64_def min_int64_def max_int64_def)
qed

lemma wrap64_id: "min_int64 \<le> x \<Longrightarrow> x \<le> max_int64 \<Longrightarrow> wrap64 x = x"
  by (simp add: wrap64_def min_int64_def max_int64_def)

lemma sub_time_exact:
  "min_int64 \<le> a - b \<Longrightarrow> a - b \<le> max_int64 \<Longrightarrow> sub_time a b = a - b"
  by (simp add: sub_time_def)

section \<open>Lists\<close>

text \<open>\<open>slices.Compact\<close> after \<open>slices.Sort\<close>: sorted, every value once.\<close>

definition sort_compact :: "'a::linorder list \<Rightarrow> 'a list" where
  "sort_compact xs = remdups_adj (sort xs)"

lemma set_sort_compact [simp]: "set (sort_compact xs) = set xs"
  by (simp add: sort_compact_def)

lemma sorted_sort_compact [simp]: "sorted (sort_compact xs)"
  by (simp add: sort_compact_def)

lemma distinct_remdups_adj_sorted: "sorted xs \<Longrightarrow> distinct (remdups_adj xs)"
  by (induction xs rule: remdups_adj.induct) auto

lemma distinct_sort_compact [simp]: "distinct (sort_compact xs)"
  by (simp add: sort_compact_def distinct_remdups_adj_sorted)

lemma sort_compact_eq_sorted_list: "sort_compact xs = sorted_list_of_set (set xs)"
  by (rule sorted_distinct_set_unique) simp_all

lemma sort_compact_idem [simp]: "sort_compact (sort_compact xs) = sort_compact xs"
  by (simp add: sort_compact_eq_sorted_list)

lemma sort_compact_Nil_iff [simp]: "sort_compact xs = [] \<longleftrightarrow> xs = []"
  by (metis set_empty set_sort_compact)

lemma sort_compact_cong_set: "set xs = set ys \<Longrightarrow> sort_compact xs = sort_compact ys"
  by (simp add: sort_compact_eq_sorted_list)

lemma map_enumerate_snd: "map (\<lambda>x. g (snd x)) (List.enumerate n xs) = map g xs"
  by (induction xs arbitrary: n) auto

lemma last_occurrence_unique:
  "us @ q # vs = us' @ q # ws \<Longrightarrow> q \<notin> set vs \<Longrightarrow> q \<notin> set ws \<Longrightarrow> vs = ws"
proof (induction us arbitrary: us')
  case Nil
  then show ?case by (cases us') auto
next
  case (Cons u us)
  then show ?case by (cases us') auto
qed

lemma distinct_map_neq: "distinct (map f (x # xs)) \<Longrightarrow> y \<in> set xs \<Longrightarrow> f y \<noteq> f x"
  by (metis distinct.simps(2) image_eqI list.set_map list.simps(9))

lemma distinct_map_sort_key: "distinct (map f (sort_key k xs)) = distinct (map f xs)"
  by (simp add: distinct_map)

lemma find_Some_setD: "find P xs = Some x \<Longrightarrow> x \<in> set xs \<and> P x"
  by (induction xs) (auto split: if_splits)

lemma map_upd_where_id:
  "(\<And>x. x \<in> set xs \<Longrightarrow> P x \<Longrightarrow> g (f x) = g x) \<Longrightarrow> map g (map (\<lambda>x. if P x then f x else x) xs) = map g xs"
  by (induction xs) auto

section \<open>Strings of the Go standard library\<close>

text \<open>The white space of \<open>unicode.IsSpace\<close> as UTF-8 byte sequences: what
  \<open>strings.TrimSpace\<close> cuts at both ends.\<close>

definition spaceSeqs :: "string list" where
  "spaceSeqs =
     map (\<lambda>n. [char_of (n::nat)]) [9, 10, 11, 12, 13, 32]
     @ map (map char_of) [[194, 133], [194, 160], [225, 154, 128 :: nat]]
     @ map (\<lambda>n. map char_of [226, 128, n :: nat]) ([128..<139] @ [168, 169, 175])
     @ map (map char_of) [[226, 129, 159], [227, 128, 128 :: nat]]"

definition spaceAtStart :: "string \<Rightarrow> string option" where
  "spaceAtStart s = find (\<lambda>w. take (length w) s = w) spaceSeqs"

definition spaceAtEnd :: "string \<Rightarrow> string option" where
  "spaceAtEnd s = find (\<lambda>w. length w \<le> length s \<and> drop (length s - length w) s = w) spaceSeqs"

lemma spaceSeqs_nonempty: "w \<in> set spaceSeqs \<Longrightarrow> w \<noteq> []"
  by (auto simp: spaceSeqs_def)

lemma spaceAtStart_pos: "spaceAtStart s = Some w \<Longrightarrow> 0 < length w \<and> s \<noteq> []"
  by (auto simp: spaceAtStart_def dest!: find_Some_setD dest: spaceSeqs_nonempty)

lemma spaceAtEnd_pos: "spaceAtEnd s = Some w \<Longrightarrow> 0 < length w \<and> length w \<le> length s"
  by (auto simp: spaceAtEnd_def dest!: find_Some_setD dest: spaceSeqs_nonempty)

function trimLeft :: "string \<Rightarrow> string" where
  "trimLeft s = (case spaceAtStart s of None \<Rightarrow> s | Some w \<Rightarrow> trimLeft (drop (length w) s))"
  by pat_completeness auto
termination
  by (relation "measure length") (auto dest: spaceAtStart_pos)

function trimRight :: "string \<Rightarrow> string" where
  "trimRight s =
     (case spaceAtEnd s of None \<Rightarrow> s | Some w \<Rightarrow> trimRight (take (length s - length w) s))"
  by pat_completeness auto
termination
proof (relation "measure length")
  fix s w
  assume "spaceAtEnd s = Some w"
  then have "0 < length w \<and> length w \<le> length s" by (rule spaceAtEnd_pos)
  then have "length s - length w < length s" by arith
  then show "(take (length s - length w) s, s) \<in> measure length" by simp
qed simp

declare trimLeft.simps [simp del] trimRight.simps [simp del]

definition trimSpace :: "string \<Rightarrow> string" where
  "trimSpace s = trimRight (trimLeft s)"

text \<open>\<open>utf8.RuneCountInString\<close> on valid UTF-8: the bytes that do not continue a rune.\<close>

definition runeCount :: "string \<Rightarrow> nat" where
  "runeCount s = length (filter (\<lambda>c. \<not> (128 \<le> (of_char c :: nat) \<and> (of_char c :: nat) < 192)) s)"

text \<open>\<open>strconv.FormatInt(n, 10)\<close>, and reading a string of decimal digits.\<close>

fun formatNat :: "nat \<Rightarrow> string" where
  "formatNat n = (if n < 10 then [char_of (48 + n)]
                  else formatNat (n div 10) @ [char_of (48 + n mod 10)])"

declare formatNat.simps [simp del]

definition formatInt :: "int \<Rightarrow> string" where
  "formatInt n = (if n < 0 then CHR ''-'' # formatNat (nat (- n)) else formatNat (nat n))"

definition isDigit :: "char \<Rightarrow> bool" where
  "isDigit c \<longleftrightarrow> 48 \<le> (of_char c :: nat) \<and> (of_char c :: nat) \<le> 57"

definition decValue :: "string \<Rightarrow> nat" where
  "decValue s = foldl (\<lambda>v c. 10 * v + (of_char c - 48)) 0 s"

definition parseDec :: "string \<Rightarrow> nat option" where
  "parseDec s = (if s \<noteq> [] \<and> list_all isDigit s then Some (decValue s) else None)"

lemma decValue_snoc: "decValue (s @ [c]) = 10 * decValue s + (of_char c - 48)"
  by (simp add: decValue_def)

lemma decValue_formatNat: "decValue (formatNat n) = n"
proof (induction n rule: formatNat.induct)
  case (1 n)
  have d: "(of_char (char_of (48 + k :: nat)) :: nat) - 48 = k" if "k < 10" for k
    using that by (simp add: of_char_mod_256)
  show ?case
  proof (cases "n < 10")
    case True
    then show ?thesis using d [of n] by (simp add: formatNat.simps [of n] decValue_def)
  next
    case False
    with 1 have ih: "decValue (formatNat (n div 10)) = n div 10" by simp
    have "decValue (formatNat n) = 10 * (n div 10) + n mod 10"
      using False ih d [of "n mod 10"] by (simp add: formatNat.simps [of n] decValue_snoc)
    then show ?thesis by simp
  qed
qed

lemma formatNat_inject: "formatNat a = formatNat b \<longleftrightarrow> a = b"
  by (metis decValue_formatNat)

lemma isDigit_char_of: "k < 10 \<Longrightarrow> isDigit (char_of (48 + k :: nat))"
  by (simp add: isDigit_def of_char_mod_256)

lemma formatNat_digits: "list_all isDigit (formatNat n)"
proof (induction n rule: formatNat.induct)
  case (1 n)
  then show ?case by (cases "n < 10") (simp_all add: formatNat.simps [of n] isDigit_char_of)
qed

lemma formatInt_inject_pos:
  "0 \<le> a \<Longrightarrow> 0 \<le> b \<Longrightarrow> formatInt a = formatInt b \<longleftrightarrow> a = b"
  by (simp add: formatInt_def formatNat_inject eq_nat_nat_iff)

end
