(* ===== verification/Tiers.thy ===== *)
theory Tiers
  imports Complex_Main Prelude
begin

text \<open>
  The vocabulary of the tier engine (internal/tiers/tiers.go, facts.go, fields.go): tiers and
  their order of protection, the three-valued results of conditions, rules, facts, reasons and
  decisions, and the validation of conditions and rule sets (\<open>compileCondition\<close>,
  \<open>normalizeInput\<close>, \<open>Validate\<close>, \<open>compile\<close>).
\<close>

section \<open>Tiers and results\<close>

text \<open>\<open>TierNone\<close> is every Tier string that is not one of the three constants, the zero
  value of a Decision included.\<close>

datatype tier = TierNone | Skip | Manifest | Full

fun Protection :: "tier \<Rightarrow> nat" where
  "Protection Full = 3"
| "Protection Manifest = 2"
| "Protection Skip = 1"
| "Protection TierNone = 0"

definition Valid :: "tier \<Rightarrow> bool" where
  "Valid t \<longleftrightarrow> t = Full \<or> t = Manifest \<or> t = Skip"

lemma Protection_inject [protect_simps]: "Protection a = Protection b \<longleftrightarrow> a = b"
  by (cases a; cases b) simp_all

instantiation tier :: linorder
begin

definition less_eq_tier :: "tier \<Rightarrow> tier \<Rightarrow> bool" where
  "less_eq_tier a b \<longleftrightarrow> Protection a \<le> Protection b"

definition less_tier :: "tier \<Rightarrow> tier \<Rightarrow> bool" where
  "less_tier a b \<longleftrightarrow> Protection a < Protection b"

instance
  by standard (auto simp: less_eq_tier_def less_tier_def Protection_inject)

end

lemma tier_le_Full [simp]: "t \<le> (Full :: tier)"
  by (cases t) (simp_all add: less_eq_tier_def)

lemmas tier_order = less_eq_tier_def less_tier_def

datatype matching = MatchAll | MatchAny

datatype tri = RFalse | RTrue | RUnknown

fun tri_Not :: "tri \<Rightarrow> tri" where
  "tri_Not RTrue = RFalse"
| "tri_Not RFalse = RTrue"
| "tri_Not RUnknown = RUnknown"

definition resultOf :: "bool \<Rightarrow> tri" where
  "resultOf b = (if b then RTrue else RFalse)"

section \<open>Fields, operators and values\<close>

datatype field = FieldArrManaged | FieldArrTag | FieldArrQualityProfile | FieldArrRootFolder
  | FieldArrMonitored | FieldPlexSection | FieldSource | FieldFileSize | FieldFileAge
  | FieldMediaGenre | FieldSeerrRequested | FieldSeerrRequestedBy | FieldTautulliPlayCount
  | FieldTautulliLastWatch | FieldMaintainerrPending | FieldFlagIrreplaceable
  | FieldOther string

datatype oper = OpIs | OpIsNot | OpHas | OpHasNot | OpGt | OpGte | OpLt | OpLte | OpEq
  | OpOlderThan | OpNewerThan | OpNever | OpIn | OpNotIn | OpInvalid | OpOther string

datatype valueType = ValueBool | ValueString | ValueInt | ValueInts | ValueNone

datatype sourceKind = SourceCatalog | SourceArr | SourcePlex | SourceTautulli | SourceSeerr
  | SourceMaintainerr | SourceFlag | SourceNone

text \<open>A condition's raw JSON value after lexing.  A number is the value json.Unmarshal stores
  in a float64 (every finite float64 is rational); \<open>JAbsent\<close> is an empty RawMessage.\<close>

datatype json = JAbsent | JNull | JBool bool | JString string | JNumber rat | JArray "json list"
  | JObject

record condition =
  cField :: field
  cOp :: oper
  cValue :: json

text \<open>A validated condition with its value decoded (cond embeds Condition).\<close>

record cond = condition +
  cB :: bool
  cS :: string
  cN :: int
  cInts :: "int list"

record rule =
  rID :: ident
  rPriority :: int
  rName :: string
  rEnabled :: bool
  rMatch :: matching
  rConditions :: "condition list"
  rAction :: tier
  rDestinationIDs :: "ident list option"

record compiledRule = rule +
  rConds :: "cond list"

definition AppliesAt :: "'a rule_scheme \<Rightarrow> ident \<Rightarrow> bool" where
  "AppliesAt r destID = (case rDestinationIDs r of None \<Rightarrow> True | Some ids \<Rightarrow> destID \<in> set ids)"

record fieldSpec =
  fsField :: field
  fsOps :: "oper list"
  fsValueType :: valueType
  fsNoValueOps :: "oper list"
  fsSource :: sourceKind

definition spec_of :: "field \<Rightarrow> oper list \<Rightarrow> valueType \<Rightarrow> oper list \<Rightarrow> sourceKind \<Rightarrow> fieldSpec" where
  "spec_of f ops vt nv src =
     \<lparr>fsField = f, fsOps = ops, fsValueType = vt, fsNoValueOps = nv, fsSource = src\<rparr>"

definition fieldSpecs :: "fieldSpec list" where
  "fieldSpecs =
    [ spec_of FieldArrTag [OpHas, OpHasNot] ValueString [] SourceArr,
      spec_of FieldArrQualityProfile [OpIs, OpIsNot] ValueString [] SourceArr,
      spec_of FieldArrRootFolder [OpIs, OpIsNot] ValueString [] SourceArr,
      spec_of FieldArrMonitored [OpIs] ValueBool [] SourceArr,
      spec_of FieldArrManaged [OpIs] ValueBool [] SourceArr,
      spec_of FieldMediaGenre [OpHas, OpHasNot] ValueString [] SourceArr,
      spec_of FieldSource [OpIs, OpIsNot] ValueInt [] SourceCatalog,
      spec_of FieldFileSize [OpGt, OpGte, OpLt, OpLte] ValueInt [] SourceCatalog,
      spec_of FieldFileAge [OpOlderThan, OpNewerThan] ValueInt [] SourceCatalog,
      spec_of FieldPlexSection [OpIs, OpIsNot] ValueString [] SourcePlex,
      spec_of FieldSeerrRequested [OpIs] ValueBool [] SourceSeerr,
      spec_of FieldSeerrRequestedBy [OpIn, OpNotIn] ValueInts [] SourceSeerr,
      spec_of FieldTautulliPlayCount [OpGt, OpGte, OpLt, OpLte, OpEq] ValueInt [] SourceTautulli,
      spec_of FieldTautulliLastWatch [OpOlderThan, OpNewerThan, OpNever] ValueInt [OpNever]
        SourceTautulli,
      spec_of FieldMaintainerrPending [OpIs] ValueBool [] SourceMaintainerr,
      spec_of FieldFlagIrreplaceable [OpIs] ValueBool [] SourceFlag ]"

definition specOf :: "field \<Rightarrow> fieldSpec option" where
  "specOf f = find (\<lambda>s. fsField s = f) fieldSpecs"

text \<open>The Source of specOf's first result: of the zero FieldSpec when the field is unknown.\<close>

definition sourceOfField :: "field \<Rightarrow> sourceKind" where
  "sourceOfField f = (case specOf f of None \<Rightarrow> SourceNone | Some s \<Rightarrow> fsSource s)"

section \<open>Facts\<close>

datatype arrState = ArrItem | ArrUnmanaged | ArrUnknown

record arrItemFacts =
  aiTags :: "string list"
  aiQualityProfile :: string
  aiQualityProfileID :: ident
  aiApp :: string
  aiRootFolder :: string
  aiMonitored :: bool
  aiGenres :: "string list"

record arrFacts =
  afState :: arrState
  afWhy :: string
  afIntegrationID :: ident
  afItem :: arrItemFacts
  afDateAdded :: "gotime option"

record plexFacts =
  pfKnown :: bool
  pfWhy :: string
  pfIntegrationID :: ident
  pfSection :: string
  pfAddedAt :: "gotime option"

record watchFacts =
  wfKnown :: bool
  wfWhy :: string
  wfIntegrationID :: ident
  wfPlays :: int
  wfLastWatched :: "gotime option"
  wfLowerBound :: bool

record requestFacts =
  qfRequested :: tri
  qfWhy :: string
  qfIntegrationID :: ident
  qfUsers :: "ident list"

record maintainerrFacts =
  mfPending :: tri
  mfWhy :: string
  mfIntegrationID :: ident
  mfDeleteAfter :: "gotime option"

record facts =
  fFileID :: ident
  fSourceID :: ident
  fRelPath :: string
  fSize :: int
  fGroup :: string
  fFirstSeenAt :: gotime
  fArr :: arrFacts
  fPlex :: "plexFacts option"
  fWatch :: "watchFacts option"
  fRequests :: "requestFacts option"
  fMaintainerr :: "maintainerrFacts option"
  fFlags :: "ident list"
  fFollows :: string

section \<open>Reasons and decisions\<close>

text \<open>What a condition compared (Reason.Actual, of Go type any).\<close>

datatype actual = ANone | ABool bool | AInt int | AString string | AStrings "string list"
  | AIds "ident list" | ATime gotime | ATimeOpt "gotime option"

record reason =
  reRuleID :: ident
  reConditionIndex :: int
  reField :: field
  reOp :: oper
  reValue :: json
  reActual :: actual
  reResult :: tri
  reSourceKind :: sourceKind
  reIntegrationID :: ident
  reWhy :: string

record decision =
  dTier :: tier
  dRuleID :: ident
  dRuleName :: string
  dReasons :: "reason list"
  dUnknown :: "reason list"
  dUnknownPromoted :: bool
  dRevision :: int
  dFollows :: string

definition FallbackRuleName :: string where
  "FallbackRuleName = ''no rule matched''"

definition IrreplaceableRuleName :: string where
  "IrreplaceableRuleName = ''irreplaceable''"

definition FallbackDecision :: "int \<Rightarrow> decision" where
  "FallbackDecision revision =
     \<lparr>dTier = Full, dRuleID = 0, dRuleName = FallbackRuleName, dReasons = [], dUnknown = [],
      dUnknownPromoted = False, dRevision = revision, dFollows = []\<rparr>"

text \<open>The zero Decision, which a Go map lookup of a missing key yields.\<close>

definition zeroDecision :: decision where
  "zeroDecision =
     \<lparr>dTier = TierNone, dRuleID = 0, dRuleName = [], dReasons = [], dUnknown = [],
      dUnknownPromoted = False, dRevision = 0, dFollows = []\<rparr>"

definition UnknownWhy :: "decision \<Rightarrow> string" where
  "UnknownWhy d =
     (case find (\<lambda>r. reResult r = RUnknown \<and> reWhy r \<noteq> []) (dReasons d) of
        Some r \<Rightarrow> reWhy r
      | None \<Rightarrow> (case find (\<lambda>r. reWhy r \<noteq> []) (dUnknown d) of
                   Some r \<Rightarrow> reWhy r
                 | None \<Rightarrow> ''a fact is unknown''))"

definition moreProtective :: "decision \<Rightarrow> decision \<Rightarrow> decision" where
  "moreProtective a b = (if Protection (dTier b) > Protection (dTier a) then b else a)"

end
