(* ===== verification/TierRules.thy ===== *)
theory TierRules
  imports Tiers
begin

text \<open>
  Validation and compilation of tier rules (internal/tiers/fields.go): a condition's value is
  decoded and brought into canonical form, a rule set is checked as a whole, and stored rules
  are turned into evaluation form.  Errors carry the 0-based rule and condition index the code
  reports (-1: not about one) and a constructor per message.
\<close>

datatype ruleError = UnknownField field | UnsupportedOp field oper | TakesNoValue | NeedsValue
  | WrongValue field string | NeedsName | NameTooLong | BadMatch | BadAction tier
  | TooManyConditions | BadDestinationID ident | BadRuleID ident | TooManyRules
  | RepeatedRuleID ident

record validationError =
  veRuleIndex :: int
  veConditionIndex :: int
  veMsg :: ruleError

definition invalid :: "int \<Rightarrow> int \<Rightarrow> ruleError \<Rightarrow> validationError + 'a" where
  "invalid rule cond m = Inl \<lparr>veRuleIndex = rule, veConditionIndex = cond, veMsg = m\<rparr>"

definition MaxRules :: nat where "MaxRules = 100"
definition MaxConditions :: nat where "MaxConditions = 32"
definition MaxNameLen :: nat where "MaxNameLen = 100"

text \<open>\<open>maxInt\<close> is compared as a float64, where MaxInt64/2 rounds to 2 to the 62.\<close>

definition maxIntFloat :: rat where "maxIntFloat = 4611686018427387904"

function trimSlash :: "string \<Rightarrow> string" where
  "trimSlash p = (if length p > 1 \<and> last p = CHR ''/'' then trimSlash (butlast p) else p)"
  by pat_completeness auto
termination
  by (relation "measure length") auto

declare trimSlash.simps [simp del]

definition parseSection :: "string \<Rightarrow> (int \<times> string) option" where
  "parseSection s =
     (let pre = takeWhile (\<lambda>c. c \<noteq> CHR '':'') s; i = length pre
      in if i = length s \<or> i = 0 \<or> i = length s - 1 then None
         else (case parseDec pre of
                 None \<Rightarrow> None
               | Some pid \<Rightarrow>
                   if int pid < 1 \<or> int pid > max_int64 \<or> formatNat pid \<noteq> pre then None
                   else (let key = trimSpace (drop (i + 1) s)
                         in if key = [] \<or> CHR ''/'' \<in> set key \<or> CHR 0x00 \<in> set key
                               \<or> length key > 64
                            then None else Some (int pid, key))))"

definition isWhole :: "rat \<Rightarrow> bool" where
  "isWhole f \<longleftrightarrow> of_int \<lfloor>f\<rfloor> = f"

text \<open>\<open>json.Unmarshal\<close> of an element into a float64 (null leaves the zero value).\<close>

fun numberOf :: "json \<Rightarrow> rat option" where
  "numberOf (JNumber f) = Some f"
| "numberOf JNull = Some 0"
| "numberOf _ = None"

fun numbersOf :: "json list \<Rightarrow> rat list option" where
  "numbersOf [] = Some []"
| "numbersOf (j # js) =
     (case (numberOf j, numbersOf js) of (Some f, Some fs) \<Rightarrow> Some (f # fs) | _ \<Rightarrow> None)"

fun addIds :: "rat list \<Rightarrow> int list \<Rightarrow> int list option" where
  "addIds [] acc = Some acc"
| "addIds (f # fs) acc =
     (if \<not> isWhole f \<or> f < 1 \<or> f > maxIntFloat then None
      else addIds fs (if \<lfloor>f\<rfloor> \<in> set acc then acc else acc @ [\<lfloor>f\<rfloor>]))"

definition canonicalValue :: "valueType \<Rightarrow> cond \<Rightarrow> json" where
  "canonicalValue t c =
     (case t of
        ValueBool \<Rightarrow> JBool (cB c)
      | ValueString \<Rightarrow> JString (cS c)
      | ValueInt \<Rightarrow> JNumber (of_int (cN c))
      | ValueInts \<Rightarrow> JArray (map (\<lambda>n. JNumber (of_int n)) (cInts c))
      | ValueNone \<Rightarrow> JNull)"

definition condOf :: "condition \<Rightarrow> cond" where
  "condOf c = \<lparr>cField = cField c, cOp = cOp c, cValue = cValue c,
               cB = False, cS = [], cN = 0, cInts = []\<rparr>"

text \<open>The value part of compileCondition: the switch on the field's value type.\<close>

fun decodeValue :: "fieldSpec \<Rightarrow> cond \<Rightarrow> string + cond" where
  "decodeValue spec c =
     (case (fsValueType spec, cValue c) of
        (ValueBool, JBool b) \<Rightarrow> Inr (c\<lparr>cB := b\<rparr>)
      | (ValueBool, _) \<Rightarrow> Inl ''true or false''
      | (ValueString, JString s0) \<Rightarrow>
          (let s = trimSpace s0
           in if s = [] \<or> runeCount s > 1024
              then Inl ''a non-empty string of at most 1024 characters''
              else if cField c = FieldPlexSection
              then (case parseSection s of
                      None \<Rightarrow> Inl ''<plexIntegrationId>:<sectionKey>''
                    | Some (pid, key) \<Rightarrow> Inr (c\<lparr>cS := formatInt pid @ '':'' @ key\<rparr>))
              else if cField c = FieldArrRootFolder then Inr (c\<lparr>cS := trimSlash s\<rparr>)
              else Inr (c\<lparr>cS := s\<rparr>))
      | (ValueString, _) \<Rightarrow> Inl ''a string''
      | (ValueInt, JNumber f) \<Rightarrow>
          (if \<not> isWhole f \<or> f < 0 \<or> f > maxIntFloat then Inl ''a whole number of at least 0''
           else if cField c = FieldSource \<and> \<lfloor>f\<rfloor> < 1 then Inl ''a source id''
           else Inr (c\<lparr>cN := \<lfloor>f\<rfloor>\<rparr>))
      | (ValueInt, _) \<Rightarrow> Inl ''a whole number of at least 0''
      | (ValueInts, JArray js) \<Rightarrow>
          (case numbersOf js of
             None \<Rightarrow> Inl ''a list of 1 to 1000 ids''
           | Some fs \<Rightarrow>
               if fs = [] \<or> length fs > 1000 then Inl ''a list of 1 to 1000 ids''
               else (case addIds fs [] of
                       None \<Rightarrow> Inl ''a list of positive ids''
                     | Some ids \<Rightarrow> Inr (c\<lparr>cInts := sort ids\<rparr>)))
      | (ValueInts, _) \<Rightarrow> Inl ''a list of 1 to 1000 ids''
      | (ValueNone, _) \<Rightarrow> Inr c)"

declare decodeValue.simps [simp del]

definition compileCondition :: "condition \<Rightarrow> int \<Rightarrow> int \<Rightarrow> validationError + cond" where
  "compileCondition c rule index =
     (case specOf (cField c) of
        None \<Rightarrow> invalid rule index (UnknownField (cField c))
      | Some spec \<Rightarrow>
          if cOp c \<notin> set (fsOps spec) then invalid rule index (UnsupportedOp (cField c) (cOp c))
          else if cOp c \<in> set (fsNoValueOps spec)
          then (if cValue c \<noteq> JAbsent \<and> cValue c \<noteq> JNull then invalid rule index TakesNoValue
                else Inr ((condOf c)\<lparr>cValue := JAbsent\<rparr>))
          else if cValue c = JAbsent \<or> cValue c = JNull then invalid rule index NeedsValue
          else (case decodeValue spec (condOf c) of
                  Inl want \<Rightarrow> invalid rule index (WrongValue (cField c) want)
                | Inr out \<Rightarrow> Inr (out\<lparr>cValue := canonicalValue (fsValueType spec) out\<rparr>)))"

section \<open>Rule sets\<close>

text \<open>RuleInput: \<open>enabled\<close> is nil or a value; \<open>match\<close> is empty, all, any or another string.\<close>

datatype matchInput = MatchEmpty | MatchGiven matching | MatchInvalid string

record ruleInput =
  riID :: ident
  riName :: string
  riEnabled :: "bool option"
  riMatch :: matchInput
  riConditions :: "condition list"
  riAction :: tier
  riDestinationIDs :: "ident list option"

definition ri_enabled :: "ruleInput \<Rightarrow> bool" where
  "ri_enabled r = (case riEnabled r of None \<Rightarrow> True | Some b \<Rightarrow> b)"

definition ri_match :: "ruleInput \<Rightarrow> matchInput" where
  "ri_match r = (if riMatch r = MatchEmpty then MatchGiven MatchAll else riMatch r)"

fun compileConditions :: "condition list \<Rightarrow> int \<Rightarrow> int \<Rightarrow> validationError + cond list" where
  "compileConditions [] i j = Inr []"
| "compileConditions (c # cs) i j =
     (case compileCondition c i j of
        Inl e \<Rightarrow> Inl e
      | Inr cc \<Rightarrow> (case compileConditions cs i (j + 1) of
                     Inl e \<Rightarrow> Inl e
                   | Inr ccs \<Rightarrow> Inr (cc # ccs)))"

definition baseCondition :: "cond \<Rightarrow> condition" where
  "baseCondition c = \<lparr>cField = cField c, cOp = cOp c, cValue = cValue c\<rparr>"

fun addDestIDs :: "ident list \<Rightarrow> ident list \<Rightarrow> ident + ident list" where
  "addDestIDs [] acc = Inr acc"
| "addDestIDs (x # xs) acc =
     (if x < 1 then Inl x else addDestIDs xs (if x \<in> set acc then acc else acc @ [x]))"

definition normalizeInput :: "ruleInput \<Rightarrow> int \<Rightarrow> validationError + ruleInput \<times> cond list" where
  "normalizeInput in0 i =
     (let r1 = in0\<lparr>riName := trimSpace (riName in0)\<rparr>
      in if riName r1 = [] then invalid i (-1) NeedsName
         else if runeCount (riName r1) > MaxNameLen then invalid i (-1) NameTooLong
         else (case ri_match r1 of
             MatchGiven m \<Rightarrow>
              (let r2 = r1\<lparr>riMatch := MatchGiven m\<rparr>
               in if \<not> Valid (riAction r2) then invalid i (-1) (BadAction (riAction r2))
                  else if length (riConditions r2) > MaxConditions
                  then invalid i (-1) TooManyConditions
                  else (case compileConditions (riConditions r2) i 0 of
                      Inl e \<Rightarrow> Inl e
                    | Inr conds \<Rightarrow>
                       (let r3 = r2\<lparr>riConditions := map baseCondition conds\<rparr>;
                            ids = (case riDestinationIDs r3 of
                                     None \<Rightarrow> Inr None
                                   | Some ds \<Rightarrow> (case addDestIDs ds [] of
                                                   Inl x \<Rightarrow> Inl x
                                                 | Inr xs \<Rightarrow> Inr (Some (sort xs))))
                        in (case ids of
                              Inl x \<Rightarrow> invalid i (-1) (BadDestinationID x)
                            | Inr ds \<Rightarrow>
                                if riID r3 < 0 then invalid i (-1) (BadRuleID (riID r3))
                                else Inr (r3\<lparr>riDestinationIDs := ds\<rparr>, conds)))))
           | _ \<Rightarrow> invalid i (-1) BadMatch))"

fun validateLoop :: "ruleInput list \<Rightarrow> int \<Rightarrow> ident set \<Rightarrow> validationError + ruleInput list" where
  "validateLoop [] i seen = Inr []"
| "validateLoop (r # rs) i seen =
     (case normalizeInput r i of
        Inl e \<Rightarrow> Inl e
      | Inr (n, _) \<Rightarrow>
          if riID n \<noteq> 0 \<and> riID n \<in> seen then invalid i (-1) (RepeatedRuleID (riID n))
          else (case validateLoop rs (i + 1) (if riID n \<noteq> 0 then insert (riID n) seen else seen) of
                  Inl e \<Rightarrow> Inl e
                | Inr out \<Rightarrow> Inr (n # out)))"

definition Validate :: "ruleInput list \<Rightarrow> validationError + ruleInput list" where
  "Validate rules =
     (if length rules > MaxRules then invalid (-1) (-1) TooManyRules
      else validateLoop rules 0 {})"

text \<open>\<open>compile\<close>: a stored condition that no longer validates keeps its field and value, with
  the operator that evaluates unknown.\<close>

definition compileStored :: "condition \<Rightarrow> cond" where
  "compileStored c =
     (case compileCondition c 0 0 of
        Inl _ \<Rightarrow> (condOf c)\<lparr>cOp := OpInvalid\<rparr>
      | Inr cc \<Rightarrow> cc)"

definition compile :: "rule list \<Rightarrow> compiledRule list" where
  "compile rules =
     map (\<lambda>r. \<lparr>rID = rID r, rPriority = rPriority r, rName = rName r, rEnabled = rEnabled r,
               rMatch = rMatch r, rConditions = rConditions r, rAction = rAction r,
               rDestinationIDs = rDestinationIDs r,
               rConds = map compileStored (rConditions r)\<rparr>) rules"

definition draftRules :: "ruleInput list \<Rightarrow> rule list" where
  "draftRules ins =
     map (\<lambda>(i, r). \<lparr>rID = (if riID r = 0 then - int (i + 1) else riID r), rPriority = int i + 1,
                    rName = riName r, rEnabled = ri_enabled r,
                    rMatch = (case ri_match r of MatchGiven m \<Rightarrow> m | _ \<Rightarrow> MatchAll),
                    rConditions = riConditions r, rAction = riAction r,
                    rDestinationIDs = riDestinationIDs r\<rparr>)
         (List.enumerate 0 ins)"

end
