(* ===== verification/TierEval.thy ===== *)
theory TierEval
  imports TierRules
begin

text \<open>
  The tier evaluator (internal/tiers/evaluate.go): one function per \<open>eval\<close> method, in the
  order of the file, and \<open>Decide\<close>.  The evaluator's state is its compiled rules, the revision,
  the clock, and \<open>evFold\<close>, which stands for \<open>strings.EqualFold\<close> (Unicode case folding).

  The theorems are the safety rules the package documents: D1 (the fallback and the
  irreplaceable override are full) and S14 (an unknown fact never lowers protection), which holds up to
  the date of \<open>file.age\<close>.
\<close>

record evaluator =
  evRules :: "compiledRule list"
  evRevision :: int
  evNow :: gotime
  evFold :: "string \<Rightarrow> string \<Rightarrow> bool"

definition NewEvaluator ::
    "rule list \<Rightarrow> int \<Rightarrow> gotime \<Rightarrow> (string \<Rightarrow> string \<Rightarrow> bool) \<Rightarrow> evaluator" where
  "NewEvaluator rules revision now eqfold =
     \<lparr>evRules = compile (filter rEnabled rules), evRevision = revision, evNow = now,
      evFold = eqfold\<rparr>"

definition Applies :: "evaluator \<Rightarrow> ident \<Rightarrow> bool" where
  "Applies e destID = list_ex (\<lambda>r. AppliesAt r destID) (evRules e)"

section \<open>Conditions\<close>

definition unknownOf :: "reason \<Rightarrow> string \<Rightarrow> reason" where
  "unknownOf r why = r\<lparr>reResult := RUnknown, reWhy := why\<rparr>"

definition negated :: "oper \<Rightarrow> tri \<Rightarrow> tri" where
  "negated oper res = (if oper = OpIsNot \<or> oper = OpHasNot \<or> oper = OpNotIn then tri_Not res else res)"

definition containsFold :: "evaluator \<Rightarrow> string list \<Rightarrow> string \<Rightarrow> bool" where
  "containsFold e xs s = list_ex (\<lambda>x. evFold e x s) xs"

definition itemUnknownProfile :: "arrItemFacts \<Rightarrow> string" where
  "itemUnknownProfile it =
     ''quality profile #'' @ formatInt (aiQualityProfileID it) @ '' is not in the '' @ aiApp it
       @ '' index''"

definition evalArr :: "evaluator \<Rightarrow> cond \<Rightarrow> facts \<Rightarrow> reason \<Rightarrow> reason" where
  "evalArr e c f r0 =
     (let a = fArr f; r = r0\<lparr>reIntegrationID := afIntegrationID a\<rparr>; it = afItem a
      in if cField c = FieldArrManaged
         then (case afState a of
                 ArrItem \<Rightarrow> r\<lparr>reActual := ABool True, reResult := resultOf (cB c)\<rparr>
               | ArrUnmanaged \<Rightarrow> r\<lparr>reActual := ABool False, reResult := resultOf (\<not> cB c)\<rparr>
               | ArrUnknown \<Rightarrow> unknownOf r (afWhy a))
         else if afState a = ArrUnknown then unknownOf r (afWhy a)
         else if afState a = ArrUnmanaged
         then (if cField c = FieldMediaGenre then unknownOf r ''no *arr item holds this file''
               else r\<lparr>reActual := AString ''unmanaged'', reResult := negated (cOp c) RFalse\<rparr>)
         else (case cField c of
                 FieldArrTag \<Rightarrow> r\<lparr>reActual := AStrings (aiTags it),
                   reResult := negated (cOp c) (resultOf (containsFold e (aiTags it) (cS c)))\<rparr>
               | FieldArrQualityProfile \<Rightarrow>
                   (if aiQualityProfile it = []
                    then unknownOf (r\<lparr>reActual := AInt (aiQualityProfileID it)\<rparr>)
                           (itemUnknownProfile it)
                    else r\<lparr>reActual := AString (aiQualityProfile it),
                      reResult := negated (cOp c) (resultOf (evFold e (aiQualityProfile it) (cS c)))\<rparr>)
               | FieldArrRootFolder \<Rightarrow> r\<lparr>reActual := AString (aiRootFolder it),
                   reResult := negated (cOp c) (resultOf (trimSlash (aiRootFolder it) = cS c))\<rparr>
               | FieldArrMonitored \<Rightarrow> r\<lparr>reActual := ABool (aiMonitored it),
                   reResult := negated (cOp c) (resultOf (aiMonitored it = cB c))\<rparr>
               | FieldMediaGenre \<Rightarrow> r\<lparr>reActual := AStrings (aiGenres it),
                   reResult := negated (cOp c) (resultOf (containsFold e (aiGenres it) (cS c)))\<rparr>
               | _ \<Rightarrow> r\<lparr>reResult := negated (cOp c) RFalse\<rparr>))"

definition addedAt :: "facts \<Rightarrow> gotime" where
  "addedAt f =
     (case afDateAdded (fArr f) of
        Some t \<Rightarrow> t
      | None \<Rightarrow> (case fPlex f of
                   Some p \<Rightarrow> (if pfKnown p then (case pfAddedAt p of Some t \<Rightarrow> t | None \<Rightarrow> fFirstSeenAt f)
                             else fFirstSeenAt f)
                 | None \<Rightarrow> fFirstSeenAt f))"

definition compareInt :: "oper \<Rightarrow> int \<Rightarrow> int \<Rightarrow> tri" where
  "compareInt oper got want =
     (case oper of
        OpGt \<Rightarrow> resultOf (got > want)
      | OpGte \<Rightarrow> resultOf (got \<ge> want)
      | OpLt \<Rightarrow> resultOf (got < want)
      | OpLte \<Rightarrow> resultOf (got \<le> want)
      | OpEq \<Rightarrow> resultOf (got = want)
      | _ \<Rightarrow> RUnknown)"

text \<open>\<open>time.Duration(c.n) * 24 * time.Hour\<close>: every multiplication wraps at 64 bits.\<close>

definition daysLimit :: "int \<Rightarrow> duration" where
  "daysLimit n = wrap64 (wrap64 (n * 24) * hour_ns)"

definition evalCatalog :: "evaluator \<Rightarrow> cond \<Rightarrow> facts \<Rightarrow> reason \<Rightarrow> reason" where
  "evalCatalog e c f r =
     (case cField c of
        FieldSource \<Rightarrow> r\<lparr>reActual := AInt (fSourceID f),
          reResult := negated (cOp c) (resultOf (fSourceID f = cN c))\<rparr>
      | FieldFileSize \<Rightarrow> r\<lparr>reActual := AInt (fSize f),
          reResult := negated (cOp c) (compareInt (cOp c) (fSize f) (cN c))\<rparr>
      | FieldFileAge \<Rightarrow>
          (let added = addedAt f; age = sub_time (evNow e) added; limit = daysLimit (cN c)
           in r\<lparr>reActual := ATime added,
                reResult := negated (cOp c)
                  (if cOp c = OpOlderThan then resultOf (age > limit) else resultOf (age < limit))\<rparr>)
      | _ \<Rightarrow> r\<lparr>reResult := negated (cOp c) RFalse\<rparr>)"

definition evalPlex :: "cond \<Rightarrow> facts \<Rightarrow> reason \<Rightarrow> reason" where
  "evalPlex c f r0 =
     (case fPlex f of
        None \<Rightarrow> unknownOf r0 ''the file's Plex library is not known: set the source's Plex library''
      | Some p \<Rightarrow>
          (let r = r0\<lparr>reIntegrationID := pfIntegrationID p\<rparr>
           in if \<not> pfKnown p then unknownOf r (pfWhy p)
              else r\<lparr>reActual := AString (pfSection p),
                     reResult := negated (cOp c) (resultOf (pfSection p = cS c))\<rparr>))"

definition notProvided :: "string \<Rightarrow> string" where
  "notProvided app = ''Bunkarr does not read '' @ app @ '' facts yet''"

definition evalSeerr :: "cond \<Rightarrow> facts \<Rightarrow> reason \<Rightarrow> reason" where
  "evalSeerr c f r0 =
     (case fRequests f of
        None \<Rightarrow> unknownOf r0 (notProvided ''Seerr'')
      | Some q \<Rightarrow>
          (let r = r0\<lparr>reIntegrationID := qfIntegrationID q\<rparr>
           in if qfRequested q = RUnknown then unknownOf r (qfWhy q)
              else (case cField c of
                      FieldSeerrRequested \<Rightarrow> r\<lparr>reActual := ABool (qfRequested q = RTrue),
                        reResult := resultOf ((qfRequested q = RTrue) = cB c)\<rparr>
                    | FieldSeerrRequestedBy \<Rightarrow> r\<lparr>reActual := AIds (qfUsers q),
                        reResult := negated (cOp c) (resultOf (qfRequested q = RTrue
                          \<and> list_ex (\<lambda>u. u \<in> set (cInts c)) (qfUsers q)))\<rparr>
                    | _ \<Rightarrow> r)))"

definition lowerBoundWhy :: string where
  "lowerBoundWhy = ''play history is turned off for a user or this library, so the count is only a lower bound''"

definition evalTautulli :: "evaluator \<Rightarrow> cond \<Rightarrow> facts \<Rightarrow> reason \<Rightarrow> reason" where
  "evalTautulli e c f r0 =
     (case fWatch f of
        None \<Rightarrow> unknownOf r0 (notProvided ''Tautulli'')
      | Some w \<Rightarrow>
          (let r = r0\<lparr>reIntegrationID := wfIntegrationID w\<rparr>
           in if \<not> wfKnown w then unknownOf r (wfWhy w)
              else if cField c = FieldTautulliPlayCount
              then (let r1 = r\<lparr>reActual := AInt (wfPlays w)\<rparr>;
                        res = compareInt (cOp c) (wfPlays w) (cN c)
                    in if wfLowerBound w
                          \<and> (cOp c = OpLt \<or> cOp c = OpLte \<or> cOp c = OpEq \<or> res \<noteq> RTrue)
                       then unknownOf r1 lowerBoundWhy
                       else r1\<lparr>reResult := res\<rparr>)
              else (let r1 = r\<lparr>reActual := ATimeOpt (wfLastWatched w)\<rparr>;
                        limit = daysLimit (cN c)
                    in if wfLowerBound w
                       then (case wfLastWatched w of
                               Some t \<Rightarrow> (if cOp c = OpNewerThan \<and> sub_time (evNow e) t < limit
                                         then r1\<lparr>reResult := RTrue\<rparr>
                                         else unknownOf r1 lowerBoundWhy)
                             | None \<Rightarrow> unknownOf r1 lowerBoundWhy)
                       else (case wfLastWatched w of
                               None \<Rightarrow>
                                 (if wfPlays w = 0 then r1\<lparr>reResult := resultOf (cOp c \<noteq> OpNewerThan)\<rparr>
                                  else if cOp c = OpNever then r1\<lparr>reResult := RFalse\<rparr>
                                  else unknownOf r1
                                    ''Tautulli counts plays of this file but has no date for them'')
                             | Some t \<Rightarrow>
                                 (if cOp c = OpNever then r1\<lparr>reResult := RFalse\<rparr>
                                  else if cOp c = OpOlderThan
                                  then r1\<lparr>reResult := resultOf (sub_time (evNow e) t > limit)\<rparr>
                                  else r1\<lparr>reResult := resultOf (sub_time (evNow e) t < limit)\<rparr>)))))"

definition evalMaintainerr :: "cond \<Rightarrow> facts \<Rightarrow> reason \<Rightarrow> reason" where
  "evalMaintainerr c f r0 =
     (case fMaintainerr f of
        None \<Rightarrow> unknownOf r0 (notProvided ''Maintainerr'')
      | Some m \<Rightarrow>
          (let r = r0\<lparr>reIntegrationID := mfIntegrationID m\<rparr>
           in if mfPending m = RUnknown then unknownOf r (mfWhy m)
              else r\<lparr>reActual := (case mfDeleteAfter m of
                                      Some t \<Rightarrow> ATime t
                                    | None \<Rightarrow> ABool (mfPending m = RTrue)),
                     reResult := resultOf ((mfPending m = RTrue) = cB c)\<rparr>))"

definition evalCondition :: "evaluator \<Rightarrow> cond \<Rightarrow> facts \<Rightarrow> reason" where
  "evalCondition e c f =
     (let src = sourceOfField (cField c);
          r = \<lparr>reRuleID = 0, reConditionIndex = 0, reField = cField c, reOp = cOp c,
               reValue = cValue c, reActual = ANone, reResult = RFalse, reSourceKind = src,
               reIntegrationID = 0, reWhy = []\<rparr>
      in if cOp c = OpInvalid
         then unknownOf r ''the condition is not valid in this version of Bunkarr''
         else (case src of
                 SourceArr \<Rightarrow> evalArr e c f r
               | SourceCatalog \<Rightarrow> evalCatalog e c f r
               | SourcePlex \<Rightarrow> evalPlex c f r
               | SourceSeerr \<Rightarrow> evalSeerr c f r
               | SourceTautulli \<Rightarrow> evalTautulli e c f r
               | SourceMaintainerr \<Rightarrow> evalMaintainerr c f r
               | SourceFlag \<Rightarrow> r\<lparr>reActual := AIds (fFlags f),
                                  reResult := resultOf ((fFlags f \<noteq> []) = cB c)\<rparr>
               | SourceNone \<Rightarrow> unknownOf r ''unknown field''))"

section \<open>Rules and decisions\<close>

definition filterReasons :: "reason list \<Rightarrow> tri \<Rightarrow> reason list" where
  "filterReasons rs want = filter (\<lambda>r. reResult r = want) rs"

definition ruleReasons :: "evaluator \<Rightarrow> compiledRule \<Rightarrow> facts \<Rightarrow> reason list" where
  "ruleReasons e r f =
     map (\<lambda>(i, c). (evalCondition e c f)\<lparr>reRuleID := rID r, reConditionIndex := int i\<rparr>)
         (List.enumerate 0 (rConds r))"

definition evalRule :: "evaluator \<Rightarrow> compiledRule \<Rightarrow> facts \<Rightarrow> tri \<times> reason list" where
  "evalRule e r f =
     (if rConds r = [] then (RTrue, [])
      else (let reasons = ruleReasons e r f;
                trues = length (filterReasons reasons RTrue);
                falses = length (filterReasons reasons RFalse);
                n = length (rConds r)
            in if rMatch r = MatchAny
               then (if trues > 0 then (RTrue, reasons)
                     else if falses = n then (RFalse, reasons)
                     else (RUnknown, reasons))
               else (if falses > 0 then (RFalse, reasons)
                     else if trues = n then (RTrue, reasons)
                     else (RUnknown, reasons))))"

text \<open>Decide's loop over the rules: \<open>promo\<close> is the most protective unknown rule so far with
  its unknown reasons, \<open>d\<close> the decision being built.\<close>

fun decideLoop ::
    "evaluator \<Rightarrow> ident \<Rightarrow> facts \<Rightarrow> (compiledRule \<times> reason list) option \<Rightarrow> decision
      \<Rightarrow> compiledRule list \<Rightarrow> decision" where
  "decideLoop e destID f promo d [] = d\<lparr>dTier := Full, dRuleName := FallbackRuleName\<rparr>"
| "decideLoop e destID f promo d (r # rs) =
     (if \<not> AppliesAt r destID then decideLoop e destID f promo d rs
      else (case evalRule e r f of
              (RTrue, reasons) \<Rightarrow>
                (case promo of
                   Some (p, preasons) \<Rightarrow>
                     (if Protection (rAction p) > Protection (rAction r)
                      then d\<lparr>dTier := rAction p, dRuleID := rID p, dRuleName := rName p,
                             dReasons := preasons, dUnknownPromoted := True\<rparr>
                      else d\<lparr>dTier := rAction r, dRuleID := rID r, dRuleName := rName r,
                             dReasons := filterReasons reasons RTrue\<rparr>)
                 | None \<Rightarrow> d\<lparr>dTier := rAction r, dRuleID := rID r, dRuleName := rName r,
                             dReasons := filterReasons reasons RTrue\<rparr>)
            | (RUnknown, reasons) \<Rightarrow>
                (let unknown = filterReasons reasons RUnknown;
                     d' = d\<lparr>dUnknown := dUnknown d @ unknown\<rparr>
                 in (case promo of
                       None \<Rightarrow> decideLoop e destID f (Some (r, unknown)) d' rs
                     | Some (p, preasons) \<Rightarrow>
                         (if Protection (rAction r) > Protection (rAction p)
                          then decideLoop e destID f (Some (r, unknown)) d' rs
                          else decideLoop e destID f promo d' rs)))
            | (RFalse, _) \<Rightarrow> decideLoop e destID f promo d rs))"

definition Decide :: "evaluator \<Rightarrow> ident \<Rightarrow> facts \<Rightarrow> decision" where
  "Decide e destID f =
     (let d = \<lparr>dTier = TierNone, dRuleID = 0, dRuleName = [], dReasons = [], dUnknown = [],
               dUnknownPromoted = False, dRevision = evRevision e, dFollows = []\<rparr>
      in if fFlags f \<noteq> []
         then d\<lparr>dTier := Full, dRuleName := IrreplaceableRuleName,
                dReasons := [\<lparr>reRuleID = 0, reConditionIndex = -1, reField = FieldFlagIrreplaceable,
                              reOp = OpIs, reValue = JBool True, reActual = AIds (fFlags f),
                              reResult = RTrue, reSourceKind = SourceFlag, reIntegrationID = 0,
                              reWhy = []\<rparr>]\<rparr>
         else decideLoop e destID f None d (evRules e))"

section \<open>Rules are strong Kleene conjunctions and disjunctions\<close>

fun kleene_and :: "tri \<Rightarrow> tri \<Rightarrow> tri" where
  "kleene_and RFalse _ = RFalse"
| "kleene_and RTrue b = b"
| "kleene_and RUnknown b = (if b = RFalse then RFalse else RUnknown)"

definition kleene_or :: "tri \<Rightarrow> tri \<Rightarrow> tri" where
  "kleene_or a b = tri_Not (kleene_and (tri_Not a) (tri_Not b))"

definition condResult :: "evaluator \<Rightarrow> cond \<Rightarrow> facts \<Rightarrow> tri" where
  "condResult e c f = reResult (evalCondition e c f)"

definition condResults :: "evaluator \<Rightarrow> compiledRule \<Rightarrow> facts \<Rightarrow> tri list" where
  "condResults e r f = map (\<lambda>c. condResult e c f) (rConds r)"

text \<open>The reference meaning of a rule; a rule without conditions is true.\<close>

definition kleeneRule :: "matching \<Rightarrow> tri list \<Rightarrow> tri" where
  "kleeneRule m rs =
     (if rs = [] then RTrue
      else (case m of MatchAll \<Rightarrow> foldr kleene_and rs RTrue | MatchAny \<Rightarrow> foldr kleene_or rs RFalse))"

lemma kleene_and_iff [simp]:
  "kleene_and a b = RFalse \<longleftrightarrow> a = RFalse \<or> b = RFalse"
  "kleene_and a b = RTrue \<longleftrightarrow> a = RTrue \<and> b = RTrue"
  by (cases a; cases b; simp)+

lemma tri_Not_iff [simp]:
  "tri_Not a = RFalse \<longleftrightarrow> a = RTrue" "tri_Not a = RTrue \<longleftrightarrow> a = RFalse"
  "tri_Not a = RUnknown \<longleftrightarrow> a = RUnknown"
  by (cases a; simp)+

lemma kleene_or_iff [simp]:
  "kleene_or a b = RFalse \<longleftrightarrow> a = RFalse \<and> b = RFalse"
  "kleene_or a b = RTrue \<longleftrightarrow> a = RTrue \<or> b = RTrue"
  by (simp_all add: kleene_or_def)

lemma foldr_kleene_and [simp]:
  "foldr kleene_and rs RTrue = RFalse \<longleftrightarrow> RFalse \<in> set rs"
  "foldr kleene_and rs RTrue = RTrue \<longleftrightarrow> set rs \<subseteq> {RTrue}"
  by (induction rs) auto

lemma foldr_kleene_or [simp]:
  "foldr kleene_or rs RFalse = RTrue \<longleftrightarrow> RTrue \<in> set rs"
  "foldr kleene_or rs RFalse = RFalse \<longleftrightarrow> set rs \<subseteq> {RFalse}"
  by (induction rs) auto

lemma tri_eqI: "(a = RTrue \<longleftrightarrow> b = RTrue) \<Longrightarrow> (a = RFalse \<longleftrightarrow> b = RFalse) \<Longrightarrow> a = b"
  by (cases a; cases b) simp_all

lemma reResult_ruleReasons: "map reResult (ruleReasons e r f) = condResults e r f"
  by (simp add: ruleReasons_def condResults_def condResult_def comp_def case_prod_beta
      map_enumerate_snd [of "\<lambda>c. reResult (evalCondition e c f)"])

lemma length_filterReasons: "length (filterReasons rs t) = count_list (map reResult rs) t"
  by (induction rs) (auto simp: filterReasons_def)

lemma count_list_full: "count_list xs x = length xs \<longleftrightarrow> set xs \<subseteq> {x}"
proof (induction xs)
  case (Cons y ys)
  have "count_list ys x \<le> length ys" by (rule count_le_length)
  with Cons show ?case by auto
qed simp

lemma count_list_pos: "0 < count_list xs x \<longleftrightarrow> x \<in> set xs"
  by (induction xs) auto

lemma evalRule_counts:
  assumes "rConds r \<noteq> []"
  shows "fst (evalRule e r f) =
    (let rs = condResults e r f
     in if rMatch r = MatchAny
        then (if RTrue \<in> set rs then RTrue else if set rs \<subseteq> {RFalse} then RFalse else RUnknown)
        else (if RFalse \<in> set rs then RFalse else if set rs \<subseteq> {RTrue} then RTrue else RUnknown))"
proof -
  have len: "length (rConds r) = length (condResults e r f)"
    by (simp add: condResults_def)
  have eqs: "length (filterReasons (ruleReasons e r f) t) = count_list (condResults e r f) t" for t
    by (simp add: length_filterReasons reResult_ruleReasons)
  show ?thesis
    unfolding evalRule_def Let_def eqs len count_list_full count_list_pos
    using assms by simp
qed

lemma evalRule_kleene_aux: "fst (evalRule e r f) = kleeneRule (rMatch r) (condResults e r f)"
proof (cases "rConds r = []")
  case True
  then show ?thesis by (simp add: evalRule_def kleeneRule_def condResults_def)
next
  case False
  then have "condResults e r f \<noteq> []" by (simp add: condResults_def)
  then show ?thesis
    by (cases "rMatch r"; intro tri_eqI)
      (auto simp: evalRule_counts [OF False] kleeneRule_def Let_def split: if_splits)
qed

section \<open>The information order and decisions\<close>

text \<open>\<open>refines a b\<close>: \<open>b\<close> is \<open>a\<close> with the unknown possibly settled.\<close>

definition refines :: "tri \<Rightarrow> tri \<Rightarrow> bool" where
  "refines a b \<longleftrightarrow> a = RUnknown \<or> a = b"

lemma refines_refl [simp]: "refines a a"
  by (simp add: refines_def)

lemma kleeneRule_mono:
  assumes "list_all2 refines rs rs'"
  shows "refines (kleeneRule m rs) (kleeneRule m rs')"
proof -
  have mono_and: "refines a a' \<Longrightarrow> refines b b' \<Longrightarrow> refines (kleene_and a b) (kleene_and a' b')"
    for a a' b b' by (cases a; cases b; cases a'; cases b') (auto simp: refines_def)
  have mono_or: "refines a a' \<Longrightarrow> refines b b' \<Longrightarrow> refines (kleene_or a b) (kleene_or a' b')"
    for a a' b b' by (cases a; cases b; cases a'; cases b') (auto simp: refines_def kleene_or_def)
  have "refines (foldr kleene_and rs z) (foldr kleene_and rs' z)"
    "refines (foldr kleene_or rs z) (foldr kleene_or rs' z)" for z
    using assms by (induction rs rs' rule: list_all2_induct) (auto intro: mono_and mono_or)
  moreover have "rs = [] \<longleftrightarrow> rs' = []" using assms by auto
  ultimately show ?thesis by (cases m) (auto simp: kleeneRule_def)
qed

text \<open>What Decide's choice of the tier depends on: the results and actions of the rules that
  apply, in order.  \<open>decideTier p vs\<close> is the tier when the most protective unknown rule before
  \<open>vs\<close> has action \<open>p\<close>.\<close>

definition verdicts :: "evaluator \<Rightarrow> ident \<Rightarrow> facts \<Rightarrow> (tri \<times> tier) list" where
  "verdicts e destID f =
     map (\<lambda>r. (fst (evalRule e r f), rAction r)) (filter (\<lambda>r. AppliesAt r destID) (evRules e))"

fun upgrade :: "tier option \<Rightarrow> tier \<Rightarrow> tier" where
  "upgrade None a = a"
| "upgrade (Some b) a = max a b"

fun decideTier :: "tier option \<Rightarrow> (tri \<times> tier) list \<Rightarrow> tier" where
  "decideTier p [] = Full"
| "decideTier p ((RTrue, a) # vs) = upgrade p a"
| "decideTier p ((RUnknown, a) # vs) = decideTier (Some (upgrade p a)) vs"
| "decideTier p ((RFalse, a) # vs) = decideTier p vs"

lemma dTier_decideLoop:
  "dTier (decideLoop e destID f promo d rs) =
     decideTier (map_option (rAction \<circ> fst) promo)
       (map (\<lambda>r. (fst (evalRule e r f), rAction r)) (filter (\<lambda>r. AppliesAt r destID) rs))"
proof (induction rs arbitrary: promo d)
  case (Cons r rs)
  obtain res reasons where ev: "evalRule e r f = (res, reasons)" by force
  show ?case
    using Cons.IH ev
    by (cases res; cases promo)
      (auto simp: Let_def max_def tier_order Protection_inject split: prod.splits)
qed simp

lemma dTier_Decide: "fFlags f = [] \<Longrightarrow> dTier (Decide e destID f) = decideTier None (verdicts e destID f)"
  by (simp add: Decide_def dTier_decideLoop verdicts_def)

lemma upgrade_ge: "a \<le> upgrade p a" "b \<le> upgrade (Some b) a"
  by (cases p) simp_all

lemma decideTier_ge: "b \<le> decideTier (Some b) vs"
proof (induction "Some b" vs arbitrary: b rule: decideTier.induct)
  case (3 a vs)
  then show ?case using upgrade_ge(2) [of b a] by (auto intro: order_trans)
qed simp_all

text \<open>\<open>opt_le q p\<close>: settling unknowns can only lose candidates for the promotion.\<close>

definition opt_le :: "tier option \<Rightarrow> tier option \<Rightarrow> bool" where
  "opt_le q p \<longleftrightarrow> (case q of None \<Rightarrow> True | Some b \<Rightarrow> (case p of None \<Rightarrow> False | Some c \<Rightarrow> b \<le> c))"

lemma upgrade_mono: "opt_le q p \<Longrightarrow> upgrade q a \<le> upgrade p a"
  by (cases q; cases p) (auto simp: opt_le_def le_max_iff_disj)

definition refinesVerdict :: "tri \<times> tier \<Rightarrow> tri \<times> tier \<Rightarrow> bool" where
  "refinesVerdict v w \<longleftrightarrow> refines (fst v) (fst w) \<and> snd v = snd w"

lemma decideTier_mono:
  "list_all2 refinesVerdict vs ws \<Longrightarrow> opt_le q p \<Longrightarrow> decideTier q ws \<le> decideTier p vs"
proof (induction vs ws arbitrary: p q rule: list_all2_induct)
  case (Cons v vs w ws)
  obtain t a where v: "v = (t, a)" by force
  obtain t' where w: "w = (t', a)" and r: "refines t t'"
    using Cons.hyps(1) v by (cases w) (auto simp: refinesVerdict_def)
  note up = upgrade_mono [OF Cons.prems, of a]
  have le1: "opt_le q (Some (upgrade p a))"
    using Cons.prems upgrade_ge(2) [of _ a] by (cases q; cases p) (auto simp: opt_le_def le_max_iff_disj)
  have le2: "opt_le (Some (upgrade q a)) (Some (upgrade p a))"
    using up by (simp add: opt_le_def)
  have ge: "upgrade q a \<le> decideTier (Some (upgrade p a)) vs"
    using up decideTier_ge by (rule order_trans)
  show ?case
    using r up ge Cons.IH [OF Cons.prems] Cons.IH [OF le1] Cons.IH [OF le2]
    by (cases t; cases t') (simp_all add: v w refines_def)
qed simp

lemma verdicts_refine:
  assumes "\<And>r c. r \<in> set (evRules e) \<Longrightarrow> c \<in> set (rConds r) \<Longrightarrow>
             refines (condResult e c f) (condResult e c f')"
  shows "list_all2 refinesVerdict (verdicts e destID f) (verdicts e destID f')"
proof -
  have "refines (fst (evalRule e r f)) (fst (evalRule e r f'))" if "r \<in> set (evRules e)" for r
    unfolding evalRule_kleene_aux condResults_def
    by (rule kleeneRule_mono) (auto simp: list_all2_conv_all_nth intro: assms [OF that])
  then show ?thesis
    by (auto simp: verdicts_def refinesVerdict_def list_all2_conv_all_nth
        dest!: nth_mem [where xs = "filter _ _"])
qed

text \<open>Settling unknown verdicts: every element known, actions kept.\<close>

definition resolves :: "(tri \<times> tier) list \<Rightarrow> (tri \<times> tier) list \<Rightarrow> bool" where
  "resolves vs ws \<longleftrightarrow> list_all2 refinesVerdict vs ws \<and> RUnknown \<notin> fst ` set ws"

fun settleFalse :: "tri \<times> tier \<Rightarrow> tri \<times> tier" where
  "settleFalse (RUnknown, a) = (RFalse, a)"
| "settleFalse v = v"

lemma settleFalse_settles: "refinesVerdict v (settleFalse v) \<and> fst (settleFalse v) \<noteq> RUnknown"
  by (cases v rule: settleFalse.cases) (simp_all add: refinesVerdict_def refines_def)

lemma settleFalse_resolves: "resolves vs (map settleFalse vs)"
  using settleFalse_settles
  by (auto simp: resolves_def list_all2_conv_all_nth image_iff dest: sym)

lemma resolves_Cons:
  "resolves vs ws \<Longrightarrow> refinesVerdict v w \<Longrightarrow> fst w \<noteq> RUnknown \<Longrightarrow> resolves (v # vs) (w # ws)"
  by (simp add: resolves_def)

lemma decideTier_attained:
  "(\<exists>ws. resolves vs ws \<and> decideTier None ws = decideTier p vs) \<or> p = Some (decideTier p vs)"
proof (induction p vs rule: decideTier.induct)
  case (1 p)
  then show ?case by (auto simp: resolves_def)
next
  case (2 p a vs)
  have "resolves ((RTrue, a) # vs) ((RTrue, a) # map settleFalse vs)"
    by (rule resolves_Cons [OF settleFalse_resolves]) (simp_all add: refinesVerdict_def)
  moreover have "upgrade p a = a \<or> p = Some (upgrade p a)"
    by (cases p) (auto simp: max_def)
  ultimately show ?case by (metis decideTier.simps(2) upgrade.simps(1))
next
  case (3 p a vs)
  have ru: "refinesVerdict (RUnknown, a) (t, a)" for t by (simp add: refinesVerdict_def refines_def)
  consider ws where "resolves vs ws" "decideTier None ws = decideTier (Some (upgrade p a)) vs"
    | "upgrade p a = decideTier (Some (upgrade p a)) vs"
    using 3 by auto
  then show ?case
  proof cases
    case (1 ws)
    then have "resolves ((RUnknown, a) # vs) ((RFalse, a) # ws)"
      by (intro resolves_Cons ru) simp_all
    with 1 show ?thesis by (metis decideTier.simps(3,4))
  next
    case 2
    have "resolves ((RUnknown, a) # vs) ((RTrue, a) # map settleFalse vs)"
      by (intro resolves_Cons ru settleFalse_resolves) simp_all
    moreover have "upgrade p a = a \<or> p = Some (upgrade p a)"
      by (cases p) (auto simp: max_def)
    ultimately show ?thesis using 2 by (metis decideTier.simps(2,3) upgrade.simps(1))
  qed
next
  case (4 p a vs)
  have "resolves ((RFalse, a) # vs) ((RFalse, a) # ws)" if "resolves vs ws" for ws
    using that by (intro resolves_Cons) (simp_all add: refinesVerdict_def)
  with 4 show ?case by (metis decideTier.simps(4))
qed

section \<open>The promotion\<close>

lemma decideLoop_none:
  "filter (\<lambda>r. AppliesAt r destID) rs = [] \<Longrightarrow>
     decideLoop e destID f promo d rs = d\<lparr>dTier := Full, dRuleName := FallbackRuleName\<rparr>"
  by (induction rs) (auto split: if_splits)

fun promotedBy :: "tier option \<Rightarrow> (tri \<times> tier) list \<Rightarrow> bool" where
  "promotedBy p [] = False"
| "promotedBy p ((RTrue, a) # vs) = (case p of None \<Rightarrow> False | Some b \<Rightarrow> a < b)"
| "promotedBy p ((RUnknown, a) # vs) = promotedBy (Some (upgrade p a)) vs"
| "promotedBy p ((RFalse, a) # vs) = promotedBy p vs"

lemma promoted_decideLoop:
  "\<not> dUnknownPromoted d \<Longrightarrow> dUnknownPromoted (decideLoop e destID f promo d rs) =
     promotedBy (map_option (rAction \<circ> fst) promo)
       (map (\<lambda>r. (fst (evalRule e r f), rAction r)) (filter (\<lambda>r. AppliesAt r destID) rs))"
proof (induction rs arbitrary: promo d)
  case (Cons r rs)
  obtain res reasons where ev: "evalRule e r f = (res, reasons)" by force
  show ?case
    using Cons ev
    by (cases res; cases promo)
      (auto simp: Let_def max_def tier_order Protection_inject split: prod.splits)
qed simp

lemma promotedBy_iff:
  "promotedBy p vs \<longleftrightarrow>
     (\<exists>pre a post. vs = pre @ (RTrue, a) # post \<and> RTrue \<notin> fst ` set pre \<and>
        ((\<exists>b. p = Some b \<and> a < b) \<or> (\<exists>b. (RUnknown, b) \<in> set pre \<and> a < b)))"
  (is "_ \<longleftrightarrow> ?R p vs")
proof (induction p vs rule: promotedBy.induct)
  case (1 p)
  then show ?case by simp
next
  case (2 p a vs)
  have "?R p ((RTrue, a) # vs) \<longleftrightarrow> (\<exists>b. p = Some b \<and> a < b)"
  proof
    assume "\<exists>b. p = Some b \<and> a < b"
    then show "?R p ((RTrue, a) # vs)"
      by (intro exI [of _ "[]"] exI [of _ a] exI [of _ vs]) simp
  qed (auto simp: Cons_eq_append_conv)
  then show ?case by (auto split: option.splits)
next
  case (3 p a vs)
  have "?R p ((RUnknown, a) # vs) \<longleftrightarrow> ?R (Some (upgrade p a)) vs"
    by (cases p) (fastforce simp: Cons_eq_append_conv less_max_iff_disj)+
  with 3 show ?case by simp
next
  case (4 p a vs)
  have "?R p ((RFalse, a) # vs) \<longleftrightarrow> ?R p vs"
    by (fastforce simp: Cons_eq_append_conv)
  with 4 show ?case by simp
qed

section \<open>Settling facts\<close>

text \<open>\<open>settled f f'\<close>: \<open>f'\<close> are the facts of the same file with some unknown ones settled.  A provider
  that is not configured, or whose cache is not fresh, may come to say anything; a quality profile
  that was not in the index may get its name; a play count that is a lower bound may grow, and its last
  date may get later; what is known stays.\<close>

definition settledArr :: "arrFacts \<Rightarrow> arrFacts \<Rightarrow> bool" where
  "settledArr a a' \<longleftrightarrow> afState a = ArrUnknown
     \<or> afState a' = afState a \<and> aiTags (afItem a') = aiTags (afItem a) \<and> aiRootFolder (afItem a') = aiRootFolder (afItem a)
       \<and> aiMonitored (afItem a') = aiMonitored (afItem a) \<and> aiGenres (afItem a') = aiGenres (afItem a)
       \<and> (aiQualityProfile (afItem a) = [] \<or> aiQualityProfile (afItem a') = aiQualityProfile (afItem a))"

definition settledPlex :: "plexFacts \<Rightarrow> plexFacts \<Rightarrow> bool" where
  "settledPlex p p' \<longleftrightarrow> \<not> pfKnown p \<or> pfKnown p' \<and> pfSection p' = pfSection p"

definition settledWatch :: "watchFacts \<Rightarrow> watchFacts \<Rightarrow> bool" where
  "settledWatch w w' \<longleftrightarrow> \<not> wfKnown w
     \<or> wfKnown w' \<and> (if wfLowerBound w
          then wfPlays w \<le> wfPlays w' \<and> (\<forall>t. wfLastWatched w = Some t \<longrightarrow> (\<exists>t'. wfLastWatched w' = Some t' \<and> t \<le> t'))
          else \<not> wfLowerBound w' \<and> wfPlays w' = wfPlays w
            \<and> (wfLastWatched w' = wfLastWatched w \<or> wfLastWatched w = None \<and> wfPlays w \<noteq> 0))"

definition settledRequests :: "requestFacts \<Rightarrow> requestFacts \<Rightarrow> bool" where
  "settledRequests q q' \<longleftrightarrow> qfRequested q = RUnknown \<or> qfRequested q' = qfRequested q \<and> qfUsers q' = qfUsers q"

definition settledMaintainerr :: "maintainerrFacts \<Rightarrow> maintainerrFacts \<Rightarrow> bool" where
  "settledMaintainerr m m' \<longleftrightarrow> mfPending m = RUnknown \<or> mfPending m' = mfPending m"

definition settledOpt :: "('a \<Rightarrow> 'a \<Rightarrow> bool) \<Rightarrow> 'a option \<Rightarrow> 'a option \<Rightarrow> bool" where
  "settledOpt R x y = (case x of None \<Rightarrow> True | Some a \<Rightarrow> (case y of None \<Rightarrow> False | Some b \<Rightarrow> R a b))"

definition settled :: "facts \<Rightarrow> facts \<Rightarrow> bool" where
  "settled f f' \<longleftrightarrow> fSourceID f' = fSourceID f \<and> fSize f' = fSize f \<and> fFirstSeenAt f' = fFirstSeenAt f \<and> fFlags f' = fFlags f
     \<and> settledArr (fArr f) (fArr f') \<and> settledOpt settledPlex (fPlex f) (fPlex f') \<and> settledOpt settledWatch (fWatch f) (fWatch f')
     \<and> settledOpt settledRequests (fRequests f) (fRequests f') \<and> settledOpt settledMaintainerr (fMaintainerr f) (fMaintainerr f')"

definition usesAge :: "evaluator \<Rightarrow> bool" where
  "usesAge e = list_ex (\<lambda>r. list_ex (\<lambda>c. cField c = FieldFileAge) (rConds r)) (evRules e)"

lemma refines_unknown [simp]: "refines RUnknown t"
  by (simp add: refines_def)

lemma unknownOf_result [simp]: "reResult (unknownOf r why) = RUnknown"
  by (simp add: unknownOf_def)

lemma settled_arr:
  "settledArr (fArr f) (fArr f') \<Longrightarrow> refines (reResult (evalArr e c f r)) (reResult (evalArr e c f' r))"
  by (auto simp: settledArr_def evalArr_def Let_def split: arrState.split field.split)

lemma settled_plex:
  "settledOpt settledPlex (fPlex f) (fPlex f') \<Longrightarrow> refines (reResult (evalPlex c f r)) (reResult (evalPlex c f' r))"
  by (auto simp: settledOpt_def settledPlex_def evalPlex_def Let_def split: option.splits)

lemma settled_requests:
  "settledOpt settledRequests (fRequests f) (fRequests f') \<Longrightarrow> refines (reResult (evalSeerr c f r)) (reResult (evalSeerr c f' r))"
  by (auto simp: settledOpt_def settledRequests_def evalSeerr_def Let_def split: option.splits field.split)

lemma settled_maintainerr:
  "settledOpt settledMaintainerr (fMaintainerr f) (fMaintainerr f') \<Longrightarrow>
     refines (reResult (evalMaintainerr c f r)) (reResult (evalMaintainerr c f' r))"
  by (auto simp: settledOpt_def settledMaintainerr_def evalMaintainerr_def Let_def split: option.splits)

lemma sub_time_mono: "t \<le> t' \<Longrightarrow> sub_time now t' \<le> sub_time now t"
  by (auto simp: sub_time_def)

lemma settled_catalog:
  "fSourceID f' = fSourceID f \<Longrightarrow> fSize f' = fSize f \<Longrightarrow> cField c = FieldFileAge \<longrightarrow> addedAt f' = addedAt f \<Longrightarrow>
     reResult (evalCatalog e c f' r) = reResult (evalCatalog e c f r)"
  by (auto simp: evalCatalog_def Let_def split: field.split)

lemma settled_plays:
  assumes "settledWatch w w'" "wfKnown w" "fWatch f = Some w" "fWatch f' = Some w'" "cField c = FieldTautulliPlayCount"
  shows "refines (reResult (evalTautulli e c f r)) (reResult (evalTautulli e c f' r))"
  using assms
  by (cases "cOp c") (auto simp: settledWatch_def evalTautulli_def Let_def compareInt_def resultOf_def refines_def split: if_splits)

lemma settled_watched:
  assumes "settledWatch w w'" "wfKnown w" "fWatch f = Some w" "fWatch f' = Some w'" "cField c \<noteq> FieldTautulliPlayCount"
  shows "refines (reResult (evalTautulli e c f r)) (reResult (evalTautulli e c f' r))"
proof (cases "wfLowerBound w")
  case True
  then show ?thesis
  proof (cases "wfLastWatched w")
    case (Some t)
    then obtain t' where "wfLastWatched w' = Some t'" "t \<le> t'" using assms True by (auto simp: settledWatch_def)
    moreover from this have "sub_time (evNow e) t' \<le> sub_time (evNow e) t" by (simp add: sub_time_mono)
    ultimately show ?thesis using assms True Some
      by (auto simp: settledWatch_def evalTautulli_def Let_def resultOf_def refines_def)
  qed (use assms in \<open>simp add: evalTautulli_def Let_def\<close>)
next
  case False
  with assms show ?thesis
    by (auto simp: settledWatch_def evalTautulli_def Let_def resultOf_def refines_def split: option.split)
qed

lemma settled_watch:
  "settledOpt settledWatch (fWatch f) (fWatch f') \<Longrightarrow> refines (reResult (evalTautulli e c f r)) (reResult (evalTautulli e c f' r))"
proof (cases "fWatch f")
  case (Some w)
  assume "settledOpt settledWatch (fWatch f) (fWatch f')"
  with Some obtain w' where w': "fWatch f' = Some w'" "settledWatch w w'" by (auto simp: settledOpt_def split: option.splits)
  show ?thesis
  proof (cases "wfKnown w")
    case True
    show ?thesis using settled_plays [OF w'(2) True Some w'(1)] settled_watched [OF w'(2) True Some w'(1)] by (cases "cField c = FieldTautulliPlayCount") auto
  qed (use Some in \<open>simp add: evalTautulli_def Let_def\<close>)
qed (simp add: evalTautulli_def)

lemma settled_condition:
  assumes "settled f f'" "cField c = FieldFileAge \<longrightarrow> addedAt f' = addedAt f"
  shows "refines (condResult e c f) (condResult e c f')"
  using assms settled_catalog [OF _ _ assms(2)]
  by (auto simp: settled_def condResult_def evalCondition_def Let_def
      intro: settled_arr settled_plex settled_watch settled_requests settled_maintainerr split: sourceKind.split)

text \<open>A decision gets no more protective when the results of its conditions are settled.\<close>

lemma Decide_mono:
  assumes "fFlags f' = fFlags f" "\<And>r c. r \<in> set (evRules e) \<Longrightarrow> c \<in> set (rConds r) \<Longrightarrow> refines (condResult e c f) (condResult e c f')"
  shows "dTier (Decide e destID f') \<le> dTier (Decide e destID f)"
proof (cases "fFlags f = []")
  case True
  have "list_all2 refinesVerdict (verdicts e destID f) (verdicts e destID f')" by (rule verdicts_refine) (rule assms(2))
  then have "decideTier None (verdicts e destID f') \<le> decideTier None (verdicts e destID f)"
    by (rule decideTier_mono) (simp add: opt_le_def)
  with True assms(1) show ?thesis by (simp add: dTier_Decide)
qed (simp add: Decide_def assms(1))

section \<open>Properties\<close>

text \<open>C4: S14, an unknown fact never lowers protection, with the one exception the code makes.  When the
  facts \<open>f'\<close> settle unknown facts of \<open>f\<close>, the tier decided under \<open>f'\<close> is at most as protective as the tier
  decided under \<open>f\<close>, provided that the date the file was added is the same under both or no rule uses
  \<open>file.age\<close>: that date falls back to the first sight of the file while Plex and *arr are unknown.\<close>

theorem Decide_unknown_never_lowers:
  assumes "settled f f'" and "addedAt f' = addedAt f \<or> \<not> usesAge e"
  shows "dTier (Decide e destID f') \<le> dTier (Decide e destID f)"
proof (rule Decide_mono)
  show "fFlags f' = fFlags f" using assms(1) by (simp add: settled_def)
  fix r c assume "r \<in> set (evRules e)" "c \<in> set (rConds r)"
  with assms(2) have "cField c = FieldFileAge \<longrightarrow> addedAt f' = addedAt f" by (auto simp: usesAge_def list_ex_iff)
  with assms(1) show "refines (condResult e c f) (condResult e c f')" by (rule settled_condition)
qed

text \<open>A rule set used in the witnesses: full while monitored, then skip.\<close>

definition exCond :: cond where
  "exCond = \<lparr>cField = FieldArrMonitored, cOp = OpIs, cValue = JBool True, cB = True, cS = [],
             cN = 0, cInts = []\<rparr>"

definition exRule :: "ident \<Rightarrow> tier \<Rightarrow> cond list \<Rightarrow> compiledRule" where
  "exRule i a cs = \<lparr>rID = i, rPriority = i, rName = ''r'', rEnabled = True, rMatch = MatchAll,
      rConditions = [], rAction = a, rDestinationIDs = None, rConds = cs\<rparr>"

definition exEvaluator :: evaluator where
  "exEvaluator = \<lparr>evRules = [exRule 1 Full [exCond], exRule 2 Skip []], evRevision = 7, evNow = 0,
                  evFold = (=)\<rparr>"

definition exItem :: arrItemFacts where
  "exItem = \<lparr>aiTags = [], aiQualityProfile = [], aiQualityProfileID = 0, aiApp = [],
             aiRootFolder = [], aiMonitored = False, aiGenres = []\<rparr>"

definition exFacts :: "arrState \<Rightarrow> facts" where
  "exFacts st = \<lparr>fFileID = 1, fSourceID = 1, fRelPath = ''a'', fSize = 1, fGroup = [],
     fFirstSeenAt = 0,
     fArr = \<lparr>afState = st, afWhy = ''stale'', afIntegrationID = 1, afItem = exItem,
             afDateAdded = None\<rparr>,
     fPlex = None, fWatch = None, fRequests = None, fMaintainerr = None, fFlags = [],
     fFollows = []\<rparr>"

lemmas ex_defs = exCond_def exRule_def exEvaluator_def exItem_def exFacts_def

theorem Decide_unknown_never_lowers_witness:
  "settled (exFacts ArrUnknown) (exFacts ArrItem)
     \<and> dTier (Decide exEvaluator 1 (exFacts ArrItem)) = Skip \<and> dTier (Decide exEvaluator 1 (exFacts ArrUnknown)) = Full
     \<and> dTier (Decide exEvaluator 1 (exFacts ArrItem)) \<le> dTier (Decide exEvaluator 1 (exFacts ArrUnknown))"
proof (intro conjI)
  show s: "settled (exFacts ArrUnknown) (exFacts ArrItem)"
    by (simp add: settled_def settledArr_def settledOpt_def exFacts_def)
  show "dTier (Decide exEvaluator 1 (exFacts ArrItem)) = Skip" "dTier (Decide exEvaluator 1 (exFacts ArrUnknown)) = Full"
    by code_simp+
  show "dTier (Decide exEvaluator 1 (exFacts ArrItem)) \<le> dTier (Decide exEvaluator 1 (exFacts ArrUnknown))"
    by (rule Decide_unknown_never_lowers [OF s]) (simp add: addedAt_def exFacts_def)
qed

text \<open>C17: the decided tier is exactly the most protective one: no way of settling the unknown
  rules that apply gives a more protective tier, and some way gives this one.\<close>

theorem Decide_most_protective_resolution:
  assumes "fFlags f = []"
  shows "(\<forall>ws. resolves (verdicts e destID f) ws \<longrightarrow> decideTier None ws \<le> dTier (Decide e destID f))
       \<and> (\<exists>ws. resolves (verdicts e destID f) ws \<and> decideTier None ws = dTier (Decide e destID f))"
  unfolding dTier_Decide [OF assms]
proof
  show "\<forall>ws. resolves (verdicts e destID f) ws \<longrightarrow>
          decideTier None ws \<le> decideTier None (verdicts e destID f)"
    by (auto simp: resolves_def opt_le_def intro: decideTier_mono)
  show "\<exists>ws. resolves (verdicts e destID f) ws \<and>
          decideTier None ws = decideTier None (verdicts e destID f)"
    using decideTier_attained [of "verdicts e destID f" None] by simp
qed

theorem Decide_most_protective_resolution_witness:
  "fFlags (exFacts ArrUnknown) = [] \<and>
   (\<exists>ws. resolves (verdicts exEvaluator 1 (exFacts ArrUnknown)) ws \<and>
      decideTier None ws = dTier (Decide exEvaluator 1 (exFacts ArrUnknown)))"
  using Decide_most_protective_resolution [of "exFacts ArrUnknown" exEvaluator 1]
  by (simp add: exFacts_def)

text \<open>C18: a rule's result is the strong Kleene conjunction (match all) or disjunction (match
  any) of its conditions' results; a rule without conditions is true.\<close>

theorem evalRule_kleene:
  "fst (evalRule e r f) = kleeneRule (rMatch r) (map (\<lambda>c. condResult e c f) (rConds r))"
  using evalRule_kleene_aux [of e r f] by (simp add: condResults_def)

text \<open>C19: D1, the defaults protect.  A file with an irreplaceable flag is full, and so is
  every file where no enabled rule applies; neither decision is unknown-promoted.\<close>

theorem Decide_full_by_default:
  assumes "fFlags f \<noteq> [] \<or> \<not> Applies e destID"
  shows "dTier (Decide e destID f) = Full \<and> \<not> dUnknownPromoted (Decide e destID f)
       \<and> dRuleID (Decide e destID f) = 0"
proof (cases "fFlags f = []")
  case True
  with assms have "filter (\<lambda>r. AppliesAt r destID) (evRules e) = []"
    by (simp add: Applies_def list_ex_iff filter_empty_conv)
  with True show ?thesis by (simp add: Decide_def decideLoop_none)
next
  case False
  then show ?thesis by (simp add: Decide_def)
qed

theorem Decide_full_by_default_witness:
  "dTier (Decide exEvaluator 1 ((exFacts ArrItem)\<lparr>fFlags := [4]\<rparr>)) = Full"
  using Decide_full_by_default [of "(exFacts ArrItem)\<lparr>fFlags := [4]\<rparr>" exEvaluator 1] by simp

text \<open>A decision is unknown-promoted exactly when the file has no flag and, among the
  rules that apply, an unknown rule stands before the first true one and is more protective
  than it.\<close>

theorem Decide_promoted_iff:
  "dUnknownPromoted (Decide e destID f) \<longleftrightarrow>
     fFlags f = [] \<and>
     (\<exists>pre a post. verdicts e destID f = pre @ (RTrue, a) # post \<and> RTrue \<notin> fst ` set pre \<and>
        (\<exists>b. (RUnknown, b) \<in> set pre \<and> a < b))"
proof (cases "fFlags f = []")
  case True
  then have "dUnknownPromoted (Decide e destID f) = promotedBy None (verdicts e destID f)"
    by (simp add: Decide_def promoted_decideLoop verdicts_def)
  with True show ?thesis by (simp add: promotedBy_iff)
next
  case False
  then show ?thesis by (simp add: Decide_def)
qed

section \<open>The age limit\<close>

lemma daysLimit_exact: "0 \<le> n \<Longrightarrow> n \<le> 106751 \<Longrightarrow> daysLimit n = n * 24 * hour_ns"
  by (simp add: daysLimit_def wrap64_id min_int64_def max_int64_def hour_ns_def)

text \<open>Up to 106751 days (292 years) a file.age condition compares the file's exact age
  with the exact number of days, for every instant whose distance from the clock fits a
  Duration.\<close>

theorem file_age_exact:
  assumes "cField c = FieldFileAge" and "cOp c = OpOlderThan \<or> cOp c = OpNewerThan"
    and "0 \<le> cN c" and "cN c \<le> 106751"
    and "min_int64 \<le> evNow e - addedAt f" and "evNow e - addedAt f \<le> max_int64"
  shows "condResult e c f =
    resultOf (if cOp c = OpOlderThan then evNow e - addedAt f > cN c * 24 * hour_ns
              else evNow e - addedAt f < cN c * 24 * hour_ns)"
  using assms
  by (auto simp: condResult_def evalCondition_def evalCatalog_def sourceOfField_def specOf_def
      fieldSpecs_def spec_of_def Let_def daysLimit_exact sub_time_exact negated_def)

definition exAge :: "oper \<Rightarrow> int \<Rightarrow> cond" where
  "exAge oper n = \<lparr>cField = FieldFileAge, cOp = oper, cValue = JNumber (of_int n), cB = False,
                 cS = [], cN = n, cInts = []\<rparr>"

theorem file_age_exact_witness:
  "condResult (exEvaluator\<lparr>evNow := 31 * 24 * 3600000000000\<rparr>) (exAge OpOlderThan 30) (exFacts ArrItem) = RTrue"
  using file_age_exact [of "exAge OpOlderThan 30" "exEvaluator\<lparr>evNow := 31 * 24 * 3600000000000\<rparr>" "exFacts ArrItem"]
  by (simp add: exAge_def exFacts_def addedAt_def min_int64_def max_int64_def hour_ns_def resultOf_def)

text \<open>The exception is real.  With the rules "added less than \<open>n\<close> days ago: full, everything else: skip", a
  file that was first seen more than \<open>n\<close> days ago and that Plex says was added later than that is skipped
  while the Plex cache is not fresh, and full once it is.\<close>

lemma stale_date_lowers:
  assumes n: "0 \<le> n" "n \<le> 106751" and rules: "evRules e = [exRule 1 Full [exAge OpNewerThan n], exRule 2 Skip []]"
    and f: "fFlags f = []" "afDateAdded (fArr f) = None" "fPlex f = Some p" "\<not> pfKnown p"
    and old: "n * 24 * hour_ns \<le> evNow e - fFirstSeenAt f" "evNow e - fFirstSeenAt f \<le> max_int64"
    and new: "0 \<le> evNow e - t" "evNow e - t < n * 24 * hour_ns"
  shows "settled f (f\<lparr>fPlex := Some (p\<lparr>pfKnown := True, pfAddedAt := Some t\<rparr>)\<rparr>)
    \<and> dTier (Decide e destID f) = Skip
    \<and> dTier (Decide e destID (f\<lparr>fPlex := Some (p\<lparr>pfKnown := True, pfAddedAt := Some t\<rparr>)\<rparr>)) = Full"
proof -
  let ?f = "f\<lparr>fPlex := Some (p\<lparr>pfKnown := True, pfAddedAt := Some t\<rparr>)\<rparr>"
  have added: "addedAt f = fFirstSeenAt f" "addedAt ?f = t" using f by (simp_all add: addedAt_def)
  have n0: "0 \<le> n * 24 * hour_ns" using n(1) by (simp add: hour_ns_def)
  have age: "condResult e (exAge OpNewerThan n) g = resultOf (evNow e - addedAt g < n * 24 * hour_ns)"
    if "0 \<le> evNow e - addedAt g" "evNow e - addedAt g \<le> max_int64" for g
    using file_age_exact [of "exAge OpNewerThan n" e g] that n by (simp add: exAge_def min_int64_def)
  have old1: "condResult e (exAge OpNewerThan n) f = RFalse" using age [of f] added old n0 by (simp add: resultOf_def)
  have "n * 24 * hour_ns \<le> max_int64" using n by (simp add: hour_ns_def max_int64_def)
  then have new1: "condResult e (exAge OpNewerThan n) ?f = RTrue" using age [of ?f] added new by (simp add: resultOf_def)
  have verdicts: "verdicts e destID g = [(condResult e (exAge OpNewerThan n) g, Full), (RTrue, Skip)]" for g
    by (simp add: verdicts_def rules evalRule_kleene_aux condResults_def kleeneRule_def exRule_def AppliesAt_def)
      (cases "condResult e (exAge OpNewerThan n) g"; simp)
  have "settled f ?f"
    using f by (auto simp: settled_def settledOpt_def settledArr_def settledPlex_def settledWatch_def settledRequests_def
        settledMaintainerr_def split: option.split)
  with old1 new1 f(1) show ?thesis by (simp add: dTier_Decide verdicts)
qed

text \<open>C20: one day more overflows.  The validation accepts 106752 days, but the product wraps to
  a negative Duration, so "added more than 106752 days ago" is true of a file added right now,
  and "added less than 106752 days ago" is false of it.\<close>

theorem file_age_overflow:
  "(\<exists>cc. compileCondition \<lparr>cField = FieldFileAge, cOp = OpOlderThan, cValue = JNumber 106752\<rparr> 0 0 = Inr cc
      \<and> condResult (exEvaluator\<lparr>evNow := 0\<rparr>) cc (exFacts ArrItem) = RTrue)
   \<and> condResult (exEvaluator\<lparr>evNow := 0\<rparr>) (exAge OpNewerThan 106752) (exFacts ArrItem) = RFalse"
proof
  have "compileCondition \<lparr>cField = FieldFileAge, cOp = OpOlderThan, cValue = JNumber 106752\<rparr> 0 0
      = Inr (exAge OpOlderThan 106752)"
    by (simp add: compileCondition_def specOf_def fieldSpecs_def spec_of_def decodeValue.simps
        isWhole_def maxIntFloat_def canonicalValue_def condOf_def exAge_def)
  moreover have "condResult (exEvaluator\<lparr>evNow := 0\<rparr>) (exAge OpOlderThan 106752) (exFacts ArrItem) = RTrue"
    by (simp add: condResult_def evalCondition_def evalCatalog_def sourceOfField_def specOf_def
      fieldSpecs_def spec_of_def Let_def exAge_def exFacts_def addedAt_def daysLimit_def wrap64_def
      hour_ns_def sub_time_def min_int64_def max_int64_def negated_def resultOf_def)
  ultimately show "\<exists>cc. compileCondition \<lparr>cField = FieldFileAge, cOp = OpOlderThan, cValue = JNumber 106752\<rparr> 0 0 = Inr cc
      \<and> condResult (exEvaluator\<lparr>evNow := 0\<rparr>) cc (exFacts ArrItem) = RTrue" by blast
qed (simp add: condResult_def evalCondition_def evalCatalog_def sourceOfField_def specOf_def
      fieldSpecs_def spec_of_def Let_def exAge_def exFacts_def addedAt_def daysLimit_def wrap64_def
      hour_ns_def sub_time_def min_int64_def max_int64_def negated_def resultOf_def)

end
