(* ===== verification/TierFiles.thy ===== *)
theory TierFiles
  imports TierEval
begin

text \<open>
  Decisions of a whole source (\<open>decideFiles\<close> in internal/tiers/engine.go): every name of a
  hardlink group takes the group's most protective decision, a sidecar takes its media file's,
  and the groups are unified once more.  \<open>decisions\<close> is the Go map from catalog file id to
  Decision.
\<close>

type_synonym decisions = "ident \<Rightarrow> decision option"

text \<open>The first member with the most protective decision (the loop that finds \<open>best\<close>).\<close>

fun bestOf :: "decisions \<Rightarrow> facts option \<Rightarrow> facts list \<Rightarrow> facts option" where
  "bestOf out best [] = best"
| "bestOf out best (m # ms) =
     (case out (fFileID m) of
        None \<Rightarrow> bestOf out best ms
      | Some d \<Rightarrow>
          (case best of
             None \<Rightarrow> bestOf out (Some m) ms
           | Some b \<Rightarrow>
               (if Protection (dTier d) >
                   (case out (fFileID b) of None \<Rightarrow> 0 | Some db \<Rightarrow> Protection (dTier db))
                then bestOf out (Some m) ms else bestOf out best ms)))"

definition raiseTo :: "facts \<Rightarrow> decisions \<Rightarrow> facts \<Rightarrow> decisions" where
  "raiseTo best out m =
     (case (out (fFileID m), out (fFileID best)) of
        (Some d, Some db) \<Rightarrow>
          (if Protection (dTier d) < Protection (dTier db)
           then out(fFileID m \<mapsto> db\<lparr>dFollows := fRelPath best\<rparr>) else out)
      | _ \<Rightarrow> out)"

definition unifyGroup :: "decisions \<Rightarrow> facts list \<Rightarrow> decisions" where
  "unifyGroup out ms =
     (case bestOf out None ms of None \<Rightarrow> out | Some b \<Rightarrow> foldl (raiseTo b) out ms)"

definition groupMembers :: "facts list \<Rightarrow> string \<Rightarrow> facts list" where
  "groupMembers fs g = filter (\<lambda>f. fGroup f = g) fs"

text \<open>The Go code ranges over a map of groups; a file is in one group, so the order does not
  matter (\<open>unify_at\<close> below).\<close>

definition groupNames :: "facts list \<Rightarrow> string list" where
  "groupNames fs = remdups (filter (\<lambda>g. g \<noteq> []) (map fGroup fs))"

definition unify :: "decisions \<Rightarrow> facts list \<Rightarrow> decisions" where
  "unify out fs = foldl (\<lambda>o1 g. unifyGroup o1 (groupMembers fs g)) out (groupNames fs)"

definition byRel :: "facts list \<Rightarrow> string \<Rightarrow> facts option" where
  "byRel fs rel = find (\<lambda>f. fRelPath f = rel) (rev fs)"

definition decideOwn :: "evaluator \<Rightarrow> ident \<Rightarrow> decisions \<Rightarrow> facts \<Rightarrow> decisions" where
  "decideOwn ev destID out f =
     (if fFollows f = [] \<or> fFlags f \<noteq> [] then out(fFileID f \<mapsto> Decide ev destID f) else out)"

text \<open>The decision a sidecar takes: its media file's, or the fallback when that file is not
  there; a media file without a decision would yield the zero Decision.\<close>

definition followDecision :: "evaluator \<Rightarrow> facts list \<Rightarrow> decisions \<Rightarrow> facts \<Rightarrow> decision" where
  "followDecision ev fs out f =
     (case byRel fs (fFollows f) of
        None \<Rightarrow> FallbackDecision (evRevision ev)
      | Some m \<Rightarrow> (case out (fFileID m) of None \<Rightarrow> zeroDecision | Some dm \<Rightarrow> dm))
     \<lparr>dFollows := fFollows f\<rparr>"

definition followMedia :: "evaluator \<Rightarrow> facts list \<Rightarrow> decisions \<Rightarrow> facts \<Rightarrow> decisions" where
  "followMedia ev fs out f =
     (if fFollows f = [] \<or> fFlags f \<noteq> [] then out
      else out(fFileID f \<mapsto> followDecision ev fs out f))"

definition decideFiles :: "evaluator \<Rightarrow> ident \<Rightarrow> facts list \<Rightarrow> decisions" where
  "decideFiles ev destID fs =
     (let out0 = foldl (decideOwn ev destID) (\<lambda>_. None) fs;
          out1 = unify out0 fs;
          out2 = foldl (followMedia ev fs) out1 fs
      in unify out2 fs)"

text \<open>\<open>SourceDecisions.Decide\<close>: a file the decisions do not know is full by the fallback.\<close>

definition sourceDecide :: "decisions \<Rightarrow> int \<Rightarrow> ident \<Rightarrow> decision" where
  "sourceDecide ds revision fileID =
     (case ds fileID of Some d \<Rightarrow> d | None \<Rightarrow> FallbackDecision revision)"

section \<open>One group\<close>

lemma bestOf_spec:
  assumes "bestOf out best ms = Some b"
    and "\<And>b0. best = Some b0 \<Longrightarrow> out (fFileID b0) \<noteq> None"
  shows "(b \<in> set ms \<or> best = Some b) \<and> (\<exists>db. out (fFileID b) = Some db
     \<and> (\<forall>m \<in> set ms. \<forall>d. out (fFileID m) = Some d \<longrightarrow> dTier d \<le> dTier db)
     \<and> (\<forall>b0 d0. best = Some b0 \<longrightarrow> out (fFileID b0) = Some d0 \<longrightarrow> dTier d0 \<le> dTier db))"
  using assms
proof (induction out best ms rule: bestOf.induct)
  case (1 out best)
  then show ?case by force
next
  case (2 out best m ms)
  show ?case
  proof (cases "out (fFileID m)")
    case None
    with 2 show ?thesis by auto
  next
    case (Some d)
    show ?thesis
    proof (cases best)
      case None
      with 2 Some show ?thesis by fastforce
    next
      case (Some b0)
      then obtain d0 where d0: "out (fFileID b0) = Some d0" using "2.prems"(2) by auto
      show ?thesis
        using 2 Some \<open>out (fFileID m) = Some d\<close> d0
        by (cases "Protection (dTier d) > Protection (dTier d0)") (fastforce simp: tier_order)+
    qed
  qed
qed

lemma bestOf_None: "bestOf out best ms = None \<longleftrightarrow> best = None \<and> (\<forall>m \<in> set ms. out (fFileID m) = None)"
proof (induction out best ms rule: bestOf.induct)
  case (2 out best m ms)
  then show ?case by (auto split: option.splits if_splits)
qed auto

lemma bestOf_cong:
  "(\<And>m. m \<in> set ms \<Longrightarrow> out (fFileID m) = out' (fFileID m)) \<Longrightarrow>
   (\<And>b. best = Some b \<Longrightarrow> out (fFileID b) = out' (fFileID b)) \<Longrightarrow>
   bestOf out best ms = bestOf out' best ms"
proof (induction out best ms rule: bestOf.induct)
  case (2 out best m ms)
  then show ?case by (auto split: option.splits)
qed simp

lemma raiseTo_at:
  "out (fFileID b) = Some db \<Longrightarrow>
   raiseTo b out m x =
     (case out x of
        None \<Rightarrow> None
      | Some d \<Rightarrow> (if x = fFileID m \<and> dTier d < dTier db
                   then Some (db\<lparr>dFollows := fRelPath b\<rparr>) else Some d))"
  by (auto simp: raiseTo_def tier_order split: option.splits)

lemma foldl_raiseTo:
  "out (fFileID b) = Some db \<Longrightarrow>
   foldl (raiseTo b) out ms x =
     (case out x of
        None \<Rightarrow> None
      | Some d \<Rightarrow> (if x \<in> fFileID ` set ms \<and> dTier d < dTier db
                   then Some (db\<lparr>dFollows := fRelPath b\<rparr>) else Some d))"
proof (induction ms arbitrary: out)
  case Nil
  then show ?case by (simp split: option.splits)
next
  case (Cons m ms)
  have "raiseTo b out m (fFileID b) = Some db"
    using Cons.prems by (simp add: raiseTo_at)
  from Cons.IH [of "raiseTo b out m", OF this] show ?case
    using raiseTo_at [of out b db m x, OF Cons.prems] by (cases "out x") auto
qed

lemma unifyGroup_outside: "x \<notin> fFileID ` set ms \<Longrightarrow> unifyGroup out ms x = out x"
proof (cases "bestOf out None ms")
  case (Some b)
  assume x: "x \<notin> fFileID ` set ms"
  from bestOf_spec [OF Some] obtain db where "out (fFileID b) = Some db" by auto
  with Some x show ?thesis by (simp add: unifyGroup_def foldl_raiseTo split: option.splits)
qed (simp add: unifyGroup_def)

lemma unifyGroup_dom: "unifyGroup out ms x = None \<longleftrightarrow> out x = None"
proof (cases "bestOf out None ms")
  case (Some b)
  from bestOf_spec [OF Some] obtain db where "out (fFileID b) = Some db" by auto
  with Some show ?thesis by (simp add: unifyGroup_def foldl_raiseTo split: option.splits)
qed (simp add: unifyGroup_def)

lemma unifyGroup_cong:
  assumes "\<And>m. m \<in> set ms \<Longrightarrow> out (fFileID m) = out' (fFileID m)" and "m \<in> set ms"
  shows "unifyGroup out ms (fFileID m) = unifyGroup out' ms (fFileID m)"
proof -
  have same: "bestOf out None ms = bestOf out' None ms" using assms(1) by (rule bestOf_cong) simp_all
  show ?thesis
  proof (cases "bestOf out None ms")
    case None
    with same assms show ?thesis by (simp add: unifyGroup_def)
  next
    case (Some b)
    with bestOf_spec [OF Some] obtain db where b: "b \<in> set ms" "out (fFileID b) = Some db" by auto
    then have "out' (fFileID b) = Some db" using assms(1) by metis
    moreover have "bestOf out' None ms = Some b" using same Some by simp
    ultimately show ?thesis
      using Some b assms
      by (simp add: unifyGroup_def foldl_raiseTo [of out b db] foldl_raiseTo [of out' b db])
  qed
qed

text \<open>All decided members of a group end with one tier, the most protective of theirs.\<close>

lemma unifyGroup_uniform:
  assumes "m \<in> set ms" and "out (fFileID m) = Some d"
  shows "\<exists>T. (\<forall>m' \<in> set ms. \<forall>d'. unifyGroup out ms (fFileID m') = Some d' \<longrightarrow> dTier d' = T)
           \<and> (\<forall>m' \<in> set ms. \<forall>d'. out (fFileID m') = Some d' \<longrightarrow> dTier d' \<le> T)
           \<and> (\<exists>m' \<in> set ms. \<exists>d'. out (fFileID m') = Some d' \<and> dTier d' = T)"
proof -
  obtain b where b: "bestOf out None ms = Some b"
    using assms bestOf_None [of out None ms] by (cases "bestOf out None ms") auto
  from bestOf_spec [OF b] obtain db where db: "b \<in> set ms" "out (fFileID b) = Some db"
    and le: "\<forall>m \<in> set ms. \<forall>d. out (fFileID m) = Some d \<longrightarrow> dTier d \<le> dTier db" by auto
  have "\<forall>m' \<in> set ms. \<forall>d'. unifyGroup out ms (fFileID m') = Some d' \<longrightarrow> dTier d' = dTier db"
    using le by (force simp: unifyGroup_def b foldl_raiseTo [of out b, OF db(2)] split: option.splits if_splits)
  with le db show ?thesis by blast
qed

lemma unifyGroup_ge:
  assumes "out x = Some d" shows "\<exists>d'. unifyGroup out ms x = Some d' \<and> dTier d \<le> dTier d'"
proof (cases "bestOf out None ms")
  case None
  with assms show ?thesis by (simp add: unifyGroup_def)
next
  case (Some b)
  from bestOf_spec [OF Some] obtain db where "out (fFileID b) = Some db" by auto
  with Some assms show ?thesis by (auto simp: unifyGroup_def foldl_raiseTo)
qed

section \<open>All groups\<close>

lemma foldl_unifyGroup_at:
  assumes "distinct gs" and "distinct (map fFileID fs)" and "f \<in> set fs"
  shows "foldl (\<lambda>o1 g. unifyGroup o1 (groupMembers fs g)) out gs (fFileID f) =
    (if fGroup f \<in> set gs then unifyGroup out (groupMembers fs (fGroup f)) (fFileID f)
     else out (fFileID f))"
  using assms(1)
proof (induction gs arbitrary: out)
  case (Cons g gs)
  let ?o = "unifyGroup out (groupMembers fs g)"
  have inj: "a = b" if "a \<in> set fs" "b \<in> set fs" "fFileID a = fFileID b" for a b
    using that assms(2) by (metis distinct_map inj_on_eq_iff)
  have away: "?o (fFileID h) = out (fFileID h)" if "h \<in> set fs" "fGroup h \<noteq> g" for h
    by (rule unifyGroup_outside) (use that inj in \<open>auto simp: groupMembers_def\<close>)
  show ?case
  proof (cases "fGroup f = g")
    case True
    with Cons show ?thesis by simp
  next
    case False
    have "unifyGroup ?o (groupMembers fs (fGroup f)) (fFileID f) =
          unifyGroup out (groupMembers fs (fGroup f)) (fFileID f)"
      by (rule unifyGroup_cong) (use away assms(3) False in \<open>auto simp: groupMembers_def\<close>)
    with Cons False away assms(3) show ?thesis by simp
  qed
qed simp

lemma unify_at:
  assumes "distinct (map fFileID fs)" and "f \<in> set fs"
  shows "unify out fs (fFileID f) =
    (if fGroup f = [] then out (fFileID f)
     else unifyGroup out (groupMembers fs (fGroup f)) (fFileID f))"
proof -
  have "fGroup f \<in> set (groupNames fs) \<longleftrightarrow> fGroup f \<noteq> []"
    using assms(2) by (auto simp: groupNames_def)
  then show ?thesis
    using foldl_unifyGroup_at [of "groupNames fs" fs f out] assms
    by (simp add: unify_def groupNames_def)
qed

lemma unify_ge:
  assumes "distinct (map fFileID fs)" and "f \<in> set fs" and "out (fFileID f) = Some d"
  shows "\<exists>d'. unify out fs (fFileID f) = Some d' \<and> dTier d \<le> dTier d'"
  using unifyGroup_ge [of out "fFileID f" d] assms by (auto simp: unify_at)

lemma unify_uniform:
  assumes "distinct (map fFileID fs)" and "f \<in> set fs" "g \<in> set fs"
    and "fGroup f = fGroup g" "fGroup f \<noteq> []"
    and "unify out fs (fFileID f) = Some df" "unify out fs (fFileID g) = Some dg"
  shows "dTier df = dTier dg"
proof -
  let ?ms = "groupMembers fs (fGroup f)"
  have mem: "f \<in> set ?ms" "g \<in> set ?ms" using assms by (auto simp: groupMembers_def)
  have un: "unifyGroup out ?ms (fFileID f) = Some df" "unifyGroup out ?ms (fFileID g) = Some dg"
    using assms by (simp_all add: unify_at)
  then obtain d where "out (fFileID f) = Some d" using unifyGroup_dom [of out ?ms "fFileID f"] by auto
  from unifyGroup_uniform [of f ?ms out, OF mem(1) this] mem un show ?thesis by metis
qed

section \<open>The three passes\<close>

definition followsWellFormed :: "facts list \<Rightarrow> bool" where
  "followsWellFormed fs =
     list_all (\<lambda>f. case byRel fs (fFollows f) of
                     None \<Rightarrow> True
                   | Some m \<Rightarrow> fFollows f \<noteq> [] \<longrightarrow> fFollows m = []) fs"

lemma decideOwn_one:
  "decideOwn ev destID out f x =
     (if x = fFileID f \<and> (fFollows f = [] \<or> fFlags f \<noteq> []) then Some (Decide ev destID f) else out x)"
  by (simp add: decideOwn_def)

lemma decideOwn_at:
  assumes "distinct (map fFileID fs)"
  shows "foldl (decideOwn ev destID) out fs x =
     (case find (\<lambda>f. fFileID f = x) fs of
        None \<Rightarrow> out x
      | Some f \<Rightarrow> (if fFollows f = [] \<or> fFlags f \<noteq> [] then Some (Decide ev destID f) else out x))"
  using assms
proof (induction fs arbitrary: out)
  case (Cons f fs)
  have "find (\<lambda>f. fFileID f = x) fs = None" if "fFileID f = x"
    using Cons.prems that unfolding find_None_iff
    by (metis distinct.simps(2) image_eqI list.set_map list.simps(9))
  with Cons show ?case by (auto simp: decideOwn_one split: option.splits)
qed simp

lemma find_by_id:
  "distinct (map fFileID fs) \<Longrightarrow> f \<in> set fs \<Longrightarrow> find (\<lambda>g. fFileID g = fFileID f) fs = Some f"
  by (induction fs) (auto simp: image_iff)

lemma followMedia_outside: "x \<notin> fFileID ` set hs \<Longrightarrow> foldl (followMedia ev gs) out hs x = out x"
  by (induction hs arbitrary: out) (auto simp: followMedia_def)

lemma followDecision_cong:
  "(\<And>m. byRel gs (fFollows f) = Some m \<Longrightarrow> out (fFileID m) = out' (fFileID m)) \<Longrightarrow>
   followDecision ev gs out f = followDecision ev gs out' f"
  by (auto simp: followDecision_def split: option.splits)

lemma followMedia_at:
  assumes "distinct (map fFileID fs)" and "f \<in> set fs"
    and "\<And>g m. g \<in> set fs \<Longrightarrow> fFollows g \<noteq> [] \<Longrightarrow> byRel gs (fFollows g) = Some m \<Longrightarrow>
           \<forall>h \<in> set fs. fFileID h = fFileID m \<longrightarrow> fFollows h = []"
  shows "foldl (followMedia ev gs) out fs (fFileID f) =
    (if fFollows f = [] \<or> fFlags f \<noteq> [] then out (fFileID f)
     else Some (followDecision ev gs out f))"
  using assms
proof (induction fs arbitrary: out)
  case (Cons g fs)
  show ?case
  proof (cases "f = g")
    case True
    then have "fFileID f \<notin> fFileID ` set fs" using Cons.prems(1) by simp
    with True show ?thesis by (simp add: followMedia_outside followMedia_def [of ev gs out])
  next
    case False
    then have f: "f \<in> set fs" using Cons.prems(2) by simp
    have ne: "fFileID f \<noteq> fFileID g" using Cons.prems(1) f by (auto simp: image_iff)
    let ?o = "followMedia ev gs out g"
    have "foldl (followMedia ev gs) ?o fs (fFileID f) =
      (if fFollows f = [] \<or> fFlags f \<noteq> [] then ?o (fFileID f) else Some (followDecision ev gs ?o f))"
    proof (rule Cons.IH)
      show "distinct (map fFileID fs)" using Cons.prems(1) by simp
      show "f \<in> set fs" by (rule f)
      fix k m
      assume k: "k \<in> set fs" "fFollows k \<noteq> []" "byRel gs (fFollows k) = Some m"
      have "k \<in> set (g # fs)" using k(1) by simp
      from Cons.prems(3) [OF this k(2,3)]
      show "\<forall>h \<in> set fs. fFileID h = fFileID m \<longrightarrow> fFollows h = []" by simp
    qed
    moreover have "?o (fFileID f) = out (fFileID f)" using ne by (simp add: followMedia_def)
    moreover have "followDecision ev gs ?o f = followDecision ev gs out f" if ff: "fFollows f \<noteq> []"
    proof (rule followDecision_cong)
      fix m
      assume m: "byRel gs (fFollows f) = Some m"
      have "f \<in> set (g # fs)" using f by simp
      from Cons.prems(3) [OF this ff m] have "fFileID g = fFileID m \<longrightarrow> fFollows g = []" by simp
      then show "?o (fFileID m) = out (fFileID m)" by (auto simp: followMedia_def)
    qed
    ultimately show ?thesis by (cases "fFollows f = []") simp_all
  qed
qed simp

lemma byRel_mem: "byRel fs rel = Some m \<Longrightarrow> m \<in> set fs \<and> fRelPath m = rel"
  by (auto simp: byRel_def dest: find_Some_setD)

lemma followsWellFormedD:
  assumes "followsWellFormed fs" and "distinct (map fFileID fs)"
    and "g \<in> set fs" "fFollows g \<noteq> []" "byRel fs (fFollows g) = Some m" "h \<in> set fs" "fFileID h = fFileID m"
  shows "fFollows h = []"
proof -
  have "h = m" using assms(2,5,6,7) byRel_mem by (metis distinct_map inj_on_eq_iff)
  with assms show ?thesis by (auto simp: followsWellFormed_def list_all_iff)
qed

text \<open>The outcome of the passes before the last unify, file by file.\<close>

lemma passes_at:
  fixes ev :: evaluator and destID :: ident
  assumes "distinct (map fFileID fs)" and "followsWellFormed fs" and "f \<in> set fs"
  defines "out1 \<equiv> unify (foldl (decideOwn ev destID) (\<lambda>_. None) fs) fs"
  shows "foldl (followMedia ev fs) out1 fs (fFileID f) =
    (if fFollows f = [] \<or> fFlags f \<noteq> [] then out1 (fFileID f) else Some (followDecision ev fs out1 f))"
    and "fFollows f = [] \<or> fFlags f \<noteq> [] \<Longrightarrow>
      \<exists>d. out1 (fFileID f) = Some d \<and> dTier (Decide ev destID f) \<le> dTier d"
proof -
  show "foldl (followMedia ev fs) out1 fs (fFileID f) =
    (if fFollows f = [] \<or> fFlags f \<noteq> [] then out1 (fFileID f) else Some (followDecision ev fs out1 f))"
    using followsWellFormedD [OF assms(2,1)] by (intro followMedia_at [OF assms(1,3)]) blast
next
  assume "fFollows f = [] \<or> fFlags f \<noteq> []"
  then have "foldl (decideOwn ev destID) (\<lambda>_. None) fs (fFileID f) = Some (Decide ev destID f)"
    using assms(1,3) by (simp add: decideOwn_at find_by_id)
  then show "\<exists>d. out1 (fFileID f) = Some d \<and> dTier (Decide ev destID f) \<le> dTier d"
    unfolding out1_def by (rule unify_ge [OF assms(1,3)])
qed

lemma decideFiles_decided:
  assumes "distinct (map fFileID fs)" and "followsWellFormed fs" and "f \<in> set fs"
  shows "\<exists>d. decideFiles ev destID fs (fFileID f) = Some d"
proof -
  let ?out1 = "unify (foldl (decideOwn ev destID) (\<lambda>_. None) fs) fs"
  have "\<exists>d. foldl (followMedia ev fs) ?out1 fs (fFileID f) = Some d"
    using passes_at [OF assms, where ev = ev and destID = destID] by (cases "fFollows f = [] \<or> fFlags f \<noteq> []") auto
  then show ?thesis
    using unify_ge [OF assms(1,3)] unfolding decideFiles_def Let_def by blast
qed

lemma decideFiles_own_ge:
  assumes "distinct (map fFileID fs)" and "followsWellFormed fs" and "f \<in> set fs"
    and "fFollows f = [] \<or> fFlags f \<noteq> []"
  shows "\<exists>d. decideFiles ev destID fs (fFileID f) = Some d \<and> dTier (Decide ev destID f) \<le> dTier d"
proof -
  let ?out1 = "unify (foldl (decideOwn ev destID) (\<lambda>_. None) fs) fs"
  from passes_at(2) [OF assms, where ev = ev and destID = destID] obtain d1
    where d1: "?out1 (fFileID f) = Some d1" "dTier (Decide ev destID f) \<le> dTier d1" by auto
  have "foldl (followMedia ev fs) ?out1 fs (fFileID f) = Some d1"
    using passes_at(1) [OF assms(1-3), where ev = ev and destID = destID] assms(4) d1(1) by simp
  from unify_ge [of fs f "foldl (followMedia ev fs) ?out1 fs", OF assms(1,3) this] d1(2)
  show ?thesis unfolding decideFiles_def Let_def by (meson order_trans)
qed

section \<open>Properties\<close>

text \<open>C21: all names of one hardlink group get one tier at a destination, so a group's content
  is either copied under all its names or under none.  (Catalog file ids are unique and a file
  another file follows does not follow a third, which is what loadFacts builds.)\<close>

theorem decideFiles_group_uniform:
  assumes "distinct (map fFileID fs)" and "followsWellFormed fs"
    and "f \<in> set fs" and "g \<in> set fs" and "fGroup f = fGroup g" and "fGroup f \<noteq> []"
  shows "\<exists>df dg. decideFiles ev destID fs (fFileID f) = Some df
             \<and> decideFiles ev destID fs (fFileID g) = Some dg \<and> dTier df = dTier dg"
proof -
  obtain df dg where "decideFiles ev destID fs (fFileID f) = Some df"
    "decideFiles ev destID fs (fFileID g) = Some dg"
    using decideFiles_decided [OF assms(1,2)] assms(3,4) by meson
  then show ?thesis
    using unify_uniform [OF assms(1,3,4,5,6)] unfolding decideFiles_def Let_def by blast
qed

definition exFile :: "ident \<Rightarrow> string \<Rightarrow> string \<Rightarrow> string \<Rightarrow> arrState \<Rightarrow> facts" where
  "exFile i rel grp fol st = (exFacts st)\<lparr>fFileID := i, fRelPath := rel, fGroup := grp, fFollows := fol\<rparr>"

definition exFiles :: "facts list" where
  "exFiles = [exFile 1 ''a.mkv'' ''g'' [] ArrItem, exFile 2 ''b.mkv'' ''g'' [] ArrUnknown,
              exFile 3 ''a.srt'' [] ''a.mkv'' ArrItem]"

lemma exFiles_wf: "distinct (map fFileID exFiles) \<and> followsWellFormed exFiles"
  by (simp add: exFiles_def exFile_def exFacts_def followsWellFormed_def byRel_def)

theorem decideFiles_group_uniform_witness:
  "\<exists>df dg. decideFiles exEvaluator 1 exFiles 1 = Some df \<and> decideFiles exEvaluator 1 exFiles 2 = Some dg
     \<and> dTier df = dTier dg"
  using decideFiles_group_uniform [of exFiles "exFile 1 ''a.mkv'' ''g'' [] ArrItem"
      "exFile 2 ''b.mkv'' ''g'' [] ArrUnknown" exEvaluator 1] exFiles_wf
  by (simp add: exFiles_def exFile_def exFacts_def)

text \<open>C14: grouping never lowers a file's own decision: a file that decides for itself ends at
  least as protective as its own rules say, and a flagged file is full whatever it follows or
  is grouped with.\<close>

theorem decideFiles_never_lowers:
  assumes "distinct (map fFileID fs)" and "followsWellFormed fs" and "f \<in> set fs"
    and "fFollows f = [] \<or> fFlags f \<noteq> []"
  shows "\<exists>d. decideFiles ev destID fs (fFileID f) = Some d \<and> dTier (Decide ev destID f) \<le> dTier d
           \<and> (fFlags f \<noteq> [] \<longrightarrow> dTier d = Full)"
proof -
  from decideFiles_own_ge [OF assms, of ev destID] obtain d where
    d: "decideFiles ev destID fs (fFileID f) = Some d" "dTier (Decide ev destID f) \<le> dTier d" by auto
  have "dTier d = Full" if "fFlags f \<noteq> []"
  proof -
    have "Full \<le> dTier d" using d(2) that by (simp add: Decide_def)
    then show ?thesis by (simp add: antisym)
  qed
  with d show ?thesis by blast
qed

theorem decideFiles_never_lowers_witness:
  "\<exists>d. decideFiles exEvaluator 1 exFiles 2 = Some d
     \<and> dTier (Decide exEvaluator 1 (exFile 2 ''b.mkv'' ''g'' [] ArrUnknown)) \<le> dTier d"
  using decideFiles_never_lowers [of exFiles "exFile 2 ''b.mkv'' ''g'' [] ArrUnknown" exEvaluator 1] exFiles_wf
  by (auto simp: exFiles_def exFile_def exFacts_def)

end
