(* ===== verification/JobParams.thy ===== *)
theory JobParams
  imports Prelude
begin

text \<open>
  Job types, parameters and specs (internal/jobs/contract.go) and their validation, canonical
  form and lock keys (internal/jobqueue/jobqueue.go).  The parts of Go's package path the code
  calls (\<open>path.Clean\<close>, \<open>path.Dir\<close>) are modelled on slash-separated components.
\<close>

section \<open>Go's package path\<close>

fun splitSlash :: "string \<Rightarrow> string list" where
  "splitSlash [] = [[]]"
| "splitSlash (c # s) =
     (if c = CHR ''/'' then [] # splitSlash s
      else (case splitSlash s of [] \<Rightarrow> [[c]] | w # ws \<Rightarrow> (c # w) # ws))"

fun joinSlash :: "string list \<Rightarrow> string" where
  "joinSlash [] = []"
| "joinSlash [w] = w"
| "joinSlash (w # ws) = w @ CHR ''/'' # joinSlash ws"

text \<open>One element of the path on the stack of elements kept so far (innermost first).\<close>

definition cleanStep :: "bool \<Rightarrow> string list \<Rightarrow> string \<Rightarrow> string list" where
  "cleanStep rooted stack w =
     (if w = [] \<or> w = ''.'' then stack
      else if w = ''..'' then
        (case stack of
           [] \<Rightarrow> if rooted then [] else [w]
         | s1 # rest \<Rightarrow> if s1 = ''..'' then w # stack else rest)
      else w # stack)"

definition pathClean :: "string \<Rightarrow> string" where
  "pathClean p =
     (if p = [] then ''.''
      else (let rooted = (hd p = CHR ''/'');
                body = joinSlash (rev (foldl (cleanStep rooted) [] (splitSlash p)))
            in if rooted then CHR ''/'' # body else if body = [] then ''.'' else body))"

text \<open>\<open>path.Dir\<close>: everything up to the last slash, cleaned.\<close>

definition dirPart :: "string \<Rightarrow> string" where
  "dirPart p = rev (dropWhile (\<lambda>c. c \<noteq> CHR ''/'') (rev p))"

definition pathDir :: "string \<Rightarrow> string" where
  "pathDir p = pathClean (dirPart p)"

section \<open>Types and parameters\<close>

datatype jobType = TypeScan | TypeSync | TypePlexDBBackup | TypeRetention | TypeVerify
  | TypeRefresh | TypeArrBackup | TypeManifestExport | TypeOther string

datatype trigger = TriggerSchedule | TriggerManual | TriggerWebhook | TriggerResume
  | TriggerStartup | TriggerEmpty | TriggerOther string

datatype status = StatusQueued | StatusRunning | StatusCompleted | StatusCompletedWithWarnings
  | StatusFailed | StatusCancelled

definition Final :: "status \<Rightarrow> bool" where
  "Final s \<longleftrightarrow> s \<noteq> StatusQueued \<and> s \<noteq> StatusRunning"

record params =
  pDestinationID :: ident
  pSourceIDs :: "ident list"
  pIntegrationID :: ident
  pAllowChanges :: bool
  pPaths :: "string list"
  pArrItemIDs :: "ident list"
  pSyncAfter :: bool
  pReleaseDemoted :: bool
  pReleaseOf :: ident
  pReleaseRevision :: int
  pPrune :: bool
  pReadData :: bool

record spec =
  sType :: jobType
  sTrigger :: trigger
  sDryRun :: bool
  sParams :: params

definition MaxTargetPaths :: nat where "MaxTargetPaths = 1000"
definition MaxTargetItems :: nat where "MaxTargetItems = 500"

definition ValidTargetPath :: "string \<Rightarrow> bool" where
  "ValidTargetPath p \<longleftrightarrow>
     \<not> (p = [] \<or> p = ''.'' \<or> p = ''..'' \<or> hd p = CHR ''/'' \<or> take 3 p = ''../''
        \<or> CHR 0x00 \<in> set p)
     \<and> pathClean p = p"

definition Targeted :: "params \<Rightarrow> bool" where
  "Targeted p \<longleftrightarrow> pPaths p \<noteq> [] \<or> pArrItemIDs p \<noteq> []"

section \<open>Canonical form\<close>

definition sortedIDs :: "ident list \<Rightarrow> ident list" where
  "sortedIDs ids = (if ids = [] then [] else sort_compact ids)"

text \<open>The proper ancestor directories insideAny's loop visits.  \<open>path.Dir\<close> shortens every path
  that is not a root (\<open>pathDir_join\<close> below: on clean relative paths it drops the last element),
  so the length guard, which makes the recursion well-founded on every string, does not cut
  the walk of a target path short.\<close>

function ancestors :: "string \<Rightarrow> string list" where
  "ancestors p =
     (let d = pathDir p
      in if d = ''.'' \<or> d = ''/'' \<or> d = [] \<or> length d \<ge> length p then [] else d # ancestors d)"
  by pat_completeness auto
termination
  by (relation "measure length") (auto simp: Let_def)

declare ancestors.simps [simp del]

definition insideAny :: "string \<Rightarrow> string set \<Rightarrow> bool" where
  "insideAny p S = list_ex (\<lambda>d. d \<in> S) (ancestors p)"

definition canonicalPaths :: "string list \<Rightarrow> string list" where
  "canonicalPaths ps =
     (if ps = [] then [] else sort (filter (\<lambda>p. \<not> insideAny p (set ps)) (remdups ps)))"

definition normalizeParams :: "params \<Rightarrow> params" where
  "normalizeParams p =
     p\<lparr>pSourceIDs := sortedIDs (pSourceIDs p), pArrItemIDs := sortedIDs (pArrItemIDs p),
       pPaths := canonicalPaths (pPaths p)\<rparr>"

text \<open>\<open>canonicalParams\<close> is the JSON text of the normalized params with fixed field order and
  zero values omitted; two texts are equal iff the normalized params are, so the model keeps
  the normalized params themselves.\<close>

definition canonicalParams :: "params \<Rightarrow> params" where
  "canonicalParams p = normalizeParams p"

section \<open>Validation\<close>

datatype paramError = UnknownJobType jobType | NegativeID | BadSourceID | NoPathsOrRelease
  | NoArrItems | PruneNeedsRetention | NoReadData | SyncNeedsDestination | NeedsDestination
  | NeedsIntegration | BadArrItemID | TooManyItems nat | SyncAfterNeedsItems | ScanNeedsSource
  | PathsNeedOneSource | InvalidPath string | TooManyPaths nat | ReleaseWithPaths
  | ReleaseParamsNeedRelease | ReleaseNeedsDryRun | UnknownTrigger trigger

fun validType :: "jobType \<Rightarrow> bool" where
  "validType (TypeOther _) = False"
| "validType _ = True"

fun validTrigger :: "trigger \<Rightarrow> bool" where
  "validTrigger (TriggerOther _) = False"
| "validTrigger TriggerEmpty = False"
| "validTrigger _ = True"

definition validateSyncTargets :: "params \<Rightarrow> bool \<Rightarrow> paramError + unit" where
  "validateSyncTargets p dryRun =
     (if pPaths p \<noteq> [] \<and> length (sortedIDs (pSourceIDs p)) \<noteq> 1 then Inl PathsNeedOneSource
      else (case find (\<lambda>tp. \<not> ValidTargetPath tp) (pPaths p) of
              Some tp \<Rightarrow> Inl (InvalidPath tp)
            | None \<Rightarrow>
                if length (canonicalPaths (pPaths p)) > MaxTargetPaths
                then Inl (TooManyPaths (length (canonicalPaths (pPaths p))))
                else if pPaths p \<noteq> [] \<and> pReleaseDemoted p then Inl ReleaseWithPaths
                else if \<not> pReleaseDemoted p \<and> (pReleaseOf p \<noteq> 0 \<or> pReleaseRevision p \<noteq> 0)
                then Inl ReleaseParamsNeedRelease
                else if pReleaseDemoted p \<and> \<not> dryRun \<and> (pReleaseOf p = 0 \<or> pReleaseRevision p = 0)
                then Inl ReleaseNeedsDryRun
                else Inr ()))"

definition validateParams :: "jobType \<Rightarrow> params \<Rightarrow> bool \<Rightarrow> paramError + unit" where
  "validateParams t p dryRun =
     (if \<not> validType t then Inl (UnknownJobType t)
      else if pDestinationID p < 0 \<or> pIntegrationID p < 0 \<or> pReleaseOf p < 0 \<or> pReleaseRevision p < 0
      then Inl NegativeID
      else if list_ex (\<lambda>i. i \<le> 0) (pSourceIDs p) then Inl BadSourceID
      else if t \<noteq> TypeSync \<and> (pPaths p \<noteq> [] \<or> pReleaseDemoted p \<or> pReleaseOf p \<noteq> 0 \<or> pReleaseRevision p \<noteq> 0)
      then Inl NoPathsOrRelease
      else if t \<noteq> TypeRefresh \<and> (pArrItemIDs p \<noteq> [] \<or> pSyncAfter p) then Inl NoArrItems
      else if pPrune p \<and> (t \<noteq> TypeRetention \<or> pDestinationID p = 0) then Inl PruneNeedsRetention
      else if pReadData p \<and> t \<noteq> TypeVerify then Inl NoReadData
      else (case t of
              TypeSync \<Rightarrow> if pDestinationID p = 0 then Inl SyncNeedsDestination
                          else validateSyncTargets p dryRun
            | TypeVerify \<Rightarrow> if pDestinationID p = 0 then Inl NeedsDestination else Inr ()
            | TypeManifestExport \<Rightarrow> if pDestinationID p = 0 then Inl NeedsDestination else Inr ()
            | TypePlexDBBackup \<Rightarrow> if pIntegrationID p = 0 then Inl NeedsIntegration else Inr ()
            | TypeArrBackup \<Rightarrow> if pIntegrationID p = 0 then Inl NeedsIntegration else Inr ()
            | TypeRefresh \<Rightarrow>
                if pIntegrationID p = 0 then Inl NeedsIntegration
                else if list_ex (\<lambda>i. i \<le> 0) (pArrItemIDs p) then Inl BadArrItemID
                else if length (sortedIDs (pArrItemIDs p)) > MaxTargetItems
                then Inl (TooManyItems (length (sortedIDs (pArrItemIDs p))))
                else if pSyncAfter p \<and> pArrItemIDs p = [] then Inl SyncAfterNeedsItems
                else Inr ()
            | TypeScan \<Rightarrow> if pSourceIDs p = [] then Inl ScanNeedsSource else Inr ()
            | _ \<Rightarrow> Inr ()))"

definition normalizeSpec :: "spec \<Rightarrow> paramError + spec" where
  "normalizeSpec s0 =
     (let s = (if sTrigger s0 = TriggerEmpty then s0\<lparr>sTrigger := TriggerManual\<rparr> else s0)
      in if \<not> validTrigger (sTrigger s) then Inl (UnknownTrigger (sTrigger s))
         else (case validateParams (sType s) (sParams s) (sDryRun s) of
                 Inl e \<Rightarrow> Inl e
               | Inr _ \<Rightarrow> Inr (s\<lparr>sParams := normalizeParams (sParams s)\<rparr>)))"

fun resumesStoredPlan :: "jobType \<Rightarrow> bool" where
  "resumesStoredPlan TypeSync = True"
| "resumesStoredPlan TypeVerify = True"
| "resumesStoredPlan TypeRetention = True"
| "resumesStoredPlan _ = False"

section \<open>Lock keys\<close>

definition ManifestBuildKey :: string where
  "ManifestBuildKey = ''manifest-build''"

fun LockKeys :: "jobType \<Rightarrow> params \<Rightarrow> string list" where
  "LockKeys t p =
     (case t of
        TypeSync \<Rightarrow> if pDestinationID p \<noteq> 0 then [''dest:'' @ formatInt (pDestinationID p)] else []
      | TypeVerify \<Rightarrow> if pDestinationID p \<noteq> 0 then [''dest:'' @ formatInt (pDestinationID p)] else []
      | TypeRetention \<Rightarrow> if pDestinationID p \<noteq> 0 then [''dest:'' @ formatInt (pDestinationID p)] else []
      | TypePlexDBBackup \<Rightarrow> if pIntegrationID p \<noteq> 0 then [''plexdb:'' @ formatInt (pIntegrationID p)] else []
      | TypeRefresh \<Rightarrow> if pIntegrationID p \<noteq> 0 then [''integration:'' @ formatInt (pIntegrationID p)] else []
      | TypeArrBackup \<Rightarrow> if pIntegrationID p \<noteq> 0 then [''arrbackup:'' @ formatInt (pIntegrationID p)] else []
      | TypeManifestExport \<Rightarrow>
          if pDestinationID p \<noteq> 0
          then [''manifest:'' @ formatInt (pDestinationID p), ManifestBuildKey] else []
      | TypeScan \<Rightarrow> map (\<lambda>i. ''source:'' @ formatInt i) (sortedIDs (pSourceIDs p))
      | TypeOther _ \<Rightarrow> [])"

section \<open>Clean relative paths are lists of proper names\<close>

lemma splitSlash_ne [simp]: "splitSlash p \<noteq> []"
  by (induction p) (auto split: list.splits)

lemma joinSlash_Cons: "ws \<noteq> [] \<Longrightarrow> joinSlash (w # ws) = w @ CHR ''/'' # joinSlash ws"
  by (cases ws) simp_all

lemma joinSlash_splitSlash [simp]: "joinSlash (splitSlash p) = p"
proof (induction p)
  case (Cons c s)
  obtain w ws where "splitSlash s = w # ws" by (cases "splitSlash s") auto
  with Cons show ?case by (cases ws) auto
qed simp

lemma splitSlash_no_slash: "w \<in> set (splitSlash p) \<Longrightarrow> CHR ''/'' \<notin> set w"
  by (induction p arbitrary: w) (auto split: list.splits if_splits)

lemma splitSlash_name: "CHR ''/'' \<notin> set w \<Longrightarrow> splitSlash w = [w]"
  by (induction w) auto

lemma splitSlash_name_append:
  "CHR ''/'' \<notin> set w \<Longrightarrow> splitSlash (w @ CHR ''/'' # s) = w # splitSlash s"
  by (induction w) auto

lemma splitSlash_joinSlash:
  "ws \<noteq> [] \<Longrightarrow> \<forall>w \<in> set ws. CHR ''/'' \<notin> set w \<Longrightarrow> splitSlash (joinSlash ws) = ws"
  by (induction ws rule: joinSlash.induct) (simp_all add: splitSlash_name splitSlash_name_append)

lemma splitSlash_trailing: "splitSlash (s @ ''/'') = splitSlash s @ [[]]"
  by (induction s) (auto split: list.splits)

definition goodName :: "string \<Rightarrow> bool" where
  "goodName w \<longleftrightarrow> w \<noteq> [] \<and> w \<noteq> ''.'' \<and> w \<noteq> ''..'' \<and> CHR ''/'' \<notin> set w"

text \<open>The stack of cleanStep: names above a block of parent references.\<close>

definition stackOk :: "string list \<Rightarrow> bool" where
  "stackOk st \<longleftrightarrow> (\<exists>xs ys. st = xs @ ys \<and> (\<forall>w \<in> set xs. goodName w) \<and> set ys \<subseteq> {''..''})"

lemma cleanStep_ok:
  assumes "stackOk st" and "CHR ''/'' \<notin> set w"
  shows "stackOk (cleanStep r st w)"
proof -
  obtain xs ys where st: "st = xs @ ys" "\<forall>w \<in> set xs. goodName w" "set ys \<subseteq> {''..''}"
    using assms(1) by (auto simp: stackOk_def)
  have push: "stackOk (w # st)" if "goodName w"
    using st that unfolding stackOk_def by (intro exI [of _ "w # xs"] exI [of _ ys]) auto
  have up: "stackOk (''..'' # st)" if "xs = []"
    using st that unfolding stackOk_def by (intro exI [of _ "[]"] exI [of _ "''..'' # ys"]) auto
  show ?thesis
  proof (cases xs)
    case Nil
    have "stackOk [''..'']" "stackOk []"
      unfolding stackOk_def by (rule exI [of _ "[]"], simp)+
    with Nil st push up assms show ?thesis
      by (cases ys) (auto simp: cleanStep_def goodName_def)
  next
    case (Cons x xs')
    with st(2) have "x \<noteq> ''..''" by (simp add: goodName_def)
    moreover have "stackOk (xs' @ ys)"
      using st Cons unfolding stackOk_def by (intro exI [of _ xs'] exI [of _ ys]) auto
    ultimately show ?thesis
      using Cons st push assms by (auto simp: cleanStep_def goodName_def)
  qed
qed

lemma foldl_cleanStep_ok:
  "stackOk st \<Longrightarrow> \<forall>w \<in> set ws. CHR ''/'' \<notin> set w \<Longrightarrow> stackOk (foldl (cleanStep r) st ws)"
  by (induction ws arbitrary: st) (auto simp: cleanStep_ok)

lemma foldl_cleanStep_good: "\<forall>w \<in> set ws. goodName w \<Longrightarrow> foldl (cleanStep r) st ws = rev ws @ st"
  by (induction ws arbitrary: st) (auto simp: cleanStep_def goodName_def)

lemma hd_joinSlash: "ws \<noteq> [] \<Longrightarrow> hd ws \<noteq> [] \<Longrightarrow> hd (joinSlash ws) = hd (hd ws)"
  by (cases ws rule: joinSlash.cases) simp_all

lemma joinSlash_Nil_iff: "joinSlash ws = [] \<longleftrightarrow> ws = [] \<or> ws = [[]]"
  by (cases ws rule: joinSlash.cases) simp_all

lemma goodNames_join:
  assumes "ws \<noteq> []" and "\<forall>w \<in> set ws. goodName w"
  shows "joinSlash ws \<noteq> []" and "hd (joinSlash ws) \<noteq> CHR ''/''" and "splitSlash (joinSlash ws) = ws"
proof -
  show "joinSlash ws \<noteq> []"
  proof
    assume "joinSlash ws = []"
    then have "ws = [[]]" using assms(1) joinSlash_Nil_iff by blast
    with assms(2) show False by (simp add: goodName_def)
  qed
  have "goodName (hd ws)" using assms by simp
  then have h: "hd ws \<noteq> []" "CHR ''/'' \<notin> set (hd ws)" by (auto simp: goodName_def)
  have "hd (hd ws) \<noteq> CHR ''/''" using h hd_in_set [OF h(1)] by metis
  then show "hd (joinSlash ws) \<noteq> CHR ''/''" using hd_joinSlash [OF assms(1) h(1)] by simp
  show "splitSlash (joinSlash ws) = ws"
    using assms by (intro splitSlash_joinSlash) (auto simp: goodName_def)
qed

lemma pathClean_join:
  assumes "ws \<noteq> []" and "\<forall>w \<in> set ws. goodName w"
  shows "pathClean (joinSlash ws) = joinSlash ws" and "pathClean (joinSlash ws @ ''/'') = joinSlash ws"
proof -
  note j = goodNames_join [OF assms]
  show "pathClean (joinSlash ws) = joinSlash ws"
    using j assms by (simp add: pathClean_def Let_def foldl_cleanStep_good)
  have "cleanStep r st [] = st" for r st by (simp add: cleanStep_def)
  then show "pathClean (joinSlash ws @ ''/'') = joinSlash ws"
    using j assms by (simp add: pathClean_def Let_def splitSlash_trailing foldl_cleanStep_good)
qed

lemma ValidTargetPath_names: "ValidTargetPath p \<Longrightarrow> \<forall>w \<in> set (splitSlash p). goodName w"
proof -
  assume v: "ValidTargetPath p"
  define st where "st = foldl (cleanStep False) [] (splitSlash p)"
  have nr: "p \<noteq> []" "hd p \<noteq> CHR ''/''" "p \<noteq> ''.''" "pathClean p = p"
    using v by (auto simp: ValidTargetPath_def)
  then have "joinSlash (rev st) \<noteq> []" and p: "p = joinSlash (rev st)"
    by (auto simp: pathClean_def Let_def st_def split: if_splits)
  then have ne: "st \<noteq> []" by auto
  have "stackOk []" unfolding stackOk_def by (intro exI [of _ "[]"]) simp
  then have "stackOk st" unfolding st_def by (rule foldl_cleanStep_ok) (auto dest: splitSlash_no_slash)
  then obtain xs ys where st: "st = xs @ ys" "\<forall>w \<in> set xs. goodName w" "set ys \<subseteq> {''..''}"
    by (auto simp: stackOk_def)
  have "ys = []"
  proof (rule ccontr)
    assume "ys \<noteq> []"
    then have "last ys = ''..''" using st(3) last_in_set by blast
    then have "hd (rev st) = ''..''" using st(1) \<open>ys \<noteq> []\<close> by (simp add: hd_rev)
    then have "p = ''..'' \<or> take 3 p = ''../''"
      using p ne by (cases "rev st" rule: joinSlash.cases) auto
    with v show False by (auto simp: ValidTargetPath_def)
  qed
  with st have good: "\<forall>w \<in> set (rev st). goodName w" by simp
  have "splitSlash p = rev st" unfolding p by (rule goodNames_join(3) [OF _ good]) (use ne in simp)
  with good show ?thesis by simp
qed

lemma dirPart_join:
  assumes "CHR ''/'' \<notin> set w"
  shows "dirPart (s @ CHR ''/'' # w) = s @ ''/''" and "dirPart w = []"
  using assms by (auto simp: dirPart_def dropWhile_append)

lemma joinSlash_snoc: "ws \<noteq> [] \<Longrightarrow> joinSlash (ws @ [w]) = joinSlash ws @ CHR ''/'' # w"
  by (induction ws rule: joinSlash.induct) (simp_all add: joinSlash_Cons)

lemma pathDir_join:
  assumes "\<forall>w \<in> set (ws @ [w]). goodName w"
  shows "pathDir (joinSlash (ws @ [w])) = (if ws = [] then ''.'' else joinSlash ws)"
proof -
  have "CHR ''/'' \<notin> set w" using assms by (simp add: goodName_def)
  then show ?thesis
    using assms pathClean_join(2) [of ws]
    by (cases "ws = []") (simp_all add: pathDir_def joinSlash_snoc dirPart_join pathClean_def [of "[]"])
qed

lemma ancestors_join:
  "\<forall>w \<in> set ws. goodName w \<Longrightarrow> ws \<noteq> [] \<Longrightarrow>
   d \<in> set (ancestors (joinSlash ws)) \<longleftrightarrow> (\<exists>k. 0 < k \<and> k < length ws \<and> d = joinSlash (take k ws))"
proof (induction ws rule: rev_induct)
  case (snoc w ws)
  show ?case
  proof (cases "ws = []")
    case True
    then show ?thesis using snoc.prems pathDir_join [of "[]" w] by (simp add: ancestors.simps [of w])
  next
    case False
    let ?j = "joinSlash ws"
    have dir: "pathDir (joinSlash (ws @ [w])) = ?j" using False pathDir_join [of ws w] snoc.prems by simp
    have good: "\<forall>w \<in> set ws. goodName w" using snoc.prems by simp
    have "?j \<noteq> ''/''" "?j \<noteq> []" using goodNames_join [OF False good] by auto
    moreover have "?j \<noteq> ''.''"
    proof
      assume "?j = ''.''"
      then have "ws = [''.'']" using goodNames_join(3) [OF False good] by simp
      with good show False by (simp add: goodName_def)
    qed
    moreover have "length ?j < length (joinSlash (ws @ [w]))" using False by (simp add: joinSlash_snoc)
    ultimately have "ancestors (joinSlash (ws @ [w])) = ?j # ancestors ?j"
      using dir by (simp add: ancestors.simps [of "joinSlash (ws @ [w])"] Let_def)
    moreover have "(\<exists>k. 0 < k \<and> k < length (ws @ [w]) \<and> d = joinSlash (take k (ws @ [w]))) \<longleftrightarrow>
        d = ?j \<or> (\<exists>k. 0 < k \<and> k < length ws \<and> d = joinSlash (take k ws))"
      using False by (auto simp: less_Suc_eq)
    ultimately show ?thesis using snoc.IH [OF good False] by simp
  qed
qed simp

section \<open>Canonical params\<close>

text \<open>\<open>p\<close> lies inside the folder \<open>q\<close>: the elements of \<open>q\<close> are a proper prefix of those of \<open>p\<close>.\<close>

definition insidePath :: "string \<Rightarrow> string \<Rightarrow> bool" where
  "insidePath p q \<longleftrightarrow> (\<exists>ws. ws \<noteq> [] \<and> splitSlash p = splitSlash q @ ws)"

lemma ancestors_insidePath:
  assumes "ValidTargetPath p" and "ValidTargetPath q"
  shows "q \<in> set (ancestors p) \<longleftrightarrow> insidePath p q"
proof -
  let ?ws = "splitSlash p"
  have good: "\<forall>w \<in> set ?ws. goodName w" by (rule ValidTargetPath_names [OF assms(1)])
  have anc: "q \<in> set (ancestors p) \<longleftrightarrow> (\<exists>k. 0 < k \<and> k < length ?ws \<and> q = joinSlash (take k ?ws))"
    using ancestors_join [OF good] by simp
  also have "\<dots> \<longleftrightarrow> (\<exists>k. 0 < k \<and> k < length ?ws \<and> splitSlash q = take k ?ws)"
  proof -
    have "q = joinSlash (take k ?ws) \<longleftrightarrow> splitSlash q = take k ?ws" if "0 < k" for k
    proof
      assume q: "q = joinSlash (take k ?ws)"
      show "splitSlash q = take k ?ws"
        unfolding q by (rule goodNames_join(3)) (use that good in \<open>auto dest: in_set_takeD\<close>)
    next
      assume "splitSlash q = take k ?ws"
      then show "q = joinSlash (take k ?ws)" by (metis joinSlash_splitSlash)
    qed
    then show ?thesis by blast
  qed
  also have "\<dots> \<longleftrightarrow> insidePath p q"
  proof
    assume "\<exists>k. 0 < k \<and> k < length ?ws \<and> splitSlash q = take k ?ws"
    then obtain k where "k < length ?ws" "splitSlash q = take k ?ws" by blast
    then show "insidePath p q"
      unfolding insidePath_def by (intro exI [of _ "drop k ?ws"]) simp
  next
    assume "insidePath p q"
    then obtain ws where "ws \<noteq> []" "?ws = splitSlash q @ ws" by (auto simp: insidePath_def)
    then show "\<exists>k. 0 < k \<and> k < length ?ws \<and> splitSlash q = take k ?ws"
      by (intro exI [of _ "length (splitSlash q)"]) simp
  qed
  finally show ?thesis .
qed

lemma ancestors_suffix:
  "d \<in> set (ancestors p) \<Longrightarrow> \<exists>us. ancestors p = us @ d # ancestors d"
proof (induction p rule: ancestors.induct)
  case (1 p)
  let ?d = "pathDir p"
  show ?case
  proof (cases "?d = ''.'' \<or> ?d = ''/'' \<or> ?d = [] \<or> length ?d \<ge> length p")
    case True
    with 1 show ?thesis by (simp add: ancestors.simps [of p] Let_def)
  next
    case nf: False
    then have eq: "ancestors p = ?d # ancestors ?d" by (simp add: ancestors.simps [of p] Let_def)
    show ?thesis
    proof (cases "d = ?d")
      case True
      with eq show ?thesis by (intro exI [of _ "[]"]) simp
    next
      case False
      with eq 1 nf obtain us where "ancestors ?d = us @ d # ancestors d" by auto
      with eq show ?thesis by (intro exI [of _ "?d # us"]) simp
    qed
  qed
qed

lemma insideAny_top:
  assumes "insideAny p S"
  shows "\<exists>q \<in> S. q \<in> set (ancestors p) \<and> \<not> insideAny q S"
proof -
  have "\<exists>x \<in> set (ancestors p). x \<in> S" using assms by (auto simp: insideAny_def list_ex_iff)
  then obtain us q vs where sp: "ancestors p = us @ q # vs" "q \<in> S" "\<forall>x \<in> set vs. x \<notin> S"
    by (rule split_list_last_propE) blast
  obtain us' where sp': "ancestors p = us' @ q # ancestors q"
    using ancestors_suffix [of q p] sp by auto
  have "\<not> (\<exists>x \<in> set (ancestors q). x \<in> S)"
  proof
    assume "\<exists>x \<in> set (ancestors q). x \<in> S"
    then obtain x where x: "x \<in> set (ancestors q)" "x \<in> S" by blast
    have "q \<notin> set (ancestors q)"
    proof
      assume "q \<in> set (ancestors q)"
      from ancestors_suffix [OF this] show False
        by (metis impossible_Cons length_append le_add2 list.size(4) not_add_less2 not_less_eq_eq trans_le_add2)
    qed
    moreover have "us @ q # vs = us' @ q # ancestors q" using sp sp' by simp
    moreover have "q \<notin> set vs" using sp(2,3) by blast
    ultimately have "vs = ancestors q" using last_occurrence_unique by metis
    with x sp(3) show False by blast
  qed
  then show ?thesis using sp by (auto simp: insideAny_def list_ex_iff)
qed

lemma set_canonicalPaths: "set (canonicalPaths ps) = {p \<in> set ps. \<not> insideAny p (set ps)}"
  by (auto simp: canonicalPaths_def)

lemma canonicalPaths_sorted_distinct: "sorted (canonicalPaths ps) \<and> distinct (canonicalPaths ps)"
  by (simp add: canonicalPaths_def)

lemma insideAny_mono: "insideAny p S \<Longrightarrow> S \<subseteq> T \<Longrightarrow> insideAny p T"
  by (auto simp: insideAny_def list_ex_iff)

lemma canonicalPaths_idem: "canonicalPaths (canonicalPaths ps) = canonicalPaths ps"
proof -
  let ?c = "canonicalPaths ps"
  have "\<not> insideAny p (set ?c)" if "p \<in> set ?c" for p
    using that insideAny_mono [of p "set ?c" "set ps"] by (auto simp: set_canonicalPaths)
  then have "set (canonicalPaths ?c) = set ?c" by (auto simp: set_canonicalPaths [of ?c])
  then show ?thesis
    using canonicalPaths_sorted_distinct by (metis sorted_distinct_set_unique)
qed

lemma sortedIDs_idem [simp]: "sortedIDs (sortedIDs ids) = sortedIDs ids"
  by (simp add: sortedIDs_def)

lemma set_sortedIDs [simp]: "set (sortedIDs ids) = set ids"
  by (simp add: sortedIDs_def)

lemma sortedIDs_Nil_iff [simp]: "sortedIDs ids = [] \<longleftrightarrow> ids = []"
  by (simp add: sortedIDs_def)

section \<open>Lock keys and resources\<close>

text \<open>What a job has exclusively while it runs, and the key text of each resource.\<close>

datatype resource = ResDest ident | ResPlexDB ident | ResIntegration ident | ResArrBackup ident
  | ResManifest ident | ResManifestBuild | ResSource ident

fun keyOf :: "resource \<Rightarrow> string" where
  "keyOf (ResDest i) = ''dest:'' @ formatInt i"
| "keyOf (ResPlexDB i) = ''plexdb:'' @ formatInt i"
| "keyOf (ResIntegration i) = ''integration:'' @ formatInt i"
| "keyOf (ResArrBackup i) = ''arrbackup:'' @ formatInt i"
| "keyOf (ResManifest i) = ''manifest:'' @ formatInt i"
| "keyOf ResManifestBuild = ''manifest-build''"
| "keyOf (ResSource i) = ''source:'' @ formatInt i"

fun resources :: "jobType \<Rightarrow> params \<Rightarrow> resource set" where
  "resources t p =
     (case t of
        TypeSync \<Rightarrow> if pDestinationID p \<noteq> 0 then {ResDest (pDestinationID p)} else {}
      | TypeVerify \<Rightarrow> if pDestinationID p \<noteq> 0 then {ResDest (pDestinationID p)} else {}
      | TypeRetention \<Rightarrow> if pDestinationID p \<noteq> 0 then {ResDest (pDestinationID p)} else {}
      | TypePlexDBBackup \<Rightarrow> if pIntegrationID p \<noteq> 0 then {ResPlexDB (pIntegrationID p)} else {}
      | TypeRefresh \<Rightarrow> if pIntegrationID p \<noteq> 0 then {ResIntegration (pIntegrationID p)} else {}
      | TypeArrBackup \<Rightarrow> if pIntegrationID p \<noteq> 0 then {ResArrBackup (pIntegrationID p)} else {}
      | TypeManifestExport \<Rightarrow>
          if pDestinationID p \<noteq> 0 then {ResManifest (pDestinationID p), ResManifestBuild} else {}
      | TypeScan \<Rightarrow> ResSource ` set (pSourceIDs p)
      | TypeOther _ \<Rightarrow> {})"

lemma formatNat_head: "\<exists>c cs. formatNat n = c # cs \<and> c \<noteq> CHR ''-''"
proof (induction n rule: formatNat.induct)
  case (1 n)
  have "char_of (48 + n) \<noteq> CHR ''-''" if "n < 10" for n :: nat
  proof
    assume "char_of (48 + n) = CHR ''-''"
    then have "(of_char (char_of (48 + n) :: char) :: nat) = of_char (CHR ''-'')" by simp
    with that show False by (simp add: of_char_mod_256)
  qed
  with 1 show ?case by (cases "n < 10") (auto simp: formatNat.simps [of n])
qed

lemma formatInt_inject: "formatInt a = formatInt b \<longleftrightarrow> a = b"
proof -
  have ne: "CHR ''-'' # s \<noteq> formatNat n" for s n using formatNat_head [of n] by auto
  have "a = b" if "formatInt a = formatInt b"
    using that ne ne [symmetric]
    by (auto simp: formatInt_def formatNat_inject eq_nat_nat_iff split: if_splits)
  then show ?thesis by blast
qed

lemma keyOf_inject: "keyOf r = keyOf r' \<longleftrightarrow> r = r'"
  by (cases r; cases r') (auto simp: formatInt_inject)

lemma set_LockKeys: "set (LockKeys t p) = keyOf ` resources t p"
  by (cases t) (auto simp: ManifestBuildKey_def image_image)

section \<open>Properties\<close>

text \<open>C22: the canonical path list of a targeted sync is sorted, lists each path once, contains
  no path inside another listed path, only lists requested paths, and loses none: every
  requested path is listed or lies inside a listed one.\<close>

theorem canonicalPaths_correct:
  assumes "\<forall>p \<in> set ps. ValidTargetPath p"
  shows "sorted (canonicalPaths ps) \<and> distinct (canonicalPaths ps)
    \<and> set (canonicalPaths ps) \<subseteq> set ps
    \<and> (\<forall>p \<in> set (canonicalPaths ps). \<forall>q \<in> set (canonicalPaths ps). \<not> insidePath p q)
    \<and> (\<forall>p \<in> set ps. p \<in> set (canonicalPaths ps) \<or> (\<exists>q \<in> set (canonicalPaths ps). insidePath p q))"
proof (intro conjI)
  show "sorted (canonicalPaths ps)" "distinct (canonicalPaths ps)"
    using canonicalPaths_sorted_distinct by blast+
  show "set (canonicalPaths ps) \<subseteq> set ps" by (auto simp: set_canonicalPaths)
  have anc: "q \<in> set (ancestors p) \<longleftrightarrow> insidePath p q" if "p \<in> set ps" "q \<in> set ps" for p q
    using that assms by (simp add: ancestors_insidePath)
  show "\<forall>p \<in> set (canonicalPaths ps). \<forall>q \<in> set (canonicalPaths ps). \<not> insidePath p q"
    using anc by (auto simp: set_canonicalPaths insideAny_def list_ex_iff)
  show "\<forall>p \<in> set ps. p \<in> set (canonicalPaths ps) \<or> (\<exists>q \<in> set (canonicalPaths ps). insidePath p q)"
    using insideAny_top anc by (fastforce simp: set_canonicalPaths)
qed

lemma ex_valid_paths: "ValidTargetPath ''Show'' \<and> ValidTargetPath ''Show/S1'' \<and> ValidTargetPath ''A''"
  by (simp add: ValidTargetPath_def pathClean_def cleanStep_def Let_def)

theorem canonicalPaths_correct_witness:
  "''Show/S1'' \<in> set (canonicalPaths [''Show/S1'', ''Show'', ''A''])
     \<or> (\<exists>q \<in> set (canonicalPaths [''Show/S1'', ''Show'', ''A'']). insidePath ''Show/S1'' q)"
  using canonicalPaths_correct [of "[''Show/S1'', ''Show'', ''A'']"] ex_valid_paths by simp

text \<open>C23: a valid target path stays inside its source: it is relative and none of its
  elements is empty, the current directory or the parent directory.\<close>

theorem ValidTargetPath_stays_inside:
  assumes "ValidTargetPath p"
  shows "hd p \<noteq> CHR ''/'' \<and> (\<forall>w \<in> set (splitSlash p). w \<noteq> [] \<and> w \<noteq> ''.'' \<and> w \<noteq> ''..'')"
  using ValidTargetPath_names [OF assms] assms by (auto simp: goodName_def ValidTargetPath_def)

theorem ValidTargetPath_stays_inside_witness:
  "hd ''Show/S1'' \<noteq> CHR ''/'' \<and> ''Show'' \<noteq> ''..''"
  using ValidTargetPath_stays_inside [of "''Show/S1''"] ex_valid_paths by auto

text \<open>Normalizing params is idempotent, so a stored job's params compare equal to the
  canonical form of an identical request.\<close>

theorem normalizeParams_idem: "normalizeParams (normalizeParams p) = normalizeParams p"
  by (simp add: normalizeParams_def canonicalPaths_idem)

text \<open>C24: two jobs share a lock key exactly when they share a resource (a destination's
  content, a Plex database, an integration's index or backups, a destination's manifests, the
  manifest builder, a source): different resources never collide in their key texts.\<close>

theorem LockKeys_share_iff:
  "set (LockKeys t p) \<inter> set (LockKeys t' p') \<noteq> {} \<longleftrightarrow> resources t p \<inter> resources t' p' \<noteq> {}"
proof -
  have "inj keyOf" by (rule injI) (simp add: keyOf_inject)
  then show ?thesis unfolding set_LockKeys by (metis image_Int image_is_empty)
qed

end
