(* ===== verification/JobStore.thy ===== *)
theory JobStore
  imports JobParams "HOL-Library.Product_Lexorder"
begin

text \<open>
  The job table and its state transitions (internal/jobqueue/store.go, coalesce.go, defer.go).
  A row of the table \<open>jobs\<close> is a record, the table a list of rows; an \<open>UPDATE ... WHERE\<close> is a
  map over the rows, \<open>ORDER BY\<close> a stable sort by the ordering columns.  Every operation is one
  write transaction of the code; a transaction that fails at the database leaves the store as it
  was, so only the outcomes of the code's own conditions are modelled.  Stored timestamps are
  UTC texts with nanoseconds that compare like the times they name, so the model keeps the times.
\<close>

section \<open>Rows\<close>

record job =
  jID :: ident
  jType :: jobType
  jStatus :: status
  jTrigger :: trigger
  jDryRun :: bool
  jParams :: params
  jDestinationID :: "ident option"
  jIntegrationID :: "ident option"
  jAttempt :: int
  jPlannedAt :: "gotime option"
  jProgress :: string
  jStats :: string
  jWarnings :: int
  jSummary :: string
  jError :: "string option"
  jQueuedAt :: gotime
  jStartedAt :: "gotime option"
  jFinishedAt :: "gotime option"
  jHeartbeatAt :: "gotime option"
  jNotBefore :: "gotime option"
  jDeferrals :: int
  jSupersededBy :: "ident option"

record logRow =
  lJobID :: ident
  lAt :: gotime
  lMessage :: string

record store =
  stJobs :: "job list"
  stLogs :: "logRow list"

datatype enqueueOutcome = outcomeCreated | outcomeExisting | outcomeCovered | outcomeMerged
  | outcomeOverflow

definition nullString :: "string \<Rightarrow> string option" where
  "nullString s = (if s = [] then None else Some s)"

definition nullInt :: "ident \<Rightarrow> ident option" where
  "nullInt v = (if v = 0 then None else Some v)"

text \<open>\<open>INTEGER PRIMARY KEY\<close>: one more than the largest id of the table.\<close>

definition nextRowID :: "ident list \<Rightarrow> ident" where
  "nextRowID ids = 1 + foldr max ids 0"

definition updateJobs :: "(job \<Rightarrow> bool) \<Rightarrow> (job \<Rightarrow> job) \<Rightarrow> store \<Rightarrow> store" where
  "updateJobs P f st = st\<lparr>stJobs := map (\<lambda>j. if P j then f j else j) (stJobs st)\<rparr>"

text \<open>\<open>UPDATE ... WHERE id = ? AND status = ?\<close>, reporting the changed row (\<open>RETURNING\<close>,
  \<open>RowsAffected\<close>).\<close>

definition updateRow :: "ident \<Rightarrow> status \<Rightarrow> (job \<Rightarrow> job) \<Rightarrow> store \<Rightarrow> job option \<times> store" where
  "updateRow i s f st =
     (let P = (\<lambda>j. jID j = i \<and> jStatus j = s)
      in (map_option f (find P (stJobs st)), updateJobs P f st))"

definition queueOrder :: "job list \<Rightarrow> job list" where
  "queueOrder = sort_key (\<lambda>j. (jQueuedAt j, jID j))"

definition idOrder :: "job list \<Rightarrow> job list" where
  "idOrder = sort_key jID"

text \<open>\<open>deferredCond\<close>: a queued row that waits for its transfer window.\<close>

definition deferredCond :: "job \<Rightarrow> bool" where
  "deferredCond j \<longleftrightarrow> jDeferrals j > 0 \<or> jNotBefore j \<noteq> None"

definition addLog :: "ident \<Rightarrow> gotime \<Rightarrow> string \<Rightarrow> store \<Rightarrow> store" where
  "addLog i at msg st = st\<lparr>stLogs := stLogs st @ [\<lparr>lJobID = i, lAt = at, lMessage = msg\<rparr>]\<rparr>"

definition GetJob :: "ident \<Rightarrow> store \<Rightarrow> job option" where
  "GetJob i st = find (\<lambda>j. jID j = i) (stJobs st)"

section \<open>Coalescing\<close>

definition coversSources :: "ident list \<Rightarrow> ident list \<Rightarrow> bool" where
  "coversSources have want \<longleftrightarrow>
     have = [] \<or> (want \<noteq> [] \<and> list_all (\<lambda>i. i \<in> set have) want)"

definition coversSpec :: "params \<Rightarrow> spec \<Rightarrow> bool" where
  "coversSpec q s \<longleftrightarrow>
     (if Targeted q \<or> (pAllowChanges (sParams s) \<and> \<not> pAllowChanges q) then False
      else (case sType s of
              TypeSync \<Rightarrow> pSourceIDs q = []
                \<or> (length (pSourceIDs (sParams s)) = 1 \<and> pSourceIDs (sParams s) ! 0 \<in> set (pSourceIDs q))
            | TypeRefresh \<Rightarrow> \<not> pSyncAfter (sParams s) \<or> pSyncAfter q
            | _ \<Rightarrow> False))"

definition withoutTargets :: "params \<Rightarrow> params" where
  "withoutTargets p = p\<lparr>pPaths := [], pArrItemIDs := []\<rparr>"

definition mergedParams :: "params \<Rightarrow> spec \<Rightarrow> params \<times> enqueueOutcome \<times> string" where
  "mergedParams p s =
     (case sType s of
        TypeSync \<Rightarrow>
          (let ps = canonicalPaths (pPaths p @ pPaths (sParams s))
           in if length ps > MaxTargetPaths
              then (p\<lparr>pPaths := []\<rparr>, outcomeOverflow,
                    ''More paths were merged into this queued sync than one sync takes (''
                    @ formatNat MaxTargetPaths @ ''): it syncs its whole source instead'')
              else (p\<lparr>pPaths := ps\<rparr>, outcomeMerged, []))
      | TypeRefresh \<Rightarrow>
          (let is = sortedIDs (pArrItemIDs p @ pArrItemIDs (sParams s))
           in if length is > MaxTargetItems
              then (p\<lparr>pArrItemIDs := []\<rparr>, outcomeOverflow,
                    ''More items were merged into this queued refresh than one refresh takes (''
                    @ formatNat MaxTargetItems @ ''): it refreshes the whole integration instead''
                    @ (if pSyncAfter p
                       then '', then queues a sync of every source the integration''
                            @ [CHR 0x27] @ ''s root folders are in'' else []))
              else (p\<lparr>pArrItemIDs := is\<rparr>, outcomeMerged, []))
      | _ \<Rightarrow> (p, outcomeMerged, []))"

text \<open>The row a merge returns is the candidate with the new params: it was read in the same
  transaction, so the conditional update finds it still queued.\<close>

definition mergeInto :: "job \<Rightarrow> spec \<Rightarrow> gotime \<Rightarrow> store \<Rightarrow> job \<times> enqueueOutcome \<times> store" where
  "mergeInto q s now st =
     (case mergedParams (jParams q) s of
        (p, out, msg) \<Rightarrow>
          if canonicalParams p = canonicalParams (jParams q) then (q, outcomeCovered, st)
          else (let f = (\<lambda>j. j\<lparr>jParams := canonicalParams p\<rparr>);
                    st1 = snd (updateRow (jID q) StatusQueued f st);
                    st2 = (if out = outcomeOverflow then addLog (jID q) now (msg @ ''.'') st1 else st1)
                in (f q, out, st2)))"

text \<open>The queued rows a targeted spec may be coalesced with, in queue order.\<close>

definition coalesceCandidates :: "spec \<Rightarrow> store \<Rightarrow> job list" where
  "coalesceCandidates s st =
     queueOrder (filter (\<lambda>j. jStatus j = StatusQueued \<and> jStartedAt j = None \<and> \<not> jDryRun j
         \<and> jDeferrals j = 0 \<and> jNotBefore j = None \<and> jType j = sType s
         \<and> (if sType s = TypeSync then jDestinationID j = Some (pDestinationID (sParams s))
            else jIntegrationID j = Some (pIntegrationID (sParams s)))) (stJobs st))"

definition coalesce :: "spec \<Rightarrow> gotime \<Rightarrow> store \<Rightarrow> (job \<times> enqueueOutcome \<times> store) option" where
  "coalesce s now st =
     (if sType s \<noteq> TypeSync \<and> sType s \<noteq> TypeRefresh then None
      else (let cands = coalesceCandidates s st
            in case find (\<lambda>c. coversSpec (jParams c) s) cands of
                 Some c \<Rightarrow> Some (c, outcomeCovered, st)
               | None \<Rightarrow>
                   (case find (\<lambda>c. Targeted (jParams c)
                       \<and> canonicalParams (withoutTargets (jParams c))
                         = canonicalParams (withoutTargets (sParams s))) cands of
                      Some c \<Rightarrow> Some (mergeInto c s now st)
                    | None \<Rightarrow> None)))"

section \<open>Creating a job\<close>

definition newJob :: "ident \<Rightarrow> spec \<Rightarrow> gotime \<Rightarrow> job" where
  "newJob i s now =
     \<lparr>jID = i, jType = sType s, jStatus = StatusQueued, jTrigger = sTrigger s, jDryRun = sDryRun s,
      jParams = canonicalParams (sParams s), jDestinationID = nullInt (pDestinationID (sParams s)),
      jIntegrationID = nullInt (pIntegrationID (sParams s)), jAttempt = 1, jPlannedAt = None,
      jProgress = ''{}'', jStats = ''{}'', jWarnings = 0, jSummary = [], jError = None,
      jQueuedAt = now, jStartedAt = None, jFinishedAt = None, jHeartbeatAt = None,
      jNotBefore = None, jDeferrals = 0, jSupersededBy = None\<rparr>"

definition insertJob :: "spec \<Rightarrow> gotime \<Rightarrow> store \<Rightarrow> job \<times> store" where
  "insertJob s now st =
     (let j = newJob (nextRowID (map jID (stJobs st))) s now
      in (j, st\<lparr>stJobs := stJobs st @ [j]\<rparr>))"

definition findIdentical :: "spec \<Rightarrow> store \<Rightarrow> job option" where
  "findIdentical s st =
     (let skipPlanned = (\<not> sDryRun s \<and> resumesStoredPlan (sType s))
      in find (\<lambda>j. jStatus j = StatusQueued \<and> jType j = sType s
           \<and> jParams j = canonicalParams (sParams s) \<and> jDryRun j = sDryRun s
           \<and> (\<not> skipPlanned \<or> jPlannedAt j = None) \<and> jDeferrals j = 0 \<and> jNotBefore j = None)
           (idOrder (stJobs st)))"

definition createJob :: "spec \<Rightarrow> gotime \<Rightarrow> store \<Rightarrow> paramError + job \<times> enqueueOutcome \<times> store" where
  "createJob s0 now st =
     (case normalizeSpec s0 of
        Inl e \<Rightarrow> Inl e
      | Inr s \<Rightarrow> Inr
          (case findIdentical s st of
             Some j \<Rightarrow> (j, outcomeExisting, st)
           | None \<Rightarrow>
               (case (if \<not> sDryRun s \<and> Targeted (sParams s) then coalesce s now st else None) of
                  Some r \<Rightarrow> r
                | None \<Rightarrow> (case insertJob s now st of (j, st') \<Rightarrow> (j, outcomeCreated, st')))))"

section \<open>State transitions\<close>

definition queuedJobs :: "nat \<Rightarrow> store \<Rightarrow> job list" where
  "queuedJobs limit st = take limit (queueOrder (filter (\<lambda>j. jStatus j = StatusQueued) (stJobs st)))"

definition markRunning :: "ident \<Rightarrow> gotime \<Rightarrow> store \<Rightarrow> job option \<times> store" where
  "markRunning i now =
     updateRow i StatusQueued (\<lambda>j. j\<lparr>jStatus := StatusRunning,
       jStartedAt := (if jStartedAt j = None then Some now else jStartedAt j),
       jHeartbeatAt := Some now, jNotBefore := None\<rparr>)"

definition saveProgress :: "ident \<Rightarrow> string \<Rightarrow> gotime \<Rightarrow> store \<Rightarrow> store" where
  "saveProgress i progress now st =
     snd (updateRow i StatusRunning (\<lambda>j. j\<lparr>jProgress := progress, jHeartbeatAt := Some now\<rparr>) st)"

record finalState =
  fStatus :: status
  fStats :: string
  fWarnings :: int
  fSummary :: string
  fErrText :: string
  fProgress :: string
  fAt :: gotime

definition finishJob :: "ident \<Rightarrow> finalState \<Rightarrow> store \<Rightarrow> bool \<times> store" where
  "finishJob i f st =
     (case updateRow i StatusRunning (\<lambda>j. j\<lparr>jStatus := fStatus f, jStats := fStats f,
             jWarnings := fWarnings f, jSummary := fSummary f, jError := nullString (fErrText f),
             jProgress := fProgress f, jFinishedAt := Some (fAt f), jHeartbeatAt := None\<rparr>) st of
        (r, st') \<Rightarrow> (r \<noteq> None, st'))"

definition requeue :: "ident \<Rightarrow> string \<Rightarrow> store \<Rightarrow> bool \<times> store" where
  "requeue i progress st =
     (case updateRow i StatusRunning (\<lambda>j. j\<lparr>jStatus := StatusQueued, jTrigger := TriggerResume,
             jProgress := progress, jHeartbeatAt := None\<rparr>) st of
        (r, st') \<Rightarrow> (r \<noteq> None, st'))"

definition finishQueued :: "ident \<Rightarrow> status \<Rightarrow> string \<Rightarrow> string \<Rightarrow> gotime \<Rightarrow> store \<Rightarrow> bool \<times> store" where
  "finishQueued i s errText summary now st =
     (case updateRow i StatusQueued (\<lambda>j. j\<lparr>jStatus := s, jError := nullString errText,
             jSummary := (if jDeferrals j > 0 \<and> s = StatusCancelled
                          then ''Cancelled while it waited for its transfer window.'' else summary),
             jFinishedAt := Some now, jNotBefore := None\<rparr>) st of
        (r, st') \<Rightarrow> (r \<noteq> None, st'))"

definition cancelQueued :: "ident \<Rightarrow> gotime \<Rightarrow> store \<Rightarrow> bool \<times> store" where
  "cancelQueued i now st =
     finishQueued i StatusCancelled [] ''Cancelled before it started.'' now st"

definition crashedText :: "int \<Rightarrow> string" where
  "crashedText attempt =
     ''crashed '' @ formatInt attempt @ (if attempt = 1 then '' time'' else '' times'')"

definition recoverCrashed :: "int \<Rightarrow> gotime \<Rightarrow> store \<Rightarrow> ident list \<times> ident list \<times> store" where
  "recoverCrashed maxAttempts now st =
     (let doomed = (\<lambda>j. jStatus j = StatusRunning \<and> jAttempt j + 1 > maxAttempts);
          failed = map jID (filter doomed (stJobs st));
          st1 = updateJobs doomed (\<lambda>j. j\<lparr>jStatus := StatusFailed,
                  jError := Some (crashedText (jAttempt j)), jFinishedAt := Some now,
                  jHeartbeatAt := None\<rparr>) st;
          left = (\<lambda>j. jStatus j = StatusRunning);
          requeued = map jID (filter left (stJobs st1));
          st2 = updateJobs left (\<lambda>j. j\<lparr>jStatus := StatusQueued, jTrigger := TriggerResume,
                  jAttempt := jAttempt j + 1, jHeartbeatAt := None\<rparr>) st1
      in (requeued, failed, st2))"

section \<open>Deferral\<close>

text \<open>The largest deferral count of the rows a job superseded (0 when it superseded none).\<close>

definition supersededDeferrals :: "ident \<Rightarrow> store \<Rightarrow> int" where
  "supersededDeferrals i st =
     (case map jDeferrals (filter (\<lambda>p. jSupersededBy p = Some i) (stJobs st)) of
        [] \<Rightarrow> 0 | d # ds \<Rightarrow> foldr max ds d)"

definition deferJob :: "ident \<Rightarrow> gotime \<Rightarrow> string \<Rightarrow> string \<Rightarrow> store \<Rightarrow> bool \<times> store" where
  "deferJob i until summary progress st =
     (case updateRow i StatusRunning (\<lambda>j. j\<lparr>jStatus := StatusQueued, jNotBefore := Some until,
             jDeferrals := max (jDeferrals j + 1) (supersededDeferrals i st),
             jSummary := summary, jProgress := progress, jHeartbeatAt := None\<rparr>) st of
        (r, st') \<Rightarrow> (r \<noteq> None, st'))"

definition hasDeferred :: "jobType \<Rightarrow> ident \<Rightarrow> store \<Rightarrow> bool" where
  "hasDeferred t dest st =
     list_ex (\<lambda>j. jStatus j = StatusQueued \<and> \<not> jDryRun j \<and> jType j = t
       \<and> jDestinationID j = Some dest \<and> deferredCond j) (stJobs st)"

text \<open>One candidate of \<open>supersedeDeferredSyncs\<close>.\<close>

definition supersedes :: "params \<Rightarrow> job \<Rightarrow> bool" where
  "supersedes p j \<longleftrightarrow> coversSources (pSourceIDs p) (sortedIDs (pSourceIDs (jParams j)))
     \<and> \<not> (pAllowChanges (jParams j) \<and> \<not> pAllowChanges p) \<and> \<not> pReleaseDemoted (jParams j)"

text \<open>The rows to supersede were read in the same transaction, so the conditional update finds
  each still queued (\<open>None\<close>, the error of an update without a row, does not arise).\<close>

definition supersedeOne :: "ident \<Rightarrow> string \<Rightarrow> gotime \<Rightarrow> ident \<Rightarrow> store \<Rightarrow> job option \<times> store" where
  "supersedeOne keep msg now i st =
     (case updateRow i StatusQueued (\<lambda>j. j\<lparr>jStatus := StatusCancelled, jSummary := msg @ ''.'',
             jFinishedAt := Some now, jNotBefore := None, jSupersededBy := Some keep\<rparr>) st of
        (r, st1) \<Rightarrow>
          (r, addLog i now msg
                (updateJobs (\<lambda>j. jSupersededBy j = Some i) (\<lambda>j. j\<lparr>jSupersededBy := Some keep\<rparr>) st1)))"

fun supersedeLoop :: "params \<Rightarrow> ident \<Rightarrow> string \<Rightarrow> gotime \<Rightarrow> job list \<Rightarrow> store \<Rightarrow> job list \<times> store" where
  "supersedeLoop p keep msg now [] st = ([], st)"
| "supersedeLoop p keep msg now (j # js) st =
     (if supersedes p j
      then (case supersedeOne keep msg now (jID j) st of
              (r, st1) \<Rightarrow>
                (case supersedeLoop p keep msg now js st1 of
                   (out, st2) \<Rightarrow> ((case r of None \<Rightarrow> out | Some d \<Rightarrow> d # out), st2)))
      else supersedeLoop p keep msg now js st)"

definition supersedeCandidates :: "params \<Rightarrow> ident \<Rightarrow> store \<Rightarrow> job list" where
  "supersedeCandidates p keep st =
     idOrder (filter (\<lambda>j. jStatus j = StatusQueued \<and> \<not> jDryRun j \<and> jType j = TypeSync
       \<and> jDestinationID j = Some (pDestinationID p) \<and> jID j \<noteq> keep \<and> deferredCond j) (stJobs st))"

definition supersedeDeferredSyncs ::
    "params \<Rightarrow> ident \<Rightarrow> string \<Rightarrow> gotime \<Rightarrow> store \<Rightarrow> job list \<times> store" where
  "supersedeDeferredSyncs p keep msg now st =
     supersedeLoop p keep msg now (supersedeCandidates p keep st) st"

section \<open>Queries of the scheduler and the delete guards\<close>

definition hasRunningCovering :: "jobType \<Rightarrow> params \<Rightarrow> store \<Rightarrow> bool" where
  "hasRunningCovering t p st =
     list_ex (\<lambda>j. jStatus j = StatusRunning \<and> \<not> jDryRun j \<and> jType j = t
       \<and> jDestinationID j = Some (pDestinationID p) \<and> pPaths (jParams j) = []
       \<and> coversSources (pSourceIDs (jParams j)) (sortedIDs (pSourceIDs p))) (stJobs st)"

definition hasRunning :: "jobType \<Rightarrow> params \<Rightarrow> store \<Rightarrow> bool" where
  "hasRunning t p st =
     (if (t = TypeSync \<or> t = TypeVerify) \<and> pDestinationID p \<noteq> 0 then hasRunningCovering t p st
      else list_ex (\<lambda>j. jStatus j = StatusRunning \<and> \<not> jDryRun j \<and> jType j = t
             \<and> jParams j = canonicalParams p) (stJobs st))"

definition activeStatus :: "status \<Rightarrow> bool" where
  "activeStatus s \<longleftrightarrow> s = StatusQueued \<or> s = StatusRunning"

definition ActiveForSource :: "ident \<Rightarrow> store \<Rightarrow> bool" where
  "ActiveForSource i st =
     list_ex (\<lambda>j. activeStatus (jStatus j) \<and> i \<in> set (pSourceIDs (jParams j))) (stJobs st)"

definition ActiveForIntegration :: "ident \<Rightarrow> store \<Rightarrow> bool" where
  "ActiveForIntegration i st =
     list_ex (\<lambda>j. activeStatus (jStatus j) \<and> jIntegrationID j = Some i) (stJobs st)"

definition ActiveForDestination :: "ident \<Rightarrow> store \<Rightarrow> bool" where
  "ActiveForDestination i st =
     list_ex (\<lambda>j. activeStatus (jStatus j) \<and> jDestinationID j = Some i) (stJobs st)"

definition activeTypes :: "jobType list" where
  "activeTypes = [TypeSync, TypeVerify, TypeRetention, TypePlexDBBackup, TypeArrBackup, TypeManifestExport]"

definition ActiveForDestinationAnyType :: "ident \<Rightarrow> store \<Rightarrow> bool" where
  "ActiveForDestinationAnyType i st =
     list_ex (\<lambda>j. jDestinationID j = Some i \<and> jType j \<in> set activeTypes
       \<and> (jStatus j = StatusRunning \<or> (jStatus j = StatusQueued \<and> deferredCond j))) (stJobs st)"

section \<open>Plan marker and history\<close>

text \<open>The plan marker of a job, set with the last batch of its items and cleared with them.\<close>

definition setPlannedAt :: "ident \<Rightarrow> gotime option \<Rightarrow> store \<Rightarrow> store" where
  "setPlannedAt i at st = updateJobs (\<lambda>j. jID j = i) (\<lambda>j. j\<lparr>jPlannedAt := at\<rparr>) st"

text \<open>\<open>PruneHistory\<close> deletes in batches, each its own transaction, until one deletes fewer rows
  than the batch holds.  With a batch of no rows the loop would not end.\<close>

definition defaultPruneBatch :: nat where
  "defaultPruneBatch = 5000"

definition oldJob :: "gotime \<Rightarrow> job \<Rightarrow> bool" where
  "oldJob cutoff j \<longleftrightarrow> \<not> activeStatus (jStatus j)
     \<and> (case jFinishedAt j of None \<Rightarrow> False | Some t \<Rightarrow> t < cutoff)"

fun deleteLimit :: "nat \<Rightarrow> ('a \<Rightarrow> bool) \<Rightarrow> 'a list \<Rightarrow> nat \<times> 'a list" where
  "deleteLimit n P [] = (0, [])"
| "deleteLimit n P (x # xs) =
     (if P x \<and> n > 0
      then (case deleteLimit (n - 1) P xs of (k, r) \<Rightarrow> (Suc k, r))
      else (case deleteLimit n P xs of (k, r) \<Rightarrow> (k, x # r)))"

partial_function (option) deleteBatches ::
    "nat \<Rightarrow> ('a \<Rightarrow> bool) \<Rightarrow> 'a list \<Rightarrow> nat \<Rightarrow> (nat \<times> 'a list) option" where
  "deleteBatches batch P xs cnt =
     (let d = deleteLimit batch P xs
      in if fst d < batch then Some (cnt + fst d, snd d)
         else deleteBatches batch P (snd d) (cnt + fst d))"

definition PruneHistory :: "nat \<Rightarrow> gotime \<Rightarrow> store \<Rightarrow> (nat \<times> store) option" where
  "PruneHistory batch cutoff st =
     (let old = (\<lambda>i. list_ex (\<lambda>j. jID j = i \<and> oldJob cutoff j) (stJobs st))
      in case deleteBatches batch (\<lambda>l. old (lJobID l)) (stLogs st) 0 of
           None \<Rightarrow> None
         | Some (_, logs) \<Rightarrow>
             (case deleteBatches batch (oldJob cutoff) (stJobs st) 0 of
                None \<Rightarrow> None
              | Some (n, jobs) \<Rightarrow> Some (n, \<lparr>stJobs = jobs, stLogs = logs\<rparr>)))"

section \<open>Steps of the store\<close>

text \<open>Every write of the store, with the conditions its callers guarantee (a final state is a
  final status).\<close>

inductive storeStep :: "store \<Rightarrow> store \<Rightarrow> bool" where
  create: "createJob s now st = Inr (j, out, st') \<Longrightarrow> storeStep st st'"
| start: "storeStep st (snd (markRunning i now st))"
| progress: "storeStep st (saveProgress i pr now st)"
| finish: "Final (fStatus f) \<Longrightarrow> storeStep st (snd (finishJob i f st))"
| requeue: "storeStep st (snd (requeue i pr st))"
| finishQueued: "Final s \<Longrightarrow> storeStep st (snd (finishQueued i s e summary now st))"
| recover: "storeStep st (snd (snd (recoverCrashed m now st)))"
| deferral: "storeStep st (snd (deferJob i until summary pr st))"
| supersede: "storeStep st (snd (supersedeDeferredSyncs p keep msg now st))"
| planned: "storeStep st (setPlannedAt i at st)"
| prune: "0 < batch \<Longrightarrow> PruneHistory batch cutoff st = Some (n, st') \<Longrightarrow> storeStep st st'"

inductive_cases storeStepE: "storeStep st st'"

section \<open>Invariant\<close>

definition rowOk :: "job \<Rightarrow> bool" where
  "rowOk j \<longleftrightarrow> 0 < jID j \<and> normalizeParams (jParams j) = jParams j
     \<and> jDestinationID j = nullInt (pDestinationID (jParams j))
     \<and> jIntegrationID j = nullInt (pIntegrationID (jParams j))
     \<and> length (pPaths (jParams j)) \<le> MaxTargetPaths
     \<and> length (pArrItemIDs (jParams j)) \<le> MaxTargetItems
     \<and> list_all ValidTargetPath (pPaths (jParams j))
     \<and> (pPaths (jParams j) \<noteq> [] \<longrightarrow> jType j = TypeSync \<and> length (pSourceIDs (jParams j)) = 1)
     \<and> (pArrItemIDs (jParams j) \<noteq> [] \<longrightarrow> jType j = TypeRefresh)
     \<and> (jNotBefore j \<noteq> None \<longrightarrow> jStatus j = StatusQueued \<and> 0 < jDeferrals j)
     \<and> (jFinishedAt j \<noteq> None \<longleftrightarrow> Final (jStatus j))
     \<and> (jHeartbeatAt j \<noteq> None \<longleftrightarrow> jStatus j = StatusRunning)
     \<and> (jStatus j = StatusRunning \<longrightarrow> jStartedAt j \<noteq> None)
     \<and> 1 \<le> jAttempt j \<and> 0 \<le> jDeferrals j"

definition storeOk :: "store \<Rightarrow> bool" where
  "storeOk st \<longleftrightarrow> distinct (map jID (stJobs st)) \<and> list_all rowOk (stJobs st)"

text \<open>What a job with some params does: the paths of a source it syncs, the items it refreshes.\<close>

definition syncsPath :: "params \<Rightarrow> ident \<Rightarrow> string \<Rightarrow> bool" where
  "syncsPath p src x \<longleftrightarrow> (pSourceIDs p = [] \<or> src \<in> set (pSourceIDs p))
     \<and> (pPaths p = [] \<or> (\<exists>q \<in> set (pPaths p). x = q \<or> insidePath x q))"

definition refreshesItem :: "params \<Rightarrow> ident \<Rightarrow> bool" where
  "refreshesItem p i \<longleftrightarrow> pArrItemIDs p = [] \<or> i \<in> set (pArrItemIDs p)"

text \<open>\<open>q\<close> does all that \<open>p\<close> asks for, with at least its permissions and follow-ups.\<close>

definition doesAll :: "jobType \<Rightarrow> params \<Rightarrow> params \<Rightarrow> bool" where
  "doesAll t q p \<longleftrightarrow>
     (case t of
        TypeSync \<Rightarrow> pDestinationID q = pDestinationID p
          \<and> (\<forall>src x. syncsPath p src x \<longrightarrow> syncsPath q src x)
          \<and> (pAllowChanges p \<longrightarrow> pAllowChanges q) \<and> (pReleaseDemoted p \<longrightarrow> pReleaseDemoted q)
      | TypeRefresh \<Rightarrow> pIntegrationID q = pIntegrationID p
          \<and> (\<forall>i. refreshesItem p i \<longrightarrow> refreshesItem q i)
          \<and> (pAllowChanges p \<longrightarrow> pAllowChanges q) \<and> (pSyncAfter p \<longrightarrow> pSyncAfter q)
      | _ \<Rightarrow> normalizeParams q = normalizeParams p)"

text \<open>How a row may change.  A finished row is frozen but for the bookkeeping of which job
  superseded it and its plan marker.\<close>

definition frozen :: "job \<Rightarrow> job \<Rightarrow> bool" where
  "frozen j j' \<longleftrightarrow> j' = j\<lparr>jSupersededBy := jSupersededBy j', jPlannedAt := jPlannedAt j'\<rparr>"

definition rowStep :: "job \<Rightarrow> job \<Rightarrow> bool" where
  "rowStep j j' \<longleftrightarrow> jID j' = jID j \<and> jType j' = jType j \<and> jDryRun j' = jDryRun j
     \<and> jQueuedAt j' = jQueuedAt j
     \<and> jDestinationID j' = jDestinationID j \<and> jIntegrationID j' = jIntegrationID j
     \<and> jAttempt j \<le> jAttempt j' \<and> jDeferrals j \<le> jDeferrals j'
     \<and> doesAll (jType j) (jParams j') (jParams j)
     \<and> (jStartedAt j \<noteq> None \<longrightarrow> jStartedAt j' = jStartedAt j \<and> jParams j' = jParams j)
     \<and> (jDeferrals j > 0 \<or> jDryRun j \<longrightarrow> jParams j' = jParams j)
     \<and> (Final (jStatus j) \<longrightarrow> frozen j j')"

lemma doesAll_refl [simp]: "doesAll t p p"
  by (simp add: doesAll_def split: jobType.split)

lemma doesAll_trans: "doesAll t r q \<Longrightarrow> doesAll t q p \<Longrightarrow> doesAll t r p"
  by (simp add: doesAll_def split: jobType.splits)

lemma frozen_refl [simp]: "frozen j j"
  by (simp add: frozen_def)

lemma rowStep_refl [simp]: "rowStep j j"
  by (simp add: rowStep_def)

lemma updateJobs_rows:
  "set (stJobs (updateJobs P f st)) = (\<lambda>j. if P j then f j else j) ` set (stJobs st)"
  by (simp add: updateJobs_def)

lemma updateJobs_ids:
  "(\<And>j. P j \<Longrightarrow> jID (f j) = jID j) \<Longrightarrow> map jID (stJobs (updateJobs P f st)) = map jID (stJobs st)"
  by (simp add: updateJobs_def)

lemma updateJobs_ok:
  assumes "storeOk st" and "\<And>j. j \<in> set (stJobs st) \<Longrightarrow> rowOk j \<Longrightarrow> P j \<Longrightarrow> rowOk (f j) \<and> jID (f j) = jID j"
  shows "storeOk (updateJobs P f st)"
proof -
  have "map jID (stJobs (updateJobs P f st)) = map jID (stJobs st)"
    using assms by (auto simp: updateJobs_def storeOk_def list_all_iff)
  then show ?thesis
    using assms by (auto simp: storeOk_def list_all_iff updateJobs_rows)
qed

lemma addLog_jobs [simp]: "stJobs (addLog i at msg st) = stJobs st"
  by (simp add: addLog_def)

lemma snd_updateRow: "snd (updateRow i s f st) = updateJobs (\<lambda>j. jID j = i \<and> jStatus j = s) f st"
  by (simp add: updateRow_def Let_def)

lemma storeOk_addLog [simp]: "storeOk (addLog i at msg st) = storeOk st"
  by (simp add: storeOk_def)

section \<open>Requests and rows\<close>

lemma insidePath_trans: "insidePath x p \<Longrightarrow> insidePath p q \<Longrightarrow> insidePath x q"
  by (auto simp: insidePath_def)

lemma canonicalPaths_cover:
  assumes "\<forall>p \<in> set ps. ValidTargetPath p" and "p \<in> set ps" and "x = p \<or> insidePath x p"
  shows "\<exists>q \<in> set (canonicalPaths ps). x = q \<or> insidePath x q"
proof (cases "insideAny p (set ps)")
  case False
  with assms show ?thesis by (auto simp: set_canonicalPaths)
next
  case True
  then obtain q where q: "q \<in> set ps" "q \<in> set (ancestors p)" "\<not> insideAny q (set ps)"
    using insideAny_top by blast
  then have "insidePath p q" using assms ancestors_insidePath by blast
  with q assms(3) show ?thesis by (auto simp: set_canonicalPaths intro: insidePath_trans)
qed

lemma canonicalPaths_Nil_iff: "canonicalPaths ps = [] \<longleftrightarrow> ps = []"
proof
  assume c: "canonicalPaths ps = []"
  show "ps = []"
  proof (rule ccontr)
    assume "ps \<noteq> []"
    then have p: "hd ps \<in> set ps" by simp
    then have "\<exists>q. q \<in> set ps \<and> \<not> insideAny q (set ps)"
      using insideAny_top [of "hd ps" "set ps"] by (cases "insideAny (hd ps) (set ps)") blast+
    then obtain q where "q \<in> set ps \<and> \<not> insideAny q (set ps)" ..
    then have "q \<in> set (canonicalPaths ps)" by (simp add: set_canonicalPaths)
    with c show False by simp
  qed
qed (simp add: canonicalPaths_def)

lemma syncsPath_merge:
  assumes "\<forall>p \<in> set ps. ValidTargetPath p" and "set (pPaths p) \<subseteq> set ps" and "pPaths p \<noteq> []"
    and "syncsPath p src x" and "pSourceIDs q = pSourceIDs p \<or> set (pSourceIDs q) = set (pSourceIDs p)"
    and "pPaths q = canonicalPaths ps"
  shows "syncsPath q src x"
proof -
  obtain y where y: "y \<in> set (pPaths p)" "x = y \<or> insidePath x y"
    using assms(3,4) unfolding syncsPath_def by blast
  have "y \<in> set ps" using y(1) assms(2) by blast
  then have c: "\<exists>q \<in> set (canonicalPaths ps). x = q \<or> insidePath x q"
    by (rule canonicalPaths_cover [OF assms(1) _ y(2)])
  have "pSourceIDs q = [] \<or> src \<in> set (pSourceIDs q)"
    using assms(4,5) unfolding syncsPath_def by (metis set_empty)
  with c show ?thesis unfolding syncsPath_def assms(6) by simp
qed

lemma refreshesItem_merge:
  "pArrItemIDs p \<noteq> [] \<Longrightarrow> refreshesItem p i \<Longrightarrow> set (pArrItemIDs p) \<subseteq> set is
   \<Longrightarrow> pArrItemIDs q = sortedIDs is \<Longrightarrow> refreshesItem q i"
  by (auto simp: refreshesItem_def)

lemma doesAll_normalize:
  assumes "\<forall>x \<in> set (pPaths p). ValidTargetPath x"
  shows "doesAll t (normalizeParams p) p"
proof -
  have "syncsPath (normalizeParams p) src x" if "syncsPath p src x" for src x
  proof (cases "pPaths p = []")
    case True
    with that show ?thesis by (auto simp: syncsPath_def normalizeParams_def canonicalPaths_def)
  next
    case False
    show ?thesis
      by (rule syncsPath_merge [OF assms order_refl False that]) (simp_all add: normalizeParams_def)
  qed
  moreover have "refreshesItem (normalizeParams p) i" if "refreshesItem p i" for i
    using that by (auto simp: refreshesItem_def normalizeParams_def)
  moreover have "normalizeParams (normalizeParams p) = normalizeParams p"
    by (simp add: normalizeParams_def canonicalPaths_idem)
  ultimately show ?thesis by (simp add: doesAll_def normalizeParams_def split: jobType.split)
qed

text \<open>What a validated spec guarantees.\<close>

definition specOk :: "spec \<Rightarrow> bool" where
  "specOk s \<longleftrightarrow> normalizeParams (sParams s) = sParams s
     \<and> length (pPaths (sParams s)) \<le> MaxTargetPaths
     \<and> length (pArrItemIDs (sParams s)) \<le> MaxTargetItems
     \<and> list_all ValidTargetPath (pPaths (sParams s))
     \<and> (pPaths (sParams s) \<noteq> [] \<longrightarrow> sType s = TypeSync \<and> length (pSourceIDs (sParams s)) = 1
           \<and> \<not> pReleaseDemoted (sParams s))
     \<and> (pArrItemIDs (sParams s) \<noteq> [] \<longrightarrow> sType s = TypeRefresh)"

lemma validateParams_facts:
  assumes "validateParams t p d = Inr u"
  shows "pPaths p \<noteq> [] \<longrightarrow> t = TypeSync" "pArrItemIDs p \<noteq> [] \<longrightarrow> t = TypeRefresh"
    "t = TypeSync \<longrightarrow> validateSyncTargets p d = Inr ()"
    "t = TypeRefresh \<longrightarrow> length (sortedIDs (pArrItemIDs p)) \<le> MaxTargetItems"
  using assms by (auto simp: validateParams_def split: if_splits jobType.splits)

lemma validateSyncTargets_facts:
  assumes "validateSyncTargets p d = Inr u"
  shows "\<forall>x \<in> set (pPaths p). ValidTargetPath x" "length (canonicalPaths (pPaths p)) \<le> MaxTargetPaths"
    "pPaths p \<noteq> [] \<longrightarrow> length (sortedIDs (pSourceIDs p)) = 1 \<and> \<not> pReleaseDemoted p"
  using assms by (auto simp: validateSyncTargets_def find_None_iff split: if_splits option.splits)

lemma normalizeSpec_facts:
  assumes "normalizeSpec s0 = Inr s"
  shows "specOk s" "sType s = sType s0" "sDryRun s = sDryRun s0"
    "sParams s = normalizeParams (sParams s0)" "\<forall>x \<in> set (pPaths (sParams s0)). ValidTargetPath x"
proof -
  from assms obtain u where v: "validateParams (sType s0) (sParams s0) (sDryRun s0) = Inr u"
    and s: "sType s = sType s0" "sDryRun s = sDryRun s0" "sParams s = normalizeParams (sParams s0)"
    by (auto simp: normalizeSpec_def Let_def split: if_splits sum.splits)
  note vf = validateParams_facts [OF v]
  show valid: "\<forall>x \<in> set (pPaths (sParams s0)). ValidTargetPath x"
    using vf(1,3) validateSyncTargets_facts(1) by (cases "pPaths (sParams s0) = []") auto
  have cp: "length (canonicalPaths (pPaths (sParams s0))) \<le> MaxTargetPaths"
    using vf(1,3) validateSyncTargets_facts(2) [of "sParams s0" "sDryRun s0"]
    by (cases "pPaths (sParams s0) = []") (simp_all add: canonicalPaths_def)
  have it: "length (sortedIDs (pArrItemIDs (sParams s0))) \<le> MaxTargetItems"
    using vf(2,4) by (cases "pArrItemIDs (sParams s0) = []") (auto simp: sortedIDs_def)
  have "normalizeParams (sParams s) = sParams s"
    by (simp add: s normalizeParams_def canonicalPaths_idem)
  then show "specOk s"
    using cp it vf valid validateSyncTargets_facts(3)
    by (auto simp: specOk_def s normalizeParams_def list_all_iff set_canonicalPaths canonicalPaths_Nil_iff)
qed (use assms in \<open>auto simp: normalizeSpec_def Let_def split: if_splits sum.splits\<close>)

section \<open>Every step keeps the invariant and evolves rows\<close>

definition evolves :: "store \<Rightarrow> store \<Rightarrow> bool" where
  "evolves st st' \<longleftrightarrow> (\<forall>j' \<in> set (stJobs st').
     (\<exists>j \<in> set (stJobs st). rowStep j j')
     \<or> (jID j' \<notin> jID ` set (stJobs st) \<and> jStatus j' = StatusQueued \<and> jStartedAt j' = None))"

text \<open>An update of rows is good when it keeps good rows good and takes them along \<open>rowStep\<close>.\<close>

definition goodUpdate :: "store \<Rightarrow> (job \<Rightarrow> bool) \<Rightarrow> (job \<Rightarrow> job) \<Rightarrow> bool" where
  "goodUpdate st P f \<longleftrightarrow>
     (\<forall>j \<in> set (stJobs st). rowOk j \<and> P j \<longrightarrow> rowOk (f j) \<and> rowStep j (f j))"

text \<open>Every row of the new store is the successor of one of the old.\<close>

definition rowsFrom :: "store \<Rightarrow> store \<Rightarrow> bool" where
  "rowsFrom st st' \<longleftrightarrow> storeOk st' \<and> (\<forall>j' \<in> set (stJobs st'). \<exists>j \<in> set (stJobs st). rowStep j j')"

lemma rowsFrom_refl: "storeOk st \<Longrightarrow> rowsFrom st st"
  unfolding rowsFrom_def using rowStep_refl by blast

lemma rowsFrom_good: "rowsFrom st st' \<Longrightarrow> storeOk st' \<and> evolves st st'"
  by (auto simp: rowsFrom_def evolves_def)

lemma updateJobs_rowsFrom:
  assumes "storeOk st" and "goodUpdate st P f"
  shows "rowsFrom st (updateJobs P f st)"
  unfolding rowsFrom_def
proof
  show "storeOk (updateJobs P f st)"
    using assms by (intro updateJobs_ok) (auto simp: goodUpdate_def rowStep_def)
  show "\<forall>j' \<in> set (stJobs (updateJobs P f st)). \<exists>j \<in> set (stJobs st). rowStep j j'"
    using assms
    by (auto simp: updateJobs_rows goodUpdate_def storeOk_def list_all_iff intro: rowStep_refl)
qed

lemmas goodUpdate_step = updateJobs_rowsFrom [THEN rowsFrom_good]

lemma Final_iff [simp]: "\<not> Final StatusQueued" "\<not> Final StatusRunning" "Final StatusCompleted"
  "Final StatusCompletedWithWarnings" "Final StatusFailed" "Final StatusCancelled"
  by (simp_all add: Final_def)

lemma markRunning_good: "storeOk st \<Longrightarrow>
  storeOk (snd (markRunning i now st)) \<and> evolves st (snd (markRunning i now st))"
  unfolding markRunning_def snd_updateRow
  by (rule goodUpdate_step) (auto simp: goodUpdate_def rowOk_def rowStep_def)

lemma saveProgress_good: "storeOk st \<Longrightarrow>
  storeOk (saveProgress i pr now st) \<and> evolves st (saveProgress i pr now st)"
  unfolding saveProgress_def snd_updateRow
  by (rule goodUpdate_step) (auto simp: goodUpdate_def rowOk_def rowStep_def)

lemma finishJob_good: "storeOk st \<Longrightarrow> Final (fStatus f) \<Longrightarrow>
  storeOk (snd (finishJob i f st)) \<and> evolves st (snd (finishJob i f st))"
  unfolding finishJob_def split_def snd_conv snd_updateRow
  by (rule goodUpdate_step) (auto simp: goodUpdate_def rowOk_def rowStep_def)

lemma requeue_good: "storeOk st \<Longrightarrow>
  storeOk (snd (requeue i pr st)) \<and> evolves st (snd (requeue i pr st))"
  unfolding requeue_def split_def snd_conv snd_updateRow
  by (rule goodUpdate_step) (auto simp: goodUpdate_def rowOk_def rowStep_def)

lemma finishQueued_good: "storeOk st \<Longrightarrow> Final s \<Longrightarrow>
  storeOk (snd (finishQueued i s e summary now st)) \<and> evolves st (snd (finishQueued i s e summary now st))"
  unfolding finishQueued_def split_def snd_conv snd_updateRow
  by (rule goodUpdate_step) (auto simp: goodUpdate_def rowOk_def rowStep_def)

lemma deferJob_good: "storeOk st \<Longrightarrow>
  storeOk (snd (deferJob i until summary pr st)) \<and> evolves st (snd (deferJob i until summary pr st))"
  unfolding deferJob_def split_def snd_conv snd_updateRow
  by (rule goodUpdate_step) (auto simp: goodUpdate_def rowOk_def rowStep_def)

lemma setPlannedAt_good: "storeOk st \<Longrightarrow>
  storeOk (setPlannedAt i at st) \<and> evolves st (setPlannedAt i at st)"
  unfolding setPlannedAt_def
  by (rule goodUpdate_step) (auto simp: goodUpdate_def rowOk_def rowStep_def frozen_def)

lemma rowStep_trans:
  assumes "rowStep a b" and "rowStep b c"
  shows "rowStep a c"
proof -
  have "doesAll (jType a) (jParams c) (jParams a)"
    using assms doesAll_trans unfolding rowStep_def by metis
  moreover have "frozen a c" if "Final (jStatus a)"
  proof -
    have b: "b = a\<lparr>jSupersededBy := jSupersededBy b, jPlannedAt := jPlannedAt b\<rparr>"
      using assms(1) that by (simp add: rowStep_def frozen_def)
    have "jStatus b = jStatus a" by (subst b) simp
    then have c: "c = b\<lparr>jSupersededBy := jSupersededBy c, jPlannedAt := jPlannedAt c\<rparr>"
      using assms(2) that by (simp add: rowStep_def frozen_def)
    show ?thesis unfolding frozen_def by (subst c, subst b) simp
  qed
  ultimately show ?thesis using assms unfolding rowStep_def by auto
qed

lemma rowsFrom_trans:
  assumes "rowsFrom st st1" and "rowsFrom st1 st2"
  shows "rowsFrom st st2"
  unfolding rowsFrom_def
proof
  show "\<forall>j' \<in> set (stJobs st2). \<exists>j \<in> set (stJobs st). rowStep j j'"
    using assms rowStep_trans unfolding rowsFrom_def by meson
qed (use assms in \<open>simp add: rowsFrom_def\<close>)

lemma updateJobs_twice:
  assumes "storeOk st" and "goodUpdate st P f" and "goodUpdate (updateJobs P f st) Q g"
  shows "rowsFrom st (updateJobs Q g (updateJobs P f st))"
proof -
  have 1: "rowsFrom st (updateJobs P f st)" using assms(1,2) by (rule updateJobs_rowsFrom)
  then have "storeOk (updateJobs P f st)" by (simp add: rowsFrom_def)
  then show ?thesis using rowsFrom_trans [OF 1] updateJobs_rowsFrom [OF _ assms(3)] by blast
qed

lemma recoverCrashed_good: "storeOk st \<Longrightarrow>
  storeOk (snd (snd (recoverCrashed m now st))) \<and> evolves st (snd (snd (recoverCrashed m now st)))"
  unfolding recoverCrashed_def Let_def snd_conv
  by (rule rowsFrom_good, rule updateJobs_twice) (auto simp: goodUpdate_def rowOk_def rowStep_def)

lemma supersedeOne_rowsFrom:
  assumes "storeOk st"
  shows "rowsFrom st (snd (supersedeOne keep msg now i st))"
proof -
  have "rowsFrom st (updateJobs (\<lambda>j. jSupersededBy j = Some i) (\<lambda>j. j\<lparr>jSupersededBy := Some keep\<rparr>)
          (updateJobs (\<lambda>j. jID j = i \<and> jStatus j = StatusQueued)
            (\<lambda>j. j\<lparr>jStatus := StatusCancelled, jSummary := msg @ ''.'',
             jFinishedAt := Some now, jNotBefore := None, jSupersededBy := Some keep\<rparr>) st))"
    by (rule updateJobs_twice [OF assms])
      (auto simp: goodUpdate_def rowOk_def rowStep_def frozen_def)
  then show ?thesis
    by (simp add: supersedeOne_def split_def snd_updateRow rowsFrom_def)
qed

lemma supersedeLoop_rowsFrom:
  "storeOk st \<Longrightarrow> rowsFrom st (snd (supersedeLoop p keep msg now js st))"
proof (induction js arbitrary: st)
  case Nil
  then show ?case by (simp add: rowsFrom_refl)
next
  case (Cons j js)
  have 1: "rowsFrom st (snd (supersedeOne keep msg now (jID j) st))"
    using Cons.prems by (rule supersedeOne_rowsFrom)
  then have "storeOk (snd (supersedeOne keep msg now (jID j) st))" by (simp add: rowsFrom_def)
  from rowsFrom_trans [OF 1 Cons.IH [OF this]] Cons.IH [OF Cons.prems]
  show ?case by (simp add: split_def)
qed

section \<open>Batched deletion\<close>

lemma deleteLimit_le: "fst (deleteLimit n P xs) \<le> n"
  by (induction n P xs rule: deleteLimit.induct) (auto simp: split_def)

lemma deleteLimit_spec:
  "(\<forall>x. P x \<longrightarrow> x \<notin> set (snd (deleteLimit n P xs))) \<or> fst (deleteLimit n P xs) = n"
  "filter (\<lambda>x. \<not> P x) (snd (deleteLimit n P xs)) = filter (\<lambda>x. \<not> P x) xs"
  "length (snd (deleteLimit n P xs)) + fst (deleteLimit n P xs) = length xs"
  using deleteLimit_le [of 0 P]
  by (induction n P xs rule: deleteLimit.induct) (auto simp: split_def)

lemma deleteBatches_eq:
  assumes "0 < batch"
  shows "deleteBatches batch P xs k = Some (k + length (filter P xs), filter (\<lambda>x. \<not> P x) xs)"
proof (induction xs arbitrary: k rule: length_induct)
  case (1 xs)
  define d where "d = deleteLimit batch P xs"
  have d: "filter (\<lambda>x. \<not> P x) (snd d) = filter (\<lambda>x. \<not> P x) xs"
      "length (snd d) + fst d = length xs" "fst d \<le> batch"
      "(\<forall>x. P x \<longrightarrow> x \<notin> set (snd d)) \<or> fst d = batch"
    using deleteLimit_spec [where P = P and n = batch and xs = xs] deleteLimit_le [of batch P xs] by (auto simp: d_def)
  have split: "length (filter P ys) + length (filter (\<lambda>x. \<not> P x) ys) = length ys" for ys
    by (rule sum_length_filter_compl)
  have n: "length (filter P (snd d)) + fst d = length (filter P xs)"
    using split [of xs] split [of "snd d"] d by simp
  show ?case
  proof (cases "fst d < batch")
    case True
    then have "\<forall>x \<in> set (snd d). \<not> P x" using d(4) by auto
    then have "filter (\<lambda>x. \<not> P x) (snd d) = snd d" "filter P (snd d) = []"
      by (simp_all add: filter_id_conv filter_empty_conv)
    with True n d show ?thesis
      by (subst deleteBatches.simps) (simp add: d_def [symmetric] Let_def)
  next
    case False
    then have "length (snd d) < length xs" using d assms by simp
    then have "deleteBatches batch P (snd d) (k + fst d)
        = Some (k + fst d + length (filter P (snd d)), filter (\<lambda>x. \<not> P x) (snd d))"
      using 1 by blast
    with False n d show ?thesis
      by (subst deleteBatches.simps) (simp add: d_def [symmetric] Let_def)
  qed
qed

lemma PruneHistory_eq:
  assumes "0 < batch"
  shows "PruneHistory batch cutoff st = Some (length (filter (oldJob cutoff) (stJobs st)),
    \<lparr>stJobs = filter (\<lambda>j. \<not> oldJob cutoff j) (stJobs st),
     stLogs = filter (\<lambda>l. \<not> list_ex (\<lambda>j. jID j = lJobID l \<and> oldJob cutoff j) (stJobs st)) (stLogs st)\<rparr>)"
  by (simp add: PruneHistory_def Let_def deleteBatches_eq [OF assms])

lemma PruneHistory_rowsFrom:
  assumes "storeOk st" and "0 < batch" and "PruneHistory batch cutoff st = Some (n, st')"
  shows "rowsFrom st st'"
proof -
  from PruneHistory_eq [OF assms(2)] assms(3)
  have st': "stJobs st' = filter (\<lambda>j. \<not> oldJob cutoff j) (stJobs st)" by auto
  have "storeOk st'" using assms(1) by (auto simp: storeOk_def list_all_iff distinct_map_filter st')
  moreover have "\<exists>j \<in> set (stJobs st). rowStep j j'" if "j' \<in> set (stJobs st')" for j'
    using that st' by (intro bexI [of _ j']) auto
  ultimately show ?thesis by (simp add: rowsFrom_def)
qed

section \<open>Creating and coalescing\<close>

lemma set_queueOrder [simp]: "set (queueOrder js) = set js"
  by (simp add: queueOrder_def)

lemma set_idOrder [simp]: "set (idOrder js) = set js"
  by (simp add: idOrder_def)

lemma foldr_max_ge: "(i :: int) \<in> set is \<Longrightarrow> i \<le> foldr max is b"
  by (induction "is") auto

lemma foldr_max_base: "(b :: int) \<le> foldr max is b"
  by (induction "is") auto

lemma nextRowID_fresh: "nextRowID ids \<notin> set ids" "0 < nextRowID ids"
  using foldr_max_ge [of "nextRowID ids" ids 0] foldr_max_base [of 0 ids]
  by (auto simp: nextRowID_def)

lemma newJob_ok:
  assumes "specOk s" and "0 < i"
  shows "rowOk (newJob i s now)"
  using assms by (auto simp: rowOk_def newJob_def specOk_def canonicalParams_def)

text \<open>What a request's answer guarantees: a queued job of its type that does all it asks for.\<close>

definition answers :: "spec \<Rightarrow> job \<Rightarrow> store \<Rightarrow> bool" where
  "answers s j st \<longleftrightarrow> j \<in> set (stJobs st) \<and> jStatus j = StatusQueued \<and> jType j = sType s
     \<and> jDryRun j = sDryRun s \<and> jDeferrals j = 0 \<and> doesAll (sType s) (jParams j) (sParams s)"

lemma insertJob_good:
  assumes "storeOk st" and "specOk s" and "insertJob s now st = (j, st')"
  shows "storeOk st' \<and> evolves st st' \<and> answers s j st'"
proof -
  let ?i = "nextRowID (map jID (stJobs st))"
  have j: "j = newJob ?i s now" "stJobs st' = stJobs st @ [j]"
    using assms(3) by (auto simp: insertJob_def Let_def)
  have i: "?i \<notin> jID ` set (stJobs st)" "0 < ?i"
    using nextRowID_fresh [of "map jID (stJobs st)"] by auto
  have ji: "jID j = ?i" "jStatus j = StatusQueued" "jStartedAt j = None" "jType j = sType s"
    "jDryRun j = sDryRun s" "jDeferrals j = 0" "jParams j = sParams s"
    using assms(2) by (simp_all add: j newJob_def specOk_def canonicalParams_def)
  have "rowOk j" using newJob_ok [OF assms(2) i(2)] j by simp
  then have "storeOk st'" using assms(1) i by (auto simp: storeOk_def j(2) ji)
  moreover have "evolves st st'"
    unfolding evolves_def
  proof
    fix j' assume "j' \<in> set (stJobs st')"
    then consider "j' \<in> set (stJobs st)" | "j' = j" using j(2) by auto
    then show "(\<exists>j \<in> set (stJobs st). rowStep j j')
        \<or> (jID j' \<notin> jID ` set (stJobs st) \<and> jStatus j' = StatusQueued \<and> jStartedAt j' = None)"
      by cases (use rowStep_refl ji i in \<open>blast, simp\<close>)
  qed
  moreover have "answers s j st'" by (simp add: answers_def j(2) ji)
  ultimately show ?thesis by blast
qed

lemma coalesceCandidates_facts:
  assumes "c \<in> set (coalesceCandidates s st)" and "storeOk st"
  shows "c \<in> set (stJobs st)" "rowOk c" "jStatus c = StatusQueued" "jStartedAt c = None" "\<not> jDryRun c"
    "jDeferrals c = 0" "jType c = sType s"
    "sType s = TypeSync \<longrightarrow> pDestinationID (jParams c) = pDestinationID (sParams s)"
    "sType s = TypeRefresh \<longrightarrow> pIntegrationID (jParams c) = pIntegrationID (sParams s)"
proof -
  have sel: "c \<in> set (stJobs st) \<and> jStatus c = StatusQueued \<and> jStartedAt c = None \<and> \<not> jDryRun c
      \<and> jDeferrals c = 0 \<and> jType c = sType s
      \<and> (if sType s = TypeSync then jDestinationID c = Some (pDestinationID (sParams s))
         else jIntegrationID c = Some (pIntegrationID (sParams s)))"
    using assms(1) by (simp add: coalesceCandidates_def)
  then show ok: "rowOk c" using assms(2) by (simp add: storeOk_def list_all_iff)
  from sel show "c \<in> set (stJobs st)" "jStatus c = StatusQueued" "jStartedAt c = None" "\<not> jDryRun c"
    "jDeferrals c = 0" "jType c = sType s" by blast+
  from ok have "jDestinationID c = nullInt (pDestinationID (jParams c))"
    "jIntegrationID c = nullInt (pIntegrationID (jParams c))" by (simp_all add: rowOk_def)
  with sel show "sType s = TypeSync \<longrightarrow> pDestinationID (jParams c) = pDestinationID (sParams s)"
    "sType s = TypeRefresh \<longrightarrow> pIntegrationID (jParams c) = pIntegrationID (sParams s)"
    by (auto simp: nullInt_def split: if_splits)
qed

lemma coversSpec_doesAll:
  assumes "coversSpec (jParams c) s" and "specOk s" and "Targeted (sParams s)"
    and "sType s = TypeSync \<longrightarrow> pDestinationID (jParams c) = pDestinationID (sParams s)"
    and "sType s = TypeRefresh \<longrightarrow> pIntegrationID (jParams c) = pIntegrationID (sParams s)"
  shows "doesAll (sType s) (jParams c) (sParams s)"
proof -
  consider (sync) "sType s = TypeSync" | (refresh) "sType s = TypeRefresh"
    using assms(1) by (auto simp: coversSpec_def split: if_splits jobType.splits)
  then show ?thesis
  proof cases
    case sync
    then have "pPaths (sParams s) \<noteq> []" using assms(2,3) by (auto simp: specOk_def Targeted_def)
    then have r: "length (pSourceIDs (sParams s)) = 1" "\<not> pReleaseDemoted (sParams s)"
      using assms(2) by (auto simp: specOk_def)
    have nt: "pPaths (jParams c) = []" "pAllowChanges (sParams s) \<longrightarrow> pAllowChanges (jParams c)"
      "pSourceIDs (jParams c) = [] \<or> pSourceIDs (sParams s) ! 0 \<in> set (pSourceIDs (jParams c))"
      using assms(1) sync by (auto simp: coversSpec_def Targeted_def split: if_splits)
    have "pSourceIDs (sParams s) = [pSourceIDs (sParams s) ! 0]"
      using r(1) by (cases "pSourceIDs (sParams s)") auto
    then have "set (pSourceIDs (sParams s)) = {pSourceIDs (sParams s) ! 0}"
      by (metis list.set(1) list.set(2))
    then show ?thesis
      using sync r nt assms(4) by (auto simp: doesAll_def syncsPath_def)
  next
    case refresh
    then show ?thesis
      using assms by (auto simp: doesAll_def coversSpec_def Targeted_def refreshesItem_def split: if_splits)
  qed
qed

lemma sameRest:
  assumes "canonicalParams (withoutTargets p) = canonicalParams (withoutTargets q)"
    and "normalizeParams p = p" and "normalizeParams q = q"
  shows "q = p\<lparr>pPaths := pPaths q, pArrItemIDs := pArrItemIDs q\<rparr>"
proof -
  have src: "sortedIDs (pSourceIDs r) = pSourceIDs r" if "normalizeParams r = r" for r
    using arg_cong [OF that, of pSourceIDs] by (simp add: normalizeParams_def)
  have w: "canonicalParams (withoutTargets r) = r\<lparr>pPaths := [], pArrItemIDs := []\<rparr>" if "normalizeParams r = r" for r
    by (simp add: canonicalParams_def withoutTargets_def normalizeParams_def canonicalPaths_def
        sortedIDs_def [of "[]"] src [OF that])
  have "p\<lparr>pPaths := [], pArrItemIDs := []\<rparr> = q\<lparr>pPaths := [], pArrItemIDs := []\<rparr>"
    using assms w by simp
  then show ?thesis by (cases p, cases q) simp
qed

lemma normalized_parts:
  assumes "normalizeParams p = p"
  shows "sortedIDs (pSourceIDs p) = pSourceIDs p" "sortedIDs (pArrItemIDs p) = pArrItemIDs p"
    "canonicalPaths (pPaths p) = pPaths p"
  using arg_cong [OF assms, of pSourceIDs] arg_cong [OF assms, of pArrItemIDs]
    arg_cong [OF assms, of pPaths] by (simp_all add: normalizeParams_def)

lemma mergedParams_sync:
  assumes "rowOk q" and "specOk s" and "jType q = TypeSync" and "sType s = TypeSync"
    and "pPaths (jParams q) \<noteq> []" and "pPaths (sParams s) \<noteq> []"
    and "canonicalParams (withoutTargets (jParams q)) = canonicalParams (withoutTargets (sParams s))"
    and "mergedParams (jParams q) s = (p, out, msg)"
  shows "rowOk (q\<lparr>jParams := canonicalParams p\<rparr>)"
    "doesAll TypeSync (canonicalParams p) (jParams q)" "doesAll TypeSync (canonicalParams p) (sParams s)"
proof -
  let ?ps = "pPaths (jParams q) @ pPaths (sParams s)"
  let ?q = "jParams q"
  have nq: "normalizeParams ?q = ?q" and ns: "normalizeParams (sParams s) = sParams s"
    using assms(1,2) by (auto simp: rowOk_def specOk_def)
  have eq: "sParams s = ?q\<lparr>pPaths := pPaths (sParams s), pArrItemIDs := pArrItemIDs (sParams s)\<rparr>"
    using sameRest [OF assms(7) nq ns] .
  have same: "pSourceIDs (sParams s) = pSourceIDs ?q" "pDestinationID (sParams s) = pDestinationID ?q"
      "pAllowChanges (sParams s) = pAllowChanges ?q" "pReleaseDemoted (sParams s) = pReleaseDemoted ?q"
    by (subst eq, simp)+
  have valid: "\<forall>x \<in> set ?ps. ValidTargetPath x"
    using assms(1,2) by (auto simp: rowOk_def specOk_def list_all_iff)
  have vc: "list_all ValidTargetPath (canonicalPaths ?ps)"
    using valid by (auto simp: list_all_iff set_canonicalPaths)
  consider (over) "p = ?q\<lparr>pPaths := []\<rparr>"
    | (fits) "p = ?q\<lparr>pPaths := canonicalPaths ?ps\<rparr>" "length (canonicalPaths ?ps) \<le> MaxTargetPaths"
    using assms(4,8) by (auto simp: mergedParams_def Let_def split: if_splits)
  note cases = this
  have p: "canonicalParams p = p"
    by (cases rule: cases)
      (simp_all add: canonicalParams_def normalizeParams_def normalized_parts [OF nq] canonicalPaths_idem,
       simp_all add: canonicalPaths_def)
  have sp: "syncsPath p src x" if "syncsPath r src x" "r = ?q \<or> r = sParams s" for r src x
  proof (cases rule: cases)
    case over
    with that same show ?thesis by (auto simp: syncsPath_def)
  next
    case fits
    show ?thesis
      by (rule syncsPath_merge [OF valid _ _ that(1)]) (use fits that same assms(5,6) in auto)
  qed
  have flags: "pDestinationID p = pDestinationID ?q" "pAllowChanges p = pAllowChanges ?q"
      "pReleaseDemoted p = pReleaseDemoted ?q"
    by (cases rule: cases; simp)+
  show "doesAll TypeSync (canonicalParams p) ?q" "doesAll TypeSync (canonicalParams p) (sParams s)"
    using sp flags same by (auto simp: doesAll_def p)
  show "rowOk (q\<lparr>jParams := canonicalParams p\<rparr>)"
    by (cases rule: cases)
      (use assms(1,3,5) vc p in \<open>auto simp: rowOk_def canonicalParams_def\<close>)
qed

lemma mergedParams_refresh:
  assumes "rowOk q" and "specOk s" and "jType q = TypeRefresh" and "sType s = TypeRefresh"
    and "pArrItemIDs (jParams q) \<noteq> []" and "pArrItemIDs (sParams s) \<noteq> []"
    and "canonicalParams (withoutTargets (jParams q)) = canonicalParams (withoutTargets (sParams s))"
    and "mergedParams (jParams q) s = (p, out, msg)"
  shows "rowOk (q\<lparr>jParams := canonicalParams p\<rparr>)"
    "doesAll TypeRefresh (canonicalParams p) (jParams q)" "doesAll TypeRefresh (canonicalParams p) (sParams s)"
proof -
  let ?q = "jParams q" let ?is = "pArrItemIDs ?q @ pArrItemIDs (sParams s)"
  have nq: "normalizeParams ?q = ?q" and ns: "normalizeParams (sParams s) = sParams s"
    using assms(1,2) by (auto simp: rowOk_def specOk_def)
  have eq: "sParams s = ?q\<lparr>pPaths := pPaths (sParams s), pArrItemIDs := pArrItemIDs (sParams s)\<rparr>"
    using sameRest [OF assms(7) nq ns] .
  have same: "pIntegrationID (sParams s) = pIntegrationID ?q" "pAllowChanges (sParams s) = pAllowChanges ?q"
      "pSyncAfter (sParams s) = pSyncAfter ?q"
    by (subst eq, simp)+
  consider (over) "p = ?q\<lparr>pArrItemIDs := []\<rparr>"
    | (fits) "p = ?q\<lparr>pArrItemIDs := sortedIDs ?is\<rparr>" "length (sortedIDs ?is) \<le> MaxTargetItems"
    using assms(4,8) by (auto simp: mergedParams_def Let_def split: if_splits)
  note cases = this
  have p: "canonicalParams p = p"
    by (cases rule: cases)
      (simp_all add: canonicalParams_def normalizeParams_def normalized_parts [OF nq] sortedIDs_def [of "[]"])
  have it: "refreshesItem p i" if "refreshesItem r i" "r = ?q \<or> r = sParams s" for r i
    by (cases rule: cases)
      (use that assms(5,6) in \<open>auto simp: refreshesItem_def\<close>)
  have flags: "pIntegrationID p = pIntegrationID ?q" "pAllowChanges p = pAllowChanges ?q"
      "pSyncAfter p = pSyncAfter ?q"
    by (cases rule: cases; simp)+
  show "doesAll TypeRefresh (canonicalParams p) ?q" "doesAll TypeRefresh (canonicalParams p) (sParams s)"
    using it flags same by (auto simp: doesAll_def p)
  show "rowOk (q\<lparr>jParams := canonicalParams p\<rparr>)"
    by (cases rule: cases) (use assms(1,3,5) p in \<open>auto simp: rowOk_def canonicalParams_def\<close>)
qed

text \<open>A merge into a queued targeted job whose other params are equal.\<close>

lemma mergeInto_good:
  assumes "storeOk st" and "specOk s" and "Targeted (sParams s)" and "Targeted (jParams c)"
    and "c \<in> set (coalesceCandidates s st)" and "sType s = TypeSync \<or> sType s = TypeRefresh"
    and "canonicalParams (withoutTargets (jParams c)) = canonicalParams (withoutTargets (sParams s))"
    and "\<not> sDryRun s" and "mergeInto c s now st = (j, out, st')"
  shows "rowsFrom st st' \<and> answers s j st'"
proof -
  note c = coalesceCandidates_facts [OF assms(5,1)]
  obtain p o' msg where m: "mergedParams (jParams c) s = (p, o', msg)"
    by (cases "mergedParams (jParams c) s") auto
  have tc: "pPaths (jParams c) \<noteq> [] \<longrightarrow> jType c = TypeSync" "pArrItemIDs (jParams c) \<noteq> [] \<longrightarrow> jType c = TypeRefresh"
      "pPaths (sParams s) \<noteq> [] \<longrightarrow> sType s = TypeSync" "pArrItemIDs (sParams s) \<noteq> [] \<longrightarrow> sType s = TypeRefresh"
    using c(2) assms(2) by (auto simp: rowOk_def specOk_def)
  have "rowOk (c\<lparr>jParams := canonicalParams p\<rparr>)
      \<and> doesAll (sType s) (canonicalParams p) (jParams c) \<and> doesAll (sType s) (canonicalParams p) (sParams s)"
    using assms(6)
  proof
    assume t: "sType s = TypeSync"
    then have "jType c = TypeSync" "pPaths (jParams c) \<noteq> []" "pPaths (sParams s) \<noteq> []"
      using tc c(7) assms(3,4) by (auto simp: Targeted_def)
    then show ?thesis using t mergedParams_sync [OF c(2) assms(2) _ t _ _ assms(7) m] by simp
  next
    assume t: "sType s = TypeRefresh"
    then have "jType c = TypeRefresh" "pArrItemIDs (jParams c) \<noteq> []" "pArrItemIDs (sParams s) \<noteq> []"
      using tc c(7) assms(3,4) by (auto simp: Targeted_def)
    then show ?thesis using t mergedParams_refresh [OF c(2) assms(2) _ t _ _ assms(7) m] by simp
  qed
  then have good: "rowOk (c\<lparr>jParams := canonicalParams p\<rparr>)" "doesAll (sType s) (canonicalParams p) (jParams c)"
      "doesAll (sType s) (canonicalParams p) (sParams s)" by blast+
  have nc: "canonicalParams (jParams c) = jParams c"
    using c(2) by (simp add: rowOk_def canonicalParams_def)
  show ?thesis
  proof (cases "canonicalParams p = canonicalParams (jParams c)")
    case True
    then have "j = c" "st' = st" using assms(9) m by (auto simp: mergeInto_def)
    then show ?thesis
      using True good(3) nc c assms(1,8) rowsFrom_refl by (auto simp: answers_def)
  next
    case False
    let ?f = "\<lambda>j. j\<lparr>jParams := canonicalParams p\<rparr>"
    let ?P = "\<lambda>j. jID j = jID c \<and> jStatus j = StatusQueued"
    have j: "j = ?f c" "stJobs st' = stJobs (updateJobs ?P ?f st)"
      using assms(9) m False by (auto simp: mergeInto_def Let_def snd_updateRow split: if_splits)
    have uniq: "x = c" if "x \<in> set (stJobs st)" "jID x = jID c" for x
      using that assms(1) c(1) by (auto simp: storeOk_def distinct_map inj_on_def)
    have "rowStep c (?f c)" using good(2) c by (simp add: rowStep_def)
    then have "goodUpdate st ?P ?f"
      unfolding goodUpdate_def using good(1) uniq by metis
    then have "rowsFrom st (updateJobs ?P ?f st)" using assms(1) updateJobs_rowsFrom by blast
    then have "rowsFrom st st'" using j(2) by (simp add: rowsFrom_def storeOk_def)
    moreover have "j \<in> set (stJobs st')"
      unfolding j updateJobs_rows using c(1,3) by (intro image_eqI [of _ _ c]) auto
    ultimately show ?thesis using good(3) c assms(8) j(1) by (simp add: answers_def)
  qed
qed

lemma coalesce_good:
  assumes "storeOk st" and "specOk s" and "Targeted (sParams s)" and "\<not> sDryRun s"
    and "coalesce s now st = Some (j, out, st')"
  shows "rowsFrom st st' \<and> answers s j st'"
proof -
  let ?cands = "coalesceCandidates s st"
  have t: "sType s = TypeSync \<or> sType s = TypeRefresh"
    using assms(5) by (auto simp: coalesce_def split: if_splits)
  show ?thesis
  proof (cases "find (\<lambda>c. coversSpec (jParams c) s) ?cands")
    case (Some c)
    then have c: "c \<in> set ?cands" "coversSpec (jParams c) s" using find_Some_setD by fastforce+
    have "j = c" "st' = st" using assms(5) Some t by (auto simp: coalesce_def)
    then show ?thesis
      using coalesceCandidates_facts [OF c(1) assms(1)] coversSpec_doesAll [OF c(2) assms(2,3)]
        assms(1,4) rowsFrom_refl by (simp add: answers_def)
  next
    case None
    then obtain c where "find (\<lambda>c. Targeted (jParams c) \<and> canonicalParams (withoutTargets (jParams c))
        = canonicalParams (withoutTargets (sParams s))) ?cands = Some c"
      and m: "mergeInto c s now st = (j, out, st')"
      using assms(5) t by (auto simp: coalesce_def Let_def split: if_splits option.splits)
    then have "c \<in> set ?cands" "Targeted (jParams c)"
      "canonicalParams (withoutTargets (jParams c)) = canonicalParams (withoutTargets (sParams s))"
      using find_Some_setD by fastforce+
    then show ?thesis using mergeInto_good assms t m by blast
  qed
qed

lemma findIdentical_answers:
  assumes "findIdentical s st = Some j" and "specOk s"
  shows "answers s j st"
proof -
  have "j \<in> set (stJobs st) \<and> jStatus j = StatusQueued \<and> jType j = sType s
      \<and> jParams j = canonicalParams (sParams s) \<and> jDryRun j = sDryRun s \<and> jDeferrals j = 0"
    using find_Some_setD [OF assms(1) [unfolded findIdentical_def Let_def]] by simp
  then show ?thesis using assms(2) by (simp add: answers_def canonicalParams_def specOk_def)
qed

lemma createJob_good:
  assumes "storeOk st" and "createJob s0 now st = Inr (j, out, st')"
  shows "storeOk st' \<and> evolves st st' \<and> answers s0 j st'"
proof -
  obtain s where s: "normalizeSpec s0 = Inr s"
    using assms(2) by (auto simp: createJob_def split: sum.splits)
  note sf = normalizeSpec_facts [OF s]
  have "storeOk st' \<and> evolves st st' \<and> answers s j st'"
  proof (cases "findIdentical s st")
    case (Some j0)
    then have "j = j0" "st' = st" using assms(2) s by (auto simp: createJob_def)
    then show ?thesis
      using findIdentical_answers [OF Some sf(1)] assms(1) rowsFrom_good rowsFrom_refl by blast
  next
    case None
    note fi = None
    show ?thesis
    proof (cases "if \<not> sDryRun s \<and> Targeted (sParams s) then coalesce s now st else None")
      case None
      then have "insertJob s now st = (j, st')"
        using assms(2) s fi by (auto simp: createJob_def split: prod.splits)
      then show ?thesis using insertJob_good assms(1) sf(1) by blast
    next
      case (Some r)
      then have "\<not> sDryRun s" "Targeted (sParams s)" "coalesce s now st = Some (j, out, st')"
        using assms(2) s fi by (auto simp: createJob_def split: if_splits)
      then show ?thesis using coalesce_good assms(1) sf(1) rowsFrom_good by blast
    qed
  qed
  moreover have "doesAll (sType s0) (sParams s) (sParams s0)"
    using doesAll_normalize [OF sf(5)] sf(4) by simp
  ultimately show ?thesis
    using doesAll_trans sf(2,3) unfolding answers_def by metis
qed

lemma storeStep_good:
  assumes "storeStep st st'" and "storeOk st"
  shows "storeOk st' \<and> evolves st st'"
  using assms
proof (induction rule: storeStep.induct)
  case (supersede st p keep msg now)
  then show ?case
    unfolding supersedeDeferredSyncs_def using supersedeLoop_rowsFrom rowsFrom_good by blast
next
  case (create s now st j out st')
  then show ?case using createJob_good by blast
next
  case (prune batch cutoff st n st')
  then show ?case using PruneHistory_rowsFrom rowsFrom_good by blast
qed (simp_all add: markRunning_good saveProgress_good finishJob_good requeue_good finishQueued_good
    recoverCrashed_good deferJob_good setPlannedAt_good)

lemma supersedeLoop_ids: "map jID (stJobs (snd (supersedeLoop p keep msg now js st))) = map jID (stJobs st)"
proof (induction js arbitrary: st)
  case (Cons j js)
  have "map jID (stJobs (snd (supersedeOne keep msg now i st))) = map jID (stJobs st)" for i
    by (simp add: supersedeOne_def split_def snd_updateRow updateJobs_def)
  with Cons show ?case by (simp add: split_def)
qed simp

lemma updateJobs_idset:
  "(\<And>j. jID (f j) = jID j) \<Longrightarrow> jID ` set (stJobs (updateJobs P f st)) = jID ` set (stJobs st)"
  by (metis list.set_map updateJobs_ids)

lemma createJob_ids:
  assumes "createJob s now st = Inr (j, out, st')"
  shows "jID ` set (stJobs st) \<subseteq> jID ` set (stJobs st')"
  using assms
  by (auto simp: createJob_def coalesce_def Let_def insertJob_def mergeInto_def snd_updateRow updateJobs_idset
      split: sum.splits option.splits prod.splits if_splits)

text \<open>Only finished jobs are ever deleted.\<close>

lemma storeStep_keeps_active:
  assumes "storeStep st st'" and "j \<in> set (stJobs st)" and "activeStatus (jStatus j)"
  shows "jID j \<in> jID ` set (stJobs st')"
  using assms
proof (induction rule: storeStep.induct)
  case (create s now st j' out st')
  then show ?case using createJob_ids by blast
next
  case (supersede st p keep msg now)
  then show ?case
    unfolding supersedeDeferredSyncs_def by (metis image_eqI list.set_map supersedeLoop_ids)
next
  case (prune batch cutoff st n st')
  from PruneHistory_eq [OF prune(1)] prune(2)
  have "stJobs st' = filter (\<lambda>j. \<not> oldJob cutoff j) (stJobs st)" by auto
  with prune(3,4) show ?case by (auto simp: oldJob_def)
qed (simp_all add: markRunning_def saveProgress_def finishJob_def requeue_def finishQueued_def
    recoverCrashed_def deferJob_def setPlannedAt_def snd_updateRow updateJobs_idset split_def Let_def)

section \<open>The store's contract with its clients\<close>

text \<open>What the manager and the scheduler rely on: a table of rows whose writes keep it well
  formed, keep every row and change rows only along \<open>rowStep\<close>.\<close>

lemma frozen_status: "frozen j j' \<Longrightarrow> jStatus j' = jStatus j"
  unfolding frozen_def by (erule ssubst) simp

locale row_store =
  fixes rows :: "'s \<Rightarrow> job list" and ok :: "'s \<Rightarrow> bool" and step :: "'s \<Rightarrow> 's \<Rightarrow> bool"
  assumes ok_ids: "ok s \<Longrightarrow> distinct (map jID (rows s))"
    and ok_row: "ok s \<Longrightarrow> r \<in> set (rows s) \<Longrightarrow> rowOk r"
    and step_ok: "ok s \<Longrightarrow> step s s' \<Longrightarrow> ok s'"
    and step_row: "ok s \<Longrightarrow> step s s' \<Longrightarrow> r \<in> set (rows s) \<Longrightarrow> \<exists>r' \<in> set (rows s'). rowStep r r'"
begin

lemma row_unique: "ok s \<Longrightarrow> r \<in> set (rows s) \<Longrightarrow> q \<in> set (rows s) \<Longrightarrow> jID r = jID q \<Longrightarrow> r = q"
  using ok_ids [of s] by (auto simp: distinct_map inj_on_def)

lemma step_succ:
  assumes "ok s" and "step s s'" and "r \<in> set (rows s)" and "r' \<in> set (rows s')" and "jID r = jID r'"
  shows "rowStep r r'"
proof -
  obtain q where q: "q \<in> set (rows s')" "rowStep r q" using step_row assms by blast
  then have "q = r'" using row_unique [OF step_ok [OF assms(1,2)]] assms(4,5) by (simp add: rowStep_def)
  with q show ?thesis by simp
qed

lemma keys_stable:
  assumes "ok s" and "step s s'" and "r \<in> set (rows s)" and "r' \<in> set (rows s')" and "jID r = jID r'"
  shows "jType r' = jType r \<and> LockKeys (jType r') (jParams r') = LockKeys (jType r) (jParams r)"
proof -
  have st: "rowStep r r'" using step_succ assms by blast
  have ok: "rowOk r" "rowOk r'" using ok_row assms step_ok by blast+
  have d: "pDestinationID (jParams r') = pDestinationID (jParams r)"
    "pIntegrationID (jParams r') = pIntegrationID (jParams r)"
    using st ok by (auto simp: rowStep_def rowOk_def nullInt_def split: if_splits)
  have t: "jType r' = jType r" using st by (simp add: rowStep_def)
  have "jType r = TypeScan \<Longrightarrow> sortedIDs (pSourceIDs (jParams r')) = sortedIDs (pSourceIDs (jParams r))"
    using st by (auto simp: rowStep_def doesAll_def normalizeParams_def dest: arg_cong [of _ _ pSourceIDs])
  with d t show ?thesis by (auto split: jobType.split)
qed

lemma final_stable:
  assumes "ok s" and "step s s'" and "r \<in> set (rows s)" and "Final (jStatus r)"
  shows "\<exists>r' \<in> set (rows s'). jID r' = jID r \<and> Final (jStatus r')"
proof -
  obtain r' where r': "r' \<in> set (rows s')" "rowStep r r'" using step_row assms by blast
  then have "frozen r r'" "jID r' = jID r" using assms(4) by (auto simp: rowStep_def)
  then have "jStatus r' = jStatus r" by (simp add: frozen_status)
  with r' \<open>jID r' = jID r\<close> assms(4) show ?thesis by auto
qed

lemma steps_ok: "step\<^sup>*\<^sup>* s s' \<Longrightarrow> ok s \<Longrightarrow> ok s'"
  by (induction rule: rtranclp_induct) (auto intro: step_ok)

lemma steps_row:
  assumes "step\<^sup>*\<^sup>* s s'" and "ok s" and "r \<in> set (rows s)"
  shows "\<exists>r' \<in> set (rows s'). rowStep r r'"
  using assms
proof (induction rule: rtranclp_induct)
  case (step y z)
  then obtain q where "q \<in> set (rows y)" "rowStep r q" by blast
  then show ?case using step_row steps_ok step rowStep_trans by meson
qed (use rowStep_refl in blast)

end

text \<open>The store's writes but pruning, which nothing in the program calls, keep every row.\<close>

definition liveStep :: "store \<Rightarrow> store \<Rightarrow> bool" where
  "liveStep st st' \<longleftrightarrow> storeStep st st' \<and> jID ` set (stJobs st) \<subseteq> jID ` set (stJobs st')"

lemma liveStep_row:
  assumes "storeOk st" and "liveStep st st'" and "r \<in> set (stJobs st)"
  shows "\<exists>r' \<in> set (stJobs st'). rowStep r r'"
proof -
  obtain r' where r': "r' \<in> set (stJobs st')" "jID r' = jID r"
    using assms(2,3) unfolding liveStep_def by (metis image_iff subsetD)
  moreover have "evolves st st'" using assms storeStep_good by (simp add: liveStep_def)
  ultimately obtain q where q: "q \<in> set (stJobs st)" "rowStep q r'"
    using assms(3) unfolding evolves_def by (metis image_eqI)
  then have "q = r"
    using assms(1,3) r'(2) unfolding storeOk_def by (metis distinct_map inj_onD rowStep_def)
  with q r' show ?thesis by blast
qed

interpretation js: row_store stJobs storeOk liveStep
proof unfold_locales
  show "storeOk s \<Longrightarrow> liveStep s s' \<Longrightarrow> storeOk s'" for s s'
    using storeStep_good by (auto simp: liveStep_def)
qed (auto simp: liveStep_row, auto simp: storeOk_def list_all_iff)

section \<open>Superseding row by row\<close>

definition supersedeRow :: "ident \<Rightarrow> string \<Rightarrow> gotime \<Rightarrow> ident \<Rightarrow> job \<Rightarrow> job" where
  "supersedeRow keep msg now i j =
     (let j1 = (if jID j = i \<and> jStatus j = StatusQueued
                then j\<lparr>jStatus := StatusCancelled, jSummary := msg @ ''.'', jFinishedAt := Some now,
                       jNotBefore := None, jSupersededBy := Some keep\<rparr> else j)
      in if jSupersededBy j1 = Some i then j1\<lparr>jSupersededBy := Some keep\<rparr> else j1)"

lemma supersedeOne_rows:
  "stJobs (snd (supersedeOne keep msg now i st)) = map (supersedeRow keep msg now i) (stJobs st)"
  by (simp add: supersedeOne_def split_def snd_updateRow updateJobs_def supersedeRow_def Let_def)

lemma supersedeLoop_rows:
  "stJobs (snd (supersedeLoop p keep msg now js st)) =
   map (fold (supersedeRow keep msg now) (map jID (filter (supersedes p) js))) (stJobs st)"
  by (induction js arbitrary: st) (auto simp: split_def supersedeOne_rows)

lemma supersedeRow_fields [simp]:
  "jID (supersedeRow keep msg now i j) = jID j" "jDeferrals (supersedeRow keep msg now i j) = jDeferrals j"
  by (simp_all add: supersedeRow_def Let_def)

lemma fold_supersedeRow_fields [simp]:
  "jID (fold (supersedeRow keep msg now) is j) = jID j"
  "jDeferrals (fold (supersedeRow keep msg now) is j) = jDeferrals j"
  by (induction "is" arbitrary: j) simp_all

lemma supersedeRow_keep:
  "jSupersededBy j = Some keep \<Longrightarrow> jSupersededBy (supersedeRow keep msg now i j) = Some keep"
  by (simp add: supersedeRow_def Let_def)

lemma fold_supersedeRow_keep:
  "jSupersededBy j = Some keep \<Longrightarrow> jSupersededBy (fold (supersedeRow keep msg now) is j) = Some keep"
  by (induction "is" arbitrary: j) (simp_all add: supersedeRow_keep)

lemma fold_supersedeRow_pointer:
  "jSupersededBy j = Some i \<Longrightarrow> i \<in> set is \<Longrightarrow>
   jSupersededBy (fold (supersedeRow keep msg now) is j) = Some keep"
proof (induction "is" arbitrary: j)
  case (Cons a as)
  have "jSupersededBy (supersedeRow keep msg now a j) = Some keep
      \<or> (a \<noteq> i \<and> jSupersededBy (supersedeRow keep msg now a j) = Some i)"
    using Cons.prems(1) by (auto simp: supersedeRow_def Let_def)
  then show ?case
    using Cons.prems(2) Cons.IH [of "supersedeRow keep msg now a j"]
    by (auto simp: fold_supersedeRow_keep)
qed simp

lemma fold_supersedeRow_cancelled:
  "jStatus j = StatusCancelled \<Longrightarrow> jStatus (fold (supersedeRow keep msg now) is j) = StatusCancelled"
  by (induction "is" arbitrary: j) (simp_all add: supersedeRow_def Let_def)

lemma fold_supersedeRow_self:
  "jStatus j = StatusQueued \<Longrightarrow> jID j \<in> set is \<Longrightarrow>
   jSupersededBy (fold (supersedeRow keep msg now) is j) = Some keep
   \<and> jStatus (fold (supersedeRow keep msg now) is j) = StatusCancelled"
proof (induction "is" arbitrary: j)
  case (Cons a as)
  let ?r = "supersedeRow keep msg now a j"
  show ?case
  proof (cases "a = jID j")
    case True
    with Cons.prems have "jSupersededBy ?r = Some keep" "jStatus ?r = StatusCancelled"
      by (auto simp: supersedeRow_def Let_def)
    then show ?thesis by (simp add: fold_supersedeRow_keep fold_supersedeRow_cancelled)
  next
    case False
    with Cons.prems have "jStatus ?r = StatusQueued" "jID ?r \<in> set as"
      by (auto simp: supersedeRow_def Let_def)
    then show ?thesis using Cons.IH by simp
  qed
qed simp

lemma supersededDeferrals_ge:
  "j \<in> set (stJobs st) \<Longrightarrow> jSupersededBy j = Some i \<Longrightarrow> jDeferrals j \<le> supersededDeferrals i st"
proof -
  assume "j \<in> set (stJobs st)" "jSupersededBy j = Some i"
  then have j: "jDeferrals j \<in> set (map jDeferrals (filter (\<lambda>p. jSupersededBy p = Some i) (stJobs st)))"
    by auto
  then obtain d ds where ds: "map jDeferrals (filter (\<lambda>p. jSupersededBy p = Some i) (stJobs st)) = d # ds"
    by (cases "map jDeferrals (filter (\<lambda>p. jSupersededBy p = Some i) (stJobs st))") auto
  with j have "jDeferrals j = d \<or> jDeferrals j \<in> set ds" by simp
  then show ?thesis
    using foldr_max_ge [of "jDeferrals j" ds d] foldr_max_base [of d ds]
    by (auto simp: supersededDeferrals_def ds)
qed

lemma supersededDeferrals_cases:
  "supersededDeferrals i st = 0
   \<or> (\<exists>j \<in> set (stJobs st). jSupersededBy j = Some i \<and> supersededDeferrals i st = jDeferrals j)"
proof (cases "map jDeferrals (filter (\<lambda>p. jSupersededBy p = Some i) (stJobs st))")
  case Nil
  then show ?thesis by (simp add: supersededDeferrals_def)
next
  case (Cons d ds)
  have "foldr max ds d \<in> set (d # ds)" by (induction ds) (auto simp: max_def)
  then have "foldr max ds d \<in> set (map jDeferrals (filter (\<lambda>p. jSupersededBy p = Some i) (stJobs st)))"
    by (simp only: Cons)
  then have "\<exists>j \<in> set (stJobs st). jSupersededBy j = Some i \<and> foldr max ds d = jDeferrals j"
    unfolding set_map set_filter by blast
  then show ?thesis unfolding supersededDeferrals_def Cons by simp
qed

lemma recoverCrashed_closed:
  assumes "recoverCrashed m now st = (requeued, failed, st')"
  shows "stJobs st' = map (\<lambda>j.
      if jStatus j \<noteq> StatusRunning then j
      else if jAttempt j < m
      then j\<lparr>jStatus := StatusQueued, jTrigger := TriggerResume, jAttempt := jAttempt j + 1, jHeartbeatAt := None\<rparr>
      else j\<lparr>jStatus := StatusFailed, jError := Some (crashedText (jAttempt j)), jFinishedAt := Some now,
             jHeartbeatAt := None\<rparr>) (stJobs st)
    \<and> requeued = map jID (filter (\<lambda>j. jStatus j = StatusRunning \<and> jAttempt j < m) (stJobs st))
    \<and> failed = map jID (filter (\<lambda>j. jStatus j = StatusRunning \<and> m \<le> jAttempt j) (stJobs st))
    \<and> \<not> list_ex (\<lambda>j. jStatus j = StatusRunning) (stJobs st')"
proof -
  have rq: "map jID (filter (\<lambda>j. jStatus j = StatusRunning)
        (map (\<lambda>j. if jStatus j = StatusRunning \<and> m \<le> jAttempt j
          then j\<lparr>jStatus := StatusFailed, jError := Some (crashedText (jAttempt j)),
                 jFinishedAt := Some now, jHeartbeatAt := None\<rparr> else j) js))
      = map jID (filter (\<lambda>j. jStatus j = StatusRunning \<and> jAttempt j < m) js)" for js
    by (induction js) auto
  show ?thesis
    using assms unfolding recoverCrashed_def Let_def updateJobs_def
    by (auto simp: list_ex_iff rq)
qed

section \<open>Example stores\<close>

definition noParams :: params where
  "noParams = \<lparr>pDestinationID = 0, pSourceIDs = [], pIntegrationID = 0, pAllowChanges = False,
     pPaths = [], pArrItemIDs = [], pSyncAfter = False, pReleaseDemoted = False, pReleaseOf = 0,
     pReleaseRevision = 0, pPrune = False, pReadData = False\<rparr>"

definition exSync :: "string list \<Rightarrow> spec" where
  "exSync ps = \<lparr>sType = TypeSync, sTrigger = TriggerWebhook, sDryRun = False,
     sParams = noParams\<lparr>pDestinationID := 1, pSourceIDs := [1], pPaths := ps\<rparr>\<rparr>"

definition exStore :: "string list \<Rightarrow> store" where
  "exStore ps = \<lparr>stJobs = [newJob 1 (exSync ps) 100], stLogs = []\<rparr>"

definition exDeferred :: store where
  "exDeferred = \<lparr>stJobs = [(newJob 1 (exSync []) 100)\<lparr>jStartedAt := Some 110, jDeferrals := 3, jNotBefore := Some 500\<rparr>,
     newJob 2 (exSync []) 300], stLogs = []\<rparr>"

lemma exStore_ok: "storeOk (exStore [''Show/S1''])"
  by code_simp

lemma exDeferred_ok: "storeOk exDeferred"
  by code_simp

text \<open>A request for a folder is merged into the queued sync of a file inside it.\<close>

lemma ex_merge: "createJob (exSync [''Show'']) 200 (exStore [''Show/S1''])
    = Inr (newJob 1 (exSync [''Show'']) 100, outcomeMerged, exStore [''Show''])"
  by code_simp

section \<open>Properties\<close>

text \<open>C15: a request to queue a job is answered with a queued job of its type that does all it
  asks for, whether the request was created, deduplicated, covered, merged or made its job
  untargeted: every requested path or item, on the same destination or integration, with at
  least its permissions and follow-ups.  The answer is never a dry run for a real request, nor a
  job that was deferred.\<close>

theorem createJob_answers:
  assumes "storeOk st" and "createJob s now st = Inr (j, out, st')"
  shows "j \<in> set (stJobs st') \<and> jStatus j = StatusQueued \<and> jType j = sType s
    \<and> jDryRun j = sDryRun s \<and> jDeferrals j = 0 \<and> doesAll (sType s) (jParams j) (sParams s)"
  using createJob_good [OF assms] by (simp add: answers_def)

theorem createJob_answers_witness:
  "jStatus (newJob 1 (exSync [''Show'']) 100) = StatusQueued
    \<and> doesAll TypeSync (jParams (newJob 1 (exSync [''Show'']) 100)) (sParams (exSync [''Show'']))"
  using createJob_answers [OF exStore_ok ex_merge] by (simp add: exSync_def)

text \<open>C25: every write of the job store keeps the table well formed: ids are positive and
  unique, params canonical with at most 1000 valid target paths and 500 items, the destination
  and integration columns agree with the params, only running rows have a heartbeat, only queued
  rows wait for a time, and exactly the rows with a final status have a finish time.\<close>

theorem storeStep_keeps_storeOk:
  assumes "storeStep\<^sup>*\<^sup>* st st'" and "storeOk st"
  shows "storeOk st'"
  using assms by (induction rule: rtranclp_induct) (auto dest: storeStep_good)

theorem storeStep_keeps_storeOk_witness: "storeOk (exStore [''Show''])"
  using storeStep_keeps_storeOk [OF _ exStore_ok] storeStep.create [OF ex_merge] by blast

text \<open>C26: no write loses or rewrites work.  In one step a row keeps its id, type, dry-run flag
  and place in the queue, never loses attempts, deferrals or requested work, a row that has
  started, was deferred or is a dry run keeps its params, and a finished row never changes (its
  plan marker and the job that superseded it apart); every other row of the new table is a new
  queued job.  No queued or running job disappears.\<close>

theorem storeStep_rows_evolve:
  assumes "storeOk st" and "storeStep st st'"
  shows "(\<forall>j' \<in> set (stJobs st'). (\<exists>j \<in> set (stJobs st). rowStep j j')
      \<or> (jID j' \<notin> jID ` set (stJobs st) \<and> jStatus j' = StatusQueued \<and> jStartedAt j' = None))
    \<and> (\<forall>j \<in> set (stJobs st). activeStatus (jStatus j) \<longrightarrow> jID j \<in> jID ` set (stJobs st'))"
  using storeStep_good [OF assms(2,1)] storeStep_keeps_active [OF assms(2)] by (simp add: evolves_def)

theorem storeStep_rows_evolve_witness:
  "jID (newJob 1 (exSync [''Show/S1'']) 100) \<in> jID ` set (stJobs (exStore [''Show'']))"
  using storeStep_rows_evolve [OF exStore_ok storeStep.create [OF ex_merge]]
  by (simp add: exStore_def activeStatus_def newJob_def)

text \<open>Start-up recovery leaves no running row.  A running row whose next attempt is allowed
  is queued again as a resumed job with one attempt more and its plan, params and history
  untouched; one that used up its attempts fails; every other row stays as it was.\<close>

theorem recoverCrashed_rows:
  assumes "recoverCrashed m now st = (requeued, failed, st')"
  shows "stJobs st' = map (\<lambda>j.
      if jStatus j \<noteq> StatusRunning then j
      else if jAttempt j < m
      then j\<lparr>jStatus := StatusQueued, jTrigger := TriggerResume, jAttempt := jAttempt j + 1, jHeartbeatAt := None\<rparr>
      else j\<lparr>jStatus := StatusFailed, jError := Some (crashedText (jAttempt j)), jFinishedAt := Some now,
             jHeartbeatAt := None\<rparr>) (stJobs st)
    \<and> requeued = map jID (filter (\<lambda>j. jStatus j = StatusRunning \<and> jAttempt j < m) (stJobs st))
    \<and> failed = map jID (filter (\<lambda>j. jStatus j = StatusRunning \<and> m \<le> jAttempt j) (stJobs st))
    \<and> \<not> list_ex (\<lambda>j. jStatus j = StatusRunning) (stJobs st')"
  using recoverCrashed_closed [OF assms] .

theorem recoverCrashed_rows_witness:
  "\<not> list_ex (\<lambda>j. jStatus j = StatusRunning)
     (stJobs (snd (snd (recoverCrashed 3 200 (snd (markRunning 1 150 (exStore [''Show''])))))))"
proof -
  obtain rq fl st' where r: "recoverCrashed 3 200 (snd (markRunning 1 150 (exStore [''Show'']))) = (rq, fl, st')"
    by (cases "recoverCrashed 3 200 (snd (markRunning 1 150 (exStore [''Show''])))")
  from recoverCrashed_rows [OF r] have "\<not> list_ex (\<lambda>j. jStatus j = StatusRunning) (stJobs st')" by blast
  then show ?thesis by (simp add: r)
qed

text \<open>Superseding deferred syncs ends exactly the covered ones as cancelled and loses no
  deferral count: each now points at the scheduled job, whose next deferral counts at least the
  deferrals of the syncs it superseded and of those they had superseded before.\<close>

theorem supersede_keeps_counts:
  assumes "storeOk st" and "j \<in> set (supersedeCandidates p keep st)" and "supersedes p j"
    and "supersedeDeferredSyncs p keep msg now st = (out, st')"
  shows "(\<exists>j' \<in> set (stJobs st'). jID j' = jID j \<and> jStatus j' = StatusCancelled \<and> jSupersededBy j' = Some keep)
    \<and> jDeferrals j \<le> supersededDeferrals keep st'
    \<and> supersededDeferrals (jID j) st \<le> supersededDeferrals keep st'"
proof -
  define ids where "ids = map jID (filter (supersedes p) (supersedeCandidates p keep st))"
  let ?F = "fold (supersedeRow keep msg now) ids"
  have st': "stJobs st' = map ?F (stJobs st)"
    using supersedeLoop_rows assms(4) unfolding supersedeDeferredSyncs_def ids_def by (metis snd_conv)
  have j: "j \<in> set (stJobs st)" "jStatus j = StatusQueued" "jID j \<in> set ids"
    using assms(2,3) by (auto simp: supersedeCandidates_def ids_def)
  have self: "?F j \<in> set (stJobs st')" "jSupersededBy (?F j) = Some keep" "jStatus (?F j) = StatusCancelled"
    using fold_supersedeRow_self [OF j(2,3)] j(1) by (simp_all add: st')
  have d: "jDeferrals j \<le> supersededDeferrals keep st'"
    using supersededDeferrals_ge [OF self(1,2)] by simp
  have "supersededDeferrals (jID j) st \<le> supersededDeferrals keep st'"
    using supersededDeferrals_cases [of "jID j" st]
  proof
    assume "supersededDeferrals (jID j) st = 0"
    moreover have "0 \<le> jDeferrals j" using assms(1) j(1) by (auto simp: storeOk_def list_all_iff rowOk_def)
    ultimately show ?thesis using d by simp
  next
    assume "\<exists>q \<in> set (stJobs st). jSupersededBy q = Some (jID j) \<and> supersededDeferrals (jID j) st = jDeferrals q"
    then obtain q where q: "q \<in> set (stJobs st)" "jSupersededBy q = Some (jID j)"
      "supersededDeferrals (jID j) st = jDeferrals q" by blast
    have "jSupersededBy (?F q) = Some keep" using fold_supersedeRow_pointer [OF q(2) j(3)] .
    moreover have "?F q \<in> set (stJobs st')" using q(1) by (simp add: st')
    ultimately show ?thesis using supersededDeferrals_ge [of "?F q" st' keep] q(3) by simp
  qed
  with d self show ?thesis by (intro conjI bexI [of _ "?F j"]) auto
qed

lemma ex_supersede:
  "hd (stJobs exDeferred) \<in> set (supersedeCandidates (sParams (exSync [])) 2 exDeferred)"
  "supersedes (sParams (exSync [])) (hd (stJobs exDeferred))" "jDeferrals (hd (stJobs exDeferred)) = 3"
  by code_simp+

theorem supersede_keeps_counts_witness:
  "3 \<le> supersededDeferrals 2 (snd (supersedeDeferredSyncs (sParams (exSync [])) 2 ''Superseded'' 300 exDeferred))"
  using supersede_keeps_counts [OF exDeferred_ok ex_supersede(1,2) surjective_pairing] ex_supersede(3) by simp

text \<open>C27: pruning the history in batches ends, whatever the batch size, and deletes exactly the
  finished jobs that ended before the cutoff, and exactly their log lines; no queued or running
  job is touched.\<close>

theorem PruneHistory_exact:
  assumes "0 < batch"
  shows "PruneHistory batch cutoff st = Some (length (filter (oldJob cutoff) (stJobs st)),
      \<lparr>stJobs = filter (\<lambda>j. \<not> oldJob cutoff j) (stJobs st),
       stLogs = filter (\<lambda>l. \<not> list_ex (\<lambda>j. jID j = lJobID l \<and> oldJob cutoff j) (stJobs st)) (stLogs st)\<rparr>)
    \<and> (\<forall>j. activeStatus (jStatus j) \<longrightarrow> \<not> oldJob cutoff j)"
  using PruneHistory_eq [OF assms] by (simp add: oldJob_def)

theorem PruneHistory_exact_witness: "fst (the (PruneHistory defaultPruneBatch 400 exDeferred)) = 0"
proof -
  have "(0 :: nat) < defaultPruneBatch" by (simp add: defaultPruneBatch_def)
  moreover have "filter (oldJob 400) (stJobs exDeferred) = []" by code_simp
  ultimately show ?thesis using PruneHistory_exact [of defaultPruneBatch 400 exDeferred] by simp
qed

end
