(* ===== verification/Schedules.thy ===== *)
theory Schedules
  imports JobStore
begin

text \<open>
  The schedules table (internal/jobqueue/schedules.go) and the check of cron expressions
  (\<open>parseCron\<close> of internal/jobqueue/scheduler.go).  The cron library (robfig/cron) is a
  parameter: \<open>parse\<close> reads an expression and gives the function from an instant to the next
  instant it fires (no value: it never fires), in the scheduler's time zone.
\<close>

section \<open>Cron expressions\<close>

type_synonym cronSpec = "gotime \<Rightarrow> gotime option"
type_synonym cronParser = "string \<Rightarrow> cronSpec option"

text \<open>What the library documents: the next run is later than the given time.\<close>

definition cronLaw :: "cronParser \<Rightarrow> bool" where
  "cronLaw parse \<longleftrightarrow> (\<forall>e sp t u. parse e = Some sp \<and> sp t = Some u \<longrightarrow> t < u)"

text \<open>The number of fields \<open>strings.Fields\<close> gives; the flag says whether a field is open.\<close>

function countFields :: "bool \<Rightarrow> string \<Rightarrow> nat" where
  "countFields inField [] = 0"
| "countFields inField (c # s) =
     (case spaceAtStart (c # s) of
        Some w \<Rightarrow> countFields False (drop (length w) (c # s))
      | None \<Rightarrow> (if inField then 0 else 1) + countFields True s)"
  by pat_completeness auto
termination
  by (relation "measure (\<lambda>(b, s). length s)") (auto dest: spaceAtStart_pos)

datatype cronError = CronEmpty | CronTZPrefix | CronDescriptor string | CronFieldCount string nat
  | CronInvalid string | CronNeverFires string

definition hasPrefix :: "string \<Rightarrow> string \<Rightarrow> bool" where
  "hasPrefix p s \<longleftrightarrow> take (length p) s = p"

definition parseCron :: "cronParser \<Rightarrow> gotime \<Rightarrow> string \<Rightarrow> cronError + cronSpec" where
  "parseCron parse now expr =
     (let e = trimSpace expr;
          run = (case parse e of
                   None \<Rightarrow> Inl (CronInvalid e)
                 | Some sp \<Rightarrow> if sp now = None then Inl (CronNeverFires e) else Inr sp)
      in if e = [] then Inl CronEmpty
         else if hasPrefix ''TZ='' e \<or> hasPrefix ''CRON_TZ='' e then Inl CronTZPrefix
         else if hasPrefix [CHR 0x40] e
         then (if e \<in> {CHR 0x40 # ''hourly'', CHR 0x40 # ''daily'', CHR 0x40 # ''weekly'', CHR 0x40 # ''monthly''}
               then run else Inl (CronDescriptor e))
         else if countFields False e \<noteq> 5 then Inl (CronFieldCount e (countFields False e))
         else run)"

definition ValidateCron :: "cronParser \<Rightarrow> gotime \<Rightarrow> string \<Rightarrow> cronError option" where
  "ValidateCron parse now expr = (case parseCron parse now expr of Inl e \<Rightarrow> Some e | Inr _ \<Rightarrow> None)"

section \<open>Rows\<close>

record schedule =
  scID :: ident
  scJobType :: jobType
  scParams :: params
  scCron :: string
  scEnabled :: bool
  scLastRunAt :: "gotime option"
  scCreatedAt :: gotime
  scUpdatedAt :: gotime

type_synonym schedTable = "schedule list"

datatype schedError = SchedParams paramError | SchedCron cronError | SchedNotFound | SchedNoSelector
  | SchedNoMatch | SchedDuplicate

definition ListSchedules :: "schedTable \<Rightarrow> schedule list" where
  "ListSchedules tb = sort_key scID tb"

definition GetSchedule :: "ident \<Rightarrow> schedTable \<Rightarrow> schedError + schedule" where
  "GetSchedule i tb = (case find (\<lambda>s. scID s = i) tb of None \<Rightarrow> Inl SchedNotFound | Some s \<Rightarrow> Inr s)"

text \<open>\<open>INSERT ... ON CONFLICT (job_type, params) DO UPDATE\<close>: a row with the same type and params is
  changed in place, otherwise a row with a new id is inserted.\<close>

definition upsertRow :: "jobType \<Rightarrow> params \<Rightarrow> gotime \<Rightarrow> (schedule \<Rightarrow> schedule) \<Rightarrow> string \<Rightarrow> bool
    \<Rightarrow> schedTable \<Rightarrow> schedule \<times> schedTable" where
  "upsertRow t p now upd cron enabled tb =
     (case find (\<lambda>s. scJobType s = t \<and> scParams s = p) tb of
        Some s \<Rightarrow> (upd s, map (\<lambda>x. if scJobType x = t \<and> scParams x = p then upd x else x) tb)
      | None \<Rightarrow>
          (let s = \<lparr>scID = nextRowID (map scID tb), scJobType = t, scParams = p, scCron = cron,
                    scEnabled = enabled, scLastRunAt = None, scCreatedAt = now, scUpdatedAt = now\<rparr>
           in (s, tb @ [s])))"

definition UpsertSchedule :: "cronParser \<Rightarrow> gotime \<Rightarrow> jobType \<Rightarrow> params \<Rightarrow> string \<Rightarrow> bool \<Rightarrow> schedTable
    \<Rightarrow> schedError + (schedule \<times> schedTable)" where
  "UpsertSchedule parse now t p cron0 enabled tb =
     (case validateParams t p False of
        Inl e \<Rightarrow> Inl (SchedParams e)
      | Inr _ \<Rightarrow>
          (let cron = trimSpace cron0
           in case ValidateCron parse now cron of
                Some e \<Rightarrow> Inl (SchedCron e)
              | None \<Rightarrow>
                  Inr (upsertRow t (canonicalParams p) now
                    (\<lambda>s. s\<lparr>scCron := cron, scEnabled := enabled, scUpdatedAt := now\<rparr>) cron enabled tb)))"

definition UpdateSchedule :: "cronParser \<Rightarrow> gotime \<Rightarrow> ident \<Rightarrow> string \<Rightarrow> bool \<Rightarrow> schedTable
    \<Rightarrow> schedError + (schedule \<times> schedTable)" where
  "UpdateSchedule parse now i cron0 enabled tb =
     (let cron = trimSpace cron0; upd = (\<lambda>s. s\<lparr>scCron := cron, scEnabled := enabled, scUpdatedAt := now\<rparr>)
      in case ValidateCron parse now cron of
           Some e \<Rightarrow> Inl (SchedCron e)
         | None \<Rightarrow>
             (case find (\<lambda>s. scID s = i) tb of
                None \<Rightarrow> Inl SchedNotFound
              | Some s \<Rightarrow> Inr (upd s, map (\<lambda>x. if scID x = i then upd x else x) tb)))"

definition DeleteSchedule :: "ident \<Rightarrow> schedTable \<Rightarrow> schedError + schedTable" where
  "DeleteSchedule i tb =
     (if list_ex (\<lambda>s. scID s = i) tb then Inr (filter (\<lambda>s. scID s \<noteq> i) tb) else Inl SchedNotFound)"

definition paramsMatch :: "params \<Rightarrow> params \<Rightarrow> bool" where
  "paramsMatch p match \<longleftrightarrow>
     \<not> (pDestinationID match \<noteq> 0 \<and> pDestinationID p \<noteq> pDestinationID match)
     \<and> \<not> (pIntegrationID match \<noteq> 0 \<and> pIntegrationID p \<noteq> pIntegrationID match)
     \<and> list_all (\<lambda>i. i \<in> set (pSourceIDs p)) (pSourceIDs match)"

definition noSelector :: "params \<Rightarrow> bool" where
  "noSelector match \<longleftrightarrow> pDestinationID match = 0 \<and> pIntegrationID match = 0 \<and> pSourceIDs match = []"

definition DeleteSchedulesFor :: "params \<Rightarrow> schedTable \<Rightarrow> schedError + (nat \<times> schedTable)" where
  "DeleteSchedulesFor match tb =
     (if noSelector match then Inl SchedNoSelector
      else (let ids = map scID (filter (\<lambda>s. paramsMatch (scParams s) match) tb)
            in Inr (length ids, filter (\<lambda>s. scID s \<notin> set ids) tb)))"

definition MarkRun :: "ident \<Rightarrow> gotime \<Rightarrow> schedTable \<Rightarrow> schedError + schedTable" where
  "MarkRun i at tb =
     (if list_ex (\<lambda>s. scID s = i) tb
      then Inr (map (\<lambda>s. if scID s = i then s\<lparr>scLastRunAt := Some at\<rparr> else s) tb)
      else Inl SchedNotFound)"

section \<open>Mirroring a set of schedules\<close>

record schedSpec =
  ssParams :: params
  ssCron :: string
  ssEnabled :: bool

text \<open>The wanted schedules after validation, in order: canonical params, trimmed cron, enabled.\<close>

fun checkWanted :: "cronParser \<Rightarrow> gotime \<Rightarrow> jobType \<Rightarrow> params \<Rightarrow> params set \<Rightarrow> schedSpec list
    \<Rightarrow> schedError + (params \<times> string \<times> bool) list" where
  "checkWanted parse now t match seen [] = Inr []"
| "checkWanted parse now t match seen (w # ws) =
     (case validateParams t (ssParams w) False of
        Inl e \<Rightarrow> Inl (SchedParams e)
      | Inr _ \<Rightarrow>
          if \<not> paramsMatch (normalizeParams (ssParams w)) match then Inl SchedNoMatch
          else (let cron = trimSpace (ssCron w); p = canonicalParams (ssParams w)
                in case ValidateCron parse now cron of
                     Some e \<Rightarrow> Inl (SchedCron e)
                   | None \<Rightarrow>
                       if p \<in> seen then Inl SchedDuplicate
                       else (case checkWanted parse now t match (insert p seen) ws of
                               Inl e \<Rightarrow> Inl e
                             | Inr r \<Rightarrow> Inr ((p, cron, ssEnabled w) # r))))"

definition syncUpd :: "gotime \<Rightarrow> string \<Rightarrow> bool \<Rightarrow> schedule \<Rightarrow> schedule" where
  "syncUpd now cron enabled s =
     s\<lparr>scCron := cron, scEnabled := enabled,
       scUpdatedAt := (if scCron s = cron \<and> scEnabled s = enabled then scUpdatedAt s else now)\<rparr>"

fun syncLoop :: "jobType \<Rightarrow> gotime \<Rightarrow> (params \<times> string \<times> bool) list \<Rightarrow> schedTable \<Rightarrow> schedule list \<times> schedTable" where
  "syncLoop t now [] tb = ([], tb)"
| "syncLoop t now ((p, cron, enabled) # ws) tb =
     (case upsertRow t p now (syncUpd now cron enabled) cron enabled tb of
        (s, tb1) \<Rightarrow> (case syncLoop t now ws tb1 of (out, tb2) \<Rightarrow> (s # out, tb2)))"

definition SyncSchedules :: "cronParser \<Rightarrow> gotime \<Rightarrow> jobType \<Rightarrow> params \<Rightarrow> schedSpec list \<Rightarrow> schedTable
    \<Rightarrow> schedError + (schedule list \<times> schedTable)" where
  "SyncSchedules parse now t match want tb =
     (if noSelector match then Inl SchedNoSelector
      else (case checkWanted parse now t match {} want of
              Inl e \<Rightarrow> Inl e
            | Inr ws \<Rightarrow>
                (let drop = (\<lambda>s. scJobType s = t \<and> paramsMatch (scParams s) match
                                 \<and> canonicalParams (scParams s) \<notin> fst ` set ws)
                 in case syncLoop t now ws (filter (\<lambda>s. \<not> drop s) tb) of
                      (out, tb') \<Rightarrow> Inr (sort_key scID out, tb'))))"

section \<open>Well-formed tables\<close>

definition skey :: "schedule \<Rightarrow> jobType \<times> params" where
  "skey s = (scJobType s, scParams s)"

definition schedOk :: "schedTable \<Rightarrow> bool" where
  "schedOk tb \<longleftrightarrow> distinct (map scID tb) \<and> distinct (map skey tb)
     \<and> list_all (\<lambda>s. canonicalParams (scParams s) = scParams s) tb"

lemma schedOk_key_unique: "schedOk tb \<Longrightarrow> s \<in> set tb \<Longrightarrow> q \<in> set tb \<Longrightarrow> skey s = skey q \<Longrightarrow> s = q"
  by (auto simp: schedOk_def distinct_map inj_on_def)

lemma schedOk_filter: "schedOk tb \<Longrightarrow> schedOk (filter P tb)"
  by (auto simp: schedOk_def distinct_map_filter list_all_iff)

text \<open>What an upsert does: the row of the key is the old one changed or a new one, every other row
  stays.\<close>

lemma upsertRow_spec:
  assumes "schedOk tb" and "canonicalParams p = p" and "upsertRow t p now upd cron enabled tb = (s, tb')"
    and "\<And>x. scID (upd x) = scID x \<and> skey (upd x) = skey x"
  shows "schedOk tb'" and "skey s = (t, p)" and "s \<in> set tb'"
    and "skey q \<noteq> (t, p) \<Longrightarrow> q \<in> set tb' \<longleftrightarrow> q \<in> set tb"
    and "q \<in> set tb \<Longrightarrow> skey q = (t, p) \<Longrightarrow> s = upd q"
    and "(\<nexists>q. q \<in> set tb \<and> skey q = (t, p)) \<Longrightarrow> scCron s = cron \<and> scEnabled s = enabled"
proof -
  let ?P = "\<lambda>s. scJobType s = t \<and> scParams s = p"
  have P: "?P x \<longleftrightarrow> skey x = (t, p)" for x by (simp add: skey_def)
  have "schedOk tb' \<and> skey s = (t, p) \<and> s \<in> set tb' \<and> (skey q \<noteq> (t, p) \<longrightarrow> (q \<in> set tb' \<longleftrightarrow> q \<in> set tb))
    \<and> (q \<in> set tb \<and> skey q = (t, p) \<longrightarrow> s = upd q)
    \<and> ((\<nexists>q. q \<in> set tb \<and> skey q = (t, p)) \<longrightarrow> scCron s = cron \<and> scEnabled s = enabled)" for q
  proof (cases "find ?P tb")
    case (Some old)
    then have old: "old \<in> set tb" "skey old = (t, p)" using find_Some_setD [OF Some] by (auto simp: skey_def)
    have s: "s = upd old" "tb' = map (\<lambda>x. if ?P x then upd x else x) tb"
      using assms(3) Some by (auto simp: upsertRow_def)
    have maps: "map scID tb' = map scID tb" "map skey tb' = map skey tb"
      using assms(4) by (auto simp: s(2))
    have par: "scParams (upd x) = scParams x" for x using assms(4) [of x] by (simp add: skey_def)
    have ok': "schedOk tb'"
      using assms(1) par unfolding schedOk_def maps by (auto simp: s(2) list_all_iff)
    have "s \<in> set tb'" using old P by (auto simp: s image_iff intro!: bexI [of _ old])
    moreover have "q \<in> set tb' \<longleftrightarrow> q \<in> set tb" if "skey q \<noteq> (t, p)"
      using that assms(4) P by (auto simp: s(2) image_iff)
    moreover have "s = upd q" if "q \<in> set tb" "skey q = (t, p)"
      using schedOk_key_unique [OF assms(1) old(1) that(1)] old(2) that(2) s(1) by simp
    ultimately show ?thesis using ok' old assms(4) s(1) by auto
  next
    case None
    let ?i = "nextRowID (map scID tb)"
    have s: "tb' = tb @ [s]" "scID s = ?i" "scJobType s = t" "scParams s = p" "scCron s = cron" "scEnabled s = enabled"
      using assms(3) None by (auto simp: upsertRow_def Let_def)
    have no: "x \<in> set tb \<Longrightarrow> skey x \<noteq> (t, p)" for x using None P by (auto simp: find_None_iff)
    have ks: "skey s = (t, p)" using s by (simp add: skey_def)
    have "?i \<notin> scID ` set tb" using nextRowID_fresh(1) [of "map scID tb"] by simp
    moreover have "(t, p) \<notin> skey ` set tb" using no by force
    ultimately have "schedOk tb'"
      using assms(1,2) s(1,2,4) ks unfolding schedOk_def by simp
    then show ?thesis using no ks s by auto
  qed
  then show "schedOk tb'" "skey s = (t, p)" "s \<in> set tb'"
    "skey q \<noteq> (t, p) \<Longrightarrow> q \<in> set tb' \<longleftrightarrow> q \<in> set tb" "q \<in> set tb \<Longrightarrow> skey q = (t, p) \<Longrightarrow> s = upd q"
    "(\<nexists>q. q \<in> set tb \<and> skey q = (t, p)) \<Longrightarrow> scCron s = cron \<and> scEnabled s = enabled" by blast+
qed

lemma syncUpd_fields [simp]: "scID (syncUpd now c e x) = scID x" "skey (syncUpd now c e x) = skey x"
  "scCron (syncUpd now c e x) = c" "scEnabled (syncUpd now c e x) = e" "scLastRunAt (syncUpd now c e x) = scLastRunAt x"
  by (simp_all add: syncUpd_def skey_def)

definition mirrored :: "schedTable \<Rightarrow> jobType \<Rightarrow> params \<times> string \<times> bool \<Rightarrow> schedule \<Rightarrow> bool" where
  "mirrored tb t w s \<longleftrightarrow> skey s = (t, fst w) \<and> scCron s = fst (snd w) \<and> scEnabled s = snd (snd w)
     \<and> (\<forall>q \<in> set tb. skey q = (t, fst w) \<longrightarrow> scID s = scID q \<and> scLastRunAt s = scLastRunAt q)"

lemma syncLoop_spec:
  assumes "schedOk tb" and "distinct (map fst ws)" and "\<forall>w \<in> set ws. canonicalParams (fst w) = fst w"
  shows "schedOk (snd (syncLoop t now ws tb))
    \<and> (\<forall>q. skey q \<notin> (\<lambda>w. (t, fst w)) ` set ws \<longrightarrow> (q \<in> set (snd (syncLoop t now ws tb)) \<longleftrightarrow> q \<in> set tb))
    \<and> (\<forall>w \<in> set ws. \<exists>s \<in> set (snd (syncLoop t now ws tb)). mirrored tb t w s)"
  using assms
proof (induction ws arbitrary: tb)
  case (Cons w ws)
  obtain p c e where w: "w = (p, c, e)" by (cases w)
  obtain s tb1 where u: "upsertRow t p now (syncUpd now c e) c e tb = (s, tb1)"
    by (cases "upsertRow t p now (syncUpd now c e) c e tb")
  have cp: "canonicalParams p = p" using Cons.prems(3) w by simp
  note up = upsertRow_spec [OF Cons.prems(1) cp u, simplified]
  let ?tb' = "snd (syncLoop t now ws tb1)"
  have res: "snd (syncLoop t now (w # ws) tb) = ?tb'" by (simp add: w u split: prod.split)
  have IH: "schedOk ?tb'" "\<And>q. skey q \<notin> (\<lambda>w. (t, fst w)) ` set ws \<Longrightarrow> q \<in> set ?tb' \<longleftrightarrow> q \<in> set tb1"
    "\<forall>w \<in> set ws. \<exists>s \<in> set ?tb'. mirrored tb1 t w s"
    using Cons.IH [OF up(1)] Cons.prems by auto
  have notin: "(t, p) \<notin> (\<lambda>w. (t, fst w)) ` set ws" using Cons.prems(2) w by auto
  have "mirrored tb t w s"
  proof (cases "\<exists>q \<in> set tb. skey q = (t, p)")
    case True
    then obtain q where q: "q \<in> set tb" "skey q = (t, p)" by blast
    then have s: "s = syncUpd now c e q" using up(5) by blast
    have u: "\<forall>q' \<in> set tb. skey q' = (t, p) \<longrightarrow> q' = q"
      using schedOk_key_unique [OF Cons.prems(1) _ q(1)] q(2) by simp
    show ?thesis unfolding mirrored_def w s fst_conv snd_conv syncUpd_fields q(2) using u by blast
  next
    case False
    then show ?thesis using up(2,6) by (auto simp: mirrored_def w)
  qed
  moreover have "s \<in> set ?tb'" using IH(2) [of s] up(2,3) notin by simp
  moreover have "\<exists>s \<in> set ?tb'. mirrored tb t w' s" if w': "w' \<in> set ws" for w'
  proof -
    obtain s' where s': "s' \<in> set ?tb'" "mirrored tb1 t w' s'" using IH(3) w' by blast
    have "fst w' \<noteq> p" using Cons.prems(2) w' w by auto
    then have "mirrored tb t w' s'" using s'(2) up(4) by (auto simp: mirrored_def)
    with s' show ?thesis by blast
  qed
  moreover have "q \<in> set ?tb' \<longleftrightarrow> q \<in> set tb" if "skey q \<notin> (\<lambda>w. (t, fst w)) ` set (w # ws)" for q
    using that IH(2) [of q] up(4) [of q] w by auto
  ultimately show ?case unfolding res using IH(1) by auto
qed auto

lemma checkWanted_spec:
  "checkWanted parse now t match seen want = Inr ws \<Longrightarrow>
   distinct (map fst ws) \<and> fst ` set ws \<inter> seen = {} \<and> (\<forall>w \<in> set ws. canonicalParams (fst w) = fst w \<and> paramsMatch (fst w) match)
   \<and> map (\<lambda>w. (canonicalParams (ssParams w), trimSpace (ssCron w), ssEnabled w)) want = ws"
proof (induction want arbitrary: seen ws)
  case (Cons w want)
  let ?p = "canonicalParams (ssParams w)"
  obtain r where r: "checkWanted parse now t match (insert ?p seen) want = Inr r"
      "ws = (?p, trimSpace (ssCron w), ssEnabled w) # r" "?p \<notin> seen" "paramsMatch (normalizeParams (ssParams w)) match"
    using Cons.prems by (auto simp: Let_def split: sum.splits option.splits if_splits)
  have "canonicalParams ?p = ?p" by (simp add: canonicalParams_def normalizeParams_def canonicalPaths_idem)
  with Cons.IH [OF r(1)] r show ?case by (auto simp: canonicalParams_def)
qed simp

text \<open>The table after the mirror, row by row.\<close>

definition dropped :: "jobType \<Rightarrow> params \<Rightarrow> (params \<times> string \<times> bool) list \<Rightarrow> schedule \<Rightarrow> bool" where
  "dropped t match ws s \<longleftrightarrow> scJobType s = t \<and> paramsMatch (scParams s) match \<and> canonicalParams (scParams s) \<notin> fst ` set ws"

definition inScope :: "jobType \<Rightarrow> params \<Rightarrow> schedule \<Rightarrow> bool" where
  "inScope t match s \<longleftrightarrow> scJobType s = t \<and> paramsMatch (scParams s) match"

lemma sync_rows:
  assumes "schedOk tb" and "distinct (map fst ws)" and "\<forall>w \<in> set ws. canonicalParams (fst w) = fst w \<and> paramsMatch (fst w) match"
    and "tb' = snd (syncLoop t now ws (filter (\<lambda>s. \<not> dropped t match ws s) tb))"
  shows "schedOk tb'"
    and "s \<in> set tb' \<Longrightarrow> inScope t match s \<Longrightarrow> \<exists>w \<in> set ws. mirrored (filter (\<lambda>s. \<not> dropped t match ws s) tb) t w s"
    and "w \<in> set ws \<Longrightarrow> \<exists>s \<in> set tb'. inScope t match s \<and> mirrored (filter (\<lambda>s. \<not> dropped t match ws s) tb) t w s"
    and "\<not> inScope t match s \<Longrightarrow> s \<in> set tb' \<longleftrightarrow> s \<in> set tb"
proof -
  let ?tb0 = "filter (\<lambda>s. \<not> dropped t match ws s) tb"
  have ok0: "schedOk ?tb0" using schedOk_filter assms(1) .
  have sl: "schedOk tb'"
    "\<And>q. skey q \<notin> (\<lambda>w. (t, fst w)) ` set ws \<Longrightarrow> q \<in> set tb' \<longleftrightarrow> q \<in> set ?tb0"
    "\<And>w. w \<in> set ws \<Longrightarrow> \<exists>s \<in> set tb'. mirrored ?tb0 t w s"
    using syncLoop_spec [OF ok0, of ws t now] assms(2,3) unfolding assms(4) by auto
  show "schedOk tb'" by (rule sl(1))
  show "\<exists>w \<in> set ws. mirrored ?tb0 t w s" if s: "s \<in> set tb'" "inScope t match s"
  proof -
    have "skey s \<in> (\<lambda>w. (t, fst w)) ` set ws"
    proof (rule ccontr)
      assume no: "skey s \<notin> (\<lambda>w. (t, fst w)) ` set ws"
      then have "s \<in> set tb" "\<not> dropped t match ws s" using sl(2) s(1) by auto
      moreover from this(1) have "canonicalParams (scParams s) = scParams s"
        using assms(1) by (simp add: schedOk_def list_all_iff)
      ultimately show False using no s(2) by (auto simp: skey_def dropped_def inScope_def)
    qed
    then obtain w where w: "w \<in> set ws" "skey s = (t, fst w)" by auto
    obtain s' where s': "s' \<in> set tb'" "mirrored ?tb0 t w s'" using sl(3) w(1) by blast
    then have "s' = s" using schedOk_key_unique [OF sl(1) s'(1) s(1)] w(2) by (simp add: mirrored_def)
    with w s' show ?thesis by blast
  qed
  show "\<exists>s \<in> set tb'. inScope t match s \<and> mirrored ?tb0 t w s" if w: "w \<in> set ws"
  proof -
    obtain s where s: "s \<in> set tb'" "mirrored ?tb0 t w s" using sl(3) [OF w] by blast
    then have "inScope t match s" using assms(3) w by (simp add: inScope_def mirrored_def skey_def)
    with s show ?thesis by blast
  qed
  show "s \<in> set tb' \<longleftrightarrow> s \<in> set tb" if out: "\<not> inScope t match s"
  proof -
    have "skey s \<notin> (\<lambda>w. (t, fst w)) ` set ws" using out assms(3) by (auto simp: skey_def inScope_def)
    then show ?thesis using sl(2) out by (auto simp: dropped_def inScope_def)
  qed
qed

section \<open>Properties\<close>

text \<open>C32: mirroring a set of schedules makes the schedules of the job type that match exactly
  the wanted ones (params in canonical form, cron trimmed, enabled flag), changes no other
  schedule, keeps the table well formed (unique ids, one schedule per job type and params), and a
  schedule that existed keeps its id and last run.\<close>

theorem SyncSchedules_exact:
  assumes "schedOk tb" and "SyncSchedules parse now t match want tb = Inr (out, tb')"
  shows "schedOk tb'
    \<and> (\<lambda>s. (scParams s, scCron s, scEnabled s)) ` {s \<in> set tb'. inScope t match s}
        = (\<lambda>w. (canonicalParams (ssParams w), trimSpace (ssCron w), ssEnabled w)) ` set want
    \<and> (\<forall>s. \<not> inScope t match s \<longrightarrow> (s \<in> set tb' \<longleftrightarrow> s \<in> set tb))
    \<and> (\<forall>q \<in> set tb. \<forall>s \<in> set tb'. skey q = skey s \<longrightarrow> scID s = scID q \<and> scLastRunAt s = scLastRunAt q)"
proof -
  obtain ws where ws: "checkWanted parse now t match {} want = Inr ws"
    using assms(2) by (auto simp: SyncSchedules_def split: if_splits sum.splits)
  let ?tb0 = "filter (\<lambda>s. \<not> dropped t match ws s) tb" and ?val = "\<lambda>s. (scParams s, scCron s, scEnabled s)"
  note cw = checkWanted_spec [OF ws]
  have tb': "tb' = snd (syncLoop t now ws ?tb0)"
    using assms(2) ws by (auto simp: SyncSchedules_def dropped_def Let_def split: if_splits prod.splits)
  have dws: "distinct (map fst ws)" "\<forall>w \<in> set ws. canonicalParams (fst w) = fst w \<and> paramsMatch (fst w) match"
    using cw by blast+
  note rows = sync_rows [OF assms(1) dws tb']
  have val: "?val s = w" if "mirrored ?tb0 t w s" for w s
    using that by (cases w) (simp add: mirrored_def skey_def)
  have "?val ` {s \<in> set tb'. inScope t match s} = set ws"
  proof (intro equalityI subsetI)
    fix x assume "x \<in> ?val ` {s \<in> set tb'. inScope t match s}"
    then obtain s where s: "s \<in> set tb'" "inScope t match s" "x = ?val s" by blast
    obtain w where "w \<in> set ws" "mirrored ?tb0 t w s" using rows(2) [OF s(1,2)] by blast
    then show "x \<in> set ws" using val s(3) by simp
  next
    fix w assume "w \<in> set ws"
    then obtain s where "s \<in> set tb'" "inScope t match s" "mirrored ?tb0 t w s" using rows(3) by blast
    then show "w \<in> ?val ` {s \<in> set tb'. inScope t match s}" using val [of w s] by (intro image_eqI [of _ _ s]) simp_all
  qed
  moreover have "set ws = (\<lambda>w. (canonicalParams (ssParams w), trimSpace (ssCron w), ssEnabled w)) ` set want"
    using cw by (metis list.set_map)
  moreover have "scID s = scID q \<and> scLastRunAt s = scLastRunAt q" if qs: "q \<in> set tb" "s \<in> set tb'" "skey q = skey s" for q s
  proof (cases "inScope t match s")
    case True
    then obtain w where w: "w \<in> set ws" "mirrored ?tb0 t w s" using rows(2) qs(2) by blast
    have "canonicalParams (scParams q) = scParams q" using qs(1) assms(1) by (simp add: schedOk_def list_all_iff)
    then have "q \<in> set ?tb0" using qs w by (auto simp: mirrored_def skey_def dropped_def)
    then show ?thesis using w(2) qs(3) by (simp add: mirrored_def)
  next
    case False
    then have "s \<in> set tb" using rows(4) qs(2) by blast
    then show ?thesis using schedOk_key_unique [OF assms(1) qs(1)] qs(3) by auto
  qed
  ultimately show ?thesis using rows(1,4) by blast
qed

definition exParse :: cronParser where
  "exParse e = Some (\<lambda>t. Some (t + hour_ns))"

definition exBackup :: params where
  "exBackup = noParams\<lparr>pIntegrationID := 5, pDestinationID := 1\<rparr>"

definition exSchedule :: schedule where
  "exSchedule = \<lparr>scID = 1, scJobType = TypePlexDBBackup, scParams = exBackup, scCron = CHR 0x40 # ''daily'',
     scEnabled = True, scLastRunAt = None, scCreatedAt = 7, scUpdatedAt = 7\<rparr>"

lemma ex_SyncSchedules:
  "SyncSchedules exParse 7 TypePlexDBBackup (noParams\<lparr>pIntegrationID := 5\<rparr>)
     [\<lparr>ssParams = exBackup, ssCron = CHR 0x40 # ''daily '', ssEnabled = True\<rparr>] []
   = Inr ([exSchedule], [exSchedule])"
  by code_simp

theorem SyncSchedules_exact_witness: "schedOk [exSchedule]"
  using SyncSchedules_exact [OF _ ex_SyncSchedules] by (simp add: schedOk_def)

end
