(* ===== verification/JobManager.thy ===== *)
theory JobManager
  imports JobStore
begin

text \<open>
  The job manager (internal/jobqueue/manager.go): worker pools, lock keys and slot pools, the
  dispatcher, what a runner's outcome does to its job, cancellation, shutdown and start-up
  recovery.  The manager's fields under its mutex are one record; every critical section and
  every store transaction is one step, so the interleavings of the dispatcher, the runners and
  the API are the sequences of steps.  Texts pass through \<open>RedactSecrets\<close>
  (internal/logging), a parameter here; simulated crashes (fault injection of the tests) are
  left out, a real crash of the process is a step.
\<close>

declare LockKeys.simps [simp del]

section \<open>State\<close>

datatype mstate = stateNew | stateStarted | stateStopped

text \<open>Why a running job's context was cancelled; the first cause is kept.\<close>

datatype cause = errUserCancel | errShutdown

text \<open>Between being taken from the queue and its row being marked running a job is starting.\<close>

datatype phase = PhaseStarting | PhaseRunning

record activeJob =
  aID :: ident
  aType :: jobType
  aKeys :: "string list"
  aSlots :: "string list"
  aRefresh :: bool
  aCause :: "cause option"
  aPhase :: phase
  aProgress :: string

text \<open>A pool of slots: its name, its limit and whether a job needs one of its slots (no value:
  the check failed).\<close>

record slotPool =
  spName :: string
  spLimit :: int
  spNeeds :: "(job \<Rightarrow> bool option) option"

record options =
  oRefreshWorkers :: int
  oMaxAttempts :: int
  oSlots :: "slotPool list"
  oRedact :: "string \<Rightarrow> string"
  oValidJSON :: "string \<Rightarrow> bool"
  oDeferMessage :: "gotime \<Rightarrow> string"

record manager =
  mStore :: store
  mState :: mstate
  mWorkers :: int
  mRunners :: "jobType list"
  mRunning :: "activeJob list"
  mKeys :: "string \<Rightarrow> ident option"
  mSlots :: "string \<Rightarrow> int"
  mHolds :: ident
  mHeld :: "(ident \<times> string list) list"
  mSeen :: "job list"
  mFired :: "job list"

definition queuedScan :: nat where
  "queuedScan = 1000"

definition DefaultWorkers :: int where "DefaultWorkers = 2"
definition DefaultRefreshWorkers :: int where "DefaultRefreshWorkers = 2"
definition DefaultMaxAttempts :: int where "DefaultMaxAttempts = 3"

text \<open>The defaults and bounds \<open>New\<close> applies.\<close>

definition normalizeOptions :: "options \<Rightarrow> options" where
  "normalizeOptions o1 = o1\<lparr>
     oRefreshWorkers := (if oRefreshWorkers o1 < 1 then DefaultRefreshWorkers else oRefreshWorkers o1),
     oMaxAttempts := (if oMaxAttempts o1 < 1 then DefaultMaxAttempts else oMaxAttempts o1),
     oSlots := map (\<lambda>p. p\<lparr>spLimit := max (spLimit p) 1\<rparr>) (oSlots o1)\<rparr>"

definition New :: "int \<Rightarrow> jobType list \<Rightarrow> store \<Rightarrow> manager" where
  "New workers runners st =
     \<lparr>mStore = st, mState = stateNew, mWorkers = (if workers < 1 then DefaultWorkers else workers),
      mRunners = runners, mRunning = [], mKeys = (\<lambda>_. None), mSlots = (\<lambda>_. 0), mHolds = 0,
      mHeld = [], mSeen = [], mFired = []\<rparr>"

definition findActive :: "ident \<Rightarrow> manager \<Rightarrow> activeJob option" where
  "findActive i m = find (\<lambda>a. aID a = i) (mRunning m)"

section \<open>Lock keys\<close>

definition acquireKeys :: "ident \<Rightarrow> string list \<Rightarrow> (string \<Rightarrow> ident option) \<Rightarrow> string \<Rightarrow> ident option" where
  "acquireKeys i ks t = fold (\<lambda>k t. t(k \<mapsto> i)) ks t"

definition freeKeys :: "ident \<Rightarrow> string list \<Rightarrow> (string \<Rightarrow> ident option) \<Rightarrow> string \<Rightarrow> ident option" where
  "freeKeys i ks t = fold (\<lambda>k t. if t k = Some i then t(k := None) else t) ks t"

definition keysHeldLocked :: "string list \<Rightarrow> manager \<Rightarrow> bool" where
  "keysHeldLocked ks m = list_ex (\<lambda>k. mKeys m k \<noteq> None) ks"

datatype holdError = ErrBusy string ident

definition HoldKeys :: "string list \<Rightarrow> manager \<Rightarrow> holdError + (ident \<times> manager)" where
  "HoldKeys ks m =
     (case find (\<lambda>k. mKeys m k \<noteq> None) ks of
        Some k \<Rightarrow> Inl (ErrBusy k (the (mKeys m k)))
      | None \<Rightarrow>
          (let i = mHolds m - 1
           in Inr (i, m\<lparr>mHolds := i, mKeys := acquireKeys i ks (mKeys m), mHeld := (i, ks) # mHeld m\<rparr>)))"

text \<open>The release function a hold returns; calling it again does nothing.\<close>

definition releaseHold :: "ident \<Rightarrow> manager \<Rightarrow> manager" where
  "releaseHold i m =
     (case find (\<lambda>h. fst h = i) (mHeld m) of
        None \<Rightarrow> m
      | Some h \<Rightarrow> m\<lparr>mKeys := freeKeys i (snd h) (mKeys m), mHeld := filter (\<lambda>h. fst h \<noteq> i) (mHeld m)\<rparr>)"

section \<open>Pools and slots\<close>

definition refreshPool :: "jobType \<Rightarrow> bool" where
  "refreshPool t \<longleftrightarrow> t = TypeRefresh"

definition refreshCount :: "manager \<Rightarrow> int" where
  "refreshCount m = int (length (filter aRefresh (mRunning m)))"

definition generalCount :: "manager \<Rightarrow> int" where
  "generalCount m = int (length (mRunning m)) - refreshCount m"

definition poolsFullLocked :: "options \<Rightarrow> manager \<Rightarrow> jobType \<Rightarrow> bool \<times> bool" where
  "poolsFullLocked o1 m t =
     (let generalFull = (generalCount m \<ge> mWorkers m);
          refreshFull = (refreshCount m \<ge> oRefreshWorkers o1)
      in if refreshPool t then (generalFull \<and> refreshFull, refreshFull)
         else (generalFull \<and> refreshFull, generalFull))"

fun slotsForLoop :: "slotPool list \<Rightarrow> job \<Rightarrow> string list option" where
  "slotsForLoop [] j = Some []"
| "slotsForLoop (p # ps) j =
     (case spNeeds p of
        None \<Rightarrow> slotsForLoop ps j
      | Some needs \<Rightarrow>
          (case needs j of
             None \<Rightarrow> None
           | Some b \<Rightarrow>
               (case slotsForLoop ps j of
                  None \<Rightarrow> None
                | Some rest \<Rightarrow> Some (if b then spName p # rest else rest))))"

definition slotsFor :: "options \<Rightarrow> job \<Rightarrow> string list option" where
  "slotsFor o1 j = slotsForLoop (oSlots o1) j"

definition slotsFreeLocked :: "options \<Rightarrow> string list \<Rightarrow> manager \<Rightarrow> bool" where
  "slotsFreeLocked o1 pools m =
     list_all (\<lambda>name. list_all (\<lambda>p. \<not> (spName p = name \<and> mSlots m name \<ge> spLimit p)) (oSlots o1)) pools"

definition addSlots :: "string list \<Rightarrow> (string \<Rightarrow> int) \<Rightarrow> string \<Rightarrow> int" where
  "addSlots ps t = fold (\<lambda>p t. t(p := t p + 1)) ps t"

definition subSlots :: "string list \<Rightarrow> (string \<Rightarrow> int) \<Rightarrow> string \<Rightarrow> int" where
  "subSlots ps t = fold (\<lambda>p t. if t p > 0 then t(p := t p - 1) else t) ps t"

section \<open>Taking and forgetting jobs\<close>

text \<open>The manager's critical section that takes a job from the queue.\<close>

definition takeJob :: "job \<Rightarrow> string list \<Rightarrow> manager \<Rightarrow> manager" where
  "takeJob j slots m =
     (let ks = LockKeys (jType j) (jParams j)
      in m\<lparr>mRunning := \<lparr>aID = jID j, aType = jType j, aKeys = ks, aSlots = slots,
                        aRefresh = refreshPool (jType j), aCause = None, aPhase = PhaseStarting,
                        aProgress = jProgress j\<rparr> # mRunning m,
           mKeys := acquireKeys (jID j) ks (mKeys m), mSlots := addSlots slots (mSlots m)\<rparr>)"

definition forget :: "activeJob \<Rightarrow> manager \<Rightarrow> manager" where
  "forget a m =
     m\<lparr>mRunning := filter (\<lambda>b. aID b \<noteq> aID a) (mRunning m), mKeys := freeKeys (aID a) (aKeys a) (mKeys m),
       mSlots := subSlots (aSlots a) (mSlots m)\<rparr>"

text \<open>The conditions of the dispatcher's two checks of a queued job.\<close>

definition canTake :: "options \<Rightarrow> job \<Rightarrow> string list \<Rightarrow> manager \<Rightarrow> bool" where
  "canTake o1 j slots m \<longleftrightarrow> mState m = stateStarted \<and> \<not> fst (poolsFullLocked o1 m (jType j))
     \<and> findActive (jID j) m = None \<and> \<not> snd (poolsFullLocked o1 m (jType j))
     \<and> \<not> keysHeldLocked (LockKeys (jType j) (jParams j)) m \<and> slotsFreeLocked o1 slots m"

definition due :: "gotime \<Rightarrow> job \<Rightarrow> bool" where
  "due now j \<longleftrightarrow> \<not> (case jNotBefore j of None \<Rightarrow> False | Some t \<Rightarrow> t > now)"

text \<open>Hooks are called with the job as stored after its final state was committed.\<close>

definition fireHooks :: "ident \<Rightarrow> manager \<Rightarrow> manager" where
  "fireHooks i m =
     (case GetJob i (mStore m) of None \<Rightarrow> m | Some j \<Rightarrow> m\<lparr>mFired := mFired m @ [j]\<rparr>)"

text \<open>Marking a taken job running: the row is running now, or it was no longer queued.\<close>

definition startTaken :: "activeJob \<Rightarrow> gotime \<Rightarrow> manager \<Rightarrow> manager" where
  "startTaken a now m =
     (case markRunning (aID a) now (mStore m) of
        (None, st) \<Rightarrow> forget a (m\<lparr>mStore := st\<rparr>)
      | (Some _, st) \<Rightarrow>
          m\<lparr>mStore := st,
            mRunning := map (\<lambda>b. if aID b = aID a then b\<lparr>aPhase := PhaseRunning\<rparr> else b) (mRunning m)\<rparr>)"

fun typeString :: "jobType \<Rightarrow> string" where
  "typeString TypeScan = ''scan''"
| "typeString TypeSync = ''sync''"
| "typeString TypePlexDBBackup = ''plexdb_backup''"
| "typeString TypeRetention = ''retention''"
| "typeString TypeVerify = ''verify''"
| "typeString TypeRefresh = ''refresh''"
| "typeString TypeArrBackup = ''arr_backup''"
| "typeString TypeManifestExport = ''manifest_export''"
| "typeString (TypeOther s) = s"

text \<open>The message quotes the type; stored types are the eight above, which need no escapes.\<close>

definition noRunnerText :: "jobType \<Rightarrow> string" where
  "noRunnerText t = ''no runner is registered for job type '' @ [CHR 0x22] @ typeString t @ [CHR 0x22]"

definition failUnrunnable :: "job \<Rightarrow> gotime \<Rightarrow> manager \<Rightarrow> manager" where
  "failUnrunnable j now m =
     (case finishQueued (jID j) StatusFailed (noRunnerText (jType j)) [] now (mStore m) of
        (False, st) \<Rightarrow> m\<lparr>mStore := st\<rparr>
      | (True, st) \<Rightarrow> fireHooks (jID j) (m\<lparr>mStore := st\<rparr>))"

section \<open>The dispatcher\<close>

definition earlier :: "gotime option \<Rightarrow> gotime \<Rightarrow> gotime option" where
  "earlier w t = (case w of None \<Rightarrow> Some t | Some u \<Rightarrow> if t < u then Some t else Some u)"

text \<open>One pass over the queue it read, without other activity between its steps: the second
  check of a job, after the slot pools were asked, then differs from the first only in the slots.\<close>

fun dispatchLoop :: "options \<Rightarrow> gotime \<Rightarrow> job list \<Rightarrow> gotime option \<Rightarrow> manager \<Rightarrow> gotime option \<times> manager" where
  "dispatchLoop o1 now [] w m = (w, m)"
| "dispatchLoop o1 now (j # js) w m =
     (if \<not> due now j then dispatchLoop o1 now js (earlier w (the (jNotBefore j))) m
      else if fst (poolsFullLocked o1 m (jType j)) \<or> mState m \<noteq> stateStarted then (w, m)
      else if findActive (jID j) m \<noteq> None \<or> snd (poolsFullLocked o1 m (jType j))
      then dispatchLoop o1 now js w m
      else if jType j \<notin> set (mRunners m) then dispatchLoop o1 now js w (failUnrunnable j now m)
      else if keysHeldLocked (LockKeys (jType j) (jParams j)) m then dispatchLoop o1 now js w m
      else (case slotsFor o1 j of
              None \<Rightarrow> dispatchLoop o1 now js w m
            | Some slots \<Rightarrow>
                if canTake o1 j slots m
                then (let m1 = takeJob j slots m
                      in dispatchLoop o1 now js w (startTaken (hd (mRunning m1)) now m1))
                else dispatchLoop o1 now js w m))"

definition dispatch :: "options \<Rightarrow> gotime \<Rightarrow> manager \<Rightarrow> gotime option \<times> manager" where
  "dispatch o1 now m =
     (if fst (poolsFullLocked o1 m (TypeOther [])) then (None, m)
      else (let q = queuedJobs queuedScan (mStore m)
            in dispatchLoop o1 now q None (m\<lparr>mSeen := q\<rparr>)))"

section \<open>What a runner's outcome does\<close>

record result =
  rStats :: "string option"
  rWarnings :: int
  rSummary :: string

definition emptyResult :: result where
  "emptyResult = \<lparr>rStats = None, rWarnings = 0, rSummary = []\<rparr>"

text \<open>An error is a deferral (until a time; no value is the zero time) or any other error with its
  text.\<close>

datatype runError = Deferred "gotime option" string | Failed string

datatype outcome = Panicked string | Returned result "runError option"

definition outcomeResult :: "outcome \<Rightarrow> result" where
  "outcomeResult out = (case out of Panicked _ \<Rightarrow> emptyResult | Returned r _ \<Rightarrow> r)"

datatype verdict = VDefer gotime string | VRequeue | VFinal status string

definition errNoResumeTime :: string where
  "errNoResumeTime = ''deferred without a time to resume''"

text \<open>The switch of \<open>finish\<close>.  A context is cancelled exactly when it has a cause.\<close>

fun finishVerdict :: "options \<Rightarrow> gotime \<Rightarrow> cause option \<Rightarrow> outcome \<Rightarrow> verdict" where
  "finishVerdict o1 now c (Panicked p) = VFinal StatusFailed (''runner panicked: '' @ oRedact o1 p)"
| "finishVerdict o1 now c (Returned r None) =
     VFinal (if rWarnings r > 0 then StatusCompletedWithWarnings else StatusCompleted) []"
| "finishVerdict o1 now c (Returned r (Some e)) =
     (if c = Some errUserCancel then VFinal StatusCancelled []
      else (case e of
              Deferred until reason \<Rightarrow>
                (case until of
                   Some t \<Rightarrow> if t > now then VDefer t reason
                             else VFinal StatusFailed (errNoResumeTime @ (if reason = [] then [] else '': '' @ oRedact o1 reason))
                 | None \<Rightarrow> VFinal StatusFailed (errNoResumeTime @ (if reason = [] then [] else '': '' @ oRedact o1 reason)))
            | Failed msg \<Rightarrow>
                if c = Some errShutdown then VRequeue else VFinal StatusFailed (oRedact o1 msg)))"

definition statsJSON :: "options \<Rightarrow> string option \<Rightarrow> string" where
  "statsJSON o1 stats =
     (case stats of
        None \<Rightarrow> ''{}''
      | Some b \<Rightarrow> if b \<noteq> [] \<and> hd b = CHR 0x7B \<and> oValidJSON o1 (oRedact o1 b) then oRedact o1 b else ''{}'')"

definition finalOf :: "options \<Rightarrow> gotime \<Rightarrow> activeJob \<Rightarrow> outcome \<Rightarrow> status \<Rightarrow> string \<Rightarrow> finalState" where
  "finalOf o1 now a out s errText =
     (let summary = oRedact o1 (rSummary (outcomeResult out))
      in \<lparr>fStatus = s, fStats = statsJSON o1 (rStats (outcomeResult out)),
          fWarnings = max (rWarnings (outcomeResult out)) 0,
          fSummary = (if s = StatusCancelled \<and> summary = [] then ''Cancelled.'' else summary),
          fErrText = errText, fProgress = aProgress a, fAt = now\<rparr>)"

definition deferActive :: "options \<Rightarrow> activeJob \<Rightarrow> gotime \<Rightarrow> manager \<Rightarrow> manager" where
  "deferActive o1 a t m =
     forget a (m\<lparr>mStore := snd (deferJob (aID a) t (oRedact o1 (oDeferMessage o1 t)) (aProgress a) (mStore m))\<rparr>)"

definition requeueInterrupted :: "activeJob \<Rightarrow> manager \<Rightarrow> manager" where
  "requeueInterrupted a m = forget a (m\<lparr>mStore := snd (requeue (aID a) (aProgress a) (mStore m))\<rparr>)"

text \<open>The last argument of \<open>finish\<close> says whether the store's write succeeded.  A failed write
  leaves the row running (the next start recovers it); the job is released all the same.\<close>

definition finish :: "options \<Rightarrow> gotime \<Rightarrow> activeJob \<Rightarrow> outcome \<Rightarrow> bool \<Rightarrow> manager \<Rightarrow> manager" where
  "finish o1 now a out written m =
     (if \<not> written then forget a m
      else (case finishVerdict o1 now (aCause a) out of
              VDefer t reason \<Rightarrow> deferActive o1 a t m
            | VRequeue \<Rightarrow> requeueInterrupted a m
            | VFinal s errText \<Rightarrow>
                (case finishJob (aID a) (finalOf o1 now a out s errText) (mStore m) of
                   (ok, st) \<Rightarrow>
                     (let m1 = forget a (m\<lparr>mStore := st\<rparr>)
                      in if ok then fireHooks (aID a) m1 else m1))))"

lemmas finish_defs = finish_def deferActive_def requeueInterrupted_def

section \<open>Requests, start and stop\<close>

definition Enqueue :: "spec \<Rightarrow> gotime \<Rightarrow> manager \<Rightarrow> paramError + (job \<times> manager)" where
  "Enqueue s now m =
     (case createJob s now (mStore m) of
        Inl e \<Rightarrow> Inl e
      | Inr (j, out, st) \<Rightarrow> Inr (j, m\<lparr>mStore := st\<rparr>))"

definition setCause :: "cause \<Rightarrow> (activeJob \<Rightarrow> bool) \<Rightarrow> manager \<Rightarrow> manager" where
  "setCause c P m =
     m\<lparr>mRunning := map (\<lambda>a. if P a \<and> aCause a = None then a\<lparr>aCause := Some c\<rparr> else a) (mRunning m)\<rparr>"

datatype cancelError = ErrNotActive status | ErrNotFound

definition Cancel :: "ident \<Rightarrow> gotime \<Rightarrow> manager \<Rightarrow> cancelError option \<times> manager" where
  "Cancel i now m =
     (if findActive i m \<noteq> None then (None, setCause errUserCancel (\<lambda>a. aID a = i) m)
      else (case cancelQueued i now (mStore m) of
              (True, st) \<Rightarrow> (None, fireHooks i (m\<lparr>mStore := st\<rparr>))
            | (False, st) \<Rightarrow>
                (case GetJob i st of
                   None \<Rightarrow> (Some ErrNotFound, m\<lparr>mStore := st\<rparr>)
                 | Some j \<Rightarrow> (Some (ErrNotActive (jStatus j)), m\<lparr>mStore := st\<rparr>))))"

definition SetWorkers :: "int \<Rightarrow> manager \<Rightarrow> manager" where
  "SetWorkers n m = m\<lparr>mWorkers := max n 1\<rparr>"

definition Start :: "options \<Rightarrow> gotime \<Rightarrow> manager \<Rightarrow> manager option" where
  "Start o1 now m =
     (if mState m \<noteq> stateNew then None
      else (case recoverCrashed (oMaxAttempts o1) now (mStore m) of
              (requeued, failed, st) \<Rightarrow>
                Some ((fold fireHooks failed (m\<lparr>mStore := st\<rparr>))\<lparr>mState := stateStarted\<rparr>)))"

text \<open>\<open>Stop\<close> first stops dispatching and cancels what runs; after the grace period it abandons
  the jobs whose runners did not return.\<close>

definition StopCancel :: "manager \<Rightarrow> manager" where
  "StopCancel m =
     (if mState m \<noteq> stateStarted then m\<lparr>mState := stateStopped\<rparr>
      else setCause errShutdown (\<lambda>_. True) (m\<lparr>mState := stateStopped\<rparr>))"

definition abandon :: "activeJob \<Rightarrow> manager \<Rightarrow> manager" where
  "abandon a m = forget a (m\<lparr>mStore := snd (requeue (aID a) (aProgress a) (mStore m))\<rparr>)"

text \<open>A crash of the process: the rows stay as they are, a new manager starts over them.\<close>

definition crash :: "manager \<Rightarrow> manager" where
  "crash m = (New (mWorkers m) (mRunners m) (mStore m))\<lparr>mFired := mFired m\<rparr>"

section \<open>The lock table\<close>

text \<open>The contract of a lock table: who holds a key after keys were acquired or freed.\<close>

locale lock_table =
  fixes holder :: "'t \<Rightarrow> string \<Rightarrow> ident option"
    and acquire :: "ident \<Rightarrow> string list \<Rightarrow> 't \<Rightarrow> 't"
    and free :: "ident \<Rightarrow> string list \<Rightarrow> 't \<Rightarrow> 't"
  assumes holder_acquire: "holder (acquire i ks t) k = (if k \<in> set ks then Some i else holder t k)"
    and holder_free: "holder (free i ks t) k = (if k \<in> set ks \<and> holder t k = Some i then None else holder t k)"
begin

text \<open>The table holds exactly the keys of a list of owners with different ids.\<close>

definition owned :: "'t \<Rightarrow> (ident \<times> string list) list \<Rightarrow> bool" where
  "owned t os \<longleftrightarrow> distinct (map fst os)
     \<and> (\<forall>k i. holder t k = Some i \<longleftrightarrow> (\<exists>ks. (i, ks) \<in> set os \<and> k \<in> set ks))"

lemma owned_disjoint:
  assumes "owned t os" and "(i, ks) \<in> set os" and "(i', ks') \<in> set os" and "i \<noteq> i'"
  shows "set ks \<inter> set ks' = {}"
proof (rule equals0I)
  fix k assume "k \<in> set ks \<inter> set ks'"
  then have "holder t k = Some i" "holder t k = Some i'"
    using assms unfolding owned_def by blast+
  with assms(4) show False by simp
qed

lemma owned_unheld: "owned t os \<Longrightarrow> holder t k = None \<Longrightarrow> (i, ks) \<in> set os \<Longrightarrow> k \<notin> set ks"
  unfolding owned_def by (metis option.distinct(1))

lemma owned_acquire:
  assumes "owned t os" and "i \<notin> fst ` set os" and "\<forall>k \<in> set ks. holder t k = None"
  shows "owned (acquire i ks t) ((i, ks) # os)"
  unfolding owned_def
proof (intro conjI allI)
  show "distinct (map fst ((i, ks) # os))" using assms by (simp add: owned_def)
  fix k j
  show "holder (acquire i ks t) k = Some j \<longleftrightarrow> (\<exists>ks'. (j, ks') \<in> set ((i, ks) # os) \<and> k \<in> set ks')"
  proof (cases "k \<in> set ks")
    case True
    then have "holder t k = None" using assms(3) by blast
    then have "\<forall>ks'. (j, ks') \<in> set os \<longrightarrow> k \<notin> set ks'" using owned_unheld [OF assms(1)] by blast
    with True show ?thesis by (auto simp: holder_acquire)
  next
    case False
    then show ?thesis using assms(1) by (auto simp: holder_acquire owned_def)
  qed
qed

lemma owned_release:
  assumes "owned t os" and "(i, ks) \<in> set os"
  shows "owned (free i ks t) (filter (\<lambda>o'. fst o' \<noteq> i) os)"
  unfolding owned_def
proof (intro conjI allI)
  show "distinct (map fst (filter (\<lambda>o'. fst o' \<noteq> i) os))"
    using assms(1) by (simp add: owned_def distinct_map_filter)
  fix k j
  have same: "ks' = ks" if "(i, ks') \<in> set os" for ks'
    using assms that eq_key_imp_eq_value unfolding owned_def by metis
  have iff: "holder t k = Some j \<longleftrightarrow> (\<exists>ks'. (j, ks') \<in> set os \<and> k \<in> set ks')" for j
    using assms(1) by (simp add: owned_def)
  have "holder t k = Some i \<longleftrightarrow> k \<in> set ks"
    using assms same unfolding owned_def by blast
  then show "holder (free i ks t) k = Some j
      \<longleftrightarrow> (\<exists>ks'. (j, ks') \<in> set (filter (\<lambda>o'. fst o' \<noteq> i) os) \<and> k \<in> set ks')"
    using iff [of j] iff [of i] by (cases "j = i") (auto simp: holder_free)
qed

lemma owned_reorder:
  "owned t os \<Longrightarrow> set os' = set os \<Longrightarrow> distinct (map fst os') \<Longrightarrow> owned t os'"
  by (simp add: owned_def)

end

lemma acquireKeys_at: "acquireKeys i ks t k = (if k \<in> set ks then Some i else t k)"
  by (induction ks arbitrary: t) (auto simp: acquireKeys_def)

lemma freeKeys_at: "freeKeys i ks t k = (if k \<in> set ks \<and> t k = Some i then None else t k)"
proof (induction ks arbitrary: t)
  case (Cons a ks)
  have "freeKeys i (a # ks) t = freeKeys i ks (if t a = Some i then t(a := None) else t)"
    by (simp add: freeKeys_def)
  with Cons show ?case by auto
qed (simp add: freeKeys_def)

interpretation lk: lock_table "\<lambda>t. t" acquireKeys freeKeys
  by unfold_locales (simp_all add: acquireKeys_at freeKeys_at)

section \<open>Slots\<close>

definition slotCount :: "string \<Rightarrow> activeJob list \<Rightarrow> int" where
  "slotCount p as = int (length (filter (\<lambda>q. q = p) (concat (map aSlots as))))"

lemma addSlots_at: "addSlots ps t p = t p + int (length (filter (\<lambda>q. q = p) ps))"
  by (induction ps arbitrary: t) (auto simp: addSlots_def)

lemma subSlots_at:
  "(\<forall>p. int (length (filter (\<lambda>q. q = p) ps)) \<le> t p) \<Longrightarrow>
   subSlots ps t p = t p - int (length (filter (\<lambda>q. q = p) ps))"
proof (induction ps arbitrary: t)
  case (Cons a ps)
  have "0 < t a" using Cons.prems [rule_format, of a] by simp
  then have step: "subSlots (a # ps) t = subSlots ps (t(a := t a - 1))" by (simp add: subSlots_def)
  have "\<forall>p. int (length (filter (\<lambda>q. q = p) ps)) \<le> (t(a := t a - 1)) p"
  proof
    fix p
    show "int (length (filter (\<lambda>q. q = p) ps)) \<le> (t(a := t a - 1)) p"
      using Cons.prems [rule_format, of p] by (cases "p = a") auto
  qed
  from Cons.IH [OF this] show ?case by (cases "p = a") (simp_all add: step del: fun_upd_apply, simp_all)
qed (simp add: subSlots_def)

lemma slotCount_split:
  assumes "a \<in> set as" and "distinct (map aID as)"
  shows "slotCount p as = slotCount p (filter (\<lambda>b. aID b \<noteq> aID a) as) + int (length (filter (\<lambda>q. q = p) (aSlots a)))"
  using assms
proof (induction as)
  case (Cons b as)
  show ?case
  proof (cases "b = a")
    case True
    have "filter (\<lambda>c. aID c \<noteq> aID a) as = as"
      unfolding filter_id_conv using distinct_map_neq [OF Cons.prems(2)] True by blast
    with True show ?thesis by (simp add: slotCount_def)
  next
    case False
    then have "a \<in> set as" "aID b \<noteq> aID a" using Cons.prems by auto
    with Cons show ?thesis by (simp add: slotCount_def)
  qed
qed simp

section \<open>Steps of the manager\<close>

text \<open>The hooks of the jobs a scheduled sync superseded.\<close>

definition supersedeStep :: "params \<Rightarrow> ident \<Rightarrow> string \<Rightarrow> gotime \<Rightarrow> manager \<Rightarrow> manager" where
  "supersedeStep p keep msg now m =
     (case supersedeDeferredSyncs p keep msg now (mStore m) of
        (out, st) \<Rightarrow> m\<lparr>mStore := st, mFired := mFired m @ out\<rparr>)"

definition progressStep :: "ident \<Rightarrow> string \<Rightarrow> gotime \<Rightarrow> manager \<Rightarrow> manager" where
  "progressStep i pr now m =
     m\<lparr>mStore := saveProgress i pr now (mStore m),
       mRunning := map (\<lambda>a. if aID a = i then a\<lparr>aProgress := pr\<rparr> else a) (mRunning m)\<rparr>"

inductive mgrStep :: "options \<Rightarrow> manager \<Rightarrow> manager \<Rightarrow> bool" for o1 where
  scan: "mgrStep o1 m (m\<lparr>mSeen := queuedJobs queuedScan (mStore m)\<rparr>)"
| take: "j \<in> set (mSeen m) \<Longrightarrow> due now j \<Longrightarrow> jType j \<in> set (mRunners m) \<Longrightarrow> slotsFor o1 j = Some slots
    \<Longrightarrow> canTake o1 j slots m \<Longrightarrow> mgrStep o1 m (takeJob j slots m)"
| unrunnable: "j \<in> set (mSeen m) \<Longrightarrow> jType j \<notin> set (mRunners m) \<Longrightarrow> findActive (jID j) m = None
    \<Longrightarrow> mgrStep o1 m (failUnrunnable j now m)"
| start: "a \<in> set (mRunning m) \<Longrightarrow> aPhase a = PhaseStarting \<Longrightarrow> mgrStep o1 m (startTaken a now m)"
| startFailed: "a \<in> set (mRunning m) \<Longrightarrow> aPhase a = PhaseStarting \<Longrightarrow> mgrStep o1 m (forget a m)"
| progress: "mgrStep o1 m (progressStep i pr now m)"
| finish: "a \<in> set (mRunning m) \<Longrightarrow> aPhase a = PhaseRunning \<Longrightarrow> mgrStep o1 m (finish o1 now a out written m)"
| hold: "HoldKeys ks m = Inr (i, m') \<Longrightarrow> mgrStep o1 m m'"
| unhold: "mgrStep o1 m (releaseHold i m)"
| enqueue: "Enqueue s now m = Inr (j, m') \<Longrightarrow> mgrStep o1 m m'"
| cancel: "mgrStep o1 m (snd (Cancel i now m))"
| workers: "mgrStep o1 m (SetWorkers n m)"
| startUp: "Start o1 now m = Some m' \<Longrightarrow> mgrStep o1 m m'"
| stop: "mgrStep o1 m (StopCancel m)"
| abandon: "mState m = stateStopped \<Longrightarrow> a \<in> set (mRunning m) \<Longrightarrow> mgrStep o1 m (abandon a m)"
| supersede: "mgrStep o1 m (supersedeStep p keep msg now m)"
| planned: "mgrStep o1 m (m\<lparr>mStore := setPlannedAt i at (mStore m)\<rparr>)"
| crash: "mgrStep o1 m (crash m)"

inductive_cases mgrStepE: "mgrStep o1 m m'"

text \<open>The states a manager over a well-formed store reaches.\<close>

inductive reachable :: "options \<Rightarrow> manager \<Rightarrow> bool" for o1 where
  init: "storeOk st \<Longrightarrow> reachable o1 (New w rs st)"
| step: "reachable o1 m \<Longrightarrow> mgrStep o1 m m' \<Longrightarrow> reachable o1 m'"

end
