(* ===== verification/ManagerSafety.thy ===== *)
theory ManagerSafety
  imports JobManager
begin

text \<open>
  The invariant of the job manager and its guarantees: the lock table, the slot counters and the
  pools agree with the running jobs (\<open>localOk\<close>), every active job has its row, the dispatcher's
  view of the queue stays meaningful, and hooks fire for final rows only (\<open>mgrOk\<close>); one
  preservation lemma per operation, then one theorem over the step relation.  The store enters
  through the contract \<open>row_store\<close> (interpreted as \<open>js\<close>), the lock table through \<open>lock_table\<close>
  (interpreted as \<open>lk\<close>).
\<close>

section \<open>Invariant of keys, slots and pools\<close>

definition owners :: "manager \<Rightarrow> (ident \<times> string list) list" where
  "owners m = map (\<lambda>a. (aID a, aKeys a)) (mRunning m) @ mHeld m"

definition tableOk :: "manager \<Rightarrow> bool" where
  "tableOk m \<longleftrightarrow> lk.owned (mKeys m) (owners m) \<and> mHolds m \<le> 0
     \<and> (\<forall>h \<in> set (mHeld m). mHolds m \<le> fst h \<and> fst h < 0) \<and> (\<forall>a \<in> set (mRunning m). 0 < aID a)"

definition slotsOk :: "options \<Rightarrow> manager \<Rightarrow> bool" where
  "slotsOk o1 m \<longleftrightarrow> (\<forall>p. mSlots m p = slotCount p (mRunning m))
     \<and> (\<forall>a \<in> set (mRunning m). distinct (aSlots a))
     \<and> (\<forall>p \<in> set (oSlots o1). mSlots m (spName p) \<le> spLimit p)"

definition poolOk :: "options \<Rightarrow> manager \<Rightarrow> bool" where
  "poolOk o1 m \<longleftrightarrow> refreshCount m \<le> oRefreshWorkers o1
     \<and> (\<forall>a \<in> set (mRunning m). aRefresh a = refreshPool (aType a))"

definition localOk :: "options \<Rightarrow> manager \<Rightarrow> bool" where
  "localOk o1 m \<longleftrightarrow> tableOk m \<and> slotsOk o1 m \<and> poolOk o1 m"

text \<open>The options the wiring sets: as \<open>New\<close> bounds them, with different pool names.\<close>

definition optionsOk :: "options \<Rightarrow> bool" where
  "optionsOk o1 \<longleftrightarrow> distinct (map spName (oSlots o1)) \<and> (\<forall>p \<in> set (oSlots o1). 1 \<le> spLimit p)
     \<and> 1 \<le> oRefreshWorkers o1"

definition core :: "activeJob \<Rightarrow> ident \<times> jobType \<times> string list \<times> string list \<times> bool" where
  "core a = (aID a, aType a, aKeys a, aSlots a, aRefresh a)"

text \<open>Steps that only touch causes, phases, progress, the store or the dispatcher's view keep
  the local invariant.\<close>

lemma localOk_cong:
  assumes "map core (mRunning m') = map core (mRunning m)" and "mKeys m' = mKeys m"
    and "mSlots m' = mSlots m" and "mHolds m' = mHolds m" and "mHeld m' = mHeld m"
  shows "localOk o1 m' = localOk o1 m"
proof -
  have proj: "map f (mRunning m') = map f (mRunning m)" if "\<And>a. f a = g (core a)" for f :: "activeJob \<Rightarrow> 'x" and g
  proof -
    have "f = g \<circ> core" using that by auto
    then show ?thesis using assms(1) by (metis map_map)
  qed
  have sets: "Ball (set (mRunning m')) P \<longleftrightarrow> Ball (set (mRunning m)) P" if "\<And>a. P a = g (core a)" for P g
  proof -
    have "(\<forall>b \<in> set (map P (mRunning m')). b) \<longleftrightarrow> (\<forall>b \<in> set (map P (mRunning m)). b)"
      using proj [of P g, OF that] by simp
    then show ?thesis by simp
  qed
  have o: "owners m' = owners m"
    using proj [of "\<lambda>a. (aID a, aKeys a)" "\<lambda>c. (fst c, fst (snd (snd c)))"] assms(5)
    by (simp add: owners_def core_def)
  have sl: "slotCount p (mRunning m') = slotCount p (mRunning m)" for p
    using proj [of aSlots "\<lambda>c. fst (snd (snd (snd c)))"] by (simp add: slotCount_def core_def)
  have rf: "refreshCount m' = refreshCount m"
  proof -
    have "length (filter (\<lambda>b. b) (map aRefresh (mRunning m'))) = length (filter (\<lambda>b. b) (map aRefresh (mRunning m)))"
      using proj [of aRefresh "\<lambda>c. snd (snd (snd (snd c)))"] by (simp add: core_def)
    then show ?thesis by (simp add: refreshCount_def filter_map o_def)
  qed
  have b1: "(\<forall>a \<in> set (mRunning m'). 0 < aID a) \<longleftrightarrow> (\<forall>a \<in> set (mRunning m). 0 < aID a)"
    by (rule sets [of _ "\<lambda>c. 0 < fst c"]) (simp add: core_def)
  have b2: "(\<forall>a \<in> set (mRunning m'). distinct (aSlots a)) \<longleftrightarrow> (\<forall>a \<in> set (mRunning m). distinct (aSlots a))"
    by (rule sets [of _ "\<lambda>c. distinct (fst (snd (snd (snd c))))"]) (simp add: core_def)
  have b3: "(\<forall>a \<in> set (mRunning m'). aRefresh a = refreshPool (aType a))
      \<longleftrightarrow> (\<forall>a \<in> set (mRunning m). aRefresh a = refreshPool (aType a))"
    by (rule sets [of _ "\<lambda>c. snd (snd (snd (snd c))) = refreshPool (fst (snd c))"]) (simp add: core_def)
  show ?thesis
    by (simp add: localOk_def tableOk_def slotsOk_def poolOk_def o sl rf b1 b2 b3 assms(2-5))
qed

lemma findActive_None: "findActive i m = None \<longleftrightarrow> i \<notin> aID ` set (mRunning m)"
  by (auto simp: findActive_def find_None_iff)

lemma slotsForLoop_names:
  "distinct (map spName ps) \<Longrightarrow> slotsForLoop ps j = Some slots \<Longrightarrow>
   distinct slots \<and> set slots \<subseteq> spName ` set ps"
proof (induction ps arbitrary: slots)
  case (Cons p ps)
  then show ?case
    by (auto split: option.splits if_splits)
qed simp

lemma owners_distinct: "tableOk m \<Longrightarrow> distinct (map aID (mRunning m))"
  by (simp add: tableOk_def lk.owned_def owners_def comp_def)

lemma tableOk_take:
  assumes "tableOk m" and "canTake o1 j slots m" and "0 < jID j"
  shows "tableOk (takeJob j slots m)"
proof -
  let ?ks = "LockKeys (jType j) (jParams j)"
  have "\<forall>k \<in> set ?ks. mKeys m k = None"
    using assms(2) by (auto simp: canTake_def keysHeldLocked_def list_ex_iff)
  moreover have "jID j \<notin> fst ` set (owners m)"
    using assms by (auto simp: owners_def tableOk_def canTake_def findActive_None)
  ultimately have "lk.owned (acquireKeys (jID j) ?ks (mKeys m)) ((jID j, ?ks) # owners m)"
    using assms(1) lk.owned_acquire by (simp add: tableOk_def)
  then show ?thesis
    using assms(1,3) by (simp add: tableOk_def takeJob_def owners_def Let_def)
qed

lemma tableOk_forget:
  assumes "tableOk m" and "a \<in> set (mRunning m)"
  shows "tableOk (forget a m)"
proof -
  have "(aID a, aKeys a) \<in> set (owners m)" using assms(2) by (auto simp: owners_def)
  then have "lk.owned (freeKeys (aID a) (aKeys a) (mKeys m)) (filter (\<lambda>p. fst p \<noteq> aID a) (owners m))"
    using assms(1) lk.owned_release by (simp add: tableOk_def)
  moreover have "filter (\<lambda>p. fst p \<noteq> aID a) (mHeld m) = mHeld m"
    using assms by (force simp: tableOk_def filter_id_conv)
  then have "filter (\<lambda>p. fst p \<noteq> aID a) (owners m) = owners (forget a m)"
    by (simp add: owners_def forget_def filter_map comp_def)
  ultimately show ?thesis using assms(1) by (simp add: tableOk_def forget_def)
qed

lemma slotsOk_take:
  assumes "slotsOk o1 m" and "optionsOk o1" and "slotsFor o1 j = Some slots" and "canTake o1 j slots m"
  shows "slotsOk o1 (takeJob j slots m)"
proof -
  have d: "distinct slots"
    using slotsForLoop_names [of "oSlots o1" j slots] assms(2,3) by (simp add: slotsFor_def optionsOk_def)
  then have one: "int (length (filter (\<lambda>q. q = p) slots)) = (if p \<in> set slots then 1 else 0)" for p
    using distinct_length_filter [of slots "\<lambda>q. q = p"] by (auto simp: Int_def cong: conj_cong)
  have "mSlots (takeJob j slots m) (spName p) \<le> spLimit p" if "p \<in> set (oSlots o1)" for p
  proof (cases "spName p \<in> set slots")
    case True
    then have "mSlots m (spName p) < spLimit p"
      using assms(4) that by (force simp: canTake_def slotsFreeLocked_def list_all_iff)
    with True show ?thesis by (simp add: takeJob_def Let_def addSlots_at one)
  next
    case False
    have "mSlots m (spName p) \<le> spLimit p" using assms(1) that unfolding slotsOk_def by blast
    with False show ?thesis by (simp add: takeJob_def Let_def addSlots_at one)
  qed
  moreover have "slotCount p (mRunning (takeJob j slots m)) = mSlots (takeJob j slots m) p" for p
    using assms(1) by (simp add: takeJob_def Let_def slotCount_def slotsOk_def addSlots_at)
  ultimately show ?thesis
    using assms(1) d by (auto simp: slotsOk_def takeJob_def Let_def)
qed

lemma slotsOk_forget:
  assumes "slotsOk o1 m" and "a \<in> set (mRunning m)" and "distinct (map aID (mRunning m))"
  shows "slotsOk o1 (forget a m)"
proof -
  let ?r = "filter (\<lambda>b. aID b \<noteq> aID a) (mRunning m)"
  have split: "mSlots m p = slotCount p ?r + int (length (filter (\<lambda>q. q = p) (aSlots a)))" for p
    using slotCount_split [OF assms(2,3)] assms(1) by (simp add: slotsOk_def)
  then have "int (length (filter (\<lambda>q. q = p) (aSlots a))) \<le> mSlots m p" for p
    by (simp add: slotCount_def)
  then have "subSlots (aSlots a) (mSlots m) p = slotCount p ?r" for p
    using subSlots_at [of "aSlots a" "mSlots m" p] split [of p] by simp
  moreover have "slotCount (spName p) ?r \<le> spLimit p" if "p \<in> set (oSlots o1)" for p
    using split [of "spName p"] assms(1) that by (force simp: slotsOk_def)
  ultimately show ?thesis using assms(1) by (simp add: slotsOk_def forget_def)
qed

lemma poolOk_take:
  assumes "poolOk o1 m" and "canTake o1 j slots m"
  shows "poolOk o1 (takeJob j slots m)"
  using assms by (auto simp: poolOk_def canTake_def poolsFullLocked_def Let_def takeJob_def refreshCount_def
      split: if_splits)

lemma poolOk_forget:
  assumes "poolOk o1 m"
  shows "poolOk o1 (forget a m)"
proof -
  have "length (filter aRefresh (filter (\<lambda>b. aID b \<noteq> aID a) as)) \<le> length (filter aRefresh as)" for as
    by (induction as) auto
  from this [of "mRunning m"] show ?thesis using assms by (auto simp: poolOk_def forget_def refreshCount_def)
qed

lemma localOk_take:
  "localOk o1 m \<Longrightarrow> optionsOk o1 \<Longrightarrow> slotsFor o1 j = Some slots \<Longrightarrow> canTake o1 j slots m \<Longrightarrow> 0 < jID j
   \<Longrightarrow> localOk o1 (takeJob j slots m)"
  by (simp add: localOk_def tableOk_take slotsOk_take poolOk_take)

lemma localOk_forget: "localOk o1 m \<Longrightarrow> a \<in> set (mRunning m) \<Longrightarrow> localOk o1 (forget a m)"
  by (simp add: localOk_def tableOk_forget slotsOk_forget poolOk_forget owners_distinct)

lemma localOk_hold:
  assumes "localOk o1 m" and "HoldKeys ks m = Inr (i, m')"
  shows "localOk o1 m'"
proof -
  have free: "\<forall>k \<in> set ks. mKeys m k = None" and i: "i = mHolds m - 1"
    and m': "m' = m\<lparr>mHolds := i, mKeys := acquireKeys i ks (mKeys m), mHeld := (i, ks) # mHeld m\<rparr>"
    using assms(2) by (auto simp: HoldKeys_def Let_def find_None_iff split: option.splits)
  have "i \<notin> fst ` set (owners m)"
    using assms(1) i by (force simp: localOk_def tableOk_def owners_def)
  then have own: "lk.owned (acquireKeys i ks (mKeys m)) ((i, ks) # owners m)"
    using assms(1) free lk.owned_acquire by (simp add: localOk_def tableOk_def)
  have "lk.owned (mKeys m') (owners m')"
    by (rule lk.owned_reorder [of _ "(i, ks) # owners m"])
      (use own m' in \<open>auto simp: owners_def lk.owned_def\<close>)
  then show ?thesis
    using assms(1) i m' by (auto simp: localOk_def tableOk_def slotsOk_def poolOk_def refreshCount_def)
qed

lemma localOk_release:
  assumes "localOk o1 m"
  shows "localOk o1 (releaseHold i m)"
proof (cases "find (\<lambda>h. fst h = i) (mHeld m)")
  case (Some h)
  then have h: "h \<in> set (mHeld m)" "fst h = i" using find_Some_setD by fastforce+
  then have "(i, snd h) \<in> set (owners m)" by (auto simp: owners_def)
  then have "lk.owned (freeKeys i (snd h) (mKeys m)) (filter (\<lambda>p. fst p \<noteq> i) (owners m))"
    using assms lk.owned_release by (simp add: localOk_def tableOk_def)
  moreover have "filter (\<lambda>p. fst p \<noteq> i) (map (\<lambda>a. (aID a, aKeys a)) (mRunning m)) = map (\<lambda>a. (aID a, aKeys a)) (mRunning m)"
    using assms h by (force simp: filter_id_conv localOk_def tableOk_def)
  ultimately show ?thesis
    using assms Some by (auto simp: releaseHold_def owners_def localOk_def tableOk_def slotsOk_def poolOk_def refreshCount_def)
qed (use assms in \<open>simp add: releaseHold_def\<close>)

lemma localOk_New: "optionsOk o1 \<Longrightarrow> localOk o1 (New w rs st)"
  by (auto simp: localOk_def tableOk_def slotsOk_def poolOk_def New_def owners_def lk.owned_def slotCount_def
      refreshCount_def optionsOk_def)

section \<open>What the store's writes keep for the manager\<close>

definition keepsRunning :: "ident set \<Rightarrow> store \<Rightarrow> store \<Rightarrow> bool" where
  "keepsRunning I st st' \<longleftrightarrow> (\<forall>r \<in> set (stJobs st). jStatus r = StatusRunning \<and> jID r \<notin> I
     \<longrightarrow> (\<exists>r' \<in> set (stJobs st'). jID r' = jID r \<and> jStatus r' = StatusRunning))"

definition quiet :: "ident set \<Rightarrow> store \<Rightarrow> store \<Rightarrow> bool" where
  "quiet I st st' \<longleftrightarrow> liveStep st st' \<and> keepsRunning I st st'"

lemma updateJobs_keepsRunning:
  assumes "\<And>r. P r \<Longrightarrow> jID (f r) = jID r \<and> (jStatus r = StatusRunning \<longrightarrow> jID r \<in> I \<or> jStatus (f r) = StatusRunning)"
  shows "keepsRunning I st (updateJobs P f st)"
  unfolding keepsRunning_def
proof (intro ballI impI)
  fix r assume r: "r \<in> set (stJobs st)" "jStatus r = StatusRunning \<and> jID r \<notin> I"
  then show "\<exists>r' \<in> set (stJobs (updateJobs P f st)). jID r' = jID r \<and> jStatus r' = StatusRunning"
    using assms [of r] by (intro bexI [of _ "if P r then f r else r"]) (auto simp: updateJobs_rows)
qed

lemma quiet_markRunning: "quiet I st (snd (markRunning i now st))"
  unfolding quiet_def liveStep_def using storeStep.start [of st i now]
  by (auto simp: markRunning_def snd_updateRow updateJobs_idset intro!: updateJobs_keepsRunning)

lemma quiet_saveProgress: "quiet I st (saveProgress i pr now st)"
  unfolding quiet_def liveStep_def using storeStep.progress [of st i pr now]
  by (auto simp: saveProgress_def snd_updateRow updateJobs_idset intro!: updateJobs_keepsRunning)

lemma quiet_finishJob: "Final (fStatus f) \<Longrightarrow> quiet {i} st (snd (finishJob i f st))"
  unfolding quiet_def liveStep_def using storeStep.finish [of f st i]
  by (auto simp: finishJob_def split_def snd_updateRow updateJobs_idset intro!: updateJobs_keepsRunning)

lemma quiet_requeue: "quiet {i} st (snd (requeue i pr st))"
  unfolding quiet_def liveStep_def using storeStep.requeue [of st i pr]
  by (auto simp: requeue_def split_def snd_updateRow updateJobs_idset intro!: updateJobs_keepsRunning)

lemma quiet_deferJob: "quiet {i} st (snd (deferJob i until summary pr st))"
  unfolding quiet_def liveStep_def using storeStep.deferral [of st i until summary pr]
  by (auto simp: deferJob_def split_def snd_updateRow updateJobs_idset intro!: updateJobs_keepsRunning)

lemma quiet_finishQueued: "Final s \<Longrightarrow> quiet I st (snd (finishQueued i s e summary now st))"
  unfolding quiet_def liveStep_def using storeStep.finishQueued [of s st i e summary now]
  by (auto simp: finishQueued_def split_def snd_updateRow updateJobs_idset intro!: updateJobs_keepsRunning)

lemma quiet_setPlannedAt: "quiet I st (setPlannedAt i at st)"
  unfolding quiet_def liveStep_def using storeStep.planned [of st i at]
  by (auto simp: setPlannedAt_def updateJobs_idset intro!: updateJobs_keepsRunning)

lemma live_recoverCrashed: "liveStep st (snd (snd (recoverCrashed m now st)))"
  unfolding liveStep_def using storeStep.recover [of st m now]
  by (simp add: recoverCrashed_def Let_def updateJobs_idset)

lemma quiet_createJob:
  assumes "createJob s now st = Inr (j, out, st')"
  shows "quiet I st st'"
proof -
  have upd: "keepsRunning I st (updateJobs P (\<lambda>j. j\<lparr>jParams := x\<rparr>) st)" for P x
    by (rule updateJobs_keepsRunning) simp
  have keep: "keepsRunning I st st'" if "stJobs st' = stJobs st \<or> (\<exists>j. stJobs st' = stJobs st @ [j])
      \<or> (\<exists>P x. stJobs st' = stJobs (updateJobs P (\<lambda>j. j\<lparr>jParams := x\<rparr>) st))"
    using that upd by (auto simp: keepsRunning_def)
  have "stJobs st' = stJobs st \<or> (\<exists>j. stJobs st' = stJobs st @ [j])
      \<or> (\<exists>P x. stJobs st' = stJobs (updateJobs P (\<lambda>j. j\<lparr>jParams := x\<rparr>) st))"
    using assms
    by (auto simp: createJob_def coalesce_def Let_def insertJob_def mergeInto_def snd_updateRow
        split: sum.splits option.splits prod.splits if_splits) blast+
  then show ?thesis
    using keep storeStep.create [OF assms] createJob_ids [OF assms] by (simp add: quiet_def liveStep_def)
qed

lemma fold_supersedeRow_running:
  "jStatus j = StatusRunning \<Longrightarrow> jStatus (fold (supersedeRow keep msg now) is j) = StatusRunning"
  by (induction "is" arbitrary: j) (simp_all add: supersedeRow_def Let_def)

lemma quiet_supersede: "quiet I st (snd (supersedeDeferredSyncs p keep msg now st))"
proof -
  let ?st' = "snd (supersedeDeferredSyncs p keep msg now st)"
  obtain ids where rows: "stJobs ?st' = map (fold (supersedeRow keep msg now) ids) (stJobs st)"
    unfolding supersedeDeferredSyncs_def supersedeLoop_rows by blast
  have "jID ` set (stJobs ?st') = jID ` set (stJobs st)"
    by (simp add: rows image_image)
  moreover have "keepsRunning I st ?st'"
    unfolding keepsRunning_def rows using fold_supersedeRow_running by fastforce
  ultimately show ?thesis
    using storeStep.supersede [of st p keep msg now] by (simp add: quiet_def liveStep_def)
qed

section \<open>Invariant of active jobs, the queue seen and hooks\<close>

text \<open>An active job has its row, with its type and lock keys, running once it was marked.\<close>

definition backed :: "store \<Rightarrow> activeJob \<Rightarrow> bool" where
  "backed st a \<longleftrightarrow> (\<exists>r \<in> set (stJobs st). jID r = aID a \<and> jType r = aType a
     \<and> LockKeys (jType r) (jParams r) = aKeys a \<and> (aPhase a = PhaseRunning \<longrightarrow> jStatus r = StatusRunning))"

definition seenOk :: "store \<Rightarrow> job \<Rightarrow> bool" where
  "seenOk st j \<longleftrightarrow> 0 < jID j \<and> (\<exists>r \<in> set (stJobs st). jID r = jID j \<and> jType r = jType j
     \<and> LockKeys (jType r) (jParams r) = LockKeys (jType j) (jParams j))"

definition hooksOk :: "store \<Rightarrow> job list \<Rightarrow> bool" where
  "hooksOk st fired \<longleftrightarrow> distinct (map jID fired)
     \<and> (\<forall>h \<in> set fired. Final (jStatus h) \<and> (\<exists>r \<in> set (stJobs st). jID r = jID h \<and> Final (jStatus r)))"

lemma backed_quiet:
  assumes "storeOk st" and "quiet I st st'" and "backed st a" and "aID a \<notin> I \<or> aPhase a = PhaseStarting"
  shows "backed st' a"
proof -
  obtain r where r: "r \<in> set (stJobs st)" "jID r = aID a" "jType r = aType a"
    "LockKeys (jType r) (jParams r) = aKeys a" "aPhase a = PhaseRunning \<longrightarrow> jStatus r = StatusRunning"
    using assms(3) by (auto simp: backed_def)
  have live: "liveStep st st'" using assms(2) by (simp add: quiet_def)
  obtain r' where r': "r' \<in> set (stJobs st')" "jID r' = jID r" "aPhase a = PhaseRunning \<longrightarrow> jStatus r' = StatusRunning"
  proof (cases "aPhase a = PhaseRunning")
    case True
    then show ?thesis using that r assms(2,4) by (auto simp: quiet_def keepsRunning_def)
  next
    case False
    then show ?thesis
      using that js.step_row [OF assms(1) live r(1)] by (auto simp: rowStep_def)
  qed
  then show ?thesis
    using js.keys_stable [OF assms(1) live r(1) r'(1)] r unfolding backed_def by metis
qed

lemma seenOk_live:
  assumes "storeOk st" and "liveStep st st'" and "seenOk st j"
  shows "seenOk st' j"
proof -
  obtain r where r: "r \<in> set (stJobs st)" "jID r = jID j" "jType r = jType j"
    "LockKeys (jType r) (jParams r) = LockKeys (jType j) (jParams j)" "0 < jID j"
    using assms(3) by (auto simp: seenOk_def)
  obtain r' where "r' \<in> set (stJobs st')" "jID r' = jID r"
    using js.step_row [OF assms(1,2) r(1)] by (auto simp: rowStep_def)
  then show ?thesis
    using js.keys_stable [OF assms(1,2) r(1)] r unfolding seenOk_def by metis
qed

lemma hooksOk_live:
  assumes "storeOk st" and "liveStep st st'" and "hooksOk st fired"
  shows "hooksOk st' fired"
  using js.final_stable [OF assms(1,2)] assms(3) unfolding hooksOk_def by metis

text \<open>A hook fires for a row that was not final before: no earlier hook was for it.\<close>

lemma hooksOk_snoc:
  assumes "storeOk st" and "hooksOk st fired" and "hooksOk st' fired" and "r \<in> set (stJobs st)"
    and "\<not> Final (jStatus r)" and "h \<in> set (stJobs st')" and "jID h = jID r" and "Final (jStatus h)"
  shows "hooksOk st' (fired @ [h])"
proof -
  have "jID h \<notin> jID ` set fired"
  proof
    assume "jID h \<in> jID ` set fired"
    then obtain q where "q \<in> set (stJobs st)" "jID q = jID h" "Final (jStatus q)"
      using assms(2) unfolding hooksOk_def by (metis (no_types, lifting) image_iff)
    then show False using js.row_unique [OF assms(1) _ assms(4)] assms(5,7) by metis
  qed
  then show ?thesis using assms(3,6-8) by (auto simp: hooksOk_def)
qed

lemma GetJob_row:
  assumes "storeOk st" and "r \<in> set (stJobs st)"
  shows "GetJob (jID r) st = Some r"
proof -
  have "GetJob (jID r) st \<noteq> None" using assms(2) by (auto simp: GetJob_def find_None_iff)
  then obtain q where q: "GetJob (jID r) st = Some q" by blast
  then have "q \<in> set (stJobs st)" "jID q = jID r"
    using find_Some_setD unfolding GetJob_def by fastforce+
  then show ?thesis using q js.row_unique [OF assms(1) _ assms(2)] by simp
qed

lemma updateRow_SomeD:
  assumes "updateRow i s f st = (Some r', st')"
  shows "\<exists>r \<in> set (stJobs st). jID r = i \<and> jStatus r = s \<and> r' = f r \<and> r' \<in> set (stJobs st')"
proof -
  obtain r where r: "find (\<lambda>j. jID j = i \<and> jStatus j = s) (stJobs st) = Some r" "r' = f r"
    using assms by (auto simp: updateRow_def Let_def)
  then have "r \<in> set (stJobs st)" "jID r = i" "jStatus r = s" using find_Some_setD by fastforce+
  moreover have "st' = updateJobs (\<lambda>j. jID j = i \<and> jStatus j = s) f st"
    using assms by (auto simp: updateRow_def Let_def)
  ultimately show ?thesis using r(2) by (intro bexI [of _ r]) (auto simp: updateJobs_rows image_iff)
qed

text \<open>The hook of a job an update took from an active to a final status.\<close>

lemma hooksOk_fire:
  assumes "storeOk st" and "hooksOk st fired" and "liveStep st st'"
    and "updateRow i s f st = (Some r', st')" and "\<not> Final s" and "\<And>r. jID (f r) = jID r" and "Final (jStatus r')"
  shows "\<exists>h. GetJob i st' = Some h \<and> hooksOk st' (fired @ [h])"
proof -
  obtain r where r: "r \<in> set (stJobs st)" "jID r = i" "jStatus r = s" "r' = f r" "r' \<in> set (stJobs st')"
    using updateRow_SomeD [OF assms(4)] by blast
  have ok': "storeOk st'" using js.step_ok assms(1,3) by blast
  have id: "jID r' = jID r" using assms(6) r(4) by simp
  have "GetJob i st' = Some r'" using GetJob_row [OF ok' r(5)] id r(2) by simp
  moreover have "hooksOk st' (fired @ [r'])"
    by (rule hooksOk_snoc [OF assms(1,2) hooksOk_live [OF assms(1,3,2)] r(1)])
      (use assms(5,7) r id in auto)
  ultimately show ?thesis by blast
qed

lemma supersedeLoop_out:
  assumes "distinct (map jID js)"
    and "\<forall>j \<in> set js. \<exists>r \<in> set (stJobs st). jID r = jID j \<and> jStatus r = StatusQueued"
  shows "map jID (fst (supersedeLoop p keep msg now js st)) = map jID (filter (supersedes p) js)
    \<and> (\<forall>d \<in> set (fst (supersedeLoop p keep msg now js st)). jStatus d = StatusCancelled)"
  using assms
proof (induction js arbitrary: st)
  case (Cons j js)
  show ?case
  proof (cases "supersedes p j")
    case False
    with Cons.IH [of st] Cons.prems show ?thesis by simp
  next
    case True
    let ?st1 = "snd (supersedeOne keep msg now (jID j) st)"
    have "\<exists>d. fst (supersedeOne keep msg now (jID j) st) = Some d \<and> jID d = jID j \<and> jStatus d = StatusCancelled"
    proof -
      have "find (\<lambda>r. jID r = jID j \<and> jStatus r = StatusQueued) (stJobs st) \<noteq> None"
        using Cons.prems(2) by (auto simp: find_None_iff)
      then obtain r where "find (\<lambda>r. jID r = jID j \<and> jStatus r = StatusQueued) (stJobs st) = Some r" by blast
      then show ?thesis
        using find_Some_setD [of _ "stJobs st" r]
        by (auto simp: supersedeOne_def updateRow_def Let_def)
    qed
    moreover have "\<exists>r \<in> set (stJobs ?st1). jID r = jID j' \<and> jStatus r = StatusQueued" if j': "j' \<in> set js" for j'
    proof -
      obtain r where r: "r \<in> set (stJobs st)" "jID r = jID j'" "jStatus r = StatusQueued"
        using Cons.prems(2) j' by auto
      have "jID j' \<noteq> jID j" using distinct_map_neq [OF Cons.prems(1) j'] .
      with r have "jStatus (supersedeRow keep msg now (jID j) r) = StatusQueued"
        by (simp add: supersedeRow_def Let_def)
      with r show ?thesis
        unfolding supersedeOne_rows by (intro bexI [of _ "supersedeRow keep msg now (jID j) r"]) simp_all
    qed
    ultimately show ?thesis using Cons.IH [of ?st1] Cons.prems(1) True by (auto simp: split_def)
  qed
qed simp

lemma hooksOk_supersede:
  assumes "storeOk st" and "hooksOk st fired" and "supersedeDeferredSyncs p keep msg now st = (out, st')"
  shows "hooksOk st' (fired @ out)"
proof -
  let ?cands = "supersedeCandidates p keep st"
  have live: "liveStep st st'"
    using quiet_supersede [of "{}" st p keep msg now] assms(3) by (simp add: quiet_def)
  have cands: "distinct (map jID ?cands)"
    "\<forall>j \<in> set ?cands. j \<in> set (stJobs st) \<and> jStatus j = StatusQueued"
  proof -
    have "distinct (map jID (filter P (stJobs st)))" for P
      using assms(1) by (simp add: storeOk_def distinct_map_filter)
    then show "distinct (map jID ?cands)"
      unfolding supersedeCandidates_def idOrder_def distinct_map by (simp add: distinct_map)
  qed (simp add: supersedeCandidates_def)
  have out: "map jID out = map jID (filter (supersedes p) ?cands)" "\<forall>d \<in> set out. jStatus d = StatusCancelled"
    using supersedeLoop_out [OF cands(1), of st p keep msg now] cands(2) assms(3)
    unfolding supersedeDeferredSyncs_def by (metis fst_conv)+
  have rows: "stJobs st' = map (fold (supersedeRow keep msg now) (map jID (filter (supersedes p) ?cands))) (stJobs st)"
    using supersedeLoop_rows assms(3) unfolding supersedeDeferredSyncs_def by (metis snd_conv)
  have new: "\<exists>c \<in> set (stJobs st). jID c = jID d \<and> jStatus c = StatusQueued
      \<and> (\<exists>r \<in> set (stJobs st'). jID r = jID d \<and> Final (jStatus r))" if "d \<in> set out" for d
  proof -
    have "jID d \<in> jID ` set (filter (supersedes p) ?cands)"
      using that out(1) by (metis image_eqI list.set_map)
    then obtain c where c: "c \<in> set ?cands" "supersedes p c" "jID c = jID d" by auto
    have "jStatus (fold (supersedeRow keep msg now) (map jID (filter (supersedes p) ?cands)) c) = StatusCancelled"
      using fold_supersedeRow_self [of c "map jID (filter (supersedes p) ?cands)" keep msg now] c(1,2) cands(2)
      by auto
    then show ?thesis
      using c cands(2) unfolding rows
      by (intro bexI [of _ c] conjI bexI [of _ "fold (supersedeRow keep msg now) (map jID (filter (supersedes p) ?cands)) c"]) auto
  qed
  have "jID ` set fired \<inter> jID ` set out = {}"
  proof (rule equals0I)
    fix i assume "i \<in> jID ` set fired \<inter> jID ` set out"
    then obtain h d where hd: "h \<in> set fired" "d \<in> set out" "jID h = i" "jID d = i" by auto
    obtain c where c: "c \<in> set (stJobs st)" "jID c = i" "jStatus c = StatusQueued" using new [OF hd(2)] hd by auto
    obtain q where "q \<in> set (stJobs st)" "jID q = i" "Final (jStatus q)" using assms(2) hd by (auto simp: hooksOk_def)
    then show False using js.row_unique [OF assms(1) _ c(1)] c by fastforce
  qed
  moreover have "distinct (map jID out)" using out(1) cands(1) by (simp add: distinct_map_filter)
  moreover have "\<forall>d \<in> set out. Final (jStatus d) \<and> (\<exists>r \<in> set (stJobs st'). jID r = jID d \<and> Final (jStatus r))"
    using out(2) new by (metis Final_iff(6))
  ultimately show ?thesis
    using hooksOk_live [OF assms(1) live assms(2)] unfolding hooksOk_def by auto
qed

section \<open>The invariant of the manager\<close>

definition mgrOk :: "options \<Rightarrow> manager \<Rightarrow> bool" where
  "mgrOk o1 m \<longleftrightarrow> localOk o1 m \<and> storeOk (mStore m) \<and> (\<forall>a \<in> set (mRunning m). backed (mStore m) a)
     \<and> (\<forall>j \<in> set (mSeen m). seenOk (mStore m) j) \<and> hooksOk (mStore m) (mFired m)
     \<and> (mState m = stateNew \<longrightarrow> mRunning m = [])"

text \<open>A step that writes the store quietly, keeps the keys and slots, and keeps the core of every
  active job (whose phase may go back, or be running because its row is).\<close>

lemma mgrOk_quiet:
  assumes "mgrOk o1 m" and "localOk o1 m'" and "quiet I (mStore m) (mStore m')"
    and "\<And>a'. a' \<in> set (mRunning m') \<Longrightarrow> \<exists>a \<in> set (mRunning m). core a' = core a \<and> aPhase a' = aPhase a
           \<and> (aID a \<notin> I \<or> aPhase a = PhaseStarting)"
    and "set (mSeen m') \<subseteq> set (mSeen m)" and "hooksOk (mStore m') (mFired m')"
    and "mState m' = stateNew \<longrightarrow> mState m = stateNew"
  shows "mgrOk o1 m'"
proof -
  have ok: "storeOk (mStore m)" and live: "liveStep (mStore m) (mStore m')"
    using assms(1,3) by (auto simp: mgrOk_def quiet_def)
  have "backed (mStore m') a'" if a': "a' \<in> set (mRunning m')" for a'
  proof -
    obtain a where a: "a \<in> set (mRunning m)" "core a' = core a" "aPhase a' = aPhase a"
      "aID a \<notin> I \<or> aPhase a = PhaseStarting" using assms(4) [OF a'] by blast
    then have "backed (mStore m') a" using backed_quiet [OF ok assms(3)] assms(1) by (simp add: mgrOk_def)
    then show ?thesis using a by (auto simp: backed_def core_def)
  qed
  moreover have "\<forall>j \<in> set (mSeen m'). seenOk (mStore m') j"
    using assms(1,5) seenOk_live [OF ok live] unfolding mgrOk_def by blast
  moreover have "mRunning m' = []" if "mState m' = stateNew"
  proof -
    have "mRunning m = []" using that assms(1,7) by (simp add: mgrOk_def)
    then show ?thesis using assms(4) by (cases "mRunning m'") auto
  qed
  ultimately show ?thesis
    using assms(2,6) js.step_ok [OF ok live] unfolding mgrOk_def by blast
qed

lemma forget_running: "a' \<in> set (mRunning (forget a m)) \<longleftrightarrow> a' \<in> set (mRunning m) \<and> aID a' \<noteq> aID a"
  by (auto simp: forget_def)

lemma forget_fields [simp]: "mStore (forget a m) = mStore m" "mSeen (forget a m) = mSeen m"
  "mFired (forget a m) = mFired m" "mState (forget a m) = mState m"
  by (simp_all add: forget_def)

text \<open>Forgetting an active job after a write that only touched its own running row.\<close>

lemma mgrOk_forget_write:
  assumes "mgrOk o1 m" and "a \<in> set (mRunning m)" and "quiet {aID a} (mStore m) st'"
    and "hooksOk st' fired"
  shows "mgrOk o1 ((forget a (m\<lparr>mStore := st'\<rparr>))\<lparr>mFired := fired\<rparr>)"
proof (rule mgrOk_quiet [OF assms(1), where I = "{aID a}"])
  let ?m = "(forget a (m\<lparr>mStore := st'\<rparr>))\<lparr>mFired := fired\<rparr>"
  have "localOk o1 ?m = localOk o1 (forget a m)"
    by (rule localOk_cong) (simp_all add: forget_def)
  then show "localOk o1 ?m" using localOk_forget assms(1,2) by (simp add: mgrOk_def)
qed (use assms(3,4) in \<open>auto simp: forget_running\<close>)

lemma mgrOk_scan: "mgrOk o1 m \<Longrightarrow> mgrOk o1 (m\<lparr>mSeen := queuedJobs queuedScan (mStore m)\<rparr>)"
proof -
  assume m: "mgrOk o1 m"
  have "seenOk (mStore m) j" if "j \<in> set (queuedJobs queuedScan (mStore m))" for j
  proof -
    have "j \<in> set (stJobs (mStore m))"
      using set_take_subset that unfolding queuedJobs_def by fastforce
    moreover from this have "rowOk j" using m js.ok_row by (auto simp: mgrOk_def)
    ultimately show ?thesis unfolding seenOk_def rowOk_def by blast
  qed
  moreover have "localOk o1 (m\<lparr>mSeen := queuedJobs queuedScan (mStore m)\<rparr>) = localOk o1 m"
    by (rule localOk_cong) simp_all
  ultimately show ?thesis using m by (simp add: mgrOk_def)
qed

lemma mgrOk_take:
  assumes "mgrOk o1 m" and "optionsOk o1" and "j \<in> set (mSeen m)" and "slotsFor o1 j = Some slots"
    and "canTake o1 j slots m"
  shows "mgrOk o1 (takeJob j slots m)"
proof -
  have seen: "seenOk (mStore m) j" using assms(1,3) by (simp add: mgrOk_def)
  then have "0 < jID j" by (simp add: seenOk_def)
  then have "localOk o1 (takeJob j slots m)" using localOk_take assms by (simp add: mgrOk_def)
  moreover have "backed (mStore m) a" if "a \<in> set (mRunning (takeJob j slots m))" for a
  proof (cases "a \<in> set (mRunning m)")
    case True
    then show ?thesis using assms(1) by (simp add: mgrOk_def)
  next
    case False
    with that have "aID a = jID j" "aType a = jType j" "aKeys a = LockKeys (jType j) (jParams j)" "aPhase a = PhaseStarting"
      by (auto simp: takeJob_def Let_def)
    then show ?thesis using seen by (simp add: backed_def seenOk_def)
  qed
  ultimately show ?thesis
    using assms(1,5) by (auto simp: mgrOk_def takeJob_def Let_def canTake_def)
qed

lemma mgrOk_startTaken:
  assumes "mgrOk o1 m" and "a \<in> set (mRunning m)" and "aPhase a = PhaseStarting"
  shows "mgrOk o1 (startTaken a now m)"
proof -
  obtain r st where mr: "markRunning (aID a) now (mStore m) = (r, st)" by (cases "markRunning (aID a) now (mStore m)")
  have q: "quiet I (mStore m) st" for I using quiet_markRunning [of I "mStore m" "aID a" now] mr by simp
  have ok: "storeOk (mStore m)" and live: "liveStep (mStore m) st"
    using assms(1) q [of "{}"] by (simp_all add: mgrOk_def quiet_def)
  have hooks: "hooksOk st (mFired m)"
    using hooksOk_live [OF ok live] assms(1) by (simp add: mgrOk_def)
  show ?thesis
  proof (cases r)
    case None
    have "mgrOk o1 ((forget a (m\<lparr>mStore := st\<rparr>))\<lparr>mFired := mFired m\<rparr>)"
      by (rule mgrOk_forget_write [OF assms(1,2) q hooks])
    moreover have "(forget a (m\<lparr>mStore := st\<rparr>))\<lparr>mFired := mFired m\<rparr> = forget a (m\<lparr>mStore := st\<rparr>)"
      by (simp add: forget_def)
    ultimately show ?thesis using mr None by (simp add: startTaken_def)
  next
    case (Some r')
    let ?m = "startTaken a now m"
    have m': "?m = m\<lparr>mStore := st, mRunning := map (\<lambda>b. if aID b = aID a then b\<lparr>aPhase := PhaseRunning\<rparr> else b) (mRunning m)\<rparr>"
      using mr Some by (simp add: startTaken_def)
    have "localOk o1 ?m = localOk o1 m"
      by (rule localOk_cong) (simp_all add: m' core_def comp_def)
    moreover have "backed st b'" if b': "b' \<in> set (mRunning ?m)" for b'
    proof -
      obtain b where b: "b \<in> set (mRunning m)" "b' = (if aID b = aID a then b\<lparr>aPhase := PhaseRunning\<rparr> else b)"
        using b' by (auto simp: m')
      have bk: "backed st b" using backed_quiet [OF ok q, of b "{}"] assms(1) b(1) by (simp add: mgrOk_def)
      show ?thesis
      proof (cases "aID b = aID a")
        case True
        have r': "r' \<in> set (stJobs st)" "jID r' = aID a" "jStatus r' = StatusRunning"
          using updateRow_SomeD [OF mr [unfolded Some markRunning_def]] by auto
        obtain q where q: "q \<in> set (stJobs st)" "jID q = aID b" "jType q = aType b"
            "LockKeys (jType q) (jParams q) = aKeys b"
          using bk unfolding backed_def by blast
        have "q = r'" using js.row_unique [OF js.step_ok [OF ok live] q(1) r'(1)] q(2) r'(2) True by simp
        then show ?thesis using b(2) True q r' unfolding backed_def by (intro bexI [of _ q]) simp_all
      next
        case False
        then show ?thesis using bk b(2) by simp
      qed
    qed
    moreover have "\<forall>j \<in> set (mSeen m). seenOk st j"
      using assms(1) seenOk_live [OF ok live] by (simp add: mgrOk_def)
    ultimately show ?thesis
      using assms(1) hooks js.step_ok [OF ok live] by (simp add: mgrOk_def m')
  qed
qed

lemma finishVerdict_Final: "finishVerdict o1 now c out = VFinal s e \<Longrightarrow> Final s"
  by (cases "(o1, now, c, out)" rule: finishVerdict.cases)
    (auto split: if_splits option.splits runError.splits)

lemma mgrOk_forget: "mgrOk o1 m \<Longrightarrow> a \<in> set (mRunning m) \<Longrightarrow> mgrOk o1 (forget a m)"
  using localOk_forget by (auto simp: mgrOk_def forget_running forget_def)

lemma mgrOk_finish:
  assumes "mgrOk o1 m" and "a \<in> set (mRunning m)"
  shows "mgrOk o1 (finish o1 now a out written m)"
proof -
  have ok: "storeOk (mStore m)" and hk: "hooksOk (mStore m) (mFired m)" using assms(1) by (auto simp: mgrOk_def)
  have same: "(forget a (m\<lparr>mStore := st\<rparr>))\<lparr>mFired := mFired m\<rparr> = forget a (m\<lparr>mStore := st\<rparr>)" for st
    by (simp add: forget_def)
  have wr: "mgrOk o1 (forget a (m\<lparr>mStore := st\<rparr>))" if "quiet {aID a} (mStore m) st" for st
  proof -
    have "liveStep (mStore m) st" using that by (simp add: quiet_def)
    then have "hooksOk st (mFired m)" using hooksOk_live [OF ok _ hk] by blast
    from mgrOk_forget_write [OF assms that this] show ?thesis by (simp only: same)
  qed
  note plain = mgrOk_forget [OF assms]
  show ?thesis
  proof (cases "finishVerdict o1 now (aCause a) out")
    case (VFinal s e)
    let ?f = "finalOf o1 now a out s e"
    have fin: "Final (fStatus ?f)" using finishVerdict_Final [OF VFinal] by (simp add: finalOf_def Let_def)
    obtain b st where fj: "finishJob (aID a) ?f (mStore m) = (b, st)" by (cases "finishJob (aID a) ?f (mStore m)")
    have q: "quiet {aID a} (mStore m) st" using quiet_finishJob [OF fin, of "aID a" "mStore m"] fj by simp
    show ?thesis
    proof (cases "written \<and> b")
      case False
      then show ?thesis using plain wr [OF q] VFinal fj by (auto simp: finish_defs Let_def)
    next
      case True
      then obtain r' where u: "updateRow (aID a) StatusRunning (\<lambda>j. j\<lparr>jStatus := fStatus ?f, jStats := fStats ?f,
             jWarnings := fWarnings ?f, jSummary := fSummary ?f, jError := nullString (fErrText ?f),
             jProgress := fProgress ?f, jFinishedAt := Some (fAt ?f), jHeartbeatAt := None\<rparr>) (mStore m) = (Some r', st)"
        using fj by (auto simp: finishJob_def split: prod.splits)
      have r': "Final (jStatus r')" using updateRow_SomeD [OF u] fin by auto
      obtain h where h: "GetJob (aID a) st = Some h" "hooksOk st (mFired m @ [h])"
        using hooksOk_fire [OF ok hk _ u _ _ r'] q by (auto simp: quiet_def)
      then show ?thesis
        using mgrOk_forget_write [OF assms q h(2)] True VFinal fj
        by (simp add: finish_defs fireHooks_def Let_def)
    qed
  qed (use plain wr quiet_deferJob quiet_requeue in \<open>auto simp: finish_defs\<close>)
qed

text \<open>A step that writes the store quietly and leaves every field but the store alone.\<close>

lemma mgrOk_write:
  assumes "mgrOk o1 m" and "quiet {} (mStore m) st'" and "hooksOk st' fired"
  shows "mgrOk o1 (m\<lparr>mStore := st', mFired := fired\<rparr>)"
proof (rule mgrOk_quiet [OF assms(1), where I = "{}"])
  have "localOk o1 (m\<lparr>mStore := st', mFired := fired\<rparr>) = localOk o1 m"
    by (rule localOk_cong) simp_all
  then show "localOk o1 (m\<lparr>mStore := st', mFired := fired\<rparr>)" using assms(1) by (simp add: mgrOk_def)
qed (use assms(2,3) in auto)

lemma mgrOk_write_plain:
  assumes "mgrOk o1 m" and "quiet {} (mStore m) st'"
  shows "mgrOk o1 (m\<lparr>mStore := st'\<rparr>)"
proof -
  have "hooksOk st' (mFired m)"
    using hooksOk_live assms by (auto simp: mgrOk_def quiet_def)
  from mgrOk_write [OF assms this] show ?thesis by simp
qed

lemma mgrOk_finishQueued:
  assumes "mgrOk o1 m" and "Final s" and "finishQueued i s e summary now (mStore m) = (b, st)"
  shows "mgrOk o1 (if b then fireHooks i (m\<lparr>mStore := st\<rparr>) else m\<lparr>mStore := st\<rparr>)"
proof -
  have q: "quiet {} (mStore m) st" using quiet_finishQueued [OF assms(2)] assms(3) by (metis snd_conv)
  show ?thesis
  proof (cases b)
    case False
    then show ?thesis using mgrOk_write_plain [OF assms(1) q] by simp
  next
    case True
    then obtain r' where u: "updateRow i StatusQueued (\<lambda>j. j\<lparr>jStatus := s, jError := nullString e,
             jSummary := (if jDeferrals j > 0 \<and> s = StatusCancelled
                          then ''Cancelled while it waited for its transfer window.'' else summary),
             jFinishedAt := Some now, jNotBefore := None\<rparr>) (mStore m) = (Some r', st)"
      using assms(3) by (auto simp: finishQueued_def split: prod.splits)
    have r': "Final (jStatus r')" using updateRow_SomeD [OF u] assms(2) by auto
    have ok: "storeOk (mStore m)" "hooksOk (mStore m) (mFired m)" using assms(1) by (simp_all add: mgrOk_def)
    obtain h where h: "GetJob i st = Some h" "hooksOk st (mFired m @ [h])"
      using hooksOk_fire [OF ok _ u _ _ r'] q by (auto simp: quiet_def)
    then show ?thesis using mgrOk_write [OF assms(1) q h(2)] True by (simp add: fireHooks_def)
  qed
qed

lemma mgrOk_setCause:
  assumes "mgrOk o1 m"
  shows "mgrOk o1 (setCause c P m)"
proof -
  have "localOk o1 (setCause c P m) = localOk o1 m"
    by (rule localOk_cong) (auto simp: setCause_def core_def)
  then show ?thesis using assms by (auto simp: mgrOk_def setCause_def backed_def)
qed

text \<open>The hooks of the jobs recovery failed.\<close>

lemma fold_fireHooks:
  assumes "storeOk (mStore m)" and "distinct is" and "\<forall>i \<in> set is. i \<notin> jID ` set (mFired m)"
    and "\<forall>i \<in> set is. \<exists>r \<in> set (stJobs (mStore m)). jID r = i \<and> Final (jStatus r)"
    and "hooksOk (mStore m) (mFired m)"
  shows "\<exists>fired. fold fireHooks is m = m\<lparr>mFired := fired\<rparr> \<and> hooksOk (mStore m) fired"
  using assms
proof (induction "is" arbitrary: m)
  case Nil
  then show ?case by (intro exI [of _ "mFired m"]) simp
next
  case (Cons i "is")
  obtain r where r: "r \<in> set (stJobs (mStore m))" "jID r = i" "Final (jStatus r)" using Cons.prems(4) by auto
  let ?m = "m\<lparr>mFired := mFired m @ [r]\<rparr>"
  have fire: "fireHooks i m = ?m" using GetJob_row [OF Cons.prems(1) r(1)] r(2) by (simp add: fireHooks_def)
  have "hooksOk (mStore m) (mFired m @ [r])"
    using Cons.prems(3,5) r by (auto simp: hooksOk_def)
  then have "\<exists>fired. fold fireHooks is ?m = ?m\<lparr>mFired := fired\<rparr> \<and> hooksOk (mStore ?m) fired"
    using Cons.prems r by (intro Cons.IH) auto
  then show ?case by (auto simp: fire)
qed

lemma mgrOk_Start:
  assumes "mgrOk o1 m" and "Start o1 now m = Some m'"
  shows "mgrOk o1 m'"
proof -
  obtain rq failed st where rc: "recoverCrashed (oMaxAttempts o1) now (mStore m) = (rq, failed, st)"
    by (cases "recoverCrashed (oMaxAttempts o1) now (mStore m)")
  have new: "mRunning m = []" and m': "m' = (fold fireHooks failed (m\<lparr>mStore := st\<rparr>))\<lparr>mState := stateStarted\<rparr>"
    using assms rc by (auto simp: Start_def mgrOk_def split: if_splits)
  have ok: "storeOk (mStore m)" and live: "liveStep (mStore m) st" and hk: "hooksOk (mStore m) (mFired m)"
    using assms(1) live_recoverCrashed [of "mStore m" "oMaxAttempts o1" now] rc by (simp_all add: mgrOk_def)
  have ok': "storeOk st" and hk': "hooksOk st (mFired m)"
    using js.step_ok [OF ok live] hooksOk_live [OF ok live hk] .
  have failed: "failed = map jID (filter (\<lambda>j. jStatus j = StatusRunning \<and> jAttempt j + 1 > oMaxAttempts o1) (stJobs (mStore m)))"
    using rc by (simp add: recoverCrashed_def Let_def)
  have d: "distinct failed" using ok by (simp add: failed storeOk_def distinct_map_filter)
  have fin: "\<exists>r \<in> set (stJobs st). jID r = jID j \<and> Final (jStatus r)"
    if "j \<in> set (stJobs (mStore m))" "jStatus j = StatusRunning" "jAttempt j + 1 > oMaxAttempts o1" for j
  proof -
    let ?r = "j\<lparr>jStatus := StatusFailed, jError := Some (crashedText (jAttempt j)), jFinishedAt := Some now,
      jHeartbeatAt := None\<rparr>"
    have "?r \<in> set (stJobs st)"
      unfolding conjunct1 [OF recoverCrashed_closed [OF rc]] set_map using that by (intro image_eqI [of _ _ j]) auto
    then show ?thesis by (intro bexI [of _ ?r]) auto
  qed
  have fresh: "\<forall>i \<in> set failed. i \<notin> jID ` set (mFired m)"
  proof (intro ballI notI)
    fix i assume i: "i \<in> set failed" "i \<in> jID ` set (mFired m)"
    then obtain j where "j \<in> set (stJobs (mStore m))" "jID j = i" "jStatus j = StatusRunning" by (auto simp: failed)
    moreover obtain q where "q \<in> set (stJobs (mStore m))" "jID q = i" "Final (jStatus q)"
      using hk i(2) by (auto simp: hooksOk_def)
    ultimately show False using js.row_unique [OF ok] by fastforce
  qed
  obtain fired where f: "fold fireHooks failed (m\<lparr>mStore := st\<rparr>) = m\<lparr>mStore := st, mFired := fired\<rparr>" "hooksOk st fired"
    using fold_fireHooks [of "m\<lparr>mStore := st\<rparr>" failed] ok' d fresh fin hk' by (auto simp: failed)
  have "localOk o1 m' = localOk o1 m" by (rule localOk_cong) (simp_all add: m' f)
  moreover have "\<forall>j \<in> set (mSeen m). seenOk st j" using assms(1) seenOk_live [OF ok live] by (simp add: mgrOk_def)
  ultimately show ?thesis using assms(1) new ok' f(2) by (simp add: mgrOk_def m' f)
qed

lemma mgrOk_step:
  assumes "mgrStep o1 m m'" and "optionsOk o1" and "mgrOk o1 m"
  shows "mgrOk o1 m'"
  using assms
proof (induction rule: mgrStep.induct)
  case (unrunnable j m now)
  then show ?case
    using mgrOk_finishQueued [of o1 m StatusFailed "jID j" "noRunnerText (jType j)" "[]" now]
    by (auto simp: failUnrunnable_def split: prod.splits bool.splits)
next
  case (progress m i pr now)
  let ?m1 = "m\<lparr>mStore := saveProgress i pr now (mStore m)\<rparr>"
  have m1: "mgrOk o1 ?m1" using mgrOk_write_plain quiet_saveProgress progress.prems by blast
  have "localOk o1 (progressStep i pr now m) = localOk o1 ?m1"
    by (rule localOk_cong) (auto simp: progressStep_def core_def)
  then show ?case using m1 by (auto simp: mgrOk_def progressStep_def backed_def)
next
  case (hold ks m i m')
  then have "localOk o1 m'" using localOk_hold by (auto simp: mgrOk_def)
  then show ?case using hold by (auto simp: mgrOk_def HoldKeys_def Let_def split: option.splits)
next
  case (unhold m i)
  then have "localOk o1 (releaseHold i m)" using localOk_release by (auto simp: mgrOk_def)
  then show ?case using unhold by (auto simp: mgrOk_def releaseHold_def split: option.splits)
next
  case (enqueue s now m j m')
  then show ?case
    using mgrOk_write_plain quiet_createJob by (auto simp: Enqueue_def split: sum.splits)
next
  case (cancel m i now)
  obtain b st where cq: "cancelQueued i now (mStore m) = (b, st)" by (cases "cancelQueued i now (mStore m)")
  then have "mgrOk o1 (if b then fireHooks i (m\<lparr>mStore := st\<rparr>) else m\<lparr>mStore := st\<rparr>)"
    using mgrOk_finishQueued [OF cancel.prems(2), of StatusCancelled] unfolding cancelQueued_def by simp
  then show ?case
    using mgrOk_setCause [OF cancel.prems(2)] cq by (auto simp: Cancel_def split: option.splits bool.splits)
next
  case (workers m n)
  have "localOk o1 (SetWorkers n m) = localOk o1 m" by (rule localOk_cong) (simp_all add: SetWorkers_def)
  with workers show ?case by (simp add: mgrOk_def SetWorkers_def)
next
  case (stop m)
  have "localOk o1 (m\<lparr>mState := stateStopped\<rparr>) = localOk o1 m" by (rule localOk_cong) simp_all
  then have "mgrOk o1 (m\<lparr>mState := stateStopped\<rparr>)" using stop by (simp add: mgrOk_def)
  then show ?case using mgrOk_setCause by (simp add: StopCancel_def)
next
  case (abandon m a)
  have q: "quiet {aID a} (mStore m) (snd (requeue (aID a) (aProgress a) (mStore m)))" by (rule quiet_requeue)
  then have h: "hooksOk (snd (requeue (aID a) (aProgress a) (mStore m))) (mFired m)"
    using abandon.prems hooksOk_live by (auto simp: mgrOk_def quiet_def)
  show ?case
    using mgrOk_forget_write [OF abandon.prems(2) abandon.hyps(2) q h] by (simp add: abandon_def forget_def)
next
  case (supersede m p keep msg now)
  obtain out st where sd: "supersedeDeferredSyncs p keep msg now (mStore m) = (out, st)"
    by (cases "supersedeDeferredSyncs p keep msg now (mStore m)")
  have "quiet {} (mStore m) st" using quiet_supersede sd by (metis snd_conv)
  moreover have "hooksOk st (mFired m @ out)"
    using hooksOk_supersede [OF _ _ sd] supersede.prems(2) by (simp add: mgrOk_def)
  ultimately show ?case using mgrOk_write [OF supersede.prems(2)] sd by (simp add: supersedeStep_def)
next
  case (crash m)
  have "localOk o1 (crash m) = localOk o1 (New (mWorkers m) (mRunners m) (mStore m))"
    by (rule localOk_cong) (simp_all add: crash_def)
  with crash show ?case using localOk_New by (auto simp: mgrOk_def crash_def New_def)
next
  case (startUp now m m')
  then show ?case using mgrOk_Start by blast
qed (simp_all add: mgrOk_scan mgrOk_take mgrOk_startTaken mgrOk_forget mgrOk_finish mgrOk_write_plain
    quiet_setPlannedAt)

lemma reachable_ok:
  assumes "optionsOk o1" and "reachable o1 m"
  shows "mgrOk o1 m"
  using assms(2)
proof (induction rule: reachable.induct)
  case (init st w rs)
  then show ?case using localOk_New [OF assms(1)] by (simp add: mgrOk_def hooksOk_def) (simp add: New_def)
next
  case (step m m')
  then show ?case using mgrOk_step assms(1) by blast
qed

section \<open>The row of a finished run\<close>

lemma updateRow_hit:
  assumes "storeOk st" and "r \<in> set (stJobs st)" and "jID r = i" and "jStatus r = s" and "\<And>r. jID (f r) = jID r"
  shows "fst (updateRow i s f st) = Some (f r)" and "f r \<in> set (stJobs (snd (updateRow i s f st)))"
proof -
  have "find (\<lambda>j. jID j = i \<and> jStatus j = s) (stJobs st) \<noteq> None"
    using assms(2-4) by (auto simp: find_None_iff)
  then obtain q where q: "find (\<lambda>j. jID j = i \<and> jStatus j = s) (stJobs st) = Some q" by blast
  then have "q \<in> set (stJobs st)" "jID q = i" using find_Some_setD by fastforce+
  then have "q = r" using js.row_unique [OF assms(1)] assms(2,3) by metis
  with q show "fst (updateRow i s f st) = Some (f r)" by (simp add: updateRow_def Let_def)
  show "f r \<in> set (stJobs (snd (updateRow i s f st)))"
    unfolding snd_updateRow updateJobs_rows using assms(2-4) by (intro image_eqI [of _ _ r]) auto
qed

text \<open>What the row of a running job becomes.\<close>

fun finishedRow :: "options \<Rightarrow> gotime \<Rightarrow> activeJob \<Rightarrow> outcome \<Rightarrow> store \<Rightarrow> job \<Rightarrow> verdict \<Rightarrow> job" where
  "finishedRow o1 now a out st r (VDefer t reason) =
     r\<lparr>jStatus := StatusQueued, jNotBefore := Some t,
       jDeferrals := max (jDeferrals r + 1) (supersededDeferrals (jID r) st),
       jSummary := oRedact o1 (oDeferMessage o1 t), jProgress := aProgress a, jHeartbeatAt := None\<rparr>"
| "finishedRow o1 now a out st r VRequeue =
     r\<lparr>jStatus := StatusQueued, jTrigger := TriggerResume, jProgress := aProgress a, jHeartbeatAt := None\<rparr>"
| "finishedRow o1 now a out st r (VFinal s e) =
     (let f = finalOf o1 now a out s e
      in r\<lparr>jStatus := s, jStats := fStats f, jWarnings := fWarnings f, jSummary := fSummary f,
           jError := nullString e, jProgress := aProgress a, jFinishedAt := Some now, jHeartbeatAt := None\<rparr>)"

lemma finish_row:
  assumes "mgrOk o1 m" and "a \<in> set (mRunning m)" and "aPhase a = PhaseRunning"
  shows "\<exists>r \<in> set (stJobs (mStore m)). jID r = aID a \<and> jStatus r = StatusRunning
    \<and> finishedRow o1 now a out (mStore m) r (finishVerdict o1 now (aCause a) out)
        \<in> set (stJobs (mStore (finish o1 now a out True m)))
    \<and> aID a \<notin> aID ` set (mRunning (finish o1 now a out True m))"
proof -
  have ok: "storeOk (mStore m)" using assms(1) by (simp add: mgrOk_def)
  obtain r where r: "r \<in> set (stJobs (mStore m))" "jID r = aID a" "jStatus r = StatusRunning"
    using assms by (auto simp: mgrOk_def backed_def)
  note hit = updateRow_hit [OF ok r]
  have "finishedRow o1 now a out (mStore m) r (finishVerdict o1 now (aCause a) out)
      \<in> set (stJobs (mStore (finish o1 now a out True m)))"
  proof (cases "finishVerdict o1 now (aCause a) out")
    case (VDefer t reason)
    then show ?thesis
      using hit(2) [of "\<lambda>j. j\<lparr>jStatus := StatusQueued, jNotBefore := Some t,
          jDeferrals := max (jDeferrals j + 1) (supersededDeferrals (aID a) (mStore m)),
          jSummary := oRedact o1 (oDeferMessage o1 t), jProgress := aProgress a, jHeartbeatAt := None\<rparr>"]
      by (simp add: finish_defs deferJob_def split_def r(2))
  next
    case VRequeue
    then show ?thesis
      using hit(2) [of "\<lambda>j. j\<lparr>jStatus := StatusQueued, jTrigger := TriggerResume, jProgress := aProgress a, jHeartbeatAt := None\<rparr>"]
      by (simp add: finish_defs requeue_def split_def)
  next
    case (VFinal s e)
    let ?f = "finalOf o1 now a out s e"
    have "fStatus ?f = s" "fProgress ?f = aProgress a" "fAt ?f = now" "fErrText ?f = e" by (simp_all add: finalOf_def Let_def)
    then show ?thesis
      using VFinal hit(2) [of "\<lambda>j. j\<lparr>jStatus := fStatus ?f, jStats := fStats ?f, jWarnings := fWarnings ?f,
          jSummary := fSummary ?f, jError := nullString (fErrText ?f), jProgress := fProgress ?f,
          jFinishedAt := Some (fAt ?f), jHeartbeatAt := None\<rparr>"]
      by (simp add: finish_defs finishJob_def split_def fireHooks_def Let_def split: option.splits)
  qed
  moreover have "aID a \<notin> aID ` set (mRunning (finish o1 now a out True m))"
    by (auto simp: finish_defs split_def fireHooks_def Let_def forget_def split: option.splits verdict.splits)
  ultimately show ?thesis using r by blast
qed

section \<open>A pass of the dispatcher\<close>

text \<open>Why a queued job that is due cannot start now.\<close>

definition blocked :: "options \<Rightarrow> manager \<Rightarrow> job \<Rightarrow> bool" where
  "blocked o1 m j \<longleftrightarrow> snd (poolsFullLocked o1 m (jType j)) \<or> findActive (jID j) m \<noteq> None
     \<or> keysHeldLocked (LockKeys (jType j) (jParams j)) m
     \<or> (case slotsFor o1 j of None \<Rightarrow> True | Some slots \<Rightarrow> \<not> slotsFreeLocked o1 slots m)"

definition grows :: "manager \<Rightarrow> manager \<Rightarrow> bool" where
  "grows m m' \<longleftrightarrow> mState m' = mState m \<and> mWorkers m' = mWorkers m \<and> mRunners m' = mRunners m
     \<and> (\<forall>k. mKeys m k \<noteq> None \<longrightarrow> mKeys m' k \<noteq> None) \<and> (\<forall>p. mSlots m p \<le> mSlots m' p)
     \<and> generalCount m \<le> generalCount m' \<and> refreshCount m \<le> refreshCount m'
     \<and> aID ` set (mRunning m) \<subseteq> aID ` set (mRunning m')"

lemma grows_refl [simp]: "grows m m"
  by (simp add: grows_def)

lemma grows_trans: "grows m m1 \<Longrightarrow> grows m1 m2 \<Longrightarrow> grows m m2"
  unfolding grows_def by (metis (no_types, lifting) order_trans)

lemma blocked_grows:
  assumes "blocked o1 m j" and "grows m m'"
  shows "blocked o1 m' j"
proof -
  have "snd (poolsFullLocked o1 m' t)" if "snd (poolsFullLocked o1 m t)" for t
    using that assms(2) by (auto simp: poolsFullLocked_def Let_def grows_def split: if_splits)
  moreover have "findActive (jID j) m' \<noteq> None" if "findActive (jID j) m \<noteq> None"
    using that assms(2) unfolding grows_def findActive_None by blast
  moreover have "keysHeldLocked ks m'" if "keysHeldLocked ks m" for ks
    using that assms(2) unfolding keysHeldLocked_def list_ex_iff grows_def by blast
  moreover have "\<not> slotsFreeLocked o1 slots m'" if "\<not> slotsFreeLocked o1 slots m" for slots
    using that assms(2) unfolding slotsFreeLocked_def list_all_iff grows_def by (meson order_trans)
  ultimately show ?thesis using assms(1) by (auto simp: blocked_def split: option.splits)
qed

text \<open>One job of the pass: everything but its own row stays, and it is started, failed for want
  of a runner, or left blocked.\<close>

definition settles :: "manager \<Rightarrow> job \<Rightarrow> manager \<Rightarrow> bool" where
  "settles m j m' \<longleftrightarrow> grows m m' \<and> storeOk (mStore m')
     \<and> (\<forall>r. jStatus r = StatusQueued \<longrightarrow> (r \<in> set (stJobs (mStore m')) \<longleftrightarrow> r \<in> set (stJobs (mStore m)) \<and> jID r \<noteq> jID j))"

lemma updateRow_queued_rows:
  assumes "\<And>r. jStatus (f r) \<noteq> StatusQueued" and "jStatus r = StatusQueued"
  shows "r \<in> set (stJobs (snd (updateRow i StatusQueued f st))) \<longleftrightarrow> r \<in> set (stJobs st) \<and> jID r \<noteq> i"
  unfolding snd_updateRow updateJobs_rows using assms by (auto simp: image_iff)

lemma failUnrunnable_settles:
  assumes "storeOk (mStore m)"
  shows "settles m j (failUnrunnable j now m)"
proof -
  let ?e = "noRunnerText (jType j)"
  obtain b st where fq: "finishQueued (jID j) StatusFailed ?e [] now (mStore m) = (b, st)"
    by (cases "finishQueued (jID j) StatusFailed ?e [] now (mStore m)")
  have st: "mStore (failUnrunnable j now m) = snd (finishQueued (jID j) StatusFailed ?e [] now (mStore m))"
    using fq by (auto simp: failUnrunnable_def fireHooks_def split: bool.splits option.splits)
  have "storeOk (mStore (failUnrunnable j now m))" unfolding st using finishQueued_good assms by simp
  moreover have "grows m (failUnrunnable j now m)"
    using fq by (auto simp: failUnrunnable_def fireHooks_def grows_def generalCount_def refreshCount_def
        split: bool.splits option.splits)
  moreover have "r \<in> set (stJobs (mStore (failUnrunnable j now m))) \<longleftrightarrow> r \<in> set (stJobs (mStore m)) \<and> jID r \<noteq> jID j"
    if "jStatus r = StatusQueued" for r
    unfolding st finishQueued_def split_def snd_conv by (rule updateRow_queued_rows) (simp_all add: that)
  ultimately show ?thesis by (simp add: settles_def)
qed

lemma take_start_settles:
  assumes "storeOk (mStore m)" and "j \<in> set (stJobs (mStore m))" and "jStatus j = StatusQueued"
  shows "settles m j (startTaken (hd (mRunning (takeJob j slots m))) now (takeJob j slots m))"
proof -
  let ?m1 = "takeJob j slots m" let ?a = "hd (mRunning ?m1)"
  define m2 where "m2 = startTaken ?a now ?m1"
  have a: "aID ?a = jID j" "mStore ?m1 = mStore m" by (simp_all add: takeJob_def Let_def)
  have "fst (markRunning (jID j) now (mStore m)) \<noteq> None"
    using updateRow_hit(1) [OF assms(1,2) refl assms(3)] unfolding markRunning_def by simp
  then have m2: "mStore m2 = snd (markRunning (jID j) now (mStore m))"
      "mKeys m2 = acquireKeys (jID j) (LockKeys (jType j) (jParams j)) (mKeys m)" "mSlots m2 = addSlots slots (mSlots m)"
      "mState m2 = mState m" "mWorkers m2 = mWorkers m" "mRunners m2 = mRunners m"
      "map aRefresh (mRunning m2) = refreshPool (jType j) # map aRefresh (mRunning m)"
      "map aID (mRunning m2) = jID j # map aID (mRunning m)"
    by (auto simp: m2_def startTaken_def a split: prod.splits option.splits) (auto simp: takeJob_def Let_def)
  have len: "length (mRunning m2) = Suc (length (mRunning m))" using m2(8) by (metis length_Cons length_map)
  have rf: "refreshCount m' = int (length (filter (\<lambda>b. b) (map aRefresh (mRunning m'))))" for m'
    by (simp add: refreshCount_def filter_map o_def)
  have "grows m m2"
    unfolding grows_def generalCount_def
  proof (intro conjI allI impI)
    show "aID ` set (mRunning m) \<subseteq> aID ` set (mRunning m2)" using m2(8) by (metis list.set_map set_subset_Cons)
  qed (auto simp: m2(2-6) len rf m2(7) acquireKeys_at addSlots_at)
  moreover have "storeOk (mStore m2)" unfolding m2(1) using markRunning_good assms(1) by blast
  moreover have "r \<in> set (stJobs (mStore m2)) \<longleftrightarrow> r \<in> set (stJobs (mStore m)) \<and> jID r \<noteq> jID j"
    if "jStatus r = StatusQueued" for r
    unfolding m2(1) markRunning_def by (rule updateRow_queued_rows) (simp_all add: that)
  ultimately show ?thesis by (simp add: settles_def m2_def)
qed

text \<open>After a pass over queued rows every row still queued is not due or blocked.\<close>

definition waits :: "options \<Rightarrow> gotime \<Rightarrow> manager \<Rightarrow> job \<Rightarrow> bool" where
  "waits o1 now m j \<longleftrightarrow> \<not> due now j \<or> blocked o1 m j"

definition passOk :: "options \<Rightarrow> gotime \<Rightarrow> job list \<Rightarrow> manager \<Rightarrow> manager \<Rightarrow> bool" where
  "passOk o1 now js m m' \<longleftrightarrow> grows m m' \<and> storeOk (mStore m')
     \<and> (\<forall>r. jStatus r = StatusQueued \<and> r \<in> set (stJobs (mStore m')) \<longrightarrow>
           r \<in> set (stJobs (mStore m)) \<and> (r \<in> set js \<longrightarrow> waits o1 now m' r))"

lemma passOk_skip:
  assumes "passOk o1 now js m m'" and "waits o1 now m j"
  shows "passOk o1 now (j # js) m m'"
  using assms blocked_grows unfolding passOk_def waits_def by (metis set_ConsD)

lemma passOk_settle:
  assumes "settles m j m1" and "passOk o1 now js m1 m'"
  shows "passOk o1 now (j # js) m m'"
  using assms grows_trans unfolding passOk_def settles_def by (metis set_ConsD)

lemma dispatchLoop_pass:
  assumes "mState m = stateStarted" and "storeOk (mStore m)" and "distinct (map jID js)"
    and "\<forall>j \<in> set js. j \<in> set (stJobs (mStore m)) \<and> jStatus j = StatusQueued"
  shows "passOk o1 now js m (snd (dispatchLoop o1 now js w m))"
  using assms
proof (induction js arbitrary: w m)
  case Nil
  then show ?case by (simp add: passOk_def)
next
  case (Cons j js)
  have IH: "passOk o1 now js m (snd (dispatchLoop o1 now js w m))" for w using Cons by simp
  have settled: "passOk o1 now (j # js) m (snd (dispatchLoop o1 now js w m1))" if s: "settles m j m1" for m1 w
  proof (rule passOk_settle [OF s], rule Cons.IH)
    show "mState m1 = stateStarted" "storeOk (mStore m1)" "distinct (map jID js)"
      using s Cons.prems by (auto simp: settles_def grows_def)
    have "jID j' \<noteq> jID j" if "j' \<in> set js" for j' using distinct_map_neq [OF Cons.prems(3) that] .
    then show "\<forall>j' \<in> set js. j' \<in> set (stJobs (mStore m1)) \<and> jStatus j' = StatusQueued"
      using s Cons.prems(4) by (simp add: settles_def)
  qed
  let ?res = "snd (dispatchLoop o1 now (j # js) w m)"
  have pass: "\<not> blocked o1 m j \<Longrightarrow> \<not> fst (poolsFullLocked o1 m (jType j)) \<Longrightarrow>
      \<exists>slots. slotsFor o1 j = Some slots \<and> canTake o1 j slots m"
    using Cons.prems(1) by (cases "slotsFor o1 j") (auto simp: blocked_def canTake_def)
  consider (early) "\<not> due now j" | (full) "due now j" "fst (poolsFullLocked o1 m (jType j))"
    | (norunner) "due now j" "\<not> fst (poolsFullLocked o1 m (jType j))" "findActive (jID j) m = None"
        "\<not> snd (poolsFullLocked o1 m (jType j))" "jType j \<notin> set (mRunners m)"
    | (skip) "due now j" "\<not> fst (poolsFullLocked o1 m (jType j))" "blocked o1 m j"
        "findActive (jID j) m \<noteq> None \<or> snd (poolsFullLocked o1 m (jType j)) \<or> jType j \<in> set (mRunners m)"
    | (start) "due now j" "\<not> fst (poolsFullLocked o1 m (jType j))" "\<not> blocked o1 m j" "jType j \<in> set (mRunners m)"
    unfolding blocked_def by blast
  then show ?case
  proof cases
    case early
    then show ?thesis using passOk_skip [OF IH] by (simp add: waits_def)
  next
    case full
    have "blocked o1 m r" for r
      using full(2) by (auto simp: blocked_def poolsFullLocked_def Let_def split: if_splits)
    then show ?thesis using full Cons.prems(2) by (simp add: passOk_def waits_def)
  next
    case skip
    then have "?res = snd (dispatchLoop o1 now js w m)"
      using Cons.prems(1) by (cases "slotsFor o1 j") (auto simp: blocked_def canTake_def)
    then show ?thesis using passOk_skip [OF IH] skip(3) by (simp add: waits_def)
  next
    case norunner
    then show ?thesis
      using settled [OF failUnrunnable_settles [OF Cons.prems(2)]] Cons.prems(1) by simp
  next
    case start
    have q: "j \<in> set (stJobs (mStore m))" "jStatus j = StatusQueued" using Cons.prems(4) by auto
    obtain slots where slots: "slotsFor o1 j = Some slots" "canTake o1 j slots m" using pass start by blast
    then have "?res = snd (dispatchLoop o1 now js w (startTaken (hd (mRunning (takeJob j slots m))) now (takeJob j slots m)))"
      using start Cons.prems(1) by (simp add: blocked_def Let_def)
    then show ?thesis using settled [OF take_start_settles [OF Cons.prems(2) q]] by simp
  qed
qed

text \<open>The pass is a sequence of steps of the manager.\<close>

lemma seen_fields [simp]: "mSeen (takeJob j slots m) = mSeen m" "mSeen (startTaken a now m) = mSeen m"
  "mSeen (failUnrunnable j now m) = mSeen m"
  by (auto simp: takeJob_def Let_def startTaken_def failUnrunnable_def fireHooks_def split: prod.splits option.splits bool.splits)

lemma dispatchLoop_steps:
  "set js \<subseteq> set (mSeen m) \<Longrightarrow> (mgrStep o1)\<^sup>*\<^sup>* m (snd (dispatchLoop o1 now js w m))"
proof (induction js arbitrary: w m)
  case (Cons j js)
  have IH: "(mgrStep o1)\<^sup>*\<^sup>* m' (snd (dispatchLoop o1 now js w m'))" if "mSeen m' = mSeen m" for m' w
    using Cons that by simp
  have fail: "(mgrStep o1)\<^sup>*\<^sup>* m (snd (dispatchLoop o1 now js w (failUnrunnable j now m)))"
    if "jType j \<notin> set (mRunners m)" "findActive (jID j) m = None"
    using converse_rtranclp_into_rtranclp [OF mgrStep.unrunnable [of j m, OF _ that, of o1 now] IH [of "failUnrunnable j now m"]]
      Cons.prems by simp
  have start: "(mgrStep o1)\<^sup>*\<^sup>* m (snd (dispatchLoop o1 now js w
        (startTaken (hd (mRunning (takeJob j slots m))) now (takeJob j slots m))))"
    if "due now j" "jType j \<in> set (mRunners m)" "slotsFor o1 j = Some slots" "canTake o1 j slots m" for slots
  proof -
    let ?m1 = "takeJob j slots m" let ?a = "hd (mRunning ?m1)"
    have "mgrStep o1 m ?m1" using mgrStep.take that Cons.prems by simp
    moreover have "mgrStep o1 ?m1 (startTaken ?a now ?m1)"
      by (rule mgrStep.start) (simp_all add: takeJob_def Let_def)
    ultimately have "(mgrStep o1)\<^sup>*\<^sup>* m (startTaken ?a now ?m1)" by simp
    then show ?thesis
      using rtranclp_trans [of "mgrStep o1"] IH [of "startTaken ?a now ?m1"] by simp
  qed
  show ?case using IH [of m] fail start by (auto simp: Let_def split: option.splits)
qed simp

lemma dispatch_steps: "(mgrStep o1)\<^sup>*\<^sup>* m (snd (dispatch o1 now m))"
proof -
  let ?q = "queuedJobs queuedScan (mStore m)"
  have "(mgrStep o1)\<^sup>*\<^sup>* (m\<lparr>mSeen := ?q\<rparr>) (snd (dispatchLoop o1 now ?q None (m\<lparr>mSeen := ?q\<rparr>)))"
    by (rule dispatchLoop_steps) simp
  then have "(mgrStep o1)\<^sup>*\<^sup>* m (snd (dispatchLoop o1 now ?q None (m\<lparr>mSeen := ?q\<rparr>)))"
    using converse_rtranclp_into_rtranclp [of "mgrStep o1", OF mgrStep.scan] by blast
  then show ?thesis by (simp add: dispatch_def Let_def)
qed

lemma reachable_steps: "(mgrStep o1)\<^sup>*\<^sup>* m m' \<Longrightarrow> reachable o1 m \<Longrightarrow> reachable o1 m'"
  by (induction rule: rtranclp_induct) (auto intro: reachable.step)

section \<open>An example manager\<close>

definition exOptions :: options where
  "exOptions = \<lparr>oRefreshWorkers = 2, oMaxAttempts = 3,
     oSlots = [\<lparr>spName = ''upload'', spLimit = 1, spNeeds = Some (\<lambda>j. Some (jType j = TypeSync))\<rparr>],
     oRedact = (\<lambda>s. s), oValidJSON = (\<lambda>_. True), oDeferMessage = (\<lambda>_. ''Waiting for the transfer window'')\<rparr>"

definition exManager :: manager where
  "exManager = the (Start exOptions 120 (New 2 [TypeSync] (exStore [''Show''])))"

definition exRunning :: manager where
  "exRunning = snd (dispatch exOptions 130 exManager)"

lemma exOptions_ok: "optionsOk exOptions"
  by (simp add: optionsOk_def exOptions_def)

lemma exShow_ok: "storeOk (exStore [''Show''])"
  by code_simp

lemma exManager_reachable: "reachable exOptions exManager"
proof -
  have "Start exOptions 120 (New 2 [TypeSync] (exStore [''Show''])) = Some exManager"
    by (simp add: exManager_def Start_def New_def split: prod.split)
  then show ?thesis using reachable.step [OF reachable.init [OF exShow_ok] mgrStep.startUp] by blast
qed

lemma exRunning_reachable: "reachable exOptions exRunning"
  unfolding exRunning_def using reachable_steps [OF dispatch_steps exManager_reachable] .

lemma exRunning_active: "map aID (mRunning exRunning) = [1]" "map aPhase (mRunning exRunning) = [PhaseRunning]"
  by code_simp+

lemma exActive: "hd (mRunning exRunning) \<in> set (mRunning exRunning)" "aPhase (hd (mRunning exRunning)) = PhaseRunning"
  "aID (hd (mRunning exRunning)) = 1"
  using exRunning_active by (cases "mRunning exRunning"; simp)+

section \<open>Properties\<close>

text \<open>C2: no two jobs that run at the same time share a resource (the content of a
  destination, a Plex database, an integration's index or backups, a destination's manifests, the
  manifest builder, a source), whatever the interleaving of requests, cancellations, finishing
  runs, shutdowns and crashes; and no running job uses a resource a caller holds.\<close>

theorem running_jobs_exclusive:
  assumes "optionsOk o1" and "reachable o1 m" and "a \<in> set (mRunning m)"
  shows "\<exists>r \<in> set (stJobs (mStore m)). jID r = aID a
    \<and> (\<forall>b \<in> set (mRunning m). aID b \<noteq> aID a \<longrightarrow> (\<exists>q \<in> set (stJobs (mStore m)). jID q = aID b
          \<and> resources (jType r) (jParams r) \<inter> resources (jType q) (jParams q) = {}))
    \<and> (\<forall>(i, ks) \<in> set (mHeld m). keyOf ` resources (jType r) (jParams r) \<inter> set ks = {})"
proof -
  have ok: "mgrOk o1 m" using reachable_ok assms by blast
  then have own: "lk.owned (mKeys m) (owners m)" by (simp add: mgrOk_def localOk_def tableOk_def)
  have row: "\<exists>r \<in> set (stJobs (mStore m)). jID r = aID b \<and> LockKeys (jType r) (jParams r) = aKeys b"
    if "b \<in> set (mRunning m)" for b using ok that by (auto simp: mgrOk_def backed_def)
  obtain r where r: "r \<in> set (stJobs (mStore m))" "jID r = aID a" "LockKeys (jType r) (jParams r) = aKeys a"
    using row [OF assms(3)] by blast
  have a: "(aID a, aKeys a) \<in> set (owners m)" using assms(3) by (auto simp: owners_def)
  have "\<exists>q \<in> set (stJobs (mStore m)). jID q = aID b \<and> resources (jType r) (jParams r) \<inter> resources (jType q) (jParams q) = {}"
    if b: "b \<in> set (mRunning m)" "aID b \<noteq> aID a" for b
  proof -
    obtain q where q: "q \<in> set (stJobs (mStore m))" "jID q = aID b" "LockKeys (jType q) (jParams q) = aKeys b"
      using row [OF b(1)] by blast
    have "(aID b, aKeys b) \<in> set (owners m)" using b(1) by (auto simp: owners_def)
    then have "set (aKeys a) \<inter> set (aKeys b) = {}" using lk.owned_disjoint [OF own a] b(2) by metis
    then have "keyOf ` resources (jType r) (jParams r) \<inter> keyOf ` resources (jType q) (jParams q) = {}"
      by (metis q(3) r(3) set_LockKeys)
    with q show ?thesis by blast
  qed
  moreover have "keyOf ` resources (jType r) (jParams r) \<inter> set ks = {}" if h: "(i, ks) \<in> set (mHeld m)" for i ks
  proof -
    have "i \<noteq> aID a" using ok assms(3) h by (force simp: mgrOk_def localOk_def tableOk_def)
    moreover have "(i, ks) \<in> set (owners m)" using h by (simp add: owners_def)
    ultimately show ?thesis using lk.owned_disjoint [OF own a] r(3) set_LockKeys by metis
  qed
  ultimately show ?thesis using r by blast
qed

theorem running_jobs_exclusive_witness:
  "\<exists>r \<in> set (stJobs (mStore exRunning)). jID r = 1"
  using running_jobs_exclusive [OF exOptions_ok exRunning_reachable exActive(1)] exActive(3) by auto

text \<open>C28: never more jobs than allowed hold a slot of a pool or run in the refresh pool, and
  the counters the dispatcher reads count exactly the running jobs.\<close>

theorem slot_limits_hold:
  assumes "optionsOk o1" and "reachable o1 m"
  shows "refreshCount m \<le> oRefreshWorkers o1
    \<and> (\<forall>p \<in> set (oSlots o1). mSlots m (spName p) \<le> spLimit p
         \<and> mSlots m (spName p) = int (length (filter (\<lambda>a. spName p \<in> set (aSlots a)) (mRunning m))))"
proof -
  have ok: "localOk o1 m" using reachable_ok assms by (auto simp: mgrOk_def)
  then have d: "\<forall>a \<in> set (mRunning m). distinct (aSlots a)" by (simp add: localOk_def slotsOk_def)
  have one: "length (filter (\<lambda>q. q = p) xs) = (if p \<in> set xs then 1 else 0)" if "distinct xs" for p and xs :: "string list"
    using that by (induction xs) auto
  have "slotCount p as = int (length (filter (\<lambda>a. p \<in> set (aSlots a)) as))" if "\<forall>a \<in> set as. distinct (aSlots a)" for p as
    using that by (induction as) (auto simp: slotCount_def one)
  from this [OF d] ok show ?thesis by (auto simp: localOk_def slotsOk_def poolOk_def)
qed

theorem slot_limits_hold_witness: "mSlots exRunning ''upload'' \<le> 1 \<and> refreshCount exRunning \<le> 2"
  using slot_limits_hold [OF exOptions_ok exRunning_reachable] by (simp add: exOptions_def)

text \<open>C29: the finish hooks (notifications) run at most once per job, and only for a job whose
  final state is committed.\<close>

theorem hooks_fire_once:
  assumes "optionsOk o1" and "reachable o1 m"
  shows "distinct (map jID (mFired m)) \<and> (\<forall>h \<in> set (mFired m). Final (jStatus h)
    \<and> (\<exists>r \<in> set (stJobs (mStore m)). jID r = jID h \<and> Final (jStatus r)))"
  using reachable_ok [OF assms] by (simp add: mgrOk_def hooksOk_def)

theorem hooks_fire_once_witness: "distinct (map jID (mFired exRunning))"
  using hooks_fire_once [OF exOptions_ok exRunning_reachable] by blast

text \<open>What the end of a run means for its job, as the states of the row.\<close>

inductive outcomeSays :: "options \<Rightarrow> gotime \<Rightarrow> cause option \<Rightarrow> outcome \<Rightarrow> verdict \<Rightarrow> bool" for o1 now c where
  success: "rWarnings r \<le> 0 \<Longrightarrow> outcomeSays o1 now c (Returned r None) (VFinal StatusCompleted [])"
| warned: "rWarnings r > 0 \<Longrightarrow> outcomeSays o1 now c (Returned r None) (VFinal StatusCompletedWithWarnings [])"
| cancelled: "c = Some errUserCancel \<Longrightarrow> outcomeSays o1 now c (Returned r (Some e)) (VFinal StatusCancelled [])"
| deferred: "c \<noteq> Some errUserCancel \<Longrightarrow> now < t \<Longrightarrow>
    outcomeSays o1 now c (Returned r (Some (Deferred (Some t) reason))) (VDefer t reason)"
| noTime: "c \<noteq> Some errUserCancel \<Longrightarrow> (\<And>t. until = Some t \<Longrightarrow> t \<le> now) \<Longrightarrow>
    outcomeSays o1 now c (Returned r (Some (Deferred until reason))) (VFinal StatusFailed text)"
| shutdown: "c = Some errShutdown \<Longrightarrow> outcomeSays o1 now c (Returned r (Some (Failed msg))) VRequeue"
| failed: "c \<noteq> Some errUserCancel \<Longrightarrow> c \<noteq> Some errShutdown \<Longrightarrow>
    outcomeSays o1 now c (Returned r (Some (Failed msg))) (VFinal StatusFailed (oRedact o1 msg))"
| panicked: "outcomeSays o1 now c (Panicked p) (VFinal StatusFailed text)"

lemma finishVerdict_says: "outcomeSays o1 now c out (finishVerdict o1 now c out)"
  by (cases "(o1, now, c, out)" rule: finishVerdict.cases)
    (auto intro: outcomeSays.intros split: runError.splits option.splits)

text \<open>C30: when a run ends its job is no longer active and its row is exactly what the outcome
  says: completed (with warnings when there are any) without an error, cancelled after a user's
  cancel, queued again with its time, one more deferral and its attempt and plan kept after a
  deferral with a future time, queued as resumed after a shutdown, failed otherwise.\<close>

theorem finish_writes_outcome:
  assumes "optionsOk o1" and "reachable o1 m" and "a \<in> set (mRunning m)" and "aPhase a = PhaseRunning"
  shows "\<exists>r \<in> set (stJobs (mStore m)). \<exists>v. jID r = aID a \<and> jStatus r = StatusRunning
    \<and> outcomeSays o1 now (aCause a) out v
    \<and> finishedRow o1 now a out (mStore m) r v \<in> set (stJobs (mStore (finish o1 now a out True m)))
    \<and> aID a \<notin> aID ` set (mRunning (finish o1 now a out True m))"
  using finish_row [OF reachable_ok [OF assms(1,2)] assms(3,4)] finishVerdict_says by blast

theorem finish_writes_outcome_witness:
  "1 \<notin> aID ` set (mRunning (finish exOptions 140 (hd (mRunning exRunning)) (Returned emptyResult None) True exRunning))"
  using finish_writes_outcome [OF exOptions_ok exRunning_reachable exActive(1,2)] exActive(3) by auto

text \<open>C31: a pass of the dispatcher starts everything it can.  The pass reads the first \<open>queuedScan\<close> (1000)
  queued jobs in queue order; each of them that is still queued after the pass is waiting for its time,
  or its worker pool is full, one of its lock keys is held, a slot it needs is taken or could not be
  looked up, or it is still in the list of active jobs.\<close>

theorem dispatch_work_conserving:
  assumes "mState m = stateStarted" and "storeOk (mStore m)"
    and "r \<in> set (queuedJobs queuedScan (mStore m))" and "r \<in> set (stJobs (mStore (snd (dispatch o1 now m))))"
  shows "\<not> due now r \<or> blocked o1 (snd (dispatch o1 now m)) r"
proof (cases "fst (poolsFullLocked o1 m (TypeOther []))")
  case True
  then have "blocked o1 m r"
    by (auto simp: blocked_def poolsFullLocked_def Let_def refreshPool_def split: if_splits)
  with True show ?thesis by (simp add: dispatch_def)
next
  case False
  let ?q = "queuedJobs queuedScan (mStore m)" let ?m = "m\<lparr>mSeen := ?q\<rparr>"
  have "distinct (map jID (queueOrder (filter (\<lambda>j. jStatus j = StatusQueued) (stJobs (mStore m)))))"
    using assms(2) by (simp add: queueOrder_def storeOk_def distinct_map inj_on_def)
  then have "distinct (map jID ?q)" unfolding queuedJobs_def take_map [symmetric] by (rule distinct_take)
  moreover have mem: "j \<in> set (stJobs (mStore m)) \<and> jStatus j = StatusQueued" if "j \<in> set ?q" for j
    using that set_take_subset unfolding queuedJobs_def by fastforce
  ultimately have pass: "passOk o1 now ?q ?m (snd (dispatchLoop o1 now ?q None ?m))"
    using assms(1,2) by (intro dispatchLoop_pass) auto
  have d: "dispatch o1 now m = dispatchLoop o1 now ?q None ?m" using False by (simp add: dispatch_def Let_def)
  have "waits o1 now (snd (dispatch o1 now m)) r"
    using pass assms(3,4) mem [OF assms(3)] unfolding passOk_def d by blast
  then show ?thesis by (simp add: waits_def)
qed

lemma ex_blocked:
  "mState exManager = stateStarted" "storeOk (mStore exManager)"
  "newJob 1 (exSync [''Show'']) 100 \<in> set (queuedJobs queuedScan (mStore (exManager\<lparr>mWorkers := 0\<rparr>)))"
  "newJob 1 (exSync [''Show'']) 100 \<in> set (stJobs (mStore (snd (dispatch exOptions 130 (exManager\<lparr>mWorkers := 0\<rparr>)))))"
  "due 130 (newJob 1 (exSync [''Show'']) 100)"
  by code_simp+

theorem dispatch_work_conserving_witness:
  "blocked exOptions (snd (dispatch exOptions 130 (exManager\<lparr>mWorkers := 0\<rparr>))) (newJob 1 (exSync [''Show'']) 100)"
  using dispatch_work_conserving [OF _ _ ex_blocked(3,4)] ex_blocked(1,2,5) by simp

text \<open>C16: a pass of the dispatcher does nothing but the manager's own steps, so every guarantee
  of reachable states holds after it.\<close>

theorem dispatch_refines_steps: "(mgrStep o1)\<^sup>*\<^sup>* m (snd (dispatch o1 now m))"
  by (rule dispatch_steps)

end
