(* ===== verification/Scheduler.thy ===== *)
theory Scheduler
  imports Schedules ManagerSafety
begin

text \<open>
  The scheduler (internal/jobqueue/scheduler.go): the enabled schedules with their next runs,
  reloading them after a change, firing what is due, and what a fire does with the job queue.
  Times are instants; \<open>parse\<close> is the cron library's parser in the scheduler's time zone.
\<close>

section \<open>State\<close>

record entry =
  enSched :: schedule
  enSpec :: cronSpec
  enNext :: "gotime option"

datatype skipReason = SkipRunning | SkipDeferred | SkipError paramError

record scheduler =
  sdManager :: manager
  sdTable :: schedTable
  sdEntries :: "(ident \<times> entry) list"
  sdLastFired :: "ident \<Rightarrow> gotime option"
  sdSkips :: "ident \<Rightarrow> (gotime \<times> skipReason) option"

text \<open>The entry of a schedule (a Go map, at most one entry per id).\<close>

definition entryOf :: "ident \<Rightarrow> scheduler \<Rightarrow> entry option" where
  "entryOf i sd = map_of (sdEntries sd) i"

section \<open>Reload\<close>

definition later :: "gotime option \<Rightarrow> gotime \<Rightarrow> gotime" where
  "later t base = (case t of None \<Rightarrow> base | Some u \<Rightarrow> if u > base then u else base)"

definition reloadEntry :: "cronParser \<Rightarrow> gotime \<Rightarrow> scheduler \<Rightarrow> schedule \<Rightarrow> entry option" where
  "reloadEntry parse now sd sc =
     (if \<not> scEnabled sc then None
      else (let fresh = (case parseCron parse now (scCron sc) of
                           Inl _ \<Rightarrow> None
                         | Inr sp \<Rightarrow>
                             (let base = later (scLastRunAt sc) (later (sdLastFired sd (scID sc)) now)
                              in Some \<lparr>enSched = sc, enSpec = sp, enNext = sp base\<rparr>))
            in case entryOf (scID sc) sd of
                 Some old \<Rightarrow>
                   if scCron (enSched old) = scCron sc
                   then Some \<lparr>enSched = sc, enSpec = enSpec old, enNext = enNext old\<rparr> else fresh
               | None \<Rightarrow> fresh))"

fun reloadEntries :: "cronParser \<Rightarrow> gotime \<Rightarrow> scheduler \<Rightarrow> schedule list \<Rightarrow> (ident \<times> entry) list" where
  "reloadEntries parse now sd [] = []"
| "reloadEntries parse now sd (sc # scs) =
     (case reloadEntry parse now sd sc of
        None \<Rightarrow> reloadEntries parse now sd scs
      | Some e \<Rightarrow> (scID sc, e) # reloadEntries parse now sd scs)"

definition Reload :: "cronParser \<Rightarrow> gotime \<Rightarrow> scheduler \<Rightarrow> scheduler" where
  "Reload parse now sd =
     sd\<lparr>sdEntries := reloadEntries parse now sd (ListSchedules (sdTable sd))\<rparr>"

section \<open>Queries\<close>

definition NextRun :: "ident \<Rightarrow> scheduler \<Rightarrow> gotime option" where
  "NextRun i sd = (case entryOf i sd of None \<Rightarrow> None | Some e \<Rightarrow> enNext e)"

definition LastSkip :: "ident \<Rightarrow> scheduler \<Rightarrow> (gotime \<times> skipReason) option" where
  "LastSkip i sd = sdSkips sd i"

fun earliestLoop :: "gotime option \<Rightarrow> entry list \<Rightarrow> gotime option" where
  "earliestLoop w [] = w"
| "earliestLoop w (e # es) =
     (case enNext e of
        None \<Rightarrow> earliestLoop w es
      | Some t \<Rightarrow> earliestLoop (earlier w t) es)"

definition earliest :: "scheduler \<Rightarrow> gotime option" where
  "earliest sd = earliestLoop None (map snd (sdEntries sd))"

section \<open>Firing\<close>

record dueFire =
  dueSched :: schedule
  dueAt :: gotime

definition skipped :: "dueFire \<Rightarrow> skipReason \<Rightarrow> scheduler \<Rightarrow> scheduler" where
  "skipped d r sd = sd\<lparr>sdSkips := (sdSkips sd)(scID (dueSched d) \<mapsto> (dueAt d, r))\<rparr>"

text \<open>\<open>supersede\<close>: the deferred syncs the new job covers end; the message names the scheduled time
  in the scheduler's zone (\<open>fmt\<close>).\<close>

definition supersede :: "(gotime \<Rightarrow> string) \<Rightarrow> gotime \<Rightarrow> dueFire \<Rightarrow> ident \<Rightarrow> scheduler \<Rightarrow> scheduler" where
  "supersede fmt now d keep sd =
     sd\<lparr>sdManager := supersedeStep (scParams (dueSched d)) keep
          (''Superseded by the scheduled run of '' @ fmt (dueAt d)) now (sdManager sd)\<rparr>"

definition fire :: "(gotime \<Rightarrow> string) \<Rightarrow> gotime \<Rightarrow> dueFire \<Rightarrow> scheduler \<Rightarrow> scheduler" where
  "fire fmt now d sd =
     (let sc = dueSched d; t = scJobType sc; p = scParams sc; st = mStore (sdManager sd)
      in if (t = TypeVerify \<or> t = TypeRetention) \<and> pDestinationID p \<noteq> 0 \<and> hasDeferred t (pDestinationID p) st
         then skipped d SkipDeferred sd
         else if hasRunning t p st then skipped d SkipRunning sd
         else (case Enqueue \<lparr>sType = t, sTrigger = TriggerSchedule, sDryRun = False, sParams = p\<rparr> now (sdManager sd) of
                 Inl e \<Rightarrow> skipped d (SkipError e) sd
               | Inr (j, m) \<Rightarrow>
                   (let sd1 = sd\<lparr>sdManager := m, sdSkips := (sdSkips sd)(scID sc := None)\<rparr>;
                        sd2 = (case MarkRun (scID sc) now (sdTable sd1) of
                                 Inl _ \<Rightarrow> sd1 | Inr tb \<Rightarrow> sd1\<lparr>sdTable := tb\<rparr>)
                    in if t = TypeSync \<and> pDestinationID p \<noteq> 0 then supersede fmt now d (jID j) sd2 else sd2)))"

definition isDue :: "gotime \<Rightarrow> entry \<Rightarrow> bool" where
  "isDue now e \<longleftrightarrow> (case enNext e of None \<Rightarrow> False | Some t \<Rightarrow> t \<le> now)"

definition advance :: "gotime \<Rightarrow> entry \<Rightarrow> entry" where
  "advance now e = (if isDue now e then e\<lparr>enNext := enSpec e (later (enNext e) now)\<rparr> else e)"

definition dueFires :: "gotime \<Rightarrow> scheduler \<Rightarrow> dueFire list" where
  "dueFires now sd =
     sort_key (\<lambda>d. (dueAt d, scID (dueSched d)))
       (map (\<lambda>(i, e). \<lparr>dueSched = enSched e, dueAt = the (enNext e)\<rparr>)
         (filter (\<lambda>(i, e). isDue now e) (sdEntries sd)))"

text \<open>The entries whose time has come are consumed and advanced before any of them fires.\<close>

definition consume :: "gotime \<Rightarrow> scheduler \<Rightarrow> scheduler" where
  "consume now sd =
     sd\<lparr>sdEntries := map (\<lambda>(i, e). (i, advance now e)) (sdEntries sd),
        sdLastFired := (\<lambda>i. case entryOf i sd of
                              None \<Rightarrow> sdLastFired sd i
                            | Some e \<Rightarrow> if isDue now e then enNext e else sdLastFired sd i)\<rparr>"

definition fireDue :: "(gotime \<Rightarrow> string) \<Rightarrow> gotime \<Rightarrow> scheduler \<Rightarrow> scheduler" where
  "fireDue fmt now sd = fold (fire fmt now) (dueFires now sd) (consume now sd)"

section \<open>Run now\<close>

datatype runNowError = RunSched schedError | RunParams paramError

definition RunNow :: "gotime \<Rightarrow> ident \<Rightarrow> bool \<Rightarrow> scheduler \<Rightarrow> runNowError + (job \<times> scheduler)" where
  "RunNow now i dry sd =
     (case GetSchedule i (sdTable sd) of
        Inl e \<Rightarrow> Inl (RunSched e)
      | Inr sc \<Rightarrow>
          (case Enqueue \<lparr>sType = scJobType sc, sTrigger = TriggerManual, sDryRun = dry, sParams = scParams sc\<rparr>
                  now (sdManager sd) of
             Inl e \<Rightarrow> Inl (RunParams e)
           | Inr (j, m) \<Rightarrow>
               (let sd1 = sd\<lparr>sdManager := m\<rparr>
                in if dry then Inr (j, sd1)
                   else (case MarkRun i now (sdTable sd1) of
                           Inl _ \<Rightarrow> Inr (j, sd1) | Inr tb \<Rightarrow> Inr (j, sd1\<lparr>sdTable := tb\<rparr>)))))"

section \<open>Next runs and fires\<close>

lemma parseCron_parse: "parseCron parse now e = Inr sp \<Longrightarrow> \<exists>e'. parse e' = Some sp"
  by (auto simp: parseCron_def Let_def split: if_splits option.splits)

lemma later_ge: "base \<le> later t base" "t = Some u \<Longrightarrow> u \<le> later t base"
  by (auto simp: later_def split: option.splits)

text \<open>An entry belongs to its schedule, has a spec of the cron library, and its next run is later
  than the last one it fired for.\<close>

definition entryOk :: "cronParser \<Rightarrow> scheduler \<Rightarrow> ident \<times> entry \<Rightarrow> bool" where
  "entryOk parse sd ie \<longleftrightarrow> scID (enSched (snd ie)) = fst ie \<and> (\<exists>x. parse x = Some (enSpec (snd ie)))
     \<and> (\<forall>t lf. enNext (snd ie) = Some t \<and> sdLastFired sd (fst ie) = Some lf \<longrightarrow> lf < t)"

definition schedInv :: "cronParser \<Rightarrow> scheduler \<Rightarrow> bool" where
  "schedInv parse sd \<longleftrightarrow> distinct (map scID (sdTable sd)) \<and> distinct (map fst (sdEntries sd))
     \<and> (\<forall>ie \<in> set (sdEntries sd). entryOk parse sd ie)"

lemma reloadEntry_ok:
  assumes "cronLaw parse" and "schedInv parse sd" and "reloadEntry parse now sd sc = Some e"
  shows "entryOk parse sd (scID sc, e)"
proof (cases "\<exists>old. entryOf (scID sc) sd = Some old \<and> scCron (enSched old) = scCron sc")
  case True
  then obtain old where old: "entryOf (scID sc) sd = Some old" "scCron (enSched old) = scCron sc" by blast
  have "(scID sc, old) \<in> set (sdEntries sd)" using map_of_SomeD [OF old(1) [unfolded entryOf_def]] .
  then have "entryOk parse sd (scID sc, old)" using assms(2) by (simp add: schedInv_def)
  then show ?thesis using assms(3) old by (auto simp: reloadEntry_def entryOk_def split: if_splits)
next
  case False
  let ?base = "later (scLastRunAt sc) (later (sdLastFired sd (scID sc)) now)"
  obtain sp where sp: "parseCron parse now (scCron sc) = Inr sp" "e = \<lparr>enSched = sc, enSpec = sp, enNext = sp ?base\<rparr>"
    using assms(3) False by (auto simp: reloadEntry_def Let_def split: if_splits option.splits sum.splits)
  obtain x where x: "parse x = Some sp" using parseCron_parse [OF sp(1)] by blast
  have "lf < t" if "sp ?base = Some t" "sdLastFired sd (scID sc) = Some lf" for t lf
  proof -
    have "?base < t" using assms(1) x that(1) unfolding cronLaw_def by blast
    moreover have "lf \<le> ?base" using later_ge(2) [OF that(2)] later_ge(1) order_trans by blast
    ultimately show ?thesis by simp
  qed
  then show ?thesis using x by (auto simp: entryOk_def sp(2))
qed

lemma reloadEntries_keys:
  "set (map fst (reloadEntries parse now sd scs)) \<subseteq> scID ` set scs"
  "distinct (map scID scs) \<Longrightarrow> distinct (map fst (reloadEntries parse now sd scs))"
  by (induction scs) (auto split: option.split)

lemma Reload_inv:
  assumes "cronLaw parse" and "schedInv parse sd"
  shows "schedInv parse (Reload parse now sd)"
proof -
  have "entryOk parse sd ie" if "ie \<in> set (reloadEntries parse now sd scs)" for ie scs
    using that reloadEntry_ok [OF assms] by (induction scs) (auto split: option.splits)
  moreover have "distinct (map scID (ListSchedules (sdTable sd)))"
    using assms(2) by (simp add: ListSchedules_def schedInv_def distinct_map inj_on_def)
  ultimately show ?thesis
    using assms(2) reloadEntries_keys(2) by (auto simp: schedInv_def Reload_def entryOk_def)
qed

lemma advance_next:
  assumes "cronLaw parse" and "parse x = Some (enSpec e)" and "enNext (advance now e) = Some t"
  shows "now < t"
proof (cases "isDue now e")
  case True
  then have "enSpec e (later (enNext e) now) = Some t" using assms(3) by (simp add: advance_def)
  then have "later (enNext e) now < t" using assms(1,2) unfolding cronLaw_def by blast
  then show ?thesis using later_ge(1) order_le_less_trans by blast
next
  case False
  then show ?thesis using assms(3) by (simp add: advance_def isDue_def)
qed

lemma fire_fields [simp]: "sdEntries (fire fmt now d sd) = sdEntries sd" "sdLastFired (fire fmt now d sd) = sdLastFired sd"
  "map scID (sdTable (fire fmt now d sd)) = map scID (sdTable sd)"
  by (auto simp: fire_def skipped_def supersede_def MarkRun_def Let_def split: sum.split prod.split)

lemma fold_fire_fields [simp]: "sdEntries (fold (fire fmt now) ds sd) = sdEntries sd"
  "sdLastFired (fold (fire fmt now) ds sd) = sdLastFired sd"
  "map scID (sdTable (fold (fire fmt now) ds sd)) = map scID (sdTable sd)"
  by (induction ds arbitrary: sd) simp_all

lemma entryOf_in: "schedInv parse sd \<Longrightarrow> (i, e) \<in> set (sdEntries sd) \<Longrightarrow> entryOf i sd = Some e"
  by (simp add: schedInv_def entryOf_def)

lemma consume_lastFired:
  assumes "schedInv parse sd" and "(i, e) \<in> set (sdEntries sd)"
  shows "sdLastFired (consume now sd) i = (if isDue now e then enNext e else sdLastFired sd i)"
  using entryOf_in [OF assms] by (simp add: consume_def)

lemma fireDue_inv:
  assumes "cronLaw parse" and "schedInv parse sd"
  shows "schedInv parse (fireDue fmt now sd)"
proof -
  have "entryOk parse (fireDue fmt now sd) (i, advance now e)" if ie: "(i, e) \<in> set (sdEntries sd)" for i e
  proof -
    have e: "entryOk parse sd (i, e)" using assms(2) ie by (auto simp: schedInv_def)
    then obtain x where x: "parse x = Some (enSpec e)" by (auto simp: entryOk_def)
    have lf: "sdLastFired (fireDue fmt now sd) i = (if isDue now e then enNext e else sdLastFired sd i)"
      using consume_lastFired [OF assms(2) ie] by (simp add: fireDue_def)
    have "l < t" if "enNext (advance now e) = Some t" "sdLastFired (fireDue fmt now sd) i = Some l" for t l
      using advance_next [OF assms(1) x that(1)] e that lf
      by (auto simp: isDue_def advance_def entryOk_def split: if_splits)
    then show ?thesis using e by (auto simp: entryOk_def advance_def)
  qed
  moreover have "sdEntries (fireDue fmt now sd) = map (\<lambda>(i, e). (i, advance now e)) (sdEntries sd)"
    by (simp add: fireDue_def consume_def)
  moreover have "map scID (sdTable (fireDue fmt now sd)) = map scID (sdTable sd)"
    by (simp add: fireDue_def consume_def)
  ultimately show ?thesis using assms(2) by (auto simp: schedInv_def split_def comp_def)
qed

text \<open>The runs of a scheduler: reloads and wake-ups, with the schedules table and the job queue
  changed by others in between.\<close>

inductive schedReach :: "cronParser \<Rightarrow> scheduler \<Rightarrow> bool" for parse where
  init: "distinct (map scID tb) \<Longrightarrow> schedReach parse \<lparr>sdManager = m, sdTable = tb, sdEntries = [],
    sdLastFired = (\<lambda>_. None), sdSkips = (\<lambda>_. None)\<rparr>"
| reload: "schedReach parse sd \<Longrightarrow> schedReach parse (Reload parse now sd)"
| wake: "schedReach parse sd \<Longrightarrow> schedReach parse (fireDue fmt now sd)"
| table: "schedReach parse sd \<Longrightarrow> distinct (map scID tb) \<Longrightarrow> schedReach parse (sd\<lparr>sdTable := tb\<rparr>)"
| queue: "schedReach parse sd \<Longrightarrow> schedReach parse (sd\<lparr>sdManager := m\<rparr>)"

lemma schedReach_inv: "schedReach parse sd \<Longrightarrow> cronLaw parse \<Longrightarrow> schedInv parse sd"
proof (induction rule: schedReach.induct)
  case (init tb m)
  then show ?case by (simp add: schedInv_def)
next
  case (table sd tb)
  then show ?case by (auto simp: schedInv_def entryOk_def)
next
  case (queue sd m)
  then show ?case by (auto simp: schedInv_def entryOk_def)
qed (simp_all add: Reload_inv fireDue_inv)

lemma dueFires_mem:
  "d \<in> set (dueFires now sd) \<longleftrightarrow>
   (\<exists>i e. (i, e) \<in> set (sdEntries sd) \<and> isDue now e \<and> d = \<lparr>dueSched = enSched e, dueAt = the (enNext e)\<rparr>)"
  by (auto simp: dueFires_def image_iff)

lemma dueFires_distinct:
  assumes "schedInv parse sd"
  shows "distinct (map (\<lambda>d. scID (dueSched d)) (dueFires now sd))"
proof -
  let ?due = "filter (\<lambda>(i, e). isDue now e) (sdEntries sd)"
  have "map (\<lambda>ie. scID (enSched (snd ie))) ?due = map fst ?due"
    using assms by (auto simp: schedInv_def entryOk_def)
  moreover have "distinct (map fst ?due)" using assms by (simp add: schedInv_def distinct_map_filter)
  ultimately have "distinct (map (\<lambda>ie. scID (enSched (snd ie))) ?due)" by (simp only:)
  then have d: "distinct (map (\<lambda>d. scID (dueSched d)) (map (\<lambda>(i, e). \<lparr>dueSched = enSched e, dueAt = the (enNext e)\<rparr>) ?due))"
    by (simp add: comp_def split_def)
  then show ?thesis by (simp only: dueFires_def distinct_map_sort_key)
qed

section \<open>A fire and the job queue\<close>

lemma Enqueue_step: "Enqueue s now m = Inr (j, m') \<Longrightarrow> (mgrStep o1)\<^sup>*\<^sup>* m m'"
  by (rule r_into_rtranclp, rule mgrStep.enqueue)

lemma fire_steps: "(mgrStep o1)\<^sup>*\<^sup>* (sdManager sd) (sdManager (fire fmt now d sd))"
proof -
  have "(mgrStep o1)\<^sup>*\<^sup>* m (supersedeStep p keep msg now m')" if "(mgrStep o1)\<^sup>*\<^sup>* m m'" for m m' p keep msg
    using rtranclp.rtrancl_into_rtrancl [OF that] mgrStep.supersede by blast
  then show ?thesis
    using Enqueue_step [of _ now "sdManager sd"]
    by (auto simp: fire_def skipped_def supersede_def Let_def split: sum.split prod.split)
qed

text \<open>A wake-up changes the job queue by the manager's own steps only, so what holds of its reachable states
  holds after it.\<close>

lemma fireDue_steps: "(mgrStep o1)\<^sup>*\<^sup>* (sdManager sd) (sdManager (fireDue fmt now sd))"
proof -
  have "(mgrStep o1)\<^sup>*\<^sup>* (sdManager sd) (sdManager (fold (fire fmt now) ds sd))" for ds sd
  proof (induction ds arbitrary: sd)
    case (Cons d ds)
    then show ?case using rtranclp_trans [OF fire_steps [of o1 sd fmt now d]] by simp
  qed simp
  from this [of "consume now sd" "dueFires now sd"] show ?thesis by (simp add: fireDue_def consume_def)
qed

lemma supersedes_doesAll:
  assumes "supersedes p j" and "pPaths p = []" and "pDestinationID p = pDestinationID (jParams j)"
  shows "doesAll TypeSync p (jParams j)"
  using assms by (auto simp: supersedes_def coversSources_def doesAll_def syncsPath_def list_all_iff)

section \<open>What a fire says\<close>

text \<open>A job with the params \<open>q\<close> does the work of a schedule: for a sync or a verify of a destination it
  reads at least the same paths of the same sources there, otherwise it has the same params.\<close>

definition sameWork :: "jobType \<Rightarrow> params \<Rightarrow> params \<Rightarrow> bool" where
  "sameWork t p q \<longleftrightarrow>
     (if (t = TypeSync \<or> t = TypeVerify) \<and> pDestinationID p \<noteq> 0
      then pDestinationID q = pDestinationID p \<and> (\<forall>src x. syncsPath p src x \<longrightarrow> syncsPath q src x)
      else q = canonicalParams p)"

lemma coversSources_iff:
  assumes "pPaths p = []" "list_all ValidTargetPath (pPaths q)"
  shows "(\<forall>src x. syncsPath p src x \<longrightarrow> syncsPath q src x)
    \<longleftrightarrow> pPaths q = [] \<and> coversSources (pSourceIDs q) (sortedIDs (pSourceIDs p))"
proof
  assume all: "\<forall>src x. syncsPath p src x \<longrightarrow> syncsPath q src x"
  obtain src where src: "pSourceIDs p = [] \<or> src \<in> set (pSourceIDs p)" by (cases "pSourceIDs p") auto
  have "\<not> (\<exists>r \<in> set (pPaths q). [] = r \<or> insidePath [] r)"
    using assms(2) by (auto simp: list_all_iff ValidTargetPath_def insidePath_def Cons_eq_append_conv)
  moreover have "syncsPath q src []" using all [THEN spec, of src, THEN spec, of "[]"] src assms(1) by (simp add: syncsPath_def)
  ultimately have q: "pPaths q = []" by (auto simp: syncsPath_def)
  have "pSourceIDs q = [] \<or> pSourceIDs p \<noteq> [] \<and> set (pSourceIDs p) \<subseteq> set (pSourceIDs q)"
  proof (cases "pSourceIDs p = []")
    case True
    then have "pSourceIDs q = [] \<or> i \<in> set (pSourceIDs q)" for i using all assms(1) q by (auto simp: syncsPath_def)
    then show ?thesis using ex_new_if_finite [OF infinite_UNIV_int finite_set] by metis
  qed (use all assms(1) q in \<open>auto simp: syncsPath_def\<close>)
  with q show "pPaths q = [] \<and> coversSources (pSourceIDs q) (sortedIDs (pSourceIDs p))"
    by (auto simp: coversSources_def list_all_iff sortedIDs_def)
next
  assume "pPaths q = [] \<and> coversSources (pSourceIDs q) (sortedIDs (pSourceIDs p))"
  then show "\<forall>src x. syncsPath p src x \<longrightarrow> syncsPath q src x"
    using assms(1) by (auto simp: coversSources_def list_all_iff sortedIDs_def syncsPath_def split: if_splits)
qed

lemma hasRunning_iff:
  assumes "storeOk st" "pPaths p = []"
  shows "hasRunning t p st \<longleftrightarrow> (\<exists>j \<in> set (stJobs st). jStatus j = StatusRunning \<and> \<not> jDryRun j \<and> jType j = t \<and> sameWork t p (jParams j))"
proof (cases "(t = TypeSync \<or> t = TypeVerify) \<and> pDestinationID p \<noteq> 0")
  case True
  have "jDestinationID j = Some (pDestinationID p) \<and> pPaths (jParams j) = [] \<and> coversSources (pSourceIDs (jParams j)) (sortedIDs (pSourceIDs p))
      \<longleftrightarrow> sameWork t p (jParams j)" if "j \<in> set (stJobs st)" for j
  proof -
    have "rowOk j" using js.ok_row [OF assms(1) that] .
    then have "list_all ValidTargetPath (pPaths (jParams j))" "jDestinationID j = Some (pDestinationID p) \<longleftrightarrow> pDestinationID (jParams j) = pDestinationID p"
      using True by (auto simp: rowOk_def nullInt_def)
    with coversSources_iff [OF assms(2)] True show ?thesis by (auto simp: sameWork_def)
  qed
  then show ?thesis using True by (auto simp: hasRunning_def hasRunningCovering_def list_ex_iff)
next
  case False
  then show ?thesis by (auto simp: hasRunning_def sameWork_def list_ex_iff)
qed

text \<open>Superseding leaves the job it supersedes for.\<close>

lemma supersede_answers:
  assumes "answers s k st"
  shows "\<exists>k'. answers s k' (snd (supersedeDeferredSyncs p (jID k) msg now st))"
proof -
  let ?is = "map jID (filter (supersedes p) (supersedeCandidates p (jID k) st))"
  let ?k = "fold (supersedeRow (jID k) msg now) ?is k"
  have rows: "stJobs (snd (supersedeDeferredSyncs p (jID k) msg now st)) = map (fold (supersedeRow (jID k) msg now) ?is) (stJobs st)"
    by (simp add: supersedeDeferredSyncs_def supersedeLoop_rows)
  have keep: "jStatus (fold (supersedeRow keep msg now) xs j) = jStatus j \<and> jType (fold (supersedeRow keep msg now) xs j) = jType j
      \<and> jDryRun (fold (supersedeRow keep msg now) xs j) = jDryRun j \<and> jParams (fold (supersedeRow keep msg now) xs j) = jParams j"
    if "jID j \<notin> set xs" for keep xs j
    using that by (induction xs arbitrary: j) (auto simp: supersedeRow_def Let_def)
  have "jID k \<notin> set ?is" by (auto simp: supersedeCandidates_def)
  from keep [OF this, of "jID k"] assms rows have "answers s ?k (snd (supersedeDeferredSyncs p (jID k) msg now st))"
    by (auto simp: answers_def)
  then show ?thesis ..
qed

definition scheduledSpec :: "schedule \<Rightarrow> spec" where
  "scheduledSpec sc = \<lparr>sType = scJobType sc, sTrigger = TriggerSchedule, sDryRun = False, sParams = scParams sc\<rparr>"

text \<open>Why a fire was skipped, as a fact of the job table.\<close>

fun skipReasonHolds :: "schedule \<Rightarrow> store \<Rightarrow> skipReason \<Rightarrow> bool" where
  "skipReasonHolds sc st SkipRunning \<longleftrightarrow> (\<exists>j \<in> set (stJobs st). jStatus j = StatusRunning \<and> \<not> jDryRun j
     \<and> jType j = scJobType sc \<and> sameWork (scJobType sc) (scParams sc) (jParams j))"
| "skipReasonHolds sc st SkipDeferred \<longleftrightarrow> (scJobType sc = TypeVerify \<or> scJobType sc = TypeRetention)
     \<and> (\<exists>j \<in> set (stJobs st). jStatus j = StatusQueued \<and> \<not> jDryRun j \<and> jType j = scJobType sc \<and> 0 < jDeferrals j
       \<and> pDestinationID (jParams j) = pDestinationID (scParams sc) \<and> pDestinationID (scParams sc) \<noteq> 0)"
| "skipReasonHolds sc st (SkipError e) \<longleftrightarrow> validateParams (scJobType sc) (scParams sc) False = Inl e"

lemma hasDeferred_iff:
  assumes "storeOk st" "dest \<noteq> 0"
  shows "hasDeferred t dest st \<longleftrightarrow> (\<exists>j \<in> set (stJobs st). jStatus j = StatusQueued \<and> \<not> jDryRun j \<and> jType j = t
    \<and> 0 < jDeferrals j \<and> pDestinationID (jParams j) = dest)"
proof -
  have "jDestinationID j = Some dest \<and> deferredCond j \<longleftrightarrow> 0 < jDeferrals j \<and> pDestinationID (jParams j) = dest" if "j \<in> set (stJobs st)" for j
    using js.ok_row [OF assms(1) that] assms(2) by (auto simp: rowOk_def nullInt_def deferredCond_def)
  then show ?thesis by (auto simp: hasDeferred_def list_ex_iff)
qed

lemma createJob_error: "createJob s now st = Inl e \<Longrightarrow> normalizeSpec s = Inl e"
  by (auto simp: createJob_def split: sum.splits option.splits prod.splits)

text \<open>A fire that queues its job.\<close>

lemma fire_queued:
  assumes "\<not> ((scJobType (dueSched d) = TypeVerify \<or> scJobType (dueSched d) = TypeRetention) \<and> pDestinationID (scParams (dueSched d)) \<noteq> 0
      \<and> hasDeferred (scJobType (dueSched d)) (pDestinationID (scParams (dueSched d))) (mStore (sdManager sd))
    \<or> hasRunning (scJobType (dueSched d)) (scParams (dueSched d)) (mStore (sdManager sd)))"
    "createJob (scheduledSpec (dueSched d)) now (mStore (sdManager sd)) = Inr (k, out, st1)"
  shows "mStore (sdManager (fire fmt now d sd)) = (if scJobType (dueSched d) = TypeSync \<and> pDestinationID (scParams (dueSched d)) \<noteq> 0
      then snd (supersedeDeferredSyncs (scParams (dueSched d)) (jID k) (''Superseded by the scheduled run of '' @ fmt (dueAt d)) now st1) else st1)"
    "LastSkip (scID (dueSched d)) (fire fmt now d sd) = None"
    "\<forall>s \<in> set (sdTable (fire fmt now d sd)). scID s = scID (dueSched d) \<longrightarrow> scLastRunAt s = Some now"
  using assms
  by (auto simp: fire_def Enqueue_def scheduledSpec_def supersede_def supersedeStep_def LastSkip_def MarkRun_def list_ex_iff Let_def
      split: sum.split prod.split)

section \<open>Properties\<close>

text \<open>C33: a schedule never fires twice for the same time.  Whatever reloads and wake-ups happen,
  on a wake-up each schedule fires at most once, for a time later than the one it fired for
  before, and afterwards its next run lies in the future.\<close>

theorem schedule_never_fires_twice:
  assumes "cronLaw parse" and "schedReach parse sd"
  shows "distinct (map (\<lambda>d. scID (dueSched d)) (dueFires now sd))
    \<and> (\<forall>d \<in> set (dueFires now sd). dueAt d \<le> now
         \<and> (\<forall>lf. sdLastFired sd (scID (dueSched d)) = Some lf \<longrightarrow> lf < dueAt d)
         \<and> sdLastFired (fireDue fmt now sd) (scID (dueSched d)) = Some (dueAt d))
    \<and> (\<forall>i t. NextRun i (fireDue fmt now sd) = Some t \<longrightarrow> now < t)"
proof -
  have inv: "schedInv parse sd" using schedReach_inv assms by blast
  have "dueAt d \<le> now \<and> (\<forall>lf. sdLastFired sd (scID (dueSched d)) = Some lf \<longrightarrow> lf < dueAt d)
      \<and> sdLastFired (fireDue fmt now sd) (scID (dueSched d)) = Some (dueAt d)" if d: "d \<in> set (dueFires now sd)" for d
  proof -
    obtain i e where ie: "(i, e) \<in> set (sdEntries sd)" "isDue now e" "d = \<lparr>dueSched = enSched e, dueAt = the (enNext e)\<rparr>"
      using d dueFires_mem by blast
    then obtain t where t: "enNext e = Some t" "t \<le> now" by (auto simp: isDue_def split: option.splits)
    have ok: "entryOk parse sd (i, e)" using inv ie(1) by (auto simp: schedInv_def)
    then show ?thesis
      using ie t consume_lastFired [OF inv ie(1), of now] by (auto simp: entryOk_def fireDue_def)
  qed
  moreover have "now < t" if next': "NextRun i (fireDue fmt now sd) = Some t" for i t
  proof -
    obtain e' where e': "entryOf i (fireDue fmt now sd) = Some e'" "enNext e' = Some t"
      using next' by (auto simp: NextRun_def split: option.splits)
    then have "(i, e') \<in> set (map (\<lambda>(i, e). (i, advance now e)) (sdEntries sd))"
      using map_of_SomeD by (fastforce simp: entryOf_def fireDue_def consume_def)
    then obtain e where e: "(i, e) \<in> set (sdEntries sd)" "e' = advance now e" by auto
    then obtain x where "parse x = Some (enSpec e)" using inv by (auto simp: schedInv_def entryOk_def)
    then show ?thesis using advance_next [OF assms(1)] e(2) e'(2) by blast
  qed
  ultimately show ?thesis using dueFires_distinct [OF inv] by blast
qed

definition exScheduler :: scheduler where
  "exScheduler = Reload exParse 1000 \<lparr>sdManager = exManager, sdTable = [exSchedule], sdEntries = [],
     sdLastFired = (\<lambda>_. None), sdSkips = (\<lambda>_. None)\<rparr>"

lemma exScheduler_reach: "schedReach exParse exScheduler"
  unfolding exScheduler_def by (intro schedReach.reload schedReach.init) simp

lemma exParse_law: "cronLaw exParse"
  by (auto simp: cronLaw_def exParse_def hour_ns_def)

lemma ex_due: "\<lparr>dueSched = exSchedule, dueAt = 1000 + hour_ns\<rparr> \<in> set (dueFires (1000 + hour_ns) exScheduler)"
  by code_simp

theorem schedule_never_fires_twice_witness:
  "sdLastFired (fireDue (\<lambda>_. []) (1000 + hour_ns) exScheduler) 1 = Some (1000 + hour_ns)"
  using schedule_never_fires_twice [OF exParse_law exScheduler_reach, of "1000 + hour_ns" "\<lambda>_. []"] ex_due
  by (fastforce simp: exSchedule_def)

text \<open>C34: what a fire does with a due schedule of whole sources.  Without a skip note its job is in
  the queue: a queued job of its type does all it asks for, no job that does its work was running, no
  verify or retention of its destination was deferred, and the schedule's last run is now.  With a note
  of its time nothing else changed, and the reason is true: such a job runs, such a job is deferred, or
  the params are refused.\<close>

theorem fire_queues_or_explains:
  assumes "storeOk (mStore (sdManager sd))" and "pPaths (scParams (dueSched d)) = []"
  shows "case LastSkip (scID (dueSched d)) (fire fmt now d sd) of
      None \<Rightarrow> (\<exists>k. answers (scheduledSpec (dueSched d)) k (mStore (sdManager (fire fmt now d sd))))
        \<and> \<not> skipReasonHolds (dueSched d) (mStore (sdManager sd)) SkipRunning
        \<and> \<not> skipReasonHolds (dueSched d) (mStore (sdManager sd)) SkipDeferred
        \<and> (\<forall>s \<in> set (sdTable (fire fmt now d sd)). scID s = scID (dueSched d) \<longrightarrow> scLastRunAt s = Some now)
    | Some (t, why) \<Rightarrow> t = dueAt d \<and> sdManager (fire fmt now d sd) = sdManager sd \<and> sdTable (fire fmt now d sd) = sdTable sd
        \<and> skipReasonHolds (dueSched d) (mStore (sdManager sd)) why"
proof -
  let ?sc = "dueSched d" let ?st = "mStore (sdManager sd)"
  let ?def = "(scJobType ?sc = TypeVerify \<or> scJobType ?sc = TypeRetention) \<and> pDestinationID (scParams ?sc) \<noteq> 0
    \<and> hasDeferred (scJobType ?sc) (pDestinationID (scParams ?sc)) ?st"
  have def: "?def \<longleftrightarrow> skipReasonHolds ?sc ?st SkipDeferred" using hasDeferred_iff [OF assms(1)] by auto
  have run: "hasRunning (scJobType ?sc) (scParams ?sc) ?st \<longleftrightarrow> skipReasonHolds ?sc ?st SkipRunning"
    using hasRunning_iff [OF assms] by simp
  show ?thesis
  proof (cases "?def \<or> hasRunning (scJobType ?sc) (scParams ?sc) ?st")
    case True
    then show ?thesis using def run by (auto simp: fire_def skipped_def LastSkip_def Let_def simp del: skipReasonHolds.simps)
  next
    case False
    then have none: "\<not> skipReasonHolds ?sc ?st SkipRunning" "\<not> skipReasonHolds ?sc ?st SkipDeferred" using def run by blast+
    show ?thesis
    proof (cases "createJob (scheduledSpec ?sc) now ?st")
      case (Inl e)
      have "validateParams (scJobType ?sc) (scParams ?sc) False = Inl e"
        using createJob_error [OF Inl] by (auto simp: normalizeSpec_def scheduledSpec_def Let_def split: sum.splits if_splits)
      moreover have "fire fmt now d sd = skipped d (SkipError e) sd"
        using False Inl by (auto simp: fire_def Enqueue_def scheduledSpec_def Let_def)
      ultimately show ?thesis by (simp add: skipped_def LastSkip_def)
    next
      case (Inr x)
      obtain k out st1 where x: "x = (k, out, st1)" by (cases x)
      have k: "answers (scheduledSpec ?sc) k st1" using createJob_good [OF assms(1) Inr [unfolded x]] by blast
      note queued = fire_queued [OF _ Inr [unfolded x], of fmt]
      have "\<exists>k. answers (scheduledSpec ?sc) k (mStore (sdManager (fire fmt now d sd)))"
        using queued(1) False k supersede_answers [OF k] by auto
      moreover note queued(2,3) [OF False]
      ultimately show ?thesis using none by simp
    qed
  qed
qed

lemma ex_fire:
  "storeOk (mStore (sdManager exScheduler))" "pPaths (scParams exSchedule) = []"
  "LastSkip 1 (fire (\<lambda>_. []) (1000 + hour_ns) \<lparr>dueSched = exSchedule, dueAt = 1000 + hour_ns\<rparr> exScheduler) = None"
  "scID exSchedule = 1"
  by code_simp+

theorem fire_queues_or_explains_witness:
  "\<exists>k. answers (scheduledSpec exSchedule) k
     (mStore (sdManager (fire (\<lambda>_. []) (1000 + hour_ns) \<lparr>dueSched = exSchedule, dueAt = 1000 + hour_ns\<rparr> exScheduler)))"
  using fire_queues_or_explains [of exScheduler "\<lparr>dueSched = exSchedule, dueAt = 1000 + hour_ns\<rparr>" "\<lambda>_. []" "1000 + hour_ns"] ex_fire
  by simp

text \<open>C35: a scheduled sync only ends deferred syncs whose work it does: the job it queued does
  everything each superseded sync would have done, on the same destination, with at least its
  permission to apply held changes.\<close>

theorem superseded_work_is_done:
  assumes "storeOk st" and "pPaths p = []"
    and "createJob \<lparr>sType = TypeSync, sTrigger = TriggerSchedule, sDryRun = False, sParams = p\<rparr> now st = Inr (k, out, st1)"
    and "j \<in> set (supersedeCandidates p (jID k) st1)" and "supersedes p j"
  shows "k \<in> set (stJobs st1) \<and> jStatus k = StatusQueued \<and> jDeferrals k = 0
    \<and> doesAll TypeSync (jParams k) (jParams j)"
proof -
  have k: "storeOk st1" "answers \<lparr>sType = TypeSync, sTrigger = TriggerSchedule, sDryRun = False, sParams = p\<rparr> k st1"
    using createJob_good [OF assms(1,3)] by blast+
  have j: "j \<in> set (stJobs st1)" "jDestinationID j = Some (pDestinationID p)"
    using assms(4) by (auto simp: supersedeCandidates_def)
  have "rowOk j" using js.ok_row [OF k(1) j(1)] .
  then have "pDestinationID p = pDestinationID (jParams j)"
    using j(2) by (auto simp: rowOk_def nullInt_def split: if_splits)
  then have "doesAll TypeSync p (jParams j)" using supersedes_doesAll assms(2,5) by blast
  then show ?thesis using k(2) doesAll_trans by (auto simp: answers_def)
qed

definition exFull :: params where
  "exFull = noParams\<lparr>pDestinationID := 1\<rparr>"

lemma ex_supersedes:
  "createJob \<lparr>sType = TypeSync, sTrigger = TriggerSchedule, sDryRun = False, sParams = exFull\<rparr> 600 exDeferred
     = Inr (newJob 3 \<lparr>sType = TypeSync, sTrigger = TriggerSchedule, sDryRun = False, sParams = exFull\<rparr> 600, outcomeCreated,
            exDeferred\<lparr>stJobs := stJobs exDeferred
              @ [newJob 3 \<lparr>sType = TypeSync, sTrigger = TriggerSchedule, sDryRun = False, sParams = exFull\<rparr> 600]\<rparr>)"
  by code_simp

lemma ex_supersedes_cand:
  "hd (stJobs exDeferred) \<in> set (supersedeCandidates exFull
     (jID (newJob 3 \<lparr>sType = TypeSync, sTrigger = TriggerSchedule, sDryRun = False, sParams = exFull\<rparr> 600))
     (exDeferred\<lparr>stJobs := stJobs exDeferred
              @ [newJob 3 \<lparr>sType = TypeSync, sTrigger = TriggerSchedule, sDryRun = False, sParams = exFull\<rparr> 600]\<rparr>))"
  "supersedes exFull (hd (stJobs exDeferred))" "pPaths exFull = []"
  by code_simp+

theorem superseded_work_is_done_witness:
  "doesAll TypeSync (jParams (newJob 3 \<lparr>sType = TypeSync, sTrigger = TriggerSchedule, sDryRun = False, sParams = exFull\<rparr> 600))
     (jParams (hd (stJobs exDeferred)))"
  using superseded_work_is_done [OF exDeferred_ok ex_supersedes_cand(3) ex_supersedes ex_supersedes_cand(1,2)] by blast

end
