(* ===== verification/ResticTags.thy ===== *)
theory ResticTags
  imports Prelude "HOL-Library.Multiset"
begin

text \<open>
  Snapshot tags (internal/engines/restic/tags.go): the tags a snapshot gets and the parser that
  decides to which group of a destination row a snapshot belongs.  The parser is what the
  retention job trusts: a snapshot that it does not accept is never forgotten.

  The two maps of the parser (\<open>seen\<close>, \<open>values\<close>) are functions from prefixes with Go's zero
  vals as the value of an absent key.  A kind is a string, as in the code.
\<close>

section \<open>Vocabulary\<close>

definition VersionMedia :: string where "VersionMedia = ''media''"
definition VersionPlexDB :: string where "VersionPlexDB = ''plexdb''"
definition VersionArr :: string where "VersionArr = ''arr''"
definition VersionManifest :: string where "VersionManifest = ''manifest''"

definition TagBunkarr :: string where "TagBunkarr = ''bunkarr''"
definition TagDestPrefix :: string where "TagDestPrefix = ''bunkarr-dest:''"
definition TagKindPrefix :: string where "TagKindPrefix = ''bunkarr-kind:''"
definition TagJobPrefix :: string where "TagJobPrefix = ''bunkarr-job:''"
definition TagSourcePrefix :: string where "TagSourcePrefix = ''bunkarr-source:''"
definition TagBatchPrefix :: string where "TagBatchPrefix = ''bunkarr-batch:''"
definition TagIntegrationPfx :: string where "TagIntegrationPfx = ''bunkarr-integration:''"
definition TagVersionPrefix :: string where "TagVersionPrefix = ''bunkarr-version:''"

lemmas tag_consts = TagBunkarr_def TagDestPrefix_def TagKindPrefix_def TagJobPrefix_def
  TagSourcePrefix_def TagBatchPrefix_def TagIntegrationPfx_def TagVersionPrefix_def

lemmas kind_consts = VersionMedia_def VersionPlexDB_def VersionArr_def VersionManifest_def

definition hexDigit :: "char \<Rightarrow> bool" where
  "hexDigit c \<longleftrightarrow> isDigit c \<or> 97 \<le> (of_char c :: nat) \<and> (of_char c :: nat) \<le> 102"

definition versionChar :: "char \<Rightarrow> bool" where
  "versionChar c \<longleftrightarrow> isDigit c \<or> 65 \<le> (of_char c :: nat) \<and> (of_char c :: nat) \<le> 90
     \<or> 97 \<le> (of_char c :: nat) \<and> (of_char c :: nat) \<le> 122 \<or> c \<in> set ''._:-''"

text \<open>\<open>engineTagRe\<close> and \<open>versionNameRe\<close>, both anchored at the two ends.\<close>

definition ValidEngineTag :: "string \<Rightarrow> bool" where
  "ValidEngineTag t \<longleftrightarrow> length t = 32 \<and> list_all hexDigit t"

definition validVersionName :: "string \<Rightarrow> bool" where
  "validVersionName v \<longleftrightarrow> 1 \<le> length v \<and> length v \<le> 200 \<and> list_all versionChar v"

definition validKind :: "string \<Rightarrow> bool" where
  "validKind k \<longleftrightarrow> k \<in> {VersionMedia, VersionPlexDB, VersionArr, VersionManifest}"

definition DestTag :: "string \<Rightarrow> string" where "DestTag engineTag = TagDestPrefix @ engineTag"
definition KindTag :: "string \<Rightarrow> string" where "KindTag kind = TagKindPrefix @ kind"
definition JobTag :: "ident \<Rightarrow> string" where "JobTag jobID = TagJobPrefix @ formatInt jobID"
definition BatchTag :: "int \<Rightarrow> string" where "BatchTag batch = TagBatchPrefix @ formatInt batch"
definition SourceTag :: "ident \<Rightarrow> string" where "SourceTag i = TagSourcePrefix @ formatInt i"
definition IntegrationTag :: "ident \<Rightarrow> string" where
  "IntegrationTag i = TagIntegrationPfx @ formatInt i"
definition VersionTag :: "string \<Rightarrow> string" where "VersionTag name = TagVersionPrefix @ name"

section \<open>Writing the tags\<close>

record tagInput =
  tiEngineTag :: string
  tiKind :: string
  tiJobID :: ident
  tiSourceID :: ident
  tiBatch :: int
  tiIntegrationID :: ident
  tiVersion :: string

datatype tagError = BadEngineTag string | UnknownKind string | BadJobID ident
  | NeedsSource ident int | NeedsIntegration string | BadVersion string

definition Tags :: "tagInput \<Rightarrow> tagError + string list" where
  "Tags x =
     (let tags = [TagBunkarr, DestTag (tiEngineTag x), KindTag (tiKind x), JobTag (tiJobID x)];
          versioned = (\<lambda>ts. if \<not> validVersionName (tiVersion x) then Inl (BadVersion (tiVersion x))
                            else Inr (ts @ [VersionTag (tiVersion x)]))
      in if \<not> ValidEngineTag (tiEngineTag x) then Inl (BadEngineTag (tiEngineTag x))
         else if \<not> validKind (tiKind x) then Inl (UnknownKind (tiKind x))
         else if tiJobID x \<le> 0 then Inl (BadJobID (tiJobID x))
         else if tiKind x = VersionMedia
         then (if tiSourceID x \<le> 0 \<or> tiBatch x \<le> 0 then Inl (NeedsSource (tiSourceID x) (tiBatch x))
               else Inr (tags @ [SourceTag (tiSourceID x), BatchTag (tiBatch x)]))
         else if tiKind x = VersionPlexDB \<or> tiKind x = VersionArr
         then (if tiIntegrationID x \<le> 0 then Inl (NeedsIntegration (tiKind x))
               else versioned (tags @ [IntegrationTag (tiIntegrationID x)]))
         else versioned tags)"

section \<open>Parsing them\<close>

record tagGroup =
  gKind :: string
  gSourceID :: ident
  gIntegrationID :: ident

record tagInfo =
  tGroup :: tagGroup
  tJobID :: ident
  tBatch :: int
  tVersion :: string

text \<open>A decimal id without a sign or leading zeros that fits an int64.\<close>

definition positive :: "string \<Rightarrow> ident option" where
  "positive s =
     (if s = [] \<or> hd s \<in> set ''0+-'' then None
      else (case parseDec s of
              None \<Rightarrow> None
            | Some n \<Rightarrow> if int n \<le> max_int64 \<and> n > 0 then Some (int n) else None))"

definition bunkarrTag :: "string \<Rightarrow> bool" where
  "bunkarrTag t \<longleftrightarrow> t = TagBunkarr \<or> take 8 t = TagBunkarr @ ''-''"

text \<open>The part up to and including the first colon and the part after it; without a colon the
  whole tag is the prefix.\<close>

definition splitTag :: "string \<Rightarrow> string \<times> string" where
  "splitTag t =
     (if CHR '':'' \<in> set t
      then (takeWhile (\<lambda>c. c \<noteq> CHR '':'') t @ '':'', tl (dropWhile (\<lambda>c. c \<noteq> CHR '':'') t))
      else (t, []))"

definition tagPrefixes :: "string list" where
  "tagPrefixes = [TagBunkarr, TagDestPrefix, TagKindPrefix, TagJobPrefix, TagSourcePrefix,
     TagBatchPrefix, TagIntegrationPfx, TagVersionPrefix]"

fun scanTags ::
    "(string \<Rightarrow> nat) \<Rightarrow> (string \<Rightarrow> string) \<Rightarrow> string list \<Rightarrow> ((string \<Rightarrow> nat) \<times> (string \<Rightarrow> string)) option"
where
  "scanTags seen vals [] = Some (seen, vals)"
| "scanTags seen vals (t # ts) =
     (if \<not> bunkarrTag t then scanTags seen vals ts
      else (case splitTag t of
              (prefix, value) \<Rightarrow>
                if prefix \<notin> set tagPrefixes then None
                else scanTags (seen(prefix := seen prefix + 1)) (vals(prefix := value)) ts))"

text \<open>The tags a kind has besides the first four.\<close>

definition wantTags :: "string \<Rightarrow> string list" where
  "wantTags kind =
     (if kind = VersionMedia then [TagSourcePrefix, TagBatchPrefix]
      else if kind = VersionPlexDB \<or> kind = VersionArr then [TagIntegrationPfx, TagVersionPrefix]
      else if kind = VersionManifest then [TagVersionPrefix]
      else [])"

definition extraPrefixes :: "string list" where
  "extraPrefixes = [TagSourcePrefix, TagBatchPrefix, TagIntegrationPfx, TagVersionPrefix]"

text \<open>The ids and the name of the tags a kind wants; the fields of the others stay zero.\<close>

definition mediaPart :: "(string \<Rightarrow> string) \<Rightarrow> string list \<Rightarrow> (ident \<times> int) option" where
  "mediaPart vals want =
     (if TagSourcePrefix \<notin> set want then Some (0, 0)
      else (case positive (vals TagSourcePrefix) of
              None \<Rightarrow> None
            | Some s \<Rightarrow> (case positive (vals TagBatchPrefix) of
                           None \<Rightarrow> None
                         | Some b \<Rightarrow> if b > 1073741824 then None else Some (s, b))))"

definition integrationPart :: "(string \<Rightarrow> string) \<Rightarrow> string list \<Rightarrow> ident option" where
  "integrationPart vals want =
     (if TagIntegrationPfx \<notin> set want then Some 0 else positive (vals TagIntegrationPfx))"

definition versionPart :: "(string \<Rightarrow> string) \<Rightarrow> string list \<Rightarrow> string option" where
  "versionPart vals want =
     (if TagVersionPrefix \<notin> set want then Some []
      else if validVersionName (vals TagVersionPrefix) then Some (vals TagVersionPrefix)
      else None)"

definition ParseTags :: "string list \<Rightarrow> string \<Rightarrow> tagInfo option" where
  "ParseTags tags engineTag =
     (if \<not> ValidEngineTag engineTag then None
      else (case scanTags (\<lambda>_. 0) (\<lambda>_. []) tags of
        None \<Rightarrow> None
      | Some (seen, vals) \<Rightarrow>
          if \<exists>p \<in> set tagPrefixes. seen p > 1 then None
          else if seen TagBunkarr \<noteq> 1 \<or> vals TagDestPrefix \<noteq> engineTag
                  \<or> seen TagKindPrefix \<noteq> 1 \<or> seen TagJobPrefix \<noteq> 1 then None
          else if \<not> validKind (vals TagKindPrefix) then None
          else (case positive (vals TagJobPrefix) of
            None \<Rightarrow> None
          | Some job \<Rightarrow>
              let kind = vals TagKindPrefix; want = wantTags kind in
              if \<exists>p \<in> set extraPrefixes. (seen p = 1) \<noteq> (p \<in> set want) then None
              else (case mediaPart vals want of
                None \<Rightarrow> None
              | Some (source, batch) \<Rightarrow>
                  (case integrationPart vals want of
                    None \<Rightarrow> None
                  | Some integration \<Rightarrow>
                      (case versionPart vals want of
                        None \<Rightarrow> None
                      | Some version \<Rightarrow>
                          Some \<lparr>tGroup = \<lparr>gKind = kind, gSourceID = source, gIntegrationID = integration\<rparr>,
                                tJobID = job, tBatch = batch, tVersion = version\<rparr>))))))"

definition ParseGroup :: "string list \<Rightarrow> string \<Rightarrow> tagGroup option" where
  "ParseGroup tags engineTag = map_option tGroup (ParseTags tags engineTag)"

section \<open>Decimal ids\<close>

lemma formatNat_not_Nil: "formatNat n \<noteq> []"
  by (simp add: formatNat.simps [of n])

lemma hd_formatNat: "0 < n \<Longrightarrow> hd (formatNat n) \<noteq> CHR ''0''"
proof (induction n rule: formatNat.induct)
  case (1 n)
  show ?case
  proof (cases "n < 10")
    case True
    have "char_of (48 + n) \<noteq> CHR ''0''"
    proof
      assume "char_of (48 + n) = CHR ''0''"
      then have "(of_char (char_of (48 + n)) :: nat) = of_char (CHR ''0'')" by simp
      with True 1(2) show False by (simp add: of_char_mod_256)
    qed
    with True show ?thesis by (simp add: formatNat.simps [of n])
  next
    case False
    then have "hd (formatNat (n div 10)) \<noteq> CHR ''0''" using 1(1) by simp
    with False show ?thesis by (simp add: formatNat.simps [of n] formatNat_not_Nil)
  qed
qed

lemma digit_char: "isDigit c \<Longrightarrow> char_of (48 + (of_char c - 48) :: nat) = c"
  by (simp add: isDigit_def)

lemma digit_less: "isDigit c \<Longrightarrow> of_char c - 48 < (10 :: nat)"
  unfolding isDigit_def by linarith

lemma decValue_pos:
  "s \<noteq> [] \<Longrightarrow> list_all isDigit s \<Longrightarrow> hd s \<noteq> CHR ''0'' \<Longrightarrow> 0 < decValue s"
proof (induction s rule: rev_induct)
  case (snoc c s)
  show ?case
  proof (cases "s = []")
    case True
    have "of_char c \<noteq> (48 :: nat)"
    proof
      assume "of_char c = (48 :: nat)"
      then have "(of_char c :: nat) = of_char (CHR ''0'')" by simp
      then have "c = CHR ''0''" by (simp only: of_char_eq_iff)
      with snoc.prems True show False by simp
    qed
    with snoc.prems True show ?thesis by (simp add: decValue_def isDigit_def)
  next
    case False
    with snoc show ?thesis by (simp add: decValue_snoc)
  qed
qed simp

lemma formatNat_decValue:
  "s \<noteq> [] \<Longrightarrow> list_all isDigit s \<Longrightarrow> hd s \<noteq> CHR ''0'' \<Longrightarrow> formatNat (decValue s) = s"
proof (induction s rule: rev_induct)
  case (snoc c s)
  have c: "isDigit c" using snoc.prems by simp
  show ?case
  proof (cases "s = []")
    case True
    with c show ?thesis by (simp add: decValue_def formatNat.simps digit_char digit_less)
  next
    case False
    with snoc have s: "formatNat (decValue s) = s" and p: "0 < decValue s"
      by (simp_all add: decValue_pos)
    have d: "(10 * decValue s + (of_char c - 48)) div 10 = decValue s"
      and m: "(10 * decValue s + (of_char c - 48)) mod 10 = of_char c - 48"
      using digit_less [OF c] by simp_all
    have "\<not> 10 * decValue s + (of_char c - 48) < 10" using p by simp
    with s d m c show ?thesis
      by (simp add: decValue_snoc formatNat.simps [of "10 * decValue s + (of_char c - 48)"] digit_char)
  qed
qed simp

lemma parseDec_formatNat: "parseDec (formatNat n) = Some n"
  by (simp add: parseDec_def formatNat_digits formatNat_not_Nil decValue_formatNat)

lemma digit_not_sign: "isDigit c \<Longrightarrow> c \<noteq> CHR ''+'' \<and> c \<noteq> CHR ''-''"
  by (auto simp: isDigit_def)

lemma positive_iff: "positive s = Some n \<longleftrightarrow> s = formatInt n \<and> 0 < n \<and> n \<le> max_int64"
proof
  assume "positive s = Some n"
  then have s: "s \<noteq> []" "hd s \<noteq> CHR ''0''" "list_all isDigit s"
    and n: "n = int (decValue s)" "0 < n" "n \<le> max_int64"
    by (auto simp: positive_def parseDec_def split: if_splits)
  then show "s = formatInt n \<and> 0 < n \<and> n \<le> max_int64"
    by (simp add: formatInt_def formatNat_decValue)
next
  assume a: "s = formatInt n \<and> 0 < n \<and> n \<le> max_int64"
  then have s: "s = formatNat (nat n)" by (simp add: formatInt_def)
  have "hd s \<notin> set ''0+-''"
    using a hd_formatNat [of "nat n"] digit_not_sign [of "hd s"] formatNat_digits [of "nat n"]
      formatNat_not_Nil [of "nat n"]
    by (auto simp: s list_all_iff)
  then show "positive s = Some n"
    using a parseDec_formatNat [of "nat n"] formatNat_not_Nil [of "nat n"]
    by (simp add: positive_def s [symmetric])
qed

lemma positive_formatInt: "0 < n \<Longrightarrow> n \<le> max_int64 \<Longrightarrow> positive (formatInt n) = Some n"
  by (simp add: positive_iff)

section \<open>Splitting a tag\<close>

abbreviation prefixOf :: "string \<Rightarrow> string" where
  "prefixOf t \<equiv> fst (splitTag t)"

lemma splitTag_append: "prefixOf t @ snd (splitTag t) = t"
proof (cases "CHR '':'' \<in> set t")
  case True
  then have "dropWhile (\<lambda>c. c \<noteq> CHR '':'') t \<noteq> []" by (simp add: dropWhile_eq_Nil_conv)
  then have "'':'' @ tl (dropWhile (\<lambda>c. c \<noteq> CHR '':'') t) = dropWhile (\<lambda>c. c \<noteq> CHR '':'') t"
    using hd_dropWhile [of "\<lambda>c. c \<noteq> CHR '':''" t] by (metis (full_types) append_Cons append_Nil list.collapse)
  with True show ?thesis by (simp add: splitTag_def del: append_Cons)
next
  case False
  then show ?thesis by (simp add: splitTag_def)
qed

lemma splitTag_inject: "splitTag a = splitTag b \<longleftrightarrow> a = b"
  by (metis splitTag_append)

lemma splitTag_eq: "splitTag t = (p, v) \<Longrightarrow> t = p @ v"
  using splitTag_append [of t] by simp

lemma splitTag_colon:
  "CHR '':'' \<notin> set p \<Longrightarrow> splitTag (p @ CHR '':'' # v) = (p @ '':'', v)"
  by (induction p) (auto simp: splitTag_def)

lemma splitTag_bunkarr: "splitTag TagBunkarr = (TagBunkarr, [])"
  by (simp add: splitTag_def tag_consts)

lemma splitTag_no_value: "splitTag t = (TagBunkarr, v) \<Longrightarrow> v = []"
  by (auto simp: splitTag_def tag_consts split: if_splits)

lemma splitTag_prefix:
  "p \<in> set tagPrefixes \<Longrightarrow> p \<noteq> TagBunkarr \<Longrightarrow> splitTag (p @ v) = (p, v)"
  using splitTag_colon [of "butlast p" v] by (auto simp: tagPrefixes_def tag_consts)

lemma bunkarrTag_prefix: "p \<in> set tagPrefixes \<Longrightarrow> p \<noteq> TagBunkarr \<Longrightarrow> bunkarrTag (p @ v)"
  by (auto simp: tagPrefixes_def tag_consts bunkarrTag_def)

section \<open>What a scan collects\<close>

definition bunkarrTags :: "string list \<Rightarrow> string list" where
  "bunkarrTags ts = filter bunkarrTag ts"

lemma scanTags_eq:
  "scanTags seen vals ts =
     (if (\<forall>t \<in> set (bunkarrTags ts). prefixOf t \<in> set tagPrefixes)
      then Some (\<lambda>p. seen p + count_list (map prefixOf (bunkarrTags ts)) p,
                 \<lambda>p. (case map_of (rev (map splitTag (bunkarrTags ts))) p of None \<Rightarrow> vals p | Some v \<Rightarrow> v))
      else None)"
proof (induction seen vals ts rule: scanTags.induct)
  case (1 seen vals)
  then show ?case by (simp add: bunkarrTags_def)
next
  case (2 seen vals t ts)
  obtain p v where pv: "splitTag t = (p, v)" by (cases "splitTag t")
  show ?case
  proof (cases "bunkarrTag t \<and> p \<in> set tagPrefixes")
    case True
    with pv have "scanTags seen vals (t # ts) = scanTags (seen(p := seen p + 1)) (vals(p := v)) ts"
      by simp
    also note 2(2) [OF _ pv [symmetric], unfolded not_not]
    finally show ?thesis
      using True pv by (auto simp: bunkarrTags_def map_add_def intro!: ext split: option.splits)
  next
    case False
    with 2(1) pv show ?thesis by (auto simp: bunkarrTags_def)
  qed
qed

lemma count_list_mset: "count_list xs x = count (mset xs) x"
  by (induction xs) auto

lemma distinct_count_list: "distinct xs \<longleftrightarrow> (\<forall>x. count_list xs x \<le> 1)"
proof -
  have "count_list xs x \<le> 1 \<longleftrightarrow> count_list xs x = (if x \<in> set xs then 1 else 0)" for x
    using count_list_0_iff [of xs x] by (cases "count_list xs x") auto
  then show ?thesis by (simp only: distinct_count_atmost_1 count_list_mset)
qed

text \<open>The two tables of a scan, as functions of the Bunkarr tags alone.\<close>

definition seenIn :: "string list \<Rightarrow> string \<Rightarrow> nat" where
  "seenIn bs = count_list (map prefixOf bs)"

definition valueIn :: "string list \<Rightarrow> string \<Rightarrow> string" where
  "valueIn bs p = (case map_of (rev (map splitTag bs)) p of None \<Rightarrow> [] | Some v \<Rightarrow> v)"

definition prefixesOk :: "string list \<Rightarrow> bool" where
  "prefixesOk bs \<longleftrightarrow> distinct (map prefixOf bs) \<and> prefixOf ` set bs \<subseteq> set tagPrefixes"

lemma prefixesOk_iff:
  "prefixesOk bs \<longleftrightarrow> (\<forall>t \<in> set bs. prefixOf t \<in> set tagPrefixes)
     \<and> \<not> (\<exists>p \<in> set tagPrefixes. seenIn bs p > 1)"
proof -
  have "count_list (map prefixOf bs) p \<le> 1"
    if "prefixOf ` set bs \<subseteq> set tagPrefixes" "\<forall>p \<in> set tagPrefixes. \<not> seenIn bs p > 1" for p
    using that count_list_0_iff [of "map prefixOf bs" p] by (cases "p \<in> set tagPrefixes") (auto simp: seenIn_def)
  then show ?thesis
    by (auto simp: prefixesOk_def distinct_count_list seenIn_def not_less)
qed

lemma scan_bunkarr:
  "scanTags (\<lambda>_. 0) (\<lambda>_. []) us =
     (if (\<forall>t \<in> set (bunkarrTags us). prefixOf t \<in> set tagPrefixes)
      then Some (seenIn (bunkarrTags us), valueIn (bunkarrTags us)) else None)"
  by (simp add: scanTags_eq seenIn_def [abs_def] valueIn_def [abs_def])

lemma valueIn_eq:
  "prefixesOk bs \<Longrightarrow> t \<in> set bs \<Longrightarrow> valueIn bs (prefixOf t) = snd (splitTag t)"
proof -
  assume "prefixesOk bs" "t \<in> set bs"
  then have "map_of (rev (map splitTag bs)) (prefixOf t) = Some (snd (splitTag t))"
    by (intro map_of_is_SomeI) (auto simp: prefixesOk_def rev_map [symmetric] comp_def)
  then show ?thesis by (simp add: valueIn_def)
qed

lemma seenIn_le: "prefixesOk bs \<Longrightarrow> seenIn bs p \<le> 1"
  by (simp add: prefixesOk_def distinct_count_list seenIn_def)

lemma seenIn_1: "prefixesOk bs \<Longrightarrow> seenIn bs p = 1 \<longleftrightarrow> p \<in> prefixOf ` set bs"
  using seenIn_le [of bs p] count_list_0_iff [of "map prefixOf bs" p] by (auto simp: seenIn_def le_Suc_eq)

lemma mem_prefixesOk:
  assumes "prefixesOk bs"
  shows "t \<in> set bs \<longleftrightarrow> seenIn bs (prefixOf t) = 1 \<and> valueIn bs (prefixOf t) = snd (splitTag t)"
proof
  assume "t \<in> set bs"
  with assms show "seenIn bs (prefixOf t) = 1 \<and> valueIn bs (prefixOf t) = snd (splitTag t)"
    using seenIn_1 [OF assms, of "prefixOf t"] by (simp add: valueIn_eq)
next
  assume a: "seenIn bs (prefixOf t) = 1 \<and> valueIn bs (prefixOf t) = snd (splitTag t)"
  with seenIn_1 [OF assms, of "prefixOf t"] obtain u where u: "u \<in> set bs" "prefixOf u = prefixOf t"
    by (auto simp del: One_nat_def)
  with a assms valueIn_eq [of bs u] have "splitTag u = splitTag t" by (simp add: prod_eq_iff)
  with u show "t \<in> set bs" by (simp add: splitTag_inject)
qed

text \<open>The parser reads the Bunkarr tags as a bag: order and foreign tags do not matter.\<close>

lemma ParseTags_None: "\<not> prefixesOk (bunkarrTags us) \<Longrightarrow> ParseTags us e = None"
  unfolding prefixesOk_iff ParseTags_def scan_bunkarr by auto

lemma ParseTags_mset:
  assumes "mset (bunkarrTags us) = mset (bunkarrTags ws)"
  shows "ParseTags us e = ParseTags ws e"
proof (cases "prefixesOk (bunkarrTags us)")
  case True
  let ?u = "bunkarrTags us" and ?w = "bunkarrTags ws"
  have s: "set ?u = set ?w" using assms by (rule mset_eq_setD)
  have n: "seenIn ?u = seenIn ?w" using assms by (simp add: seenIn_def count_list_mset fun_eq_iff)
  have ok: "prefixesOk ?w" using True s n by (simp add: prefixesOk_iff)
  have "map_of (rev (map splitTag ?u)) = map_of (rev (map splitTag ?w))"
    using True ok s by (subst map_of_inject_set) (simp_all add: prefixesOk_def rev_map [symmetric] comp_def)
  then have "valueIn ?u = valueIn ?w" by (simp add: valueIn_def [abs_def])
  with n s show ?thesis by (simp add: ParseTags_def scan_bunkarr)
next
  case False
  have "prefixesOk (bunkarrTags ws) \<longleftrightarrow> prefixesOk (bunkarrTags us)"
    using mset_eq_setD [OF assms] assms by (simp add: prefixesOk_iff seenIn_def count_list_mset)
  with False show ?thesis by (simp add: ParseTags_None)
qed

section \<open>The parser accepts exactly what is written\<close>

text \<open>The tags a parsed group was made from, and the range of what can be parsed: ids of an
  int64, batches up to $2^{30}$, and nothing in the fields of other kinds.\<close>

definition tagInputOf :: "string \<Rightarrow> tagInfo \<Rightarrow> tagInput" where
  "tagInputOf e t =
     \<lparr>tiEngineTag = e, tiKind = gKind (tGroup t), tiJobID = tJobID t, tiSourceID = gSourceID (tGroup t),
      tiBatch = tBatch t, tiIntegrationID = gIntegrationID (tGroup t), tiVersion = tVersion t\<rparr>"

definition tagInfoOk :: "tagInfo \<Rightarrow> bool" where
  "tagInfoOk t \<longleftrightarrow> tJobID t \<le> max_int64 \<and> tBatch t \<le> 1073741824
     \<and> gSourceID (tGroup t) \<le> max_int64 \<and> gIntegrationID (tGroup t) \<le> max_int64
     \<and> (if gKind (tGroup t) = VersionMedia then tVersion t = []
        else gSourceID (tGroup t) = 0 \<and> tBatch t = 0)
     \<and> (gKind (tGroup t) = VersionPlexDB \<or> gKind (tGroup t) = VersionArr
        \<or> gIntegrationID (tGroup t) = 0)"

lemma engineTag_not_Nil: "ValidEngineTag e \<Longrightarrow> e \<noteq> []"
  by (auto simp: ValidEngineTag_def)

lemma prefixes_known:
  "TagBunkarr \<in> set tagPrefixes" "TagDestPrefix \<in> set tagPrefixes" "TagKindPrefix \<in> set tagPrefixes"
  "TagJobPrefix \<in> set tagPrefixes" "TagSourcePrefix \<in> set tagPrefixes" "TagBatchPrefix \<in> set tagPrefixes"
  "TagIntegrationPfx \<in> set tagPrefixes" "TagVersionPrefix \<in> set tagPrefixes"
  by (simp_all add: tagPrefixes_def)

lemma prefixes_differ: "distinct tagPrefixes"
  by (simp add: tagPrefixes_def tag_consts)

lemma kinds_differ: "distinct [VersionMedia, VersionPlexDB, VersionArr, VersionManifest]"
  by (simp add: kind_consts)

text \<open>A list of tags made of distinct prefixes with a value each.\<close>

definition tagsOf :: "(string \<Rightarrow> string) \<Rightarrow> string list \<Rightarrow> string list" where
  "tagsOf vals ps = map (\<lambda>p. p @ vals p) ps"

definition fixedPrefixes :: "string list" where
  "fixedPrefixes = [TagBunkarr, TagDestPrefix, TagKindPrefix, TagJobPrefix]"

lemma splitTag_tagsOf:
  "p \<in> set tagPrefixes \<Longrightarrow> vals TagBunkarr = [] \<Longrightarrow> splitTag (p @ vals p) = (p, vals p)"
  by (cases "p = TagBunkarr") (simp_all add: splitTag_bunkarr splitTag_prefix)

lemma bunkarrTag_tagsOf:
  "p \<in> set tagPrefixes \<Longrightarrow> vals TagBunkarr = [] \<Longrightarrow> bunkarrTag (p @ vals p)"
  by (cases "p = TagBunkarr") (simp_all add: bunkarrTag_def [of TagBunkarr] bunkarrTag_prefix)

lemma tagsOf_scan:
  assumes "set ps \<subseteq> set tagPrefixes" "distinct ps" "vals TagBunkarr = []"
  shows "bunkarrTags (tagsOf vals ps) = tagsOf vals ps" "prefixesOk (tagsOf vals ps)"
    "seenIn (tagsOf vals ps) p = (if p \<in> set ps then 1 else 0)"
    "p \<in> set ps \<Longrightarrow> valueIn (tagsOf vals ps) p = vals p"
proof -
  have m: "map prefixOf (tagsOf vals ps) = ps"
    using assms(1,3) by (auto simp: tagsOf_def splitTag_tagsOf subset_iff intro: map_idI)
  show "bunkarrTags (tagsOf vals ps) = tagsOf vals ps"
    using assms(1,3) by (auto simp: bunkarrTags_def tagsOf_def bunkarrTag_tagsOf subset_iff filter_id_conv)
  have "prefixOf ` set (tagsOf vals ps) = set ps" using arg_cong [OF m, of set] by simp
  then show ok: "prefixesOk (tagsOf vals ps)" using m assms by (simp add: prefixesOk_def)
  show "seenIn (tagsOf vals ps) p = (if p \<in> set ps then 1 else 0)"
    using m assms(2) by (simp add: seenIn_def count_list_mset distinct_count_atmost_1)
  assume p: "p \<in> set ps"
  then have "p @ vals p \<in> set (tagsOf vals ps)" by (simp add: tagsOf_def)
  from valueIn_eq [OF ok this] show "valueIn (tagsOf vals ps) p = vals p"
    using p assms by (simp add: splitTag_tagsOf subset_iff)
qed

lemma wantTags_ok:
  "set (fixedPrefixes @ wantTags k) \<subseteq> set tagPrefixes" "distinct (fixedPrefixes @ wantTags k)"
  by (auto simp: fixedPrefixes_def wantTags_def tagPrefixes_def tag_consts)

lemma tagPrefixes_cases:
  "p \<in> set tagPrefixes \<longleftrightarrow> p \<in> set fixedPrefixes \<or> p \<in> set extraPrefixes"
  by (auto simp: tagPrefixes_def fixedPrefixes_def extraPrefixes_def)

lemma wantTags_extra: "set (wantTags k) \<subseteq> set extraPrefixes"
  by (auto simp: wantTags_def extraPrefixes_def)

lemma fixed_extra: "p \<in> set fixedPrefixes \<Longrightarrow> p \<notin> set extraPrefixes"
  by (auto simp: extraPrefixes_def fixedPrefixes_def tag_consts)

lemma seenIn_known: "prefixesOk bs \<Longrightarrow> seenIn bs p = 1 \<Longrightarrow> p \<in> set tagPrefixes"
  using seenIn_1 [of bs p] by (auto simp: prefixesOk_def)

lemma valueIn_seen: "prefixesOk bs \<Longrightarrow> valueIn bs p \<noteq> [] \<Longrightarrow> seenIn bs p = 1"
proof -
  assume ok: "prefixesOk bs" and v: "valueIn bs p \<noteq> []"
  then have "map_of (rev (map splitTag bs)) p \<noteq> None" by (auto simp: valueIn_def split: option.splits)
  then obtain v where "map_of (rev (map splitTag bs)) p = Some v" by blast
  from map_of_SomeD [OF this] obtain x where "x \<in> set bs" "splitTag x = (p, v)" by auto
  then have "p \<in> prefixOf ` set bs" by (metis fst_conv image_eqI)
  with seenIn_1 [OF ok] show ?thesis by blast
qed

lemma bunkarr_no_value: "prefixesOk bs \<Longrightarrow> valueIn bs TagBunkarr = []"
proof (rule ccontr)
  assume ok: "prefixesOk bs" and v: "valueIn bs TagBunkarr \<noteq> []"
  from seenIn_1 [OF ok] valueIn_seen [OF ok v] obtain t where t: "t \<in> set bs" "prefixOf t = TagBunkarr"
    by auto
  from splitTag_no_value [of t "snd (splitTag t)"] t(2) have "snd (splitTag t) = []"
    by (simp add: prod_eq_iff)
  with valueIn_eq [OF ok t(1)] t(2) v show False by simp
qed

text \<open>A bag of tags with the prefixes of its kind is the one \<open>tagsOf\<close> lists.\<close>

lemma bag_of_tags:
  assumes ok: "prefixesOk bs"
    and fixed: "\<And>p. p \<in> set fixedPrefixes \<Longrightarrow> seenIn bs p = 1"
    and extra: "\<And>p. p \<in> set extraPrefixes \<Longrightarrow> seenIn bs p = 1 \<longleftrightarrow> p \<in> set (wantTags k)"
  shows "mset bs = mset (tagsOf (valueIn bs) (fixedPrefixes @ wantTags k))"
proof -
  let ?ps = "fixedPrefixes @ wantTags k"
  note T = tagsOf_scan [OF wantTags_ok [of k], of "valueIn bs", OF bunkarr_no_value [OF ok]]
  have seen: "seenIn bs p = 1 \<longleftrightarrow> p \<in> set ?ps" for p
    using seenIn_known [OF ok, of p] fixed [of p] extra [of p] wantTags_extra [of k] fixed_extra [of p]
    by (auto simp: tagPrefixes_cases subset_iff simp del: One_nat_def)
  have "t \<in> set bs \<longleftrightarrow> t \<in> set (tagsOf (valueIn bs) ?ps)" for t
    unfolding mem_prefixesOk [OF ok] mem_prefixesOk [OF T(2)] using seen [of "prefixOf t"] T(3) T(4)
    by (auto simp del: One_nat_def)
  moreover have "distinct bs" "distinct (tagsOf (valueIn bs) ?ps)"
    using ok T(2) by (auto simp: prefixesOk_def distinct_map)
  ultimately show ?thesis by (simp add: set_eq_iff_mset_eq_distinct [symmetric] set_eq_iff)
qed

lemma ParseTags_written:
  assumes "ParseTags us e = Some t"
  shows "tagInfoOk t \<and> (\<exists>ts. Tags (tagInputOf e t) = Inr ts \<and> mset (bunkarrTags us) = mset ts)"
proof -
  let ?b = "bunkarrTags us"
  let ?v = "valueIn ?b" and ?k = "valueIn ?b TagKindPrefix"
  have ok: "prefixesOk ?b" using assms ParseTags_None by fastforce
  have e: "ValidEngineTag e" using assms by (simp add: ParseTags_def split: if_splits)
  have scan: "scanTags (\<lambda>_. 0) (\<lambda>_. []) us = Some (seenIn ?b, ?v)"
    using ok by (simp add: scan_bunkarr prefixesOk_iff)
  obtain job source batch integ vers where
    c: "seenIn ?b TagBunkarr = 1" "?v TagDestPrefix = e" "seenIn ?b TagKindPrefix = 1"
      "seenIn ?b TagJobPrefix = 1" "validKind ?k"
    and x: "\<And>p. p \<in> set extraPrefixes \<Longrightarrow> seenIn ?b p = 1 \<longleftrightarrow> p \<in> set (wantTags ?k)"
    and v: "positive (?v TagJobPrefix) = Some job" "mediaPart ?v (wantTags ?k) = Some (source, batch)"
      "integrationPart ?v (wantTags ?k) = Some integ" "versionPart ?v (wantTags ?k) = Some vers"
    and t: "t = \<lparr>tGroup = \<lparr>gKind = ?k, gSourceID = source, gIntegrationID = integ\<rparr>,
                 tJobID = job, tBatch = batch, tVersion = vers\<rparr>"
    using assms e unfolding ParseTags_def scan
    by (auto simp: Let_def simp del: One_nat_def split: if_splits option.splits prod.splits)
  have "seenIn ?b TagDestPrefix = 1" using valueIn_seen [OF ok, of TagDestPrefix] c(2) engineTag_not_Nil [OF e] by simp
  with c have "\<And>p. p \<in> set fixedPrefixes \<Longrightarrow> seenIn ?b p = 1" by (auto simp: fixedPrefixes_def)
  from bag_of_tags [OF ok this x] have bag: "mset ?b = mset (tagsOf ?v (fixedPrefixes @ wantTags ?k))" .
  have "tagInfoOk t \<and> Tags (tagInputOf e t) = Inr (tagsOf ?v (fixedPrefixes @ wantTags ?k))"
    using c(2,5) v e kinds_differ prefixes_differ bunkarr_no_value [OF ok]
    unfolding validKind_def
    by (auto simp: t tagInfoOk_def Tags_def Let_def tagInputOf_def tagsOf_def fixedPrefixes_def wantTags_def
        mediaPart_def integrationPart_def versionPart_def positive_iff validKind_def tagPrefixes_def
        DestTag_def KindTag_def JobTag_def SourceTag_def BatchTag_def IntegrationTag_def VersionTag_def
        max_int64_def split: if_splits option.splits)
  with bag show ?thesis by auto
qed

lemma Tags_parsed:
  assumes t: "tagInfoOk t" "Tags (tagInputOf e t) = Inr ts"
  shows "ParseTags ts e = Some t"
proof -
  let ?k = "gKind (tGroup t)"
  let ?v = "(\<lambda>_. [])(TagDestPrefix := e, TagKindPrefix := ?k, TagJobPrefix := formatInt (tJobID t),
     TagSourcePrefix := formatInt (gSourceID (tGroup t)), TagBatchPrefix := formatInt (tBatch t),
     TagIntegrationPfx := formatInt (gIntegrationID (tGroup t)), TagVersionPrefix := tVersion t)"
  have e: "ValidEngineTag e" "validKind ?k" "0 < tJobID t"
    and k: "?k = VersionMedia \<Longrightarrow> 0 < gSourceID (tGroup t) \<and> 0 < tBatch t"
      "?k = VersionPlexDB \<or> ?k = VersionArr \<Longrightarrow> 0 < gIntegrationID (tGroup t)"
      "?k \<noteq> VersionMedia \<Longrightarrow> validVersionName (tVersion t)"
    using t(2) kinds_differ by (auto simp: Tags_def Let_def tagInputOf_def split: if_splits)
  have v: "?v TagBunkarr = []" "?v TagDestPrefix = e" "?v TagKindPrefix = ?k"
    "?v TagJobPrefix = formatInt (tJobID t)" "?v TagSourcePrefix = formatInt (gSourceID (tGroup t))"
    "?v TagBatchPrefix = formatInt (tBatch t)"
    "?v TagIntegrationPfx = formatInt (gIntegrationID (tGroup t))" "?v TagVersionPrefix = tVersion t"
    using prefixes_differ by (simp_all add: tagPrefixes_def)
  obtain vv where vv: "vv = ?v" by blast
  note v = v [folded vv]
  have ts: "ts = tagsOf vv (fixedPrefixes @ wantTags ?k)"
    using t(2) kinds_differ e(2) unfolding validKind_def
    by (auto simp: Tags_def Let_def tagInputOf_def tagsOf_def fixedPrefixes_def wantTags_def v
        DestTag_def KindTag_def JobTag_def SourceTag_def BatchTag_def IntegrationTag_def VersionTag_def
        split: if_splits)
  note T = tagsOf_scan [OF wantTags_ok [of ?k], of vv, OF v(1), folded ts]
  have scan: "scanTags (\<lambda>_. 0) (\<lambda>_. []) ts = Some (seenIn ts, valueIn ts)"
    using T(1,2) by (simp add: scan_bunkarr prefixesOk_iff)
  have seen: "seenIn ts p = 1 \<longleftrightarrow> p \<in> set (wantTags ?k)" if "p \<in> set extraPrefixes" for p
    using T(3) [of p] fixed_extra [of p] that by auto
  have fixed: "seenIn ts p = 1 \<and> valueIn ts p = vv p" if "p \<in> set fixedPrefixes" for p
    using T(3) [of p] T(4) [of p] that by simp
  have want: "valueIn ts p = vv p" if "p \<in> set (wantTags ?k)" for p
    using T(4) [of p] that by simp
  have many: "\<not> (\<exists>p \<in> set tagPrefixes. seenIn ts p > 1)" using T(2) by (simp add: prefixesOk_iff)
  note f = fixed [of TagBunkarr] fixed [of TagDestPrefix] fixed [of TagKindPrefix] fixed [of TagJobPrefix]
  have parts: "mediaPart (valueIn ts) (wantTags ?k) = Some (gSourceID (tGroup t), tBatch t)"
    "integrationPart (valueIn ts) (wantTags ?k) = Some (gIntegrationID (tGroup t))"
    "versionPart (valueIn ts) (wantTags ?k) = Some (tVersion t)"
    using want k t(1) e(2) kinds_differ prefixes_differ
    by (auto simp: mediaPart_def integrationPart_def versionPart_def v tagInfoOk_def positive_formatInt
        max_int64_def wantTags_def tagPrefixes_def validKind_def split: if_splits)
  have job: "positive (valueIn ts TagJobPrefix) = Some (tJobID t)"
    using f(4) t(1) e(3) by (simp add: fixedPrefixes_def v positive_iff tagInfoOk_def)
  have kind: "valueIn ts TagKindPrefix = ?k" "valueIn ts TagDestPrefix = e"
    using f(2,3) by (simp_all add: fixedPrefixes_def v)
  have extra: "\<not> (\<exists>p \<in> set extraPrefixes. (seenIn ts p = 1) \<noteq> (p \<in> set (wantTags ?k)))" using seen by blast
  have ones: "seenIn ts TagBunkarr = 1" "seenIn ts TagKindPrefix = 1" "seenIn ts TagJobPrefix = 1"
    using f by (simp_all add: fixedPrefixes_def)
  show ?thesis
    unfolding ParseTags_def scan option.case prod.case if_not_P [OF many] Let_def kind if_not_P [OF extra] job parts
    using e by (simp add: ones)
qed

text \<open>C36: the parser accepts a list of tags exactly when its Bunkarr tags are, in any order and
  among any tags of the user, the tags \<open>Tags\<close> writes for the destination row, and the group, job,
  batch and version it reads are the ones written.  So what Bunkarr tags is always read back, and
  nothing else is ever taken for a snapshot of this row.\<close>

theorem ParseTags_exact:
  "ParseTags us e = Some t \<longleftrightarrow>
     tagInfoOk t \<and> (\<exists>ts. Tags (tagInputOf e t) = Inr ts \<and> mset (filter bunkarrTag us) = mset ts)"
proof
  assume "ParseTags us e = Some t"
  from ParseTags_written [OF this]
  show "tagInfoOk t \<and> (\<exists>ts. Tags (tagInputOf e t) = Inr ts \<and> mset (filter bunkarrTag us) = mset ts)"
    by (simp add: bunkarrTags_def)
next
  assume "tagInfoOk t \<and> (\<exists>ts. Tags (tagInputOf e t) = Inr ts \<and> mset (filter bunkarrTag us) = mset ts)"
  then obtain ts where ts: "tagInfoOk t" "Tags (tagInputOf e t) = Inr ts"
    and m: "mset (bunkarrTags us) = mset ts" by (auto simp: bunkarrTags_def)
  have p: "ParseTags ts e = Some t" by (rule Tags_parsed [OF ts])
  have "bunkarrTags ts = ts" using mset_eq_setD [OF m] by (auto simp: bunkarrTags_def filter_id_conv)
  with m have "ParseTags us e = ParseTags ts e" by (intro ParseTags_mset) simp
  with p show "ParseTags us e = Some t" by simp
qed

end
