(* ===== verification/GoTime.thy ===== *)
theory GoTime
  imports Prelude
begin

text \<open>
  Calendar times of Go's \<open>time\<close> package, as the retention buckets and the transfer windows use
  them.  A time zone (\<open>*time.Location\<close>, read from the system's tz database) is a parameter: the
  offset east of UTC in seconds at an instant given in seconds since the epoch.

  A calendar date is the number of its day since 1970-01-01 in the proleptic Gregorian calendar;
  \<open>time.Date\<close> with a day out of range normalises to exactly that count.  Where the code uses the
  year, month and day themselves they are computed from it (\<open>civil\<close>).
\<close>

type_synonym zone = "int \<Rightarrow> int"

definition UTC :: zone where
  "UTC = (\<lambda>_. 0)"

definition second_ns :: int where
  "second_ns = 1000000000"

definition unixSec :: "gotime \<Rightarrow> int" where
  "unixSec t = t div second_ns"

text \<open>The seconds on the clock of the zone, and the day they belong to.\<close>

definition localSec :: "zone \<Rightarrow> gotime \<Rightarrow> int" where
  "localSec loc t = unixSec t + loc (unixSec t)"

definition localDay :: "zone \<Rightarrow> gotime \<Rightarrow> int" where
  "localDay loc t = localSec loc t div 86400"

text \<open>Monday is 0 (1970-01-01 was a Thursday).\<close>

definition dayOfWeek :: "int \<Rightarrow> int" where
  "dayOfWeek day = (day + 3) mod 7"

text \<open>Year, month and day of a day number; years are counted from March inside an era of 400.\<close>

definition civil :: "int \<Rightarrow> int \<times> int \<times> int" where
  "civil day =
     (let z = day + 719468;
          era = z div 146097;
          doe = z mod 146097;
          yoe = (doe - doe div 1460 + doe div 36524 - doe div 146096) div 365;
          doy = doe - (365 * yoe + yoe div 4 - yoe div 100);
          mp = (5 * doy + 2) div 153;
          d = doy - (153 * mp + 2) div 5 + 1;
          m = (if mp < 10 then mp + 3 else mp - 9);
          y = yoe + era * 400
      in (if m \<le> 2 then y + 1 else y, m, d))"

text \<open>The day number of the first of January of a year.\<close>

definition newYear :: "int \<Rightarrow> int" where
  "newYear y = 365 * (y - 1970) + ((y - 1) div 4 - 492) - ((y - 1) div 100 - 19) + ((y - 1) div 400 - 4)"

text \<open>\<open>Time.ISOWeek\<close>: the year of the Thursday of the week, and the week that Thursday is in.\<close>

definition isoWeek :: "int \<Rightarrow> int \<times> int" where
  "isoWeek day =
     (let thursday = day - dayOfWeek day + 3;
          y = fst (civil thursday)
      in (y, (thursday - newYear y) div 7 + 1))"

text \<open>\<open>time.Date\<close> of a day and a second of that day in a zone: the offset looked up at the
  wall-clock time taken as UTC, and once more at the instant this gives.\<close>

definition dateSec :: "zone \<Rightarrow> int \<Rightarrow> int \<Rightarrow> int" where
  "dateSec loc day sec =
     (let unix = day * 86400 + sec
      in if loc unix = 0 then unix else unix - loc (unix - loc unix))"

definition date :: "zone \<Rightarrow> int \<Rightarrow> int \<Rightarrow> gotime" where
  "date loc day sec = dateSec loc day sec * second_ns"

text \<open>From the first day of the year 0 on, years are not negative.\<close>

lemma yoe_nonneg: "0 \<le> e \<Longrightarrow> 0 \<le> (e - e div 1460 + e div 36524 - e div 146096) div (365 :: int)"
proof -
  assume e: "0 \<le> e"
  have "e div 1460 \<le> e div 1" using e by (intro zdiv_mono2) simp_all
  then have a: "e div 1460 \<le> e" by (simp only: div_by_1)
  have b: "e div 146096 \<le> e div 36524" using e by (intro zdiv_mono2) simp_all
  have le: "0 \<le> x - y + z - w" if "y \<le> x" "w \<le> z" for x y z w :: int using that by linarith
  show ?thesis
    by (intro pos_imp_zdiv_nonneg_iff [THEN iffD2] le a b) simp
qed

lemma civil_year_nonneg: "-719468 \<le> day \<Longrightarrow> 0 \<le> fst (civil day)"
proof -
  assume "-719468 \<le> day"
  then have era: "0 \<le> (day + 719468) div 146097" by (intro pos_imp_zdiv_nonneg_iff [THEN iffD2]) simp_all
  have doe: "0 \<le> (day + 719468) mod 146097" by (rule pos_mod_sign) simp
  have either: "0 \<le> (if c then y + 1 else y)" if "0 \<le> y" for c and y :: int using that by simp
  show ?thesis
    unfolding civil_def Let_def fst_conv
    by (intro either add_nonneg_nonneg mult_nonneg_nonneg yoe_nonneg doe era) simp
qed

end
