(* ===== verification/ResticKeep.thy ===== *)
theory ResticKeep
  imports ResticTags GoTime "HOL-Library.Product_Lexorder"
begin

text \<open>
  The keep set of the restic retention job (internal/engines/restic/keep.go): which snapshots are
  protected, which the daily, weekly, monthly and yearly rules keep, and which are forgotten by id.

  Go iterates its map of groups in any order.  A snapshot belongs to at most one group and the
  reasons of a group are written to its own snapshots only, so the order does not matter; the
  model takes the groups in the order in which their first snapshot is listed.  Of a listed snapshot
  the model has the three fields the keep set reads.
\<close>

section \<open>What is decided from\<close>

record snapshot =
  snID :: string
  snTime :: gotime
  snTags :: "string list"

record recorded =
  rcSourceID :: ident
  rcComplete :: bool
  rcBatch :: int

record retention =
  rtDaily :: int
  rtWeekly :: int
  rtMonthly :: int
  rtYearly :: int

text \<open>\<open>Base\<close> is iterated, so it is an association list (each source once); the sets are Go's
  maps to bool.\<close>

record keepInput =
  kiSnapshots :: "snapshot list"
  kiRecorded :: "string \<rightharpoonup> recorded"
  kiBase :: "(ident \<times> string) list"
  kiRefs :: "string set"
  kiLiveSources :: "ident set"
  kiLiveIntegrations :: "ident set"
  kiRetention :: retention
  kiEngineTag :: string
  kiNow :: gotime
  kiLoc :: "zone option"

datatype keepReason = KeepForeign | KeepDuplicate | KeepFuture | KeepNewest | KeepComplete | KeepBase
  | KeepReferenced | KeepOrphan | KeepConfig | KeepMismatch | KeepDaily | KeepWeekly | KeepMonthly
  | KeepYearly

type_synonym keepMap = "string \<rightharpoonup> keepReason"

record keepPlan =
  kpKeep :: keepMap
  kpGroups :: "(tagGroup \<times> snapshot list) list"
  kpListed :: "string set"

text \<open>\<open>in.Recorded[id].Complete\<close> and \<open>in.Base[src]\<close> with Go's zero value for an absent key.\<close>

definition isComplete :: "keepInput \<Rightarrow> string \<Rightarrow> bool" where
  "isComplete x i = (case kiRecorded x i of None \<Rightarrow> False | Some r \<Rightarrow> rcComplete r)"

definition baseOf :: "keepInput \<Rightarrow> ident \<Rightarrow> string" where
  "baseOf x src = (case map_of (kiBase x) src of None \<Rightarrow> [] | Some i \<Rightarrow> i)"

section \<open>The protections\<close>

definition mark :: "string \<Rightarrow> keepReason \<Rightarrow> keepMap \<Rightarrow> keepMap" where
  "mark i why keep = (if keep i = None then keep(i \<mapsto> why) else keep)"

fun addToGroup ::
    "tagGroup \<Rightarrow> snapshot \<Rightarrow> (tagGroup \<times> snapshot list) list \<Rightarrow> (tagGroup \<times> snapshot list) list" where
  "addToGroup g s [] = [(g, [s])]"
| "addToGroup g s ((h, ss) # gs) = (if h = g then (h, ss @ [s]) # gs else (h, ss) # addToGroup g s gs)"

definition timesListed :: "keepInput \<Rightarrow> string \<Rightarrow> nat" where
  "timesListed x i = count_list (map snID (kiSnapshots x)) i"

definition classify :: "keepInput \<Rightarrow> snapshot \<Rightarrow> keepPlan \<Rightarrow> keepPlan" where
  "classify x s p =
     (let q = p\<lparr>kpListed := insert (snID s) (kpListed p)\<rparr>
      in if timesListed x (snID s) > 1 then q\<lparr>kpKeep := (kpKeep q)(snID s \<mapsto> KeepDuplicate)\<rparr>
         else (case ParseTags (snTags s) (kiEngineTag x) of
                 None \<Rightarrow> q\<lparr>kpKeep := (kpKeep q)(snID s \<mapsto> KeepForeign)\<rparr>
               | Some info \<Rightarrow>
                   if snID s = [] then q\<lparr>kpKeep := (kpKeep q)(snID s \<mapsto> KeepForeign)\<rparr>
                   else q\<lparr>kpGroups := addToGroup (tGroup info) s (kpGroups q)\<rparr>))"

text \<open>Newest first; of two at the same time the larger id first.\<close>

definition byAge :: "snapshot \<Rightarrow> gotime \<times> string" where
  "byAge s = (snTime s, snID s)"

definition newestFirst :: "snapshot list \<Rightarrow> snapshot list" where
  "newestFirst ss = rev (sort_key byAge ss)"

definition orphanGroup :: "keepInput \<Rightarrow> tagGroup \<Rightarrow> bool" where
  "orphanGroup x g =
     (if gKind g = VersionMedia then gSourceID g \<notin> kiLiveSources x
      else if gKind g = VersionPlexDB \<or> gKind g = VersionArr then gIntegrationID g \<notin> kiLiveIntegrations x
      else False)"

definition protectSnapshot :: "keepInput \<Rightarrow> tagGroup \<Rightarrow> snapshot \<Rightarrow> keepMap \<Rightarrow> keepMap" where
  "protectSnapshot x g s keep =
     (if snTime s > kiNow x then mark (snID s) KeepFuture keep
      else if snID s \<in> kiRefs x then mark (snID s) KeepReferenced keep
      else if gKind g = VersionMedia \<and> baseOf x (gSourceID g) = snID s then mark (snID s) KeepBase keep
      else if orphanGroup x g then mark (snID s) KeepOrphan keep
      else if gKind g \<noteq> VersionMedia then keep
      else (case kiRecorded x (snID s) of
              None \<Rightarrow> keep
            | Some r \<Rightarrow> if rcSourceID r \<noteq> 0 \<and> rcSourceID r \<noteq> gSourceID g
                        then mark (snID s) KeepMismatch keep else keep))"

definition protectGroup :: "keepInput \<Rightarrow> tagGroup \<times> snapshot list \<Rightarrow> keepMap \<Rightarrow> keepMap" where
  "protectGroup x gs keep =
     (let g = fst gs; snaps = snd gs;
          keep1 = mark (snID (hd snaps)) KeepNewest keep;
          keep2 = (case find (\<lambda>s. isComplete x (snID s)) snaps of
                     None \<Rightarrow> keep1 | Some s \<Rightarrow> mark (snID s) KeepComplete keep1)
      in fold (protectSnapshot x g) snaps keep2)"

text \<open>Every source's base, wherever it is listed.\<close>

definition protectBase :: "string set \<Rightarrow> ident \<times> string \<Rightarrow> keepMap \<Rightarrow> keepMap" where
  "protectBase listed b keep =
     (if keep (snd b) = None \<and> snd b \<in> listed \<and> fst b \<noteq> 0 then keep(snd b \<mapsto> KeepBase) else keep)"

definition protect :: "keepInput \<Rightarrow> keepPlan" where
  "protect x =
     (let p = fold (classify x) (kiSnapshots x) \<lparr>kpKeep = Map.empty, kpGroups = [], kpListed = {}\<rparr>;
          groups = map (\<lambda>(g, ss). (g, newestFirst ss)) (kpGroups p);
          keep = fold (protectGroup x) groups (kpKeep p)
      in p\<lparr>kpGroups := groups, kpKeep := fold (protectBase (kpListed p)) (kiBase x) keep\<rparr>)"

section \<open>Daily, weekly, monthly and yearly snapshots\<close>

definition dayKey :: "zone \<Rightarrow> gotime \<Rightarrow> int" where
  "dayKey loc t = (case civil (localDay loc t) of (y, m, d) \<Rightarrow> y * 10000 + m * 100 + d)"

definition weekKey :: "zone \<Rightarrow> gotime \<Rightarrow> int" where
  "weekKey loc t = (case isoWeek (localDay loc t) of (y, w) \<Rightarrow> y * 100 + w)"

definition monthKey :: "zone \<Rightarrow> gotime \<Rightarrow> int" where
  "monthKey loc t = (case civil (localDay loc t) of (y, m, d) \<Rightarrow> y * 100 + m)"

definition yearKey :: "zone \<Rightarrow> gotime \<Rightarrow> int" where
  "yearKey loc t = fst (civil (localDay loc t))"

record bucketRule =
  brN :: int
  brWhy :: keepReason
  brKey :: "gotime \<Rightarrow> int"
  brLast :: int

definition bucketRules :: "retention \<Rightarrow> zone \<Rightarrow> bucketRule list" where
  "bucketRules r loc =
     [\<lparr>brN = rtDaily r, brWhy = KeepDaily, brKey = dayKey loc, brLast = -1\<rparr>,
      \<lparr>brN = rtWeekly r, brWhy = KeepWeekly, brKey = weekKey loc, brLast = -1\<rparr>,
      \<lparr>brN = rtMonthly r, brWhy = KeepMonthly, brKey = monthKey loc, brLast = -1\<rparr>,
      \<lparr>brN = rtYearly r, brWhy = KeepYearly, brKey = yearKey loc, brLast = -1\<rparr>]"

text \<open>One rule on one snapshot: the rule as updated, and whether it keeps the snapshot.\<close>

definition ruleStep :: "snapshot \<Rightarrow> bucketRule \<Rightarrow> bucketRule \<times> bool" where
  "ruleStep s rule =
     (if brN rule \<le> 0 then (rule, False)
      else if brKey rule (snTime s) \<noteq> brLast rule
      then (rule\<lparr>brLast := brKey rule (snTime s), brN := brN rule - 1\<rparr>, True)
      else (rule, False))"

fun rulesStep :: "snapshot \<Rightarrow> bucketRule list \<Rightarrow> keepMap \<Rightarrow> bucketRule list \<times> keepMap" where
  "rulesStep s [] keep = ([], keep)"
| "rulesStep s (r # rs) keep =
     (let keep1 = (if snd (ruleStep s r) then mark (snID s) (brWhy r) keep else keep);
          rest = rulesStep s rs keep1
      in (fst (ruleStep s r) # fst rest, snd rest))"

fun bucketLoop :: "bucketRule list \<Rightarrow> keepMap \<Rightarrow> snapshot list \<Rightarrow> keepMap" where
  "bucketLoop rules keep [] = keep"
| "bucketLoop rules keep (s # ss) =
     bucketLoop (fst (rulesStep s rules keep)) (snd (rulesStep s rules keep)) ss"

definition bucketKeep :: "snapshot list \<Rightarrow> retention \<Rightarrow> zone \<Rightarrow> keepMap" where
  "bucketKeep ss r loc = bucketLoop (bucketRules r loc) Map.empty ss"

section \<open>The forget lists\<close>

definition zoneOf :: "keepInput \<Rightarrow> zone" where
  "zoneOf x = (case kiLoc x of None \<Rightarrow> UTC | Some loc \<Rightarrow> loc)"

definition keepGroup ::
    "keepInput \<Rightarrow> tagGroup \<times> snapshot list \<Rightarrow> snapshot list \<times> keepMap \<Rightarrow> snapshot list \<times> keepMap" where
  "keepGroup x gs st =
     (let g = fst gs; snaps = snd gs; cands = fst st; keep = snd st
      in if gKind g \<noteq> VersionMedia then (cands, fold (\<lambda>s. mark (snID s) KeepConfig) snaps keep)
         else (let complete = filter (\<lambda>s. isComplete x (snID s)) snaps;
                   keep1 = bucketKeep complete (kiRetention x) (zoneOf x) ++ keep
               in (cands @ filter (\<lambda>s. keep1 (snID s) = None) snaps, keep1)))"

definition KeepMedia :: "keepInput \<Rightarrow> string list \<times> keepMap" where
  "KeepMedia x =
     (let p = protect x;
          st = fold (keepGroup x) (kpGroups p) ([], kpKeep p)
      in (map snID (sort_key byAge (fst st)), snd st))"

datatype dropReason = NotInRepository | Protected keepReason | MediaSnapshot

fun filterLoop ::
    "keepPlan \<Rightarrow> string set \<Rightarrow> string set \<Rightarrow> string list \<Rightarrow> (string \<rightharpoonup> dropReason) \<Rightarrow> string list
       \<Rightarrow> string list \<times> (string \<rightharpoonup> dropReason)" where
  "filterLoop p media seen forget dropped [] = (forget, dropped)"
| "filterLoop p media seen forget dropped (i # req) =
     (if i \<in> seen then filterLoop p media seen forget dropped req
      else if i \<notin> kpListed p
      then filterLoop p media (insert i seen) forget (dropped(i \<mapsto> NotInRepository)) req
      else (case kpKeep p i of
              Some why \<Rightarrow> filterLoop p media (insert i seen) forget (dropped(i \<mapsto> Protected why)) req
            | None \<Rightarrow>
                if i \<in> media then filterLoop p media (insert i seen) forget (dropped(i \<mapsto> MediaSnapshot)) req
                else filterLoop p media (insert i seen) (forget @ [i]) dropped req))"

definition FilterForget :: "keepInput \<Rightarrow> string list \<Rightarrow> string list \<times> (string \<rightharpoonup> dropReason)" where
  "FilterForget x requested =
     (let p = protect x;
          media = set (concat (map (\<lambda>gs. if gKind (fst gs) = VersionMedia then map snID (snd gs) else [])
                                 (kpGroups p)))
      in filterLoop p media {} [] Map.empty requested)"

section \<open>Groups\<close>

text \<open>The snapshots of a group: listed once, with an id and the tags of the group.\<close>

definition memberOf :: "keepInput \<Rightarrow> tagGroup \<Rightarrow> snapshot \<Rightarrow> bool" where
  "memberOf x g s \<longleftrightarrow> timesListed x (snID s) \<le> 1 \<and> snID s \<noteq> []
     \<and> ParseGroup (snTags s) (kiEngineTag x) = Some g"

definition groupOf :: "keepInput \<Rightarrow> tagGroup \<Rightarrow> snapshot list" where
  "groupOf x g = filter (memberOf x g) (kiSnapshots x)"

lemma count_list_map_inj:
  "count_list (map f xs) (f a) \<le> 1 \<Longrightarrow> a \<in> set xs \<Longrightarrow> b \<in> set xs \<Longrightarrow> f a = f b \<Longrightarrow> a = b"
proof (induction xs)
  case (Cons y ys)
  have z: "count_list (map f ys) (f a) = 0 \<longleftrightarrow> f a \<notin> f ` set ys" by (simp add: count_list_0_iff)
  show ?case
  proof (cases "f y = f a")
    case True
    with Cons.prems(1) z have "f a \<notin> f ` set ys" by simp
    with Cons.prems(2,3,4) show ?thesis by (metis image_eqI set_ConsD)
  next
    case False
    with Cons show ?thesis by auto
  qed
qed simp

lemma member_inj:
  "memberOf x g s \<Longrightarrow> s \<in> set (kiSnapshots x) \<Longrightarrow> s' \<in> set (kiSnapshots x) \<Longrightarrow> snID s = snID s' \<Longrightarrow> s = s'"
  using count_list_map_inj [of snID "kiSnapshots x" s s'] by (simp add: memberOf_def timesListed_def)

lemma member_group: "memberOf x g s \<Longrightarrow> memberOf x h s \<Longrightarrow> g = h"
  by (simp add: memberOf_def)

lemma map_of_addToGroup:
  "map_of (addToGroup g s gs) = (map_of gs)(g \<mapsto> (case map_of gs g of None \<Rightarrow> [s] | Some ss \<Rightarrow> ss @ [s]))"
  by (induction g s gs rule: addToGroup.induct) (auto simp: fun_eq_iff)

lemma fst_addToGroup: "fst ` set (addToGroup g s gs) = insert g (fst ` set gs)"
  by (induction g s gs rule: addToGroup.induct) auto

lemma distinct_addToGroup: "distinct (map fst gs) \<Longrightarrow> distinct (map fst (addToGroup g s gs))"
  by (induction g s gs rule: addToGroup.induct) (auto simp: fst_addToGroup)

abbreviation classified :: "keepInput \<Rightarrow> snapshot list \<Rightarrow> keepPlan" where
  "classified x ss \<equiv> fold (classify x) ss \<lparr>kpKeep = Map.empty, kpGroups = [], kpListed = {}\<rparr>"

lemma classified_listed: "kpListed (classified x ss) = snID ` set ss"
  by (induction ss rule: rev_induct) (auto simp: classify_def Let_def split: option.splits)

lemma classified_keep:
  "dom (kpKeep (classified x ss)) = snID ` {s \<in> set ss. \<forall>g. \<not> memberOf x g s}"
proof (induction ss rule: rev_induct)
  case (snoc s ss)
  have "{t \<in> set (ss @ [s]). \<forall>g. \<not> memberOf x g t} =
      {t \<in> set ss. \<forall>g. \<not> memberOf x g t} \<union> (if \<forall>g. \<not> memberOf x g s then {s} else {})"
    by auto
  moreover have "dom (kpKeep (classify x s p)) =
      dom (kpKeep p) \<union> (if \<forall>g. \<not> memberOf x g s then {snID s} else {})" for p
    by (auto simp: classify_def Let_def memberOf_def ParseGroup_def split: option.splits if_splits)
  ultimately show ?case using snoc by auto
qed simp

lemma classified_groups:
  "distinct (map fst (kpGroups (classified x ss)))
   \<and> map_of (kpGroups (classified x ss)) g =
       (if filter (memberOf x g) ss = [] then None else Some (filter (memberOf x g) ss))"
proof (induction ss rule: rev_induct)
  case (snoc s ss)
  obtain p where p: "p = classified x ss" by blast
  show ?case
  proof (cases "\<exists>h. memberOf x h s")
    case True
    then obtain h where h: "memberOf x h s" by blast
    then have "kpGroups (classify x s p) = addToGroup h s (kpGroups p)"
      by (auto simp: classify_def Let_def memberOf_def ParseGroup_def split: option.splits)
    moreover have "memberOf x g s \<longleftrightarrow> g = h" using h member_group by blast
    ultimately show ?thesis
      using snoc by (auto simp: p map_of_addToGroup distinct_addToGroup split: if_splits)
  next
    case False
    then have "kpGroups (classify x s p) = kpGroups p"
      by (auto simp: classify_def Let_def memberOf_def ParseGroup_def split: option.splits)
    with snoc False show ?thesis by (auto simp: p)
  qed
qed simp

lemma set_newestFirst [simp]: "set (newestFirst ss) = set ss"
  by (simp add: newestFirst_def)

lemma newestFirst_Nil [simp]: "newestFirst ss = [] \<longleftrightarrow> ss = []"
  using set_newestFirst [of ss] by (metis set_empty)

lemma protect_listed: "kpListed (protect x) = snID ` set (kiSnapshots x)"
  by (simp add: protect_def Let_def classified_listed)

lemma protect_groups_eq:
  "kpGroups (protect x) = map (\<lambda>(g, ss). (g, newestFirst ss)) (kpGroups (classified x (kiSnapshots x)))"
  by (simp add: protect_def Let_def)

lemma protect_groups_distinct: "distinct (map fst (kpGroups (protect x)))"
  using classified_groups [of x "kiSnapshots x" undefined] unfolding protect_groups_eq
  by (simp add: comp_def case_prod_unfold)

lemma protect_groups:
  "(g, snaps) \<in> set (kpGroups (protect x)) \<longleftrightarrow> groupOf x g \<noteq> [] \<and> snaps = newestFirst (groupOf x g)"
proof -
  let ?gs = "kpGroups (classified x (kiSnapshots x))"
  have *: "(g, ss) \<in> set ?gs \<longleftrightarrow> groupOf x g \<noteq> [] \<and> ss = groupOf x g" for ss
  proof -
    have "(g, ss) \<in> set ?gs \<longleftrightarrow> map_of ?gs g = Some ss"
      using classified_groups [of x "kiSnapshots x" g] by (intro map_of_eq_Some_iff [symmetric]) blast
    also have "\<dots> \<longleftrightarrow> groupOf x g \<noteq> [] \<and> ss = groupOf x g"
      using classified_groups [of x "kiSnapshots x" g] by (auto simp: groupOf_def)
    finally show ?thesis .
  qed
  have image: "(g, snaps) \<in> (\<lambda>(g, ss). (g, newestFirst ss)) ` A \<longleftrightarrow> (\<exists>ss. (g, ss) \<in> A \<and> snaps = newestFirst ss)"
    for A by force
  show ?thesis unfolding protect_groups_eq set_map image * by blast
qed

lemma protect_groups_fst: "g \<in> fst ` set (kpGroups (protect x)) \<longleftrightarrow> groupOf x g \<noteq> []"
proof
  assume "groupOf x g \<noteq> []"
  then have "(g, newestFirst (groupOf x g)) \<in> set (kpGroups (protect x))" by (simp add: protect_groups)
  then show "g \<in> fst ` set (kpGroups (protect x))" by (rule image_eqI [rotated]) simp
qed (auto simp: protect_groups)

section \<open>What is protected\<close>

definition protectedIn :: "keepInput \<Rightarrow> tagGroup \<Rightarrow> snapshot \<Rightarrow> bool" where
  "protectedIn x g s \<longleftrightarrow> snTime s > kiNow x \<or> snID s \<in> kiRefs x \<or> orphanGroup x g
     \<or> gKind g = VersionMedia \<and> baseOf x (gSourceID g) = snID s
     \<or> gKind g = VersionMedia \<and> (\<exists>r. kiRecorded x (snID s) = Some r \<and> rcSourceID r \<noteq> 0
          \<and> rcSourceID r \<noteq> gSourceID g)"

definition newestOf :: "snapshot list \<Rightarrow> snapshot \<Rightarrow> bool" where
  "newestOf ss s \<longleftrightarrow> s \<in> set ss \<and> list_all (\<lambda>t. byAge t \<le> byAge s) ss"

text \<open>The protections of a snapshot of a group: newest, newest complete, dated in the future,
  referenced, a base, of an orphan group, or recorded for another source.\<close>

definition protected :: "keepInput \<Rightarrow> tagGroup \<Rightarrow> snapshot \<Rightarrow> bool" where
  "protected x g s \<longleftrightarrow> newestOf (groupOf x g) s
     \<or> newestOf (filter (\<lambda>t. isComplete x (snID t)) (groupOf x g)) s
     \<or> protectedIn x g s \<or> (\<exists>b \<in> set (kiBase x). fst b \<noteq> 0 \<and> snd b = snID s)"

lemma dom_mark [simp]: "dom (mark i why keep) = insert i (dom keep)"
  by (auto simp: mark_def)

lemma dom_protectSnapshot:
  "dom (protectSnapshot x g s keep) = dom keep \<union> (if protectedIn x g s then {snID s} else {})"
  by (auto simp: protectSnapshot_def protectedIn_def split: option.splits)

lemma dom_fold_protectSnapshot:
  "dom (fold (protectSnapshot x g) ss keep) = dom keep \<union> snID ` {s \<in> set ss. protectedIn x g s}"
  by (induction ss arbitrary: keep) (auto simp: dom_protectSnapshot)

lemma byAge_inj: "byAge s = byAge t \<longleftrightarrow> snTime s = snTime t \<and> snID s = snID t"
  by (simp add: byAge_def)

lemma newestFirst_sorted: "sorted_wrt (\<lambda>s t. byAge t \<le> byAge s) (newestFirst ss)"
  unfolding newestFirst_def sorted_wrt_rev by (metis sorted_map sorted_sort_key)

lemma hd_sorted_newest:
  "sorted_wrt (\<lambda>s t. byAge t \<le> byAge s) ts \<Longrightarrow> ts \<noteq> [] \<Longrightarrow> newestOf ts (hd ts)"
  by (cases ts) (auto simp: newestOf_def list_all_iff)

lemma newestOf_cong: "set ss = set ts \<Longrightarrow> newestOf ss = newestOf ts"
  by (auto simp: newestOf_def list_all_iff fun_eq_iff)

lemma hd_newestFirst: "ss \<noteq> [] \<Longrightarrow> newestOf ss (hd (newestFirst ss))"
  using hd_sorted_newest [OF newestFirst_sorted [of ss]] newestOf_cong [of "newestFirst ss" ss] by simp

lemma find_hd_filter: "find P xs = (case filter P xs of [] \<Rightarrow> None | y # ys \<Rightarrow> Some y)"
  by (induction xs) auto

lemma find_newestFirst:
  "find P (newestFirst ss) = (if filter P ss = [] then None else Some (hd (filter P (newestFirst ss))))"
proof (cases "filter P (newestFirst ss)")
  case Nil
  then show ?thesis by (auto simp: find_hd_filter filter_empty_conv)
next
  case (Cons t ts)
  then have "t \<in> set (filter P (newestFirst ss))" by (metis list.set_intros(1))
  then have "t \<in> set ss" "P t" by simp_all
  with Cons show ?thesis by (auto simp: find_hd_filter filter_empty_conv)
qed

lemma hd_filter_newestFirst:
  assumes "filter P ss \<noteq> []"
  shows "newestOf (filter P ss) (hd (filter P (newestFirst ss)))"
proof -
  have "set (filter P (newestFirst ss)) = set (filter P ss)" by simp
  moreover from this assms have "filter P (newestFirst ss) \<noteq> []" by (metis set_empty)
  ultimately show ?thesis
    using hd_sorted_newest [OF sorted_wrt_filter [OF newestFirst_sorted [of ss]], of P] newestOf_cong by metis
qed

text \<open>The members of a group have different ids, so the newest is one snapshot.\<close>

lemma newestOf_unique:
  assumes "set ss \<subseteq> set (groupOf x g)" "newestOf ss s" "newestOf ss t"
  shows "s = t"
proof -
  have "byAge s = byAge t" using assms(2,3) by (auto simp: newestOf_def list_all_iff intro: order.antisym)
  with assms show ?thesis
    using member_inj [of x g s t] by (auto simp: newestOf_def groupOf_def byAge_inj subset_iff)
qed

lemma dom_protectGroup:
  assumes "groupOf x g \<noteq> []"
  shows "dom (protectGroup x (g, newestFirst (groupOf x g)) keep) =
     dom keep \<union> snID ` {s \<in> set (groupOf x g). newestOf (groupOf x g) s
       \<or> newestOf (filter (\<lambda>t. isComplete x (snID t)) (groupOf x g)) s \<or> protectedIn x g s}"
proof -
  let ?ss = "groupOf x g" and ?c = "filter (\<lambda>t. isComplete x (snID t)) (groupOf x g)"
  have n: "s = hd (newestFirst ?ss) \<longleftrightarrow> newestOf ?ss s" for s
    using hd_newestFirst [OF assms] newestOf_unique [of ?ss x g] by auto
  have c: "find (\<lambda>t. isComplete x (snID t)) (newestFirst ?ss) = Some s \<longleftrightarrow> newestOf ?c s" for s
  proof (cases "?c = []")
    case False
    with hd_filter_newestFirst [OF False] newestOf_unique [of ?c x g] show ?thesis
      by (auto simp: find_newestFirst simp del: filter_empty_conv)
  qed (simp add: find_newestFirst newestOf_def)
  have first: "{snID (hd (newestFirst ?ss))} = snID ` {s. newestOf ?ss s}"
    unfolding n [symmetric] by simp
  have complete: "dom (case find (\<lambda>t. isComplete x (snID t)) (newestFirst ?ss) of
      None \<Rightarrow> k | Some s \<Rightarrow> mark (snID s) KeepComplete k) = dom k \<union> snID ` {s. newestOf ?c s}" for k
    unfolding c [symmetric] by (cases "find (\<lambda>t. isComplete x (snID t)) (newestFirst ?ss)") simp_all
  have "{s \<in> set ?ss. newestOf ?ss s \<or> newestOf ?c s \<or> protectedIn x g s} =
      {s. newestOf ?ss s} \<union> {s. newestOf ?c s} \<union> {s \<in> set ?ss. protectedIn x g s}"
    by (auto simp: newestOf_def)
  then show ?thesis
    unfolding protectGroup_def Let_def fst_conv snd_conv dom_fold_protectSnapshot set_newestFirst complete dom_mark
    by (simp add: image_Un first [symmetric] Un_assoc)
qed

lemma dom_fold_protectGroup:
  assumes "\<And>g snaps. (g, snaps) \<in> set gs \<Longrightarrow> groupOf x g \<noteq> [] \<and> snaps = newestFirst (groupOf x g)"
  shows "dom (fold (protectGroup x) gs keep) = dom keep \<union>
     snID ` {s. \<exists>g \<in> fst ` set gs. s \<in> set (groupOf x g) \<and> (newestOf (groupOf x g) s
       \<or> newestOf (filter (\<lambda>t. isComplete x (snID t)) (groupOf x g)) s \<or> protectedIn x g s)}"
  using assms
proof (induction gs arbitrary: keep)
  case (Cons h gs)
  obtain g snaps where h: "h = (g, snaps)" by (cases h)
  have g: "groupOf x g \<noteq> []" "snaps = newestFirst (groupOf x g)" using Cons.prems [of g snaps] by (simp_all add: h)
  have "dom (fold (protectGroup x) gs k) = dom k \<union>
     snID ` {s. \<exists>g \<in> fst ` set gs. s \<in> set (groupOf x g) \<and> (newestOf (groupOf x g) s
       \<or> newestOf (filter (\<lambda>t. isComplete x (snID t)) (groupOf x g)) s \<or> protectedIn x g s)}" for k
    by (rule Cons.IH) (use Cons.prems in auto)
  then show ?case by (auto simp: h g(2) dom_protectGroup [OF g(1)])
qed simp

lemma dom_fold_protectBase:
  "dom (fold (protectBase listed) bs keep) = dom keep \<union> snd ` {b \<in> set bs. fst b \<noteq> 0 \<and> snd b \<in> listed}"
proof (induction bs arbitrary: keep)
  case (Cons b bs)
  have "dom (protectBase listed b keep) = dom keep \<union> (if fst b \<noteq> 0 \<and> snd b \<in> listed then {snd b} else {})"
    by (auto simp: protectBase_def)
  with Cons show ?case by auto
qed simp

lemma dom_protect:
  "dom (kpKeep (protect x)) =
     snID ` {s \<in> set (kiSnapshots x). \<forall>g. \<not> memberOf x g s}
     \<union> snID ` {s. \<exists>g. s \<in> set (groupOf x g) \<and> (newestOf (groupOf x g) s
         \<or> newestOf (filter (\<lambda>t. isComplete x (snID t)) (groupOf x g)) s \<or> protectedIn x g s)}
     \<union> snd ` {b \<in> set (kiBase x). fst b \<noteq> 0 \<and> snd b \<in> snID ` set (kiSnapshots x)}"
proof -
  let ?gs = "kpGroups (protect x)"
  have groups: "fst ` set ?gs = {g. groupOf x g \<noteq> []}"
    by (intro set_eqI) (simp add: protect_groups_fst)
  have ne: "{s. \<exists>g \<in> {g. groupOf x g \<noteq> []}. s \<in> set (groupOf x g) \<and> Q g s} =
      {s. \<exists>g. s \<in> set (groupOf x g) \<and> Q g s}" for Q by fastforce
  have keep: "kpKeep (protect x) = fold (protectBase (kpListed (classified x (kiSnapshots x)))) (kiBase x)
     (fold (protectGroup x) ?gs (kpKeep (classified x (kiSnapshots x))))"
    by (simp add: protect_def Let_def)
  have "dom (fold (protectGroup x) ?gs k) = dom k \<union>
     snID ` {s. \<exists>g \<in> fst ` set ?gs. s \<in> set (groupOf x g) \<and> (newestOf (groupOf x g) s
       \<or> newestOf (filter (\<lambda>t. isComplete x (snID t)) (groupOf x g)) s \<or> protectedIn x g s)}" for k
    by (rule dom_fold_protectGroup) (simp add: protect_groups)
  then show ?thesis
    unfolding keep dom_fold_protectBase classified_listed groups ne by (simp only: classified_keep)
qed

lemma protected_iff:
  assumes "s \<in> set (groupOf x g)"
  shows "snID s \<in> dom (kpKeep (protect x)) \<longleftrightarrow> protected x g s"
proof -
  have s: "s \<in> set (kiSnapshots x)" "memberOf x g s" using assms by (auto simp: groupOf_def)
  have one: "t = s" if "t \<in> set (kiSnapshots x)" "snID t = snID s" for t
    using member_inj [OF s(2,1) that(1)] that(2) by simp
  have same: "h = g" if "s \<in> set (groupOf x h)" for h
    using that s(2) member_group by (auto simp: groupOf_def)
  have 1: "snID s \<in> snID ` {t \<in> set (kiSnapshots x). \<forall>g. \<not> memberOf x g t} \<longleftrightarrow> False"
    using one s by (auto dest: one)
  have 2: "snID s \<in> snID ` {t. \<exists>h. t \<in> set (groupOf x h) \<and> Q h t} \<longleftrightarrow> Q g s" for Q
  proof
    assume "snID s \<in> snID ` {t. \<exists>h. t \<in> set (groupOf x h) \<and> Q h t}"
    then obtain t h where t: "snID t = snID s" "t \<in> set (groupOf x h)" "Q h t" by auto
    then have "t = s" using one [of t] by (simp add: groupOf_def)
    with t same show "Q g s" by blast
  qed (use assms in blast)
  show ?thesis
    unfolding dom_protect Un_iff 1 2 protected_def using s(1) by (auto intro: rev_image_eqI)
qed

section \<open>Buckets\<close>

text \<open>What one rule keeps of a list, newest first.\<close>

fun ruleKept :: "bucketRule \<Rightarrow> snapshot list \<Rightarrow> snapshot list" where
  "ruleKept rule [] = []"
| "ruleKept rule (s # ss) =
     (if snd (ruleStep s rule) then s # ruleKept (fst (ruleStep s rule)) ss
      else ruleKept (fst (ruleStep s rule)) ss)"

lemma rulesStep_eq:
  "fst (rulesStep s rules keep) = map (\<lambda>r. fst (ruleStep s r)) rules
   \<and> dom (snd (rulesStep s rules keep)) = dom keep \<union> (if \<exists>r \<in> set rules. snd (ruleStep s r) then {snID s} else {})"
  by (induction s rules keep rule: rulesStep.induct) (auto simp: Let_def)

lemma dom_bucketLoop:
  "dom (bucketLoop rules keep ss) = dom keep \<union> (\<Union>r \<in> set rules. snID ` set (ruleKept r ss))"
proof (induction rules keep ss rule: bucketLoop.induct)
  case (2 rules keep s ss)
  have "snID ` set (ruleKept r (s # ss)) =
      (if snd (ruleStep s r) then {snID s} else {}) \<union> snID ` set (ruleKept (fst (ruleStep s r)) ss)" for r
    by simp
  then have "(\<Union>r \<in> set rules. snID ` set (ruleKept r (s # ss))) =
      (if \<exists>r \<in> set rules. snd (ruleStep s r) then {snID s} else {})
      \<union> (\<Union>r \<in> set rules. snID ` set (ruleKept (fst (ruleStep s r)) ss))"
    by (simp only: UN_Un_distrib) auto
  with 2 show ?case by (simp add: rulesStep_eq Un_assoc del: ruleKept.simps)
qed simp

text \<open>A rule keeps the snapshots that open a period, until its count is used up.  A period is open
  while the key stays the same; \<open>l\<close> is the key before the list.\<close>

definition opensAfter :: "(gotime \<Rightarrow> int) \<Rightarrow> int \<Rightarrow> snapshot list \<Rightarrow> nat \<Rightarrow> bool" where
  "opensAfter key l ss i \<longleftrightarrow> key (snTime (ss ! i)) \<noteq> (if i = 0 then l else key (snTime (ss ! (i - 1))))"

definition opensPeriod :: "(gotime \<Rightarrow> int) \<Rightarrow> snapshot list \<Rightarrow> nat \<Rightarrow> bool" where
  "opensPeriod key ss i \<longleftrightarrow> i = 0 \<or> key (snTime (ss ! i)) \<noteq> key (snTime (ss ! (i - 1)))"

lemma opensAfter_Cons:
  "opensAfter key l (s # ss) 0 \<longleftrightarrow> key (snTime s) \<noteq> l"
  "opensAfter key l (s # ss) (Suc i) \<longleftrightarrow> opensAfter key (key (snTime s)) ss i"
  by (auto simp: opensAfter_def nth_Cons')

lemma opens_card_Cons:
  "card {j. j < Suc i \<and> opensAfter key l (s # ss) j} =
     (if key (snTime s) \<noteq> l then 1 else 0) + card {j. j < i \<and> opensAfter key (key (snTime s)) ss j}"
proof -
  have "{j. j < Suc i \<and> opensAfter key l (s # ss) j} =
      (if key (snTime s) \<noteq> l then {0} else {}) \<union> Suc ` {j. j < i \<and> opensAfter key (key (snTime s)) ss j}"
    by (auto simp: opensAfter_Cons less_Suc_eq_0_disj)
  then show ?thesis by (auto simp: card_image card_insert_if)
qed

lemma ruleKept_none: "brN rule \<le> 0 \<Longrightarrow> ruleKept rule ss = []"
  by (induction ss) (simp_all add: ruleStep_def)

lemma ruleKept_iff:
  "t \<in> set (ruleKept rule ss) \<longleftrightarrow>
     (\<exists>i < length ss. ss ! i = t \<and> opensAfter (brKey rule) (brLast rule) ss i
        \<and> int (card {j. j < i \<and> opensAfter (brKey rule) (brLast rule) ss j}) < brN rule)"
proof (induction ss arbitrary: rule)
  case (Cons s ss)
  let ?k = "brKey rule (snTime s)"
  show ?case
  proof (cases "brN rule \<le> 0")
    case True
    then show ?thesis using ruleKept_none [OF True, of "s # ss"] by (auto simp del: ruleKept.simps)
  next
    case False
    let ?r = "fst (ruleStep s rule)"
    have r: "brKey ?r = brKey rule" "brLast ?r = ?k"
      "brN ?r = (if ?k \<noteq> brLast rule then brN rule - 1 else brN rule)"
      "snd (ruleStep s rule) \<longleftrightarrow> ?k \<noteq> brLast rule"
      using False by (auto simp: ruleStep_def)
    have "t \<in> set (ruleKept rule (s # ss)) \<longleftrightarrow> (t = s \<and> ?k \<noteq> brLast rule) \<or> t \<in> set (ruleKept ?r ss)"
      using r(4) by auto
    also have "\<dots> \<longleftrightarrow> (t = s \<and> ?k \<noteq> brLast rule)
        \<or> (\<exists>i < length ss. ss ! i = t \<and> opensAfter (brKey rule) ?k ss i
             \<and> int (card {j. j < i \<and> opensAfter (brKey rule) ?k ss j}) < brN ?r)"
      unfolding Cons.IH r(1,2) ..
    also have "\<dots> \<longleftrightarrow> (\<exists>i < length (s # ss). (s # ss) ! i = t \<and> opensAfter (brKey rule) (brLast rule) (s # ss) i
        \<and> int (card {j. j < i \<and> opensAfter (brKey rule) (brLast rule) (s # ss) j}) < brN rule)"
      using False r(3) unfolding list.size add_Suc_right Ex_less_Suc2 by (auto simp: opensAfter_Cons opens_card_Cons)
    finally show ?thesis .
  qed
qed simp

lemma opensPeriod_after:
  assumes "key (snTime (hd ss)) \<noteq> l" "i < length ss"
  shows "opensAfter key l ss i \<longleftrightarrow> opensPeriod key ss i"
  using assms by (cases ss) (auto simp: opensAfter_def opensPeriod_def)

definition bucketed :: "int \<Rightarrow> (gotime \<Rightarrow> int) \<Rightarrow> snapshot list \<Rightarrow> nat \<Rightarrow> bool" where
  "bucketed n key ss i \<longleftrightarrow> opensPeriod key ss i \<and> int (card {j. j < i \<and> opensPeriod key ss j}) < n"

lemma ruleKept_bucketed:
  assumes "brKey rule (snTime (hd ss)) \<noteq> brLast rule"
  shows "t \<in> set (ruleKept rule ss) \<longleftrightarrow> (\<exists>i < length ss. ss ! i = t \<and> bucketed (brN rule) (brKey rule) ss i)"
proof -
  have "{j. j < i \<and> opensAfter (brKey rule) (brLast rule) ss j} = {j. j < i \<and> opensPeriod (brKey rule) ss j}"
    if "i < length ss" for i
    using that opensPeriod_after [of "brKey rule" ss "brLast rule", OF assms] by auto
  then show ?thesis
    unfolding ruleKept_iff bucketed_def using opensPeriod_after [of "brKey rule" ss "brLast rule", OF assms] by auto
qed

lemma ruleKept_sub: "set (ruleKept rule ss) \<subseteq> set ss"
  by (induction ss arbitrary: rule) auto

lemma dom_bucketKeep_sub: "dom (bucketKeep ss r loc) \<subseteq> snID ` set ss"
  by (simp add: bucketKeep_def dom_bucketLoop UN_subset_iff image_mono ruleKept_sub)

text \<open>C37: on snapshots with different ids, newest first, the retention rules keep exactly the
  snapshots that open a day, ISO week, month or year of the zone among the first daily, weekly,
  monthly and yearly counts of such periods: a period without a snapshot is not counted, and only the
  newest snapshot of a period is kept for it.  The hypothesis says that no key of the first
  snapshot is the value -1 the loop starts from (no year is).\<close>

theorem bucketKeep_exact:
  assumes "distinct (map snID ss)" "i < length ss"
    and "list_all (\<lambda>key. key loc (snTime (hd ss)) \<noteq> -1) [dayKey, weekKey, monthKey, yearKey]"
  shows "snID (ss ! i) \<in> dom (bucketKeep ss r loc) \<longleftrightarrow>
    bucketed (rtDaily r) (dayKey loc) ss i \<or> bucketed (rtWeekly r) (weekKey loc) ss i
    \<or> bucketed (rtMonthly r) (monthKey loc) ss i \<or> bucketed (rtYearly r) (yearKey loc) ss i"
proof -
  have nth: "(\<exists>j < length ss. ss ! j = ss ! i \<and> Q j) \<longleftrightarrow> Q i" for Q
    using assms(1,2) nth_eq_iff_index_eq [of ss _ i] by (auto simp: distinct_map)
  have rule: "snID (ss ! i) \<in> snID ` set (ruleKept rule ss) \<longleftrightarrow> bucketed (brN rule) (brKey rule) ss i"
    if "brKey rule (snTime (hd ss)) \<noteq> brLast rule" for rule
  proof -
    have "snID (ss ! i) \<in> snID ` set (ruleKept rule ss) \<longleftrightarrow> ss ! i \<in> set (ruleKept rule ss)"
      using assms(1,2) ruleKept_sub by (intro inj_on_image_mem_iff [of snID "set ss"]) (simp_all add: distinct_map)
    then show ?thesis using ruleKept_bucketed [OF that] nth by simp
  qed
  have start: "brKey rule (snTime (hd ss)) \<noteq> brLast rule" if "rule \<in> set (bucketRules r loc)" for rule
    using that assms(3) by (auto simp: bucketRules_def)
  have "snID (ss ! i) \<in> dom (bucketKeep ss r loc) \<longleftrightarrow>
      (\<exists>rule \<in> set (bucketRules r loc). bucketed (brN rule) (brKey rule) ss i)"
    unfolding bucketKeep_def dom_bucketLoop dom_empty Un_empty_left UN_iff
    using rule [OF start] by (rule bex_cong [OF refl])
  then show ?thesis by (simp add: bucketRules_def)
qed

text \<open>Two snapshots of the first day of 1970, one daily snapshot kept.\<close>

definition exSnapshots :: "snapshot list" where
  "exSnapshots = [\<lparr>snID = ''bb'', snTime = 7200000000000, snTags = []\<rparr>,
                  \<lparr>snID = ''aa'', snTime = 3600000000000, snTags = []\<rparr>]"

definition exDaily :: retention where
  "exDaily = \<lparr>rtDaily = 1, rtWeekly = 0, rtMonthly = 0, rtYearly = 0\<rparr>"

lemma exSnapshots_day:
  "localDay UTC 7200000000000 = 0" "localDay UTC 3600000000000 = 0" "civil 0 = (1970, 1, 1)" "isoWeek 0 = (1970, 1)"
  by code_simp+

theorem bucketKeep_exact_witness:
  "''bb'' \<in> dom (bucketKeep exSnapshots exDaily UTC) \<and> ''aa'' \<notin> dom (bucketKeep exSnapshots exDaily UTC)"
proof -
  have keys: "list_all (\<lambda>key. key UTC (snTime (hd exSnapshots)) \<noteq> -1) [dayKey, weekKey, monthKey, yearKey]"
    and ids: "distinct (map snID exSnapshots)"
    by (simp_all add: exSnapshots_def dayKey_def weekKey_def monthKey_def yearKey_def exSnapshots_day)
  have "bucketed (rtDaily exDaily) (dayKey UTC) exSnapshots 0"
    "\<not> bucketed (rtDaily exDaily) (dayKey UTC) exSnapshots 1"
    by (simp_all add: bucketed_def opensPeriod_def exDaily_def exSnapshots_def dayKey_def exSnapshots_day)
  moreover have "\<not> bucketed 0 key exSnapshots i" for key i by (simp add: bucketed_def)
  ultimately show ?thesis
    using bucketKeep_exact [of exSnapshots 0 UTC exDaily] bucketKeep_exact [of exSnapshots 1 UTC exDaily] keys ids
    by (simp add: exSnapshots_def exDaily_def)
qed

section \<open>The forget list of the retention job\<close>

definition mediaKept :: "keepInput \<Rightarrow> tagGroup \<Rightarrow> keepMap" where
  "mediaKept x g =
     bucketKeep (filter (\<lambda>s. isComplete x (snID s)) (newestFirst (groupOf x g))) (kiRetention x) (zoneOf x)"

lemma dom_fold_mark: "dom (fold (\<lambda>s. mark (snID s) why) ss keep) = dom keep \<union> snID ` set ss"
  by (induction ss arbitrary: keep) auto

lemma groups_disjoint:
  "s \<in> set (groupOf x g) \<Longrightarrow> t \<in> set (groupOf x h) \<Longrightarrow> g \<noteq> h \<Longrightarrow> snID s \<noteq> snID t"
  using member_inj [of x g s t] member_group [of x g t h] by (auto simp: groupOf_def)

lemma dom_mediaKept: "dom (mediaKept x g) \<subseteq> snID ` set (groupOf x g)"
  using dom_bucketKeep_sub unfolding mediaKept_def by fastforce

lemma keepGroup_frame:
  assumes "i \<notin> snID ` set (groupOf x g)"
  shows "i \<in> dom (snd (keepGroup x (g, newestFirst (groupOf x g)) st)) \<longleftrightarrow> i \<in> dom (snd st)"
  using assms dom_mediaKept [of x g]
  by (auto simp: keepGroup_def Let_def dom_fold_mark mediaKept_def simp del: domIff simp flip: not_None_eq)

lemma keepGroup_cands:
  "set (fst (keepGroup x (g, newestFirst (groupOf x g)) st)) = set (fst st) \<union>
     {s \<in> set (groupOf x g). gKind g = VersionMedia \<and> snID s \<notin> dom (snd st) \<and> snID s \<notin> dom (mediaKept x g)}"
  by (auto simp: keepGroup_def Let_def mediaKept_def map_add_None)

lemma fold_keepGroup:
  assumes "\<And>g snaps. (g, snaps) \<in> set gs \<Longrightarrow> snaps = newestFirst (groupOf x g)" "distinct (map fst gs)"
  shows "set (fst (fold (keepGroup x) gs st)) = set (fst st) \<union>
     {s. \<exists>g \<in> fst ` set gs. s \<in> set (groupOf x g) \<and> gKind g = VersionMedia
        \<and> snID s \<notin> dom (snd st) \<and> snID s \<notin> dom (mediaKept x g)}"
  using assms
proof (induction gs arbitrary: st)
  case (Cons h gs)
  obtain g where h: "h = (g, newestFirst (groupOf x g))" using Cons.prems(1) [of "fst h" "snd h"] by (cases h) auto
  let ?st = "keepGroup x h st"
  have frame: "snID s \<in> dom (snd ?st) \<longleftrightarrow> snID s \<in> dom (snd st)"
    if "k \<in> fst ` set gs" "s \<in> set (groupOf x k)" for k s
  proof -
    have "k \<noteq> g" using Cons.prems(2) that(1) by (auto simp: h)
    then have "snID s \<notin> snID ` set (groupOf x g)" using groups_disjoint [OF that(2)] by blast
    then show ?thesis unfolding h by (rule keepGroup_frame)
  qed
  have "set (fst (fold (keepGroup x) gs ?st)) = set (fst ?st) \<union>
     {s. \<exists>g \<in> fst ` set gs. s \<in> set (groupOf x g) \<and> gKind g = VersionMedia
        \<and> snID s \<notin> dom (snd ?st) \<and> snID s \<notin> dom (mediaKept x g)}"
    by (rule Cons.IH) (use Cons.prems in auto)
  also have "{s. \<exists>g \<in> fst ` set gs. s \<in> set (groupOf x g) \<and> gKind g = VersionMedia
        \<and> snID s \<notin> dom (snd ?st) \<and> snID s \<notin> dom (mediaKept x g)} =
      {s. \<exists>g \<in> fst ` set gs. s \<in> set (groupOf x g) \<and> gKind g = VersionMedia
        \<and> snID s \<notin> dom (snd st) \<and> snID s \<notin> dom (mediaKept x g)}"
    using frame by blast
  finally show ?case by (auto simp: h keepGroup_cands)
qed simp

lemma KeepMedia_set:
  "set (fst (KeepMedia x)) = snID ` {s. \<exists>g. s \<in> set (groupOf x g) \<and> gKind g = VersionMedia
     \<and> \<not> protected x g s \<and> snID s \<notin> dom (mediaKept x g)}"
proof -
  let ?st = "([] :: snapshot list, kpKeep (protect x))"
  have "set (fst (fold (keepGroup x) (kpGroups (protect x)) ?st)) = set (fst ?st) \<union>
     {s. \<exists>g \<in> fst ` set (kpGroups (protect x)). s \<in> set (groupOf x g) \<and> gKind g = VersionMedia
        \<and> snID s \<notin> dom (snd ?st) \<and> snID s \<notin> dom (mediaKept x g)}"
    by (intro fold_keepGroup protect_groups_distinct) (simp add: protect_groups)
  also have "\<dots> = {s. \<exists>g. s \<in> set (groupOf x g) \<and> gKind g = VersionMedia
     \<and> \<not> protected x g s \<and> snID s \<notin> dom (mediaKept x g)}"
    unfolding protect_groups_fst Bex_def using protected_iff [of _ x] by fastforce
  finally show ?thesis by (simp add: KeepMedia_def Let_def del: domIff)
qed

text \<open>C5: the retention job forgets exactly the snapshots of media groups of this destination row
  that nothing protects (newest, newest complete, base, reference, orphan group, future date, record
  of another source) and that no daily, weekly, monthly or yearly rule keeps among the complete
  snapshots of their group.  In particular a snapshot that is listed twice, has no id or has tags
  of no group of this row is never forgotten.\<close>

theorem KeepMedia_exact:
  "i \<in> set (fst (KeepMedia x)) \<longleftrightarrow>
     (\<exists>g s. s \<in> set (groupOf x g) \<and> snID s = i \<and> gKind g = VersionMedia \<and> \<not> protected x g s
        \<and> i \<notin> dom (bucketKeep (filter (\<lambda>t. isComplete x (snID t)) (newestFirst (groupOf x g)))
                     (kiRetention x) (zoneOf x)))"
  unfolding KeepMedia_set mediaKept_def by blast

section \<open>Requests\<close>

lemma filterLoop_exact:
  assumes "filterLoop p media seen forget dropped req = (f, d)"
    and "set forget \<union> dom dropped = seen" "set forget \<inter> dom dropped = {}" "distinct forget"
  shows "set f = set forget \<union> {i \<in> set req - seen. i \<in> kpListed p \<and> kpKeep p i = None \<and> i \<notin> media}
    \<and> set f \<union> dom d = seen \<union> set req \<and> set f \<inter> dom d = {} \<and> distinct f"
  using assms
proof (induction req arbitrary: seen forget dropped)
  case Nil
  then show ?case by auto
next
  case (Cons i req)
  let ?ok = "i \<in> kpListed p \<and> kpKeep p i = None \<and> i \<notin> media"
  consider (seen) "i \<in> seen"
    | (forget) "i \<notin> seen" ?ok "filterLoop p media (insert i seen) (forget @ [i]) dropped req = (f, d)"
    | (drop) why where "i \<notin> seen" "\<not> ?ok"
        "filterLoop p media (insert i seen) forget (dropped(i \<mapsto> why)) req = (f, d)"
    using Cons.prems(1) by (simp split: if_splits option.splits)
  then show ?case
  proof cases
    case seen
    with Cons.prems(1) have "filterLoop p media seen forget dropped req = (f, d)" by simp
    from Cons.IH [OF this Cons.prems(2-4)] seen show ?thesis by auto
  next
    case forget
    have "set (forget @ [i]) \<union> dom dropped = insert i seen" "set (forget @ [i]) \<inter> dom dropped = {}"
      "distinct (forget @ [i])" using Cons.prems(2-4) forget(1) by auto
    from Cons.IH [OF forget(3) this] forget(1,2) show ?thesis by auto
  next
    case (drop why)
    have "set forget \<union> dom (dropped(i \<mapsto> why)) = insert i seen" "set forget \<inter> dom (dropped(i \<mapsto> why)) = {}"
      using Cons.prems(2-3) drop(1) by auto
    from Cons.IH [OF drop(3) this Cons.prems(4)] drop(1,2) show ?thesis by auto
  qed
qed

lemma mem_concat_if:
  "i \<in> set (concat (map (\<lambda>gs. if P (fst gs) then map f (snd gs) else []) gs)) \<longleftrightarrow>
     (\<exists>g ss. (g, ss) \<in> set gs \<and> P g \<and> i \<in> f ` set ss)"
proof -
  have "(\<exists>p \<in> set gs. i \<in> set (if P (fst p) then map f (snd p) else [])) \<longleftrightarrow>
      (\<exists>p \<in> set gs. P (fst p) \<and> i \<in> f ` set (snd p))" by (intro bex_cong) auto
  then show ?thesis unfolding set_concat set_map UN_iff image_iff by (auto simp: image_iff) force+
qed

lemma requestable:
  assumes media: "media = set (concat (map (\<lambda>gs. if gKind (fst gs) = VersionMedia then map snID (snd gs) else [])
      (kpGroups (protect x))))"
  shows "i \<in> kpListed (protect x) \<and> kpKeep (protect x) i = None \<and> i \<notin> media \<longleftrightarrow>
    (\<exists>g s. s \<in> set (groupOf x g) \<and> snID s = i \<and> gKind g \<noteq> VersionMedia \<and> \<not> protected x g s)"
proof -
  have media_iff: "i \<in> media \<longleftrightarrow> (\<exists>g s. s \<in> set (groupOf x g) \<and> snID s = i \<and> gKind g = VersionMedia)" for i
    unfolding media mem_concat_if [where P = "\<lambda>g. gKind g = VersionMedia" and f = snID] protect_groups
    by (auto simp: image_iff) (metis empty_iff empty_set)
  show ?thesis
  proof
    assume a: "i \<in> kpListed (protect x) \<and> kpKeep (protect x) i = None \<and> i \<notin> media"
    then obtain s where s: "s \<in> set (kiSnapshots x)" "snID s = i" by (auto simp: protect_listed)
    have "i \<notin> snID ` {s \<in> set (kiSnapshots x). \<forall>g. \<not> memberOf x g s}" using a dom_protect [of x] by blast
    with s obtain g where "memberOf x g s" by blast
    with s have "s \<in> set (groupOf x g)" by (simp add: groupOf_def)
    with s a media_iff protected_iff [of s x g]
    show "\<exists>g s. s \<in> set (groupOf x g) \<and> snID s = i \<and> gKind g \<noteq> VersionMedia \<and> \<not> protected x g s" by blast
  next
    assume "\<exists>g s. s \<in> set (groupOf x g) \<and> snID s = i \<and> gKind g \<noteq> VersionMedia \<and> \<not> protected x g s"
    then obtain g s where s: "s \<in> set (groupOf x g)" "snID s = i" "gKind g \<noteq> VersionMedia" "\<not> protected x g s" by blast
    then have "i \<notin> media" using media_iff groups_disjoint [OF s(1)] by metis
    moreover have "i \<notin> dom (kpKeep (protect x))" using protected_iff [OF s(1)] s(2,4) by simp
    moreover have "i \<in> kpListed (protect x)" using s(1,2) by (auto simp: protect_listed groupOf_def)
    ultimately show "i \<in> kpListed (protect x) \<and> kpKeep (protect x) i = None \<and> i \<notin> media" by blast
  qed
qed

text \<open>C38: a request forgets exactly the requested config version snapshots (of a Plex database, an
  *arr or a manifest group) that nothing protects; every other requested id is dropped with a
  reason, and no id is forgotten twice.\<close>

theorem FilterForget_exact:
  "set (fst (FilterForget x req)) = {i \<in> set req. \<exists>g s. s \<in> set (groupOf x g) \<and> snID s = i
       \<and> gKind g \<noteq> VersionMedia \<and> \<not> protected x g s}
    \<and> dom (snd (FilterForget x req)) = set req - set (fst (FilterForget x req))
    \<and> distinct (fst (FilterForget x req))"
proof -
  obtain f d where fd: "FilterForget x req = (f, d)" by (cases "FilterForget x req")
  obtain media where media: "media = set (concat (map (\<lambda>gs. if gKind (fst gs) = VersionMedia then map snID (snd gs) else [])
      (kpGroups (protect x))))" by blast
  have loop: "filterLoop (protect x) media {} [] Map.empty req = (f, d)"
    using fd by (simp add: FilterForget_def Let_def media)
  have "set [] \<union> dom Map.empty = ({} :: string set)" "set [] \<inter> dom Map.empty = ({} :: string set)" "distinct ([] :: string list)"
    by simp_all
  from filterLoop_exact [OF loop this]
  have all: "set f = {i \<in> set req. i \<in> kpListed (protect x) \<and> kpKeep (protect x) i = None \<and> i \<notin> media}
      \<and> set f \<union> dom d = set req \<and> set f \<inter> dom d = {} \<and> distinct f"
    unfolding set_simps(1) dom_empty Un_empty_left Diff_empty .
  then have "set f = {i \<in> set req. i \<in> kpListed (protect x) \<and> kpKeep (protect x) i = None \<and> i \<notin> media}"
    and rest: "set f \<union> dom d = set req" "set f \<inter> dom d = {}" "distinct f" by blast+
  then have "set f = {i \<in> set req. \<exists>g s. s \<in> set (groupOf x g) \<and> snID s = i
       \<and> gKind g \<noteq> VersionMedia \<and> \<not> protected x g s}" unfolding requestable [OF media] by simp
  moreover have "dom d = set req - set f" using rest(1,2) by blast
  ultimately show ?thesis using rest(3) by (simp add: fd)
qed

end
