(* ===== verification/DestRecords.thy ===== *)
theory DestRecords
  imports JobParams
begin

text \<open>
  The records of what is at a destination (\<open>Record\<close>, \<open>State\<close> of internal/syncer/store.go) and the
  parts of the copy engine that the planner calls (internal/engines/filecopy): the capabilities of
  a destination, the check of a name, and the comparison of modification times.
\<close>

section \<open>Records\<close>

datatype recState = StatePresent | StateLinked | StateLinkRecorded | StateMissing | StateRetained

fun Live :: "recState \<Rightarrow> bool" where
  "Live StateRetained = False"
| "Live _ = True"

record destRecord =
  drID :: ident
  drDestinationID :: ident
  drSourceID :: ident
  drRelPath :: string
  drSourceRelPath :: string
  drSize :: int
  drMtimeNs :: int
  drHash :: string
  drLinkOf :: ident
  drState :: recState
  drRetainedPath :: string
  drReason :: string
  drJobID :: ident
  drCopiedAt :: "gotime option"
  drVerifiedAt :: "gotime option"
  drRetainedAt :: "gotime option"
  drExpiresAt :: "gotime option"
  drEngineRef :: string
  drHeadTail :: string

section \<open>Capabilities and names\<close>

text \<open>The fields of \<open>Capabilities\<close> the planner reads.\<close>

record capabilities =
  capCaseInsensitive :: bool
  capInvalidChars :: string
  capTrailingDotSpace :: bool
  capMtimeGranularityNs :: int

definition MetaDir :: string where "MetaDir = ''.bunkarr''"
definition TempPrefix :: string where "TempPrefix = ''.bunkarr-tmp-''"
definition MaxNameBytes :: nat where "MaxNameBytes = 255"
definition MaxPathBytes :: nat where "MaxPathBytes = 4000"

datatype nameError = EmptyPath | PathTooLong nat | EmptyComponent | RelativeComponent string
  | ReservedMetaDir | ReservedTempName | NameTooLong string | NameHasNUL | InvalidChar char
  | TrailingDotOrSpace string | ForeignName string | CaseCollision string string

text \<open>One component of a path; \<open>first\<close> marks the first one.  The length in UTF-16 units is never
  more than the length in bytes, so the second test of the code adds nothing; the invalid characters
  are ASCII, so a byte of the name is one of them iff a rune is.\<close>

definition checkComponent :: "capabilities \<Rightarrow> bool \<Rightarrow> string \<Rightarrow> nameError option" where
  "checkComponent caps isFirst w =
     (if w = [] then Some EmptyComponent
      else if w = ''.'' \<or> w = ''..'' then Some (RelativeComponent w)
      else if isFirst \<and> w = MetaDir then Some ReservedMetaDir
      else if take (length TempPrefix) w = TempPrefix then Some ReservedTempName
      else if length w > MaxNameBytes then Some (NameTooLong w)
      else if CHR 0x00 \<in> set w then Some NameHasNUL
      else (case find (\<lambda>c. c \<in> set (capInvalidChars caps)) w of
              Some c \<Rightarrow> Some (InvalidChar c)
            | None \<Rightarrow>
                if \<not> capTrailingDotSpace caps \<and> last w \<in> set ''. '' then Some (TrailingDotOrSpace w)
                else None))"

fun checkComponents :: "capabilities \<Rightarrow> bool \<Rightarrow> string list \<Rightarrow> nameError option" where
  "checkComponents caps isFirst [] = None"
| "checkComponents caps isFirst (c # cs) =
     (case checkComponent caps isFirst c of Some e \<Rightarrow> Some e | None \<Rightarrow> checkComponents caps False cs)"

definition NameCheck :: "string \<Rightarrow> capabilities \<Rightarrow> nameError option" where
  "NameCheck rel caps =
     (if rel = [] then Some EmptyPath
      else if length rel > MaxPathBytes then Some (PathTooLong (length rel))
      else checkComponents caps True (splitSlash rel))"

definition MtimeMatch :: "int \<Rightarrow> int \<Rightarrow> int \<Rightarrow> int \<Rightarrow> bool" where
  "MtimeMatch a b granularityNs windowSec =
     (let d0 = wrap64 (a - b);
          d = (if d0 < 0 then wrap64 (- d0) else d0);
          g = (if granularityNs < 1 then 1 else granularityNs)
      in d < g \<or> d \<le> wrap64 (windowSec * 1000000000))"

text \<open>\<open>path.Join\<close> of two elements.\<close>

definition pathJoin :: "string \<Rightarrow> string \<Rightarrow> string" where
  "pathJoin a b =
     (if a = [] \<and> b = [] then []
      else if a = [] then pathClean b
      else if b = [] then pathClean a
      else pathClean (a @ CHR ''/'' # b))"

end
