(* ===== verification/SyncPlan.thy ===== *)
theory SyncPlan
  imports DestRecords Tiers
begin

text \<open>
  The planner of one source of a sync (internal/syncer/plan.go, and its tier part in
  internal/syncer/tiers.go): it compares the live files of the source's catalog with the live
  records of the destination and plans promotes, moves, copies, updates, adoptions, links, retains
  and releases.

  Pointers.  The code links items by pointer (\<open>after\<close>, \<open>itemOf\<close>, \<open>promoteFor\<close>); the model
  numbers the items in the order in which they are made (\<open>piNo\<close>) and links them by number.  A file
  of the plan is known by its path, a record by its id; both are unique.

  The filesystems are read only: \<open>planFS\<close> gives the head/tail hashes and the stat of a path, or an
  error of one of the two classes of \<open>filecopy.Classify\<close>.  The case folding of Unicode is a
  parameter (\<open>cfFoldKey\<close>).  A cancelled job leaves the planner with an error and plans nothing; the
  model is of a job that is not cancelled.
\<close>

section \<open>Files, items and details\<close>

record planFile =
  pfID :: ident
  pfRel :: string
  pfSize :: int
  pfMtimeNs :: int
  pfGroup :: string
  pfRec :: "destRecord option"
  pfUnchanged :: bool
  pfDec :: "decision option"
  pfReplaced :: bool

datatype itemAction = ActionCopy | ActionUpdate | ActionMove | ActionAdopt | ActionLink
  | ActionPromote | ActionRetain | ActionExpire | ActionVerify | ActionBackup | ActionSkip

datatype itemStatus = ItemPending | ItemDone | ItemFailed | ItemSkipped | ItemHeld

text \<open>The note of a dry run's skip item says why with the decision's summary.\<close>

datatype itemNote = NoNote | NoteKept decision | NoteNotCopied decision

text \<open>The fields of \<open>Detail\<close> the planner writes.\<close>

record detail =
  deSourceID :: ident
  deSource :: string
  deSize :: int
  deMtimeNs :: int
  deGroup :: string
  deRecordID :: ident
  deOldSize :: int
  deFrom :: string
  deFromSource :: string
  dePrimary :: string
  deTargetID :: ident
  deFor :: string
  deReason :: string
  deDisplace :: bool
  deTier :: "decision option"
  deTierRevision :: int
  deNote :: itemNote
  deLostLinks :: "ident list"
  deRetainedPath :: string
  deCheck :: string

definition zeroDetail :: detail where
  "zeroDetail =
     \<lparr>deSourceID = 0, deSource = [], deSize = 0, deMtimeNs = 0, deGroup = [], deRecordID = 0, deOldSize = 0,
      deFrom = [], deFromSource = [], dePrimary = [], deTargetID = 0, deFor = [], deReason = [],
      deDisplace = False, deTier = None, deTierRevision = 0, deNote = NoNote, deLostLinks = [], deRetainedPath = [], deCheck = []\<rparr>"

datatype itemMsg = NoMsg | MsgName nameError | MsgNotRegular string | MsgMassChange
  | MsgTruncated int int | MsgWith string itemAction

text \<open>\<open>piStatus\<close> is no value for the empty status of an item just planned.\<close>

record planItem =
  piNo :: nat
  piAction :: itemAction
  piRel :: string
  piFileID :: ident
  piBytes :: int
  piD :: detail
  piStatus :: "itemStatus option"
  piErrMsg :: itemMsg
  piChange :: bool
  piShrink :: bool
  piUnknownWhy :: string
  piAfter :: "nat option"

section \<open>Configuration\<close>

datatype fsError = FsFatal | FsItem

record fileStat =
  stSize :: int
  stMtimeNs :: int
  stRegular :: bool

datatype adoptMode = AdoptSizeMtime | AdoptSizeHash | AdoptOff

text \<open>The destination settings the planner and the mass-change guard read.\<close>

record syncSettings =
  ssAdoptExisting :: adoptMode
  ssMtimeWindowSec :: int
  ssMaxChangePercent :: int
  ssMaxChangeFiles :: int

record releasedRecord =
  wrSourceID :: ident
  wrRelPath :: string
  wrSourceRelPath :: string
  wrSize :: int
  wrMtimeNs :: int

record releasePlan =
  rpAll :: bool
  rpAllowed :: "ident \<rightharpoonup> releasedRecord"
  rpRevision :: int

record plannerCfg =
  cfSourceID :: ident
  cfDestFolder :: string
  cfCaps :: capabilities
  cfSettings :: syncSettings
  cfSourceHeadTail :: "string \<Rightarrow> fsError + string"
  cfDestHeadTail :: "string \<Rightarrow> fsError + string"
  cfDestStat :: "string \<Rightarrow> fsError + fileStat option"
  cfTargeted :: bool
  cfDryRun :: bool
  cfRelease :: "releasePlan option"
  cfArrAdded :: "(string \<Rightarrow> gotime option) option"
  cfUpdateKept :: bool
  cfFoldKey :: "string \<Rightarrow> string"

definition destPath :: "plannerCfg \<Rightarrow> string \<Rightarrow> string" where
  "destPath c rel = pathJoin (cfDestFolder c) rel"

definition mtimeEqual :: "plannerCfg \<Rightarrow> int \<Rightarrow> int \<Rightarrow> bool" where
  "mtimeEqual c a b = MtimeMatch a b (capMtimeGranularityNs (cfCaps c)) 0"

definition full :: "planFile \<Rightarrow> bool" where
  "full f = (case pfDec f of None \<Rightarrow> True | Some d \<Rightarrow> dTier d = Full)"

section \<open>Names\<close>

record nameIndex =
  niForeign :: "string set"
  niFolded :: "string \<rightharpoonup> string"

definition newNameIndex :: nameIndex where
  "newNameIndex = \<lparr>niForeign = {}, niFolded = Map.empty\<rparr>"

definition addName :: "plannerCfg \<Rightarrow> string \<Rightarrow> nameIndex \<Rightarrow> nameIndex" where
  "addName c rel n =
     (if \<not> capCaseInsensitive (cfCaps c) then n
      else (let k = cfFoldKey c rel in
            case niFolded n k of None \<Rightarrow> n\<lparr>niFolded := (niFolded n)(k \<mapsto> rel)\<rparr> | Some _ \<Rightarrow> n))"

definition addRecord :: "plannerCfg \<Rightarrow> string \<Rightarrow> bool \<Rightarrow> nameIndex \<Rightarrow> nameIndex" where
  "addRecord c rel foreign n =
     addName c rel (if foreign then n\<lparr>niForeign := insert rel (niForeign n)\<rparr> else n)"

definition checkName :: "plannerCfg \<Rightarrow> nameIndex \<Rightarrow> string \<Rightarrow> string \<Rightarrow> nameError option" where
  "checkName c n rel self =
     (case NameCheck rel (cfCaps c) of
        Some e \<Rightarrow> Some e
      | None \<Rightarrow>
          if rel \<in> niForeign n then Some (ForeignName rel)
          else if capCaseInsensitive (cfCaps c)
          then (case niFolded n (cfFoldKey c rel) of
                  None \<Rightarrow> None
                | Some other \<Rightarrow> if other \<noteq> rel \<and> other \<noteq> self then Some (CaseCollision rel other) else None)
          else None)"

section \<open>The planner's state\<close>

record tierCount =
  tcFiles :: int
  tcBytes :: int

definition addCount :: "int \<Rightarrow> tierCount \<Rightarrow> tierCount" where
  "addCount sz c = c\<lparr>tcFiles := tcFiles c + 1, tcBytes := tcBytes c + sz\<rparr>"

record planState =
  psNext :: nat
  psPromotes :: "planItem list"
  psMoves :: "planItem list"
  psPuts :: "planItem list"
  psLinks :: "planItem list"
  psRetains :: "planItem list"
  psReleases :: "planItem list"
  psSkips :: "planItem list"
  psLinkItems :: "(nat \<times> string) list"
  psItemOf :: "string \<rightharpoonup> nat"
  psPromoteFor :: "ident \<rightharpoonup> nat"
  psPromoteTarget :: "ident set"
  psNeedRepair :: "ident set"
  psLost :: "ident \<Rightarrow> ident list"
  psDeferred :: int
  psNames :: nameIndex
  psWarnings :: "itemMsg list"
  psNonFullNew :: "planFile list"
  psTierKept :: tierCount
  psReleasedCount :: tierCount
  psStaleFiles :: int

definition initState :: "nameIndex \<Rightarrow> planState" where
  "initState names =
     \<lparr>psNext = 0, psPromotes = [], psMoves = [], psPuts = [], psLinks = [], psRetains = [], psReleases = [],
      psSkips = [], psLinkItems = [], psItemOf = Map.empty, psPromoteFor = Map.empty, psPromoteTarget = {},
      psNeedRepair = {}, psLost = (\<lambda>_. []), psDeferred = 0, psNames = names, psWarnings = [],
      psNonFullNew = [], psTierKept = \<lparr>tcFiles = 0, tcBytes = 0\<rparr>,
      psReleasedCount = \<lparr>tcFiles = 0, tcBytes = 0\<rparr>, psStaleFiles = 0\<rparr>"

definition mkItem :: "planState \<Rightarrow> itemAction \<Rightarrow> string \<Rightarrow> ident \<Rightarrow> int \<Rightarrow> detail \<Rightarrow> planItem" where
  "mkItem s act rel fileID bytes d =
     \<lparr>piNo = psNext s, piAction = act, piRel = rel, piFileID = fileID, piBytes = bytes, piD = d,
      piStatus = None, piErrMsg = NoMsg, piChange = False, piShrink = False, piUnknownWhy = [], piAfter = None\<rparr>"

definition failItem :: "itemMsg \<Rightarrow> planItem \<Rightarrow> planItem" where
  "failItem m it = it\<lparr>piStatus := Some ItemFailed, piErrMsg := m\<rparr>"

text \<open>Assignment through the pointer of an item.\<close>

definition setAfter :: "nat \<Rightarrow> nat option \<Rightarrow> planItem list \<Rightarrow> planItem list" where
  "setAfter n after its = map (\<lambda>it. if piNo it = n then it\<lparr>piAfter := after\<rparr> else it) its"

section \<open>Files and records\<close>

definition recBySrc :: "destRecord list \<Rightarrow> string \<Rightarrow> destRecord option" where
  "recBySrc recs rel = find (\<lambda>r. drSourceRelPath r = rel) (rev recs)"

definition fileByRel :: "planFile list \<Rightarrow> string \<Rightarrow> planFile option" where
  "fileByRel fs rel = find (\<lambda>f. pfRel f = rel) (rev fs)"

text \<open>The live dependents of a primary.\<close>

definition depsOf :: "destRecord list \<Rightarrow> ident \<Rightarrow> destRecord list" where
  "depsOf recs i = filter (\<lambda>d. drLinkOf d \<noteq> 0 \<and> drLinkOf d = i) recs"

record replaceCheck =
  rkID :: ident
  rkSize :: int
  rkMtimeNs :: int
  rkCopiedAt :: gotime
  rkAdded :: gotime

text \<open>Whether an unchanged file was replaced in place, and the check to remember when it was not.\<close>

definition replacedInPlace :: "plannerCfg \<Rightarrow> planFile \<Rightarrow> bool \<times> replaceCheck option" where
  "replacedInPlace c f =
     (case (cfArrAdded c, pfRec f) of
        (Some arrAdded, Some r) \<Rightarrow>
          (case (drState r, drCopiedAt r, arrAdded (pfRel f)) of
             (StatePresent, Some copied, Some added) \<Rightarrow>
               if \<not> added > copied then (False, None)
               else (case (cfSourceHeadTail c (pfRel f), cfDestHeadTail c (drRelPath r)) of
                       (Inr sh, Inr dh) \<Rightarrow>
                         if sh \<noteq> dh then (True, None)
                         else (False, Some \<lparr>rkID = drID r, rkSize = drSize r, rkMtimeNs = drMtimeNs r,
                                            rkCopiedAt = copied, rkAdded = added\<rparr>)
                     | _ \<Rightarrow> (False, None))
           | _ \<Rightarrow> (False, None))
      | _ \<Rightarrow> (False, None))"

definition unchangedBy :: "plannerCfg \<Rightarrow> destRecord \<Rightarrow> planFile \<Rightarrow> bool" where
  "unchangedBy c r f \<longleftrightarrow> drState r \<noteq> StateMissing \<and> drSize r = pfSize f \<and> mtimeEqual c (drMtimeNs r) (pfMtimeNs f)"

definition annotate :: "plannerCfg \<Rightarrow> destRecord list \<Rightarrow> planFile \<Rightarrow> planFile" where
  "annotate c recs f =
     (case recBySrc recs (pfRel f) of
        None \<Rightarrow> f
      | Some r \<Rightarrow>
          (let g = f\<lparr>pfRec := Some r, pfUnchanged := unchangedBy c r f\<rparr>
           in if pfUnchanged g \<and> full g \<and> fst (replacedInPlace c g)
              then g\<lparr>pfUnchanged := False, pfReplaced := True\<rparr> else g))"

text \<open>The checks a real run remembers.\<close>

definition replaceChecked :: "plannerCfg \<Rightarrow> destRecord list \<Rightarrow> planFile list \<Rightarrow> replaceCheck list" where
  "replaceChecked c recs fs =
     List.map_filter
       (\<lambda>f. case recBySrc recs (pfRel f) of
              None \<Rightarrow> None
            | Some r \<Rightarrow> (let g = f\<lparr>pfRec := Some r, pfUnchanged := unchangedBy c r f\<rparr>
                         in if pfUnchanged g \<and> full g then snd (replacedInPlace c g) else None)) fs"

record tierStats =
  tsFull :: tierCount
  tsManifest :: tierCount
  tsSkip :: tierCount
  tsUnknownPromoted :: tierCount

definition countTier :: "planFile \<Rightarrow> tierStats \<Rightarrow> tierStats" where
  "countTier f t =
     (case pfDec f of
        None \<Rightarrow> t
      | Some d \<Rightarrow>
          (case dTier d of
             Full \<Rightarrow>
               (let t1 = t\<lparr>tsFull := addCount (pfSize f) (tsFull t)\<rparr>
                in if dUnknownPromoted d then t1\<lparr>tsUnknownPromoted := addCount (pfSize f) (tsUnknownPromoted t1)\<rparr>
                   else t1)
           | Manifest \<Rightarrow> t\<lparr>tsManifest := addCount (pfSize f) (tsManifest t)\<rparr>
           | _ \<Rightarrow> t\<lparr>tsSkip := addCount (pfSize f) (tsSkip t)\<rparr>))"

definition groupFiles :: "planFile list \<Rightarrow> string \<Rightarrow> planFile list" where
  "groupFiles fs g = filter (\<lambda>f. pfGroup f = g) fs"

text \<open>A group with one name is a single file: its other names are outside the source.\<close>

definition ungroup :: "planFile list \<Rightarrow> planFile list" where
  "ungroup fs = map (\<lambda>f. if length (groupFiles fs (pfGroup f)) < 2 then f\<lparr>pfGroup := []\<rparr> else f) fs"

definition indexFiles :: "plannerCfg \<Rightarrow> destRecord list \<Rightarrow> planFile list \<Rightarrow> planFile list" where
  "indexFiles c recs fs = ungroup (map (annotate c recs) fs)"

definition seenIDs :: "planFile list \<Rightarrow> ident set" where
  "seenIDs fs = set (List.map_filter (\<lambda>f. map_option drID (pfRec f)) fs)"

definition vanishedRecs :: "planFile list \<Rightarrow> destRecord list \<Rightarrow> destRecord list" where
  "vanishedRecs fs recs = filter (\<lambda>r. drID r \<notin> seenIDs fs) recs"

section \<open>Moves\<close>

datatype planError = ReadSource string | ReadDestination string | StatDestination string

text \<open>The first candidate whose content is the file's; \<open>srcHash\<close> is the hash once it was read.\<close>

fun pickMove ::
    "plannerCfg \<Rightarrow> planFile \<Rightarrow> ident set \<Rightarrow> string option \<Rightarrow> destRecord list \<Rightarrow> planError + destRecord option" where
  "pickMove c f moved srcHash [] = Inr None"
| "pickMove c f moved srcHash (v # vs) =
     (if drID v \<in> moved then pickMove c f moved srcHash vs
      else (case (case srcHash of Some h \<Rightarrow> Inr h | None \<Rightarrow> cfSourceHeadTail c (pfRel f)) of
              Inl FsFatal \<Rightarrow> Inl (ReadSource (pfRel f))
            | Inl FsItem \<Rightarrow> Inr None
            | Inr h \<Rightarrow>
                (case cfDestHeadTail c (drRelPath v) of
                   Inl FsFatal \<Rightarrow> Inl (ReadDestination (drRelPath v))
                 | Inl FsItem \<Rightarrow> pickMove c f moved (Some h) vs
                 | Inr dh \<Rightarrow> if dh = h then Inr (Some v) else pickMove c f moved (Some h) vs)))"

definition moveCandidates :: "destRecord list \<Rightarrow> planFile \<Rightarrow> destRecord list" where
  "moveCandidates vanished f =
     filter (\<lambda>v. (drState v = StatePresent \<or> drState v = StateLinked)
                 \<and> drSize v = pfSize f \<and> drMtimeNs v = pfMtimeNs f) vanished"

text \<open>A file without a record that is not another name of a group whose content is elsewhere.\<close>

definition movable :: "planFile list \<Rightarrow> planFile \<Rightarrow> bool" where
  "movable fs f \<longleftrightarrow> pfRec f = None \<and>
     (pfGroup f = [] \<or>
      (let m = groupFiles fs (pfGroup f) in pfRel (hd m) = pfRel f \<and> list_all (\<lambda>x. pfRec x = None) m))"

fun pairLoop ::
    "plannerCfg \<Rightarrow> planFile list \<Rightarrow> destRecord list \<Rightarrow> (string \<times> destRecord) list \<Rightarrow> planFile list
       \<Rightarrow> planError + (string \<times> destRecord) list" where
  "pairLoop c fs vanished mf [] = Inr mf"
| "pairLoop c fs vanished mf (f # rest) =
     (if \<not> movable fs f then pairLoop c fs vanished mf rest
      else (case pickMove c f (set (map (drID \<circ> snd) mf)) None (moveCandidates vanished f) of
              Inl e \<Rightarrow> Inl e
            | Inr None \<Rightarrow> pairLoop c fs vanished mf rest
            | Inr (Some v) \<Rightarrow> pairLoop c fs vanished (mf @ [(pfRel f, v)]) rest))"

definition pairMoves ::
    "plannerCfg \<Rightarrow> planFile list \<Rightarrow> destRecord list \<Rightarrow> planError + (string \<times> destRecord) list" where
  "pairMoves c fs vanished = pairLoop c fs vanished [] fs"

text \<open>Folders that get new content in a targeted sync.\<close>

definition freshDirs :: "planFile list \<Rightarrow> (string \<times> destRecord) list \<Rightarrow> string set" where
  "freshDirs fs mf =
     set (map (\<lambda>f. pathDir (pfRel f))
       (filter (\<lambda>f. map_of mf (pfRel f) \<noteq> None \<or> full f \<and> (pfRec f = None \<or> \<not> pfUnchanged f)) fs))"

section \<open>Items\<close>

definition emitRetain :: "plannerCfg \<Rightarrow> destRecord \<Rightarrow> planState \<Rightarrow> planState" where
  "emitRetain c v s =
     (let it = (mkItem s ActionRetain (drRelPath v) (drID v) (drSize v)
                  (zeroDetail\<lparr>deSourceID := cfSourceID c, deSource := drSourceRelPath v, deRecordID := drID v,
                     deSize := drSize v, deMtimeNs := drMtimeNs v, deReason := ''vanished''\<rparr>))\<lparr>piChange := True\<rparr>
      in s\<lparr>psNext := psNext s + 1, psRetains := psRetains s @ [it]\<rparr>)"

definition emitPromote :: "plannerCfg \<Rightarrow> destRecord \<Rightarrow> destRecord \<Rightarrow> string \<Rightarrow> bool \<Rightarrow> planState \<Rightarrow> planState" where
  "emitPromote c v t forWhat change s =
     (let it = (mkItem s ActionPromote (drRelPath t) (drID v) 0
                  (zeroDetail\<lparr>deSourceID := cfSourceID c, deSource := drSourceRelPath t, deRecordID := drID v,
                     deTargetID := drID t, deFrom := drRelPath v, deFor := forWhat, deSize := drSize v,
                     deMtimeNs := drMtimeNs v, deReason := ''hardlink''\<rparr>))\<lparr>piChange := change\<rparr>
      in s\<lparr>psNext := psNext s + 1, psPromotes := psPromotes s @ [it]\<rparr>)"

definition fileDetail :: "plannerCfg \<Rightarrow> planFile \<Rightarrow> string \<Rightarrow> detail" where
  "fileDetail c f why =
     zeroDetail\<lparr>deSourceID := cfSourceID c, deSource := pfRel f, deSize := pfSize f, deMtimeNs := pfMtimeNs f,
       deGroup := pfGroup f, deReason := why, deTier := pfDec f\<rparr>"

definition shrinks :: "int \<Rightarrow> int \<Rightarrow> bool" where
  "shrinks newSize oldSize \<longleftrightarrow> newSize < oldSize \<and> (newSize = 0 \<or> wrap64 (newSize * 2) < oldSize)"

text \<open>Appends the item that writes a file's content.\<close>

definition putItem :: "planFile \<Rightarrow> planItem \<Rightarrow> planState \<Rightarrow> planState" where
  "putItem f it s =
     s\<lparr>psNext := psNext s + 1, psPuts := psPuts s @ [it], psItemOf := (psItemOf s)(pfRel f \<mapsto> piNo it)\<rparr>"

definition updateFile :: "plannerCfg \<Rightarrow> planFile \<Rightarrow> destRecord \<Rightarrow> planState \<Rightarrow> planState" where
  "updateFile c f r s =
     (let d = (fileDetail c f (if pfReplaced f then ''replaced in place'' else ''changed''))
                \<lparr>deRecordID := drID r, deOldSize := drSize r\<rparr>;
          it = (mkItem s ActionUpdate (drRelPath r) (pfID f) (pfSize f) d)
                 \<lparr>piChange := True, piShrink := shrinks (pfSize f) (drSize r)\<rparr>
      in putItem f it s)"

definition unknownPromoted :: "planFile \<Rightarrow> bool" where
  "unknownPromoted f = (case pfDec f of None \<Rightarrow> False | Some d \<Rightarrow> dUnknownPromoted d)"

definition unknownReason :: "planFile \<Rightarrow> string" where
  "unknownReason f = (case pfDec f of None \<Rightarrow> [] | Some d \<Rightarrow> UnknownWhy d)"

definition repairFile :: "plannerCfg \<Rightarrow> planFile \<Rightarrow> destRecord \<Rightarrow> planState \<Rightarrow> planState" where
  "repairFile c f r s =
     (let d = (fileDetail c f ''repair'')\<lparr>deRecordID := drID r, deOldSize := drSize r\<rparr>;
          it = (mkItem s ActionCopy (drRelPath r) (pfID f) (pfSize f) d)
                 \<lparr>piShrink := shrinks (pfSize f) (drSize r),
                  piUnknownWhy := (if unknownPromoted f then unknownReason f else [])\<rparr>
      in putItem f it s)"

definition moveFile :: "plannerCfg \<Rightarrow> planFile \<Rightarrow> destRecord \<Rightarrow> planState \<Rightarrow> planState" where
  "moveFile c f v s =
     (let dest = destPath c (pfRel f);
          d = (fileDetail c f ''renamed'')
                \<lparr>deRecordID := drID v, deFrom := drRelPath v, deFromSource := drSourceRelPath v\<rparr>;
          it0 = mkItem s ActionMove dest (pfID f) (pfSize f) d;
          s1 = s\<lparr>psNext := psNext s + 1, psItemOf := (psItemOf s)(pfRel f \<mapsto> piNo it0)\<rparr>
      in case checkName c (psNames s) dest (drRelPath v) of
           Some e \<Rightarrow> s1\<lparr>psMoves := psMoves s @ [failItem (MsgName e) it0], psWarnings := psWarnings s @ [MsgName e]\<rparr>
         | None \<Rightarrow> s1\<lparr>psMoves := psMoves s @ [it0], psNames := addName c dest (psNames s)\<rparr>)"

text \<open>The item of a relink of the record \<open>r\<close>; a repair keeps \<open>change\<close> off and says so.\<close>

definition linkFile :: "plannerCfg \<Rightarrow> planFile \<Rightarrow> planFile \<Rightarrow> destRecord option \<Rightarrow> bool \<Rightarrow> planState \<Rightarrow> planState" where
  "linkFile c f prim r isRepair s =
     (let dest = destPath c (pfRel f);
          d0 = (fileDetail c f ''hardlink'')\<lparr>dePrimary := pfRel prim\<rparr>;
          s1 = s\<lparr>psNext := psNext s + 1, psLinkItems := psLinkItems s @ [(psNext s, pfRel prim)]\<rparr>
      in case r of
           Some r1 \<Rightarrow>
             (let d = d0\<lparr>deRecordID := drID r1, deReason := (if isRepair then ''repair'' else ''relink''),
                         deOldSize := (if drState r1 \<noteq> StateMissing then drSize r1 else 0)\<rparr>;
                  it = (mkItem s ActionLink (drRelPath r1) (pfID f) 0 d)
                         \<lparr>piChange := drState r1 \<noteq> StateMissing \<and> \<not> isRepair,
                          piShrink := drState r1 \<noteq> StateMissing \<and> shrinks (pfSize f) (drSize r1)\<rparr>
              in s1\<lparr>psLinks := psLinks s @ [it]\<rparr>)
         | None \<Rightarrow>
             (let it = mkItem s ActionLink dest (pfID f) 0 d0
              in case checkName c (psNames s) dest [] of
                   Some e \<Rightarrow> s1\<lparr>psLinks := psLinks s @ [failItem (MsgName e) it], psWarnings := psWarnings s @ [MsgName e]\<rparr>
                 | None \<Rightarrow> s1\<lparr>psLinks := psLinks s @ [it], psNames := addName c dest (psNames s)\<rparr>))"

definition adoptable :: "syncSettings \<Rightarrow> capabilities \<Rightarrow> fileStat \<Rightarrow> int \<Rightarrow> int \<Rightarrow> bool" where
  "adoptable st caps x sz mtimeNs =
     (if \<not> stRegular x \<or> stSize x \<noteq> sz then False
      else (case ssAdoptExisting st of
              AdoptSizeMtime \<Rightarrow> MtimeMatch (stMtimeNs x) mtimeNs (capMtimeGranularityNs caps) (ssMtimeWindowSec st)
            | AdoptSizeHash \<Rightarrow> True
            | AdoptOff \<Rightarrow> False))"

definition unknownCopy :: "planFile \<Rightarrow> planItem \<Rightarrow> planItem" where
  "unknownCopy f it =
     (if unknownPromoted f \<and> piAction it = ActionCopy
      then it\<lparr>piChange := True, piUnknownWhy := unknownReason f\<rparr> else it)"

definition newFile :: "plannerCfg \<Rightarrow> planFile \<Rightarrow> planState \<Rightarrow> planError + planState" where
  "newFile c f s =
     (let dest = destPath c (pfRel f);
          it = mkItem s ActionCopy dest (pfID f) (pfSize f) (fileDetail c f ''new'')
      in case checkName c (psNames s) dest [] of
           Some e \<Rightarrow>
             (let s1 = putItem f (failItem (MsgName e) it) s
              in Inr (s1\<lparr>psWarnings := psWarnings s1 @ [MsgName e]\<rparr>))
         | None \<Rightarrow>
             (let s1 = s\<lparr>psNames := addName c dest (psNames s)\<rparr>
              in case cfDestStat c dest of
                   Inl FsFatal \<Rightarrow> Inl (StatDestination dest)
                 | Inl FsItem \<Rightarrow> Inr (putItem f it s1)
                 | Inr None \<Rightarrow> Inr (putItem f (unknownCopy f it) s1)
                 | Inr (Some x) \<Rightarrow>
                     if \<not> stRegular x
                     then (let s2 = putItem f (failItem (MsgNotRegular dest) it) s1
                           in Inr (s2\<lparr>psWarnings := psWarnings s2 @ [MsgNotRegular dest]\<rparr>))
                     else if adoptable (cfSettings c) (cfCaps c) x (pfSize f) (pfMtimeNs f)
                     then Inr (putItem f (it\<lparr>piAction := ActionAdopt, piD := (piD it)\<lparr>deReason := ''adopt''\<rparr>\<rparr>) s1)
                     else Inr (putItem f (unknownCopy f (it\<lparr>piD := (piD it)\<lparr>deDisplace := True\<rparr>\<rparr>)) s1)))"

section \<open>Files that are not full\<close>

definition tierItem :: "plannerCfg \<Rightarrow> planFile \<Rightarrow> string \<Rightarrow> destRecord option \<Rightarrow> planState \<Rightarrow> planState" where
  "tierItem c f why r s =
     (if \<not> cfDryRun c then s
      else (let dec = (case pfDec f of None \<Rightarrow> zeroDecision | Some d \<Rightarrow> d);
                d = (case r of
                       Some r1 \<Rightarrow> (fileDetail c f why)\<lparr>deRecordID := drID r1, deNote := NoteKept dec\<rparr>
                     | None \<Rightarrow> (fileDetail c f why)\<lparr>deNote := NoteNotCopied dec\<rparr>);
                rel = (case r of Some r1 \<Rightarrow> drRelPath r1 | None \<Rightarrow> destPath c (pfRel f));
                it = mkItem s ActionSkip rel (pfID f) (pfSize f) d
            in s\<lparr>psNext := psNext s + 1, psSkips := psSkips s @ [it]\<rparr>))"

definition releaseMatches :: "releasedRecord \<Rightarrow> destRecord \<Rightarrow> bool" where
  "releaseMatches w r \<longleftrightarrow> wrSourceID w = drSourceID r \<and> wrRelPath w = drRelPath r
     \<and> wrSourceRelPath w = drSourceRelPath r \<and> wrSize w = drSize r \<and> wrMtimeNs w = drMtimeNs r"

definition emitRelease :: "plannerCfg \<Rightarrow> planFile \<Rightarrow> destRecord \<Rightarrow> int \<Rightarrow> planState \<Rightarrow> planState" where
  "emitRelease c f r rv s =
     (let d = zeroDetail\<lparr>deSourceID := cfSourceID c, deSource := pfRel f, deRecordID := drID r, deSize := drSize r,
                deMtimeNs := drMtimeNs r, deReason := ''released'', deTierRevision := rv, deTier := pfDec f\<rparr>;
          it = (mkItem s ActionRetain (drRelPath r) (drID r) (drSize r) d)\<lparr>piChange := True\<rparr>
      in s\<lparr>psNext := psNext s + 1, psReleases := psReleases s @ [it],
           psReleasedCount := addCount (drSize r) (psReleasedCount s)\<rparr>)"

definition decRevision :: "planFile \<Rightarrow> int" where
  "decRevision f = (case pfDec f of None \<Rightarrow> 0 | Some d \<Rightarrow> dRevision d)"

definition keepFile :: "plannerCfg \<Rightarrow> planFile \<Rightarrow> destRecord \<Rightarrow> planState \<Rightarrow> planState" where
  "keepFile c f r s =
     (if drState r = StateMissing then s
      else (let s1 = tierItem c f ''kept'' (Some r) (s\<lparr>psTierKept := addCount (pfSize f) (psTierKept s)\<rparr>)
            in case cfRelease c of
                 None \<Rightarrow> s1
               | Some rp \<Rightarrow>
                   if rpAll rp then emitRelease c f r (decRevision f) s1
                   else (case rpAllowed rp (drID r) of
                           None \<Rightarrow> s1
                         | Some w \<Rightarrow>
                             if \<not> releaseMatches w r then s1
                             else if decRevision f \<noteq> rpRevision rp
                             then s1\<lparr>psStaleFiles := psStaleFiles s1 + 1\<rparr>
                             else emitRelease c f r (rpRevision rp) s1)))"

section \<open>Hardlinks\<close>

text \<open>The dependents of a record whose source file is there with the recorded content.\<close>

definition survives :: "planFile list \<Rightarrow> destRecord \<Rightarrow> bool" where
  "survives fs d \<longleftrightarrow> (drState d = StateLinked \<or> drState d = StateLinkRecorded) \<and>
     (case fileByRel fs (drSourceRelPath d) of None \<Rightarrow> False | Some f \<Rightarrow> pfRec f = Some d \<and> pfUnchanged f)"

definition surviving :: "planFile list \<Rightarrow> destRecord list \<Rightarrow> destRecord \<Rightarrow> destRecord list" where
  "surviving fs recs r = filter (survives fs) (depsOf recs (drID r))"

definition pickTarget :: "destRecord list \<Rightarrow> destRecord" where
  "pickTarget surv = (case find (\<lambda>d. drState d = StateLinked) surv of Some d \<Rightarrow> d | None \<Rightarrow> hd surv)"

fun firstBy :: "('a \<Rightarrow> bool) list \<Rightarrow> 'a list \<Rightarrow> 'a" where
  "firstBy [] xs = hd xs"
| "firstBy (p # ps) xs = (case find p xs of Some x \<Rightarrow> x | None \<Rightarrow> firstBy ps xs)"

definition recHas :: "(destRecord \<Rightarrow> bool) \<Rightarrow> planFile \<Rightarrow> bool" where
  "recHas P f = (case pfRec f of None \<Rightarrow> False | Some r \<Rightarrow> P r)"

definition choosePrimary :: "planFile list \<Rightarrow> ident set \<Rightarrow> (string \<times> destRecord) list \<Rightarrow> planFile" where
  "choosePrimary members promoteTarget mf =
     firstBy [\<lambda>m. recHas (\<lambda>r. drState r = StatePresent) m \<and> pfUnchanged m,
              \<lambda>m. recHas (\<lambda>r. drID r \<in> promoteTarget) m,
              \<lambda>m. recHas (\<lambda>r. drState r = StatePresent \<or> drState r = StateMissing) m,
              \<lambda>m. map_of mf (pfRel m) \<noteq> None] members"

definition keptChanged :: "plannerCfg \<Rightarrow> planFile \<Rightarrow> bool" where
  "keptChanged c f \<longleftrightarrow> cfUpdateKept c \<and> \<not> pfUnchanged f
     \<and> recHas (\<lambda>r. drState r = StatePresent \<or> drState r = StateLinked) f"

section \<open>Vanished records\<close>

definition planVanished :: "plannerCfg \<Rightarrow> planFile list \<Rightarrow> destRecord list \<Rightarrow> destRecord \<Rightarrow> planState \<Rightarrow> planState" where
  "planVanished c fs recs v s =
     (let surv = surviving fs recs v in
      if drState v = StateLinkRecorded then emitRetain c v s
      else if drState v = StateMissing
      then emitRetain c v (s\<lparr>psNeedRepair := psNeedRepair s \<union> set (map drID surv)\<rparr>)
      else if surv \<noteq> []
      then (let t = pickTarget surv;
                pr = psNext s;
                s1 = emitPromote c v t ''retain'' (drState t \<noteq> StateLinked) s;
                s2 = s1\<lparr>psPromoteTarget := insert (drID t) (psPromoteTarget s1)\<rparr>
            in if drState t = StateLinked
               then (let s3 = emitRetain c v s2
                     in s3\<lparr>psPromotes := setAfter pr (Some (psNext s2)) (psPromotes s3)\<rparr>)
               else s2)
      else emitRetain c v s)"

definition vanishedStep ::
    "plannerCfg \<Rightarrow> planFile list \<Rightarrow> destRecord list \<Rightarrow> (string \<times> destRecord) list \<Rightarrow> destRecord \<Rightarrow> planState \<Rightarrow> planState"
where
  "vanishedStep c fs recs mf v s =
     (if drID v \<in> set (map (drID \<circ> snd) mf) then s
      else if cfTargeted c \<and> pathDir (drSourceRelPath v) \<notin> freshDirs fs mf
      then s\<lparr>psDeferred := psDeferred s + 1\<rparr>
      else planVanished c fs recs v s)"

text \<open>A changed primary whose unchanged dependents still need its old content: promote first.\<close>

definition promoteStep :: "plannerCfg \<Rightarrow> planFile list \<Rightarrow> destRecord list \<Rightarrow> planFile \<Rightarrow> planState \<Rightarrow> planState" where
  "promoteStep c fs recs f s =
     (case pfRec f of
        None \<Rightarrow> s
      | Some r \<Rightarrow>
          if pfUnchanged f \<or> drState r \<noteq> StatePresent \<or> \<not> (full f \<or> keptChanged c f) then s
          else (let surv = surviving fs recs r in
                if surv = [] then s
                else (let t = pickTarget surv;
                          pr = psNext s;
                          s1 = emitPromote c r t ''update'' False s
                      in s1\<lparr>psPromoteFor := (psPromoteFor s1)(drID r \<mapsto> pr),
                            psPromoteTarget := insert (drID t) (psPromoteTarget s1)\<rparr>)))"

text \<open>The links of a missing primary: each full recorded-only link whose content the primary's
  repair does not restore gets a copy of its own; a kept one is lost with the primary.\<close>

definition lostStep ::
    "plannerCfg \<Rightarrow> planFile list \<Rightarrow> planFile \<Rightarrow> destRecord \<Rightarrow> destRecord \<Rightarrow> planState \<Rightarrow> planState" where
  "lostStep c fs f r d s =
     (let restored = (full f \<and> pfSize f = drSize d \<and> mtimeEqual c (pfMtimeNs f) (drMtimeNs d))
      in case fileByRel fs (drSourceRelPath d) of
           None \<Rightarrow> s
         | Some df \<Rightarrow>
             if \<not> full df
             then (if full f \<and> drState d = StateLinkRecorded \<and> \<not> restored
                   then s\<lparr>psLost := (psLost s)(drID r := psLost s (drID r) @ [drID d])\<rparr> else s)
             else if drState d = StateLinkRecorded \<and> \<not> restored \<and> drID d \<notin> psNeedRepair s
             then repairFile c df d (s\<lparr>psNeedRepair := insert (drID d) (psNeedRepair s)\<rparr>)
             else s)"

definition missingStep :: "plannerCfg \<Rightarrow> planFile list \<Rightarrow> destRecord list \<Rightarrow> planFile \<Rightarrow> planState \<Rightarrow> planState" where
  "missingStep c fs recs f s =
     (case pfRec f of
        None \<Rightarrow> s
      | Some r \<Rightarrow> if drState r = StateMissing then fold (lostStep c fs f r) (surviving fs recs r) s else s)"

text \<open>Hardlinks of a full primary that is missing are made again.\<close>

definition relinkIDs :: "planFile list \<Rightarrow> destRecord list \<Rightarrow> ident set" where
  "relinkIDs fs recs =
     set (concat (map (\<lambda>f. case pfRec f of
                             None \<Rightarrow> []
                           | Some r \<Rightarrow>
                               if drState r = StateMissing \<and> full f
                               then map drID (filter (\<lambda>d. drState d = StateLinked \<and> survives fs d)
                                                (depsOf recs (drID r)))
                               else []) fs))"

section \<open>The plan of a file\<close>

definition primaryOf ::
    "planFile list \<Rightarrow> ident set \<Rightarrow> (string \<times> destRecord) list \<Rightarrow> planFile \<Rightarrow> planFile" where
  "primaryOf fs promoteTarget mf f =
     (if pfGroup f = [] then f else choosePrimary (groupFiles fs (pfGroup f)) promoteTarget mf)"

text \<open>An update or a relink of a record whose old content a promote saves: the promote waits for it.\<close>

definition waitPromote :: "destRecord \<Rightarrow> nat \<Rightarrow> planState \<Rightarrow> planState" where
  "waitPromote r n s =
     (case psPromoteFor s (drID r) of
        None \<Rightarrow> s
      | Some pr \<Rightarrow> s\<lparr>psPromotes := setAfter pr (Some n) (psPromotes s)\<rparr>)"

definition planFull ::
    "plannerCfg \<Rightarrow> planFile list \<Rightarrow> (string \<times> destRecord) list \<Rightarrow> ident set \<Rightarrow> planFile \<Rightarrow> planState
       \<Rightarrow> planError + planState" where
  "planFull c fs mf relink f s =
     (let prim = primaryOf fs (psPromoteTarget s) mf f;
          isPrim = (pfRel prim = pfRel f)
      in case pfRec f of
           None \<Rightarrow>
             (case map_of mf (pfRel f) of
                Some v \<Rightarrow> Inr (moveFile c f v s)
              | None \<Rightarrow> if \<not> isPrim then Inr (linkFile c f prim None False s) else newFile c f s)
         | Some r \<Rightarrow>
             if drID r \<in> psNeedRepair s
             then Inr (if psItemOf s (pfRel f) = None then repairFile c f r s else s)
             else if drID r \<in> relink
             then Inr (if \<not> isPrim then linkFile c f prim (Some r) True s else repairFile c f r s)
             else if drState r = StateMissing
             then Inr (if \<not> isPrim then linkFile c f prim (Some r) False s else repairFile c f r s)
             else if pfUnchanged f then Inr s
             else Inr (waitPromote r (psNext s)
                         (if \<not> isPrim then linkFile c f prim (Some r) False s else updateFile c f r s)))"

definition planKept :: "plannerCfg \<Rightarrow> (string \<times> destRecord) list \<Rightarrow> planFile \<Rightarrow> planState \<Rightarrow> planState" where
  "planKept c mf f s =
     (case pfRec f of
        Some r \<Rightarrow> keepFile c f r s
      | None \<Rightarrow>
          (case map_of mf (pfRel f) of
             Some v \<Rightarrow> moveFile c f v s
           | None \<Rightarrow> tierItem c f ''not copied'' None (s\<lparr>psNonFullNew := psNonFullNew s @ [f]\<rparr>)))"

definition planOne ::
    "plannerCfg \<Rightarrow> planFile list \<Rightarrow> (string \<times> destRecord) list \<Rightarrow> ident set \<Rightarrow> planFile \<Rightarrow> planState
       \<Rightarrow> planError + planState" where
  "planOne c fs mf relink f s =
     (if full f then planFull c fs mf relink f s
      else if keptChanged c f
      then planFull c fs mf relink f (s\<lparr>psTierKept := addCount (pfSize f) (psTierKept s)\<rparr>)
      else Inr (planKept c mf f s))"

fun planLoop ::
    "plannerCfg \<Rightarrow> planFile list \<Rightarrow> (string \<times> destRecord) list \<Rightarrow> ident set \<Rightarrow> planFile list \<Rightarrow> planState
       \<Rightarrow> planError + planState" where
  "planLoop c fs mf relink [] s = Inr s"
| "planLoop c fs mf relink (f # rest) s =
     (case planOne c fs mf relink f s of Inl e \<Rightarrow> Inl e | Inr s1 \<Rightarrow> planLoop c fs mf relink rest s1)"

section \<open>The whole plan\<close>

definition linkAfters :: "planState \<Rightarrow> planState" where
  "linkAfters s =
     s\<lparr>psLinks := fold (\<lambda>(n, prim). setAfter n (psItemOf s prim)) (psLinkItems s) (psLinks s)\<rparr>"

definition withLost :: "(ident \<Rightarrow> ident list) \<Rightarrow> planItem \<Rightarrow> planItem" where
  "withLost lost it =
     (if lost (deRecordID (piD it)) \<noteq> []
      then it\<lparr>piD := (piD it)\<lparr>deLostLinks := lost (deRecordID (piD it))\<rparr>\<rparr> else it)"

definition carryLost :: "planState \<Rightarrow> planState" where
  "carryLost s = s\<lparr>psPuts := map (withLost (psLost s)) (psPuts s), psLinks := map (withLost (psLost s)) (psLinks s)\<rparr>"

definition beforeFiles ::
    "plannerCfg \<Rightarrow> planFile list \<Rightarrow> destRecord list \<Rightarrow> (string \<times> destRecord) list \<Rightarrow> nameIndex \<Rightarrow> planState" where
  "beforeFiles c fs recs mf names =
     fold (missingStep c fs recs) fs
       (fold (promoteStep c fs recs) fs
         (fold (vanishedStep c fs recs mf) (vanishedRecs fs recs) (initState names)))"

definition plan :: "plannerCfg \<Rightarrow> nameIndex \<Rightarrow> planFile list \<Rightarrow> destRecord list \<Rightarrow> planError + planState" where
  "plan c names files recs =
     (let fs = indexFiles c recs files in
      case pairMoves c fs (vanishedRecs fs recs) of
        Inl e \<Rightarrow> Inl e
      | Inr mf \<Rightarrow>
          (case planLoop c fs mf (relinkIDs fs recs) fs (beforeFiles c fs recs mf names) of
             Inl e \<Rightarrow> Inl e
           | Inr s \<Rightarrow> Inr (carryLost (linkAfters s))))"

definition releaseRank :: "destRecord list \<Rightarrow> planItem \<Rightarrow> nat" where
  "releaseRank recs it =
     (case find (\<lambda>r. drID r = deRecordID (piD it)) (rev recs) of
        None \<Rightarrow> 2
      | Some r \<Rightarrow> (case drState r of StateLinkRecorded \<Rightarrow> 0 | StateLinked \<Rightarrow> 1 | _ \<Rightarrow> 2))"

text \<open>The plan in execution order.\<close>

definition planItems :: "destRecord list \<Rightarrow> planState \<Rightarrow> planItem list" where
  "planItems recs s =
     psPromotes s @ psMoves s @ psPuts s @ psLinks s @ psRetains s
     @ sort_key (releaseRank recs) (psReleases s) @ psSkips s"

end
