(* ===== verification/SyncPlanSafety.thy ===== *)
theory SyncPlanSafety
  imports SyncPlan
begin

text \<open>
  What a plan of a source guarantees: a backup leaves the mirror only when its source file is gone
  (or is released), every vanished record is accounted for, every full file is backed up or
  planned, content that a surviving hardlink needs is saved before its primary goes, and a move
  pairs equal content only.
\<close>

section \<open>Input\<close>

text \<open>The files of a catalog and the live records of a source at a destination: paths and ids are
  unique, and nothing is compared yet.  The table has a unique index on a destination's paths; a source's
  path at the destination is its folder joined with the path in the source, so those are unique too.\<close>

definition inputOk :: "planFile list \<Rightarrow> destRecord list \<Rightarrow> bool" where
  "inputOk files recs \<longleftrightarrow> distinct (map pfRel files) \<and> distinct (map drID recs)
     \<and> distinct (map drSourceRelPath recs)
     \<and> list_all (\<lambda>f. pfRec f = None \<and> \<not> pfUnchanged f \<and> \<not> pfReplaced f) files"

lemma find_rev_distinct:
  assumes "distinct (map g xs)"
  shows "find (\<lambda>x. g x = k) (rev xs) = Some x \<longleftrightarrow> x \<in> set xs \<and> g x = k"
proof
  assume "x \<in> set xs \<and> g x = k"
  then have x: "x \<in> set (rev xs)" "g x = k" by simp_all
  then obtain y where y: "find (\<lambda>x. g x = k) (rev xs) = Some y"
    by (metis (mono_tags, lifting) find_None_iff not_None_eq)
  from find_Some_setD [OF y] x assms have "y = x" by (auto simp: distinct_map dest: inj_onD)
  with y show "find (\<lambda>x. g x = k) (rev xs) = Some x" by simp
qed (auto dest: find_Some_setD)

lemma recBySrc_iff:
  "inputOk files recs \<Longrightarrow> recBySrc recs rel = Some r \<longleftrightarrow> r \<in> set recs \<and> drSourceRelPath r = rel"
  unfolding recBySrc_def inputOk_def by (rule find_rev_distinct) simp

lemma annotate_simps [simp]:
  "pfRel (annotate c recs f) = pfRel f" "pfSize (annotate c recs f) = pfSize f"
  "pfMtimeNs (annotate c recs f) = pfMtimeNs f" "pfDec (annotate c recs f) = pfDec f"
  "pfGroup (annotate c recs f) = pfGroup f" "pfID (annotate c recs f) = pfID f"
  by (auto simp: annotate_def Let_def split: option.splits)

lemma annotate_rec: "pfRec f = None \<Longrightarrow> pfRec (annotate c recs f) = recBySrc recs (pfRel f)"
  by (auto simp: annotate_def Let_def split: option.splits)

lemma annotate_unchanged:
  "\<not> pfUnchanged f \<Longrightarrow> pfUnchanged (annotate c recs f) \<Longrightarrow>
     \<exists>r. recBySrc recs (pfRel f) = Some r \<and> unchangedBy c r f"
  by (auto simp: annotate_def Let_def split: option.splits if_splits)

text \<open>A file of the index is the annotated file of the input, perhaps without its group.\<close>

lemma indexFiles_map:
  "\<exists>h. indexFiles c recs files = map (\<lambda>f. (annotate c recs f)\<lparr>pfGroup := h f\<rparr>) files"
proof -
  let ?a = "map (annotate c recs) files"
  let ?h = "\<lambda>f. if length (groupFiles ?a (pfGroup f)) < 2 then [] else pfGroup f"
  have "indexFiles c recs files = map (\<lambda>f. (annotate c recs f)\<lparr>pfGroup := ?h f\<rparr>) files"
    by (simp add: indexFiles_def ungroup_def)
  then show ?thesis by (rule exI [of _ ?h])
qed

lemma indexFiles_rels: "map pfRel (indexFiles c recs files) = map pfRel files"
  using indexFiles_map [of c recs files] by (auto simp: comp_def)

lemma indexFiles_mem:
  assumes "inputOk files recs" "f \<in> set (indexFiles c recs files)"
  shows "\<exists>g \<in> set files. pfRel f = pfRel g \<and> pfSize f = pfSize g \<and> pfMtimeNs f = pfMtimeNs g
    \<and> pfDec f = pfDec g \<and> pfRec f = recBySrc recs (pfRel g)
    \<and> (pfUnchanged f \<longrightarrow> (\<exists>r. recBySrc recs (pfRel g) = Some r \<and> unchangedBy c r g))"
proof -
  obtain h where h: "indexFiles c recs files = map (\<lambda>f. (annotate c recs f)\<lparr>pfGroup := h f\<rparr>) files"
    using indexFiles_map by blast
  with assms(2) obtain g where g: "g \<in> set files" "f = (annotate c recs g)\<lparr>pfGroup := h g\<rparr>" by auto
  moreover have "pfRec g = None" "\<not> pfUnchanged g" using assms(1) g(1) by (auto simp: inputOk_def list_all_iff)
  ultimately show ?thesis using annotate_rec annotate_unchanged by (intro bexI [of _ g]) auto
qed

lemma indexFiles_rec:
  assumes "inputOk files recs" "f \<in> set (indexFiles c recs files)"
  shows "pfRec f = Some r \<longleftrightarrow> r \<in> set recs \<and> drSourceRelPath r = pfRel f"
proof -
  from indexFiles_mem [OF assms] obtain g :: planFile where "pfRel f = pfRel g" "pfRec f = recBySrc recs (pfRel g)" by blast
  then show ?thesis using recBySrc_iff [OF assms(1)] by simp
qed

lemma seenIDs_iff: "i \<in> seenIDs fs \<longleftrightarrow> (\<exists>f \<in> set fs. \<exists>r. pfRec f = Some r \<and> drID r = i)"
  unfolding seenIDs_def List.map_filter_def by force

lemma vanishedRecs_iff:
  assumes "inputOk files recs"
  shows "r \<in> set (vanishedRecs (indexFiles c recs files) recs) \<longleftrightarrow>
    r \<in> set recs \<and> drSourceRelPath r \<notin> pfRel ` set files"
proof -
  let ?fs = "indexFiles c recs files"
  have rels: "pfRel ` set ?fs = pfRel ` set files" using indexFiles_rels [of c recs files] by (metis list.set_map)
  have "drID r \<in> seenIDs ?fs \<longleftrightarrow> drSourceRelPath r \<in> pfRel ` set ?fs" if r: "r \<in> set recs"
  proof
    assume "drID r \<in> seenIDs ?fs"
    then obtain f r' where f: "f \<in> set ?fs" "pfRec f = Some r'" "drID r' = drID r" by (auto simp: seenIDs_iff)
    then have "r' \<in> set recs" "drSourceRelPath r' = pfRel f" using indexFiles_rec [OF assms f(1)] by auto
    with f r assms have "r' = r" by (auto simp: inputOk_def distinct_map dest: inj_onD)
    with f \<open>drSourceRelPath r' = pfRel f\<close> show "drSourceRelPath r \<in> pfRel ` set ?fs" by auto
  next
    assume "drSourceRelPath r \<in> pfRel ` set ?fs"
    then obtain f where "f \<in> set ?fs" "pfRel f = drSourceRelPath r" by auto
    with indexFiles_rec [OF assms, of f c r] r show "drID r \<in> seenIDs ?fs" by (auto simp: seenIDs_iff)
  qed
  then show ?thesis by (auto simp: vanishedRecs_def rels)
qed

section \<open>What each step changes\<close>

abbreviation dets :: "planItem list \<Rightarrow> detail list" where
  "dets its \<equiv> map piD its"

lemma dets_setAfter [simp]: "dets (setAfter n a its) = dets its"
  by (simp add: setAfter_def comp_def if_distrib cong: if_cong)

lemma map_setAfter [simp]:
  "map piAction (setAfter n a its) = map piAction its" "map piChange (setAfter n a its) = map piChange its"
  "map piStatus (setAfter n a its) = map piStatus its" "length (setAfter n a its) = length its"
  by (simp_all add: setAfter_def comp_def if_distrib cong: if_cong)


lemmas step_defs = emitRetain_def emitPromote_def putItem_def updateFile_def repairFile_def Let_def

text \<open>The vanished records: they write retains and promotes only.\<close>

lemma vanishedStep_frame:
  "psMoves (vanishedStep c fs recs mf v s) = psMoves s \<and> psPuts (vanishedStep c fs recs mf v s) = psPuts s
   \<and> psLinks (vanishedStep c fs recs mf v s) = psLinks s \<and> psReleases (vanishedStep c fs recs mf v s) = psReleases s
   \<and> psItemOf (vanishedStep c fs recs mf v s) = psItemOf s"
  by (simp add: vanishedStep_def planVanished_def step_defs)

text \<open>What is planned for a vanished record: nothing for a moved or deferred one, otherwise a retain or
  a promote of it; a retain of content that a surviving name needs comes with a promote.\<close>

definition savedBy :: "detail list \<Rightarrow> destRecord list \<Rightarrow> destRecord \<Rightarrow> bool" where
  "savedBy promotes surv v \<longleftrightarrow> (\<exists>d \<in> set promotes. deRecordID d = drID v \<and> deTargetID d \<in> drID ` set surv)"

lemma pickTarget_mem: "surv \<noteq> [] \<Longrightarrow> pickTarget surv \<in> set surv"
  by (auto simp: pickTarget_def split: option.splits dest: find_Some_setD)

definition goneAway :: "plannerCfg \<Rightarrow> planFile list \<Rightarrow> (string \<times> destRecord) list \<Rightarrow> destRecord \<Rightarrow> bool" where
  "goneAway c fs mf v \<longleftrightarrow> drID v \<notin> drID ` snd ` set mf
     \<and> \<not> (cfTargeted c \<and> pathDir (drSourceRelPath v) \<notin> freshDirs fs mf)"

text \<open>The records that a targeted sync leaves for the next full one.\<close>

definition deferredBy :: "plannerCfg \<Rightarrow> planFile list \<Rightarrow> (string \<times> destRecord) list \<Rightarrow> destRecord \<Rightarrow> bool" where
  "deferredBy c fs mf v \<longleftrightarrow> drID v \<notin> drID ` snd ` set mf
     \<and> cfTargeted c \<and> pathDir (drSourceRelPath v) \<notin> freshDirs fs mf"

lemma vanishedStep_deferred:
  "psDeferred (vanishedStep c fs recs mf v s) = psDeferred s + (if deferredBy c fs mf v then 1 else 0)"
  by (auto simp: vanishedStep_def planVanished_def step_defs deferredBy_def image_comp)

lemma fold_vanished_deferred:
  "psDeferred (fold (vanishedStep c fs recs mf) vs s) = psDeferred s + int (length (filter (deferredBy c fs mf) vs))"
  by (induction vs arbitrary: s) (simp_all add: vanishedStep_deferred)

lemma vanishedStep_retains:
  "\<exists>ds. dets (psRetains (vanishedStep c fs recs mf v s)) = dets (psRetains s) @ ds
     \<and> (\<forall>d \<in> set ds. deRecordID d = drID v \<and> goneAway c fs mf v
          \<and> (drState v \<in> {StatePresent, StateLinked} \<and> surviving fs recs v \<noteq> []
              \<longrightarrow> savedBy (dets (psPromotes (vanishedStep c fs recs mf v s))) (surviving fs recs v) v))"
  using pickTarget_mem [of "surviving fs recs v"]
  by (cases "drState v")
    (auto simp: vanishedStep_def planVanished_def step_defs goneAway_def savedBy_def mkItem_def
      image_comp setAfter_def)


lemma vanishedStep_promotes:
  "\<exists>ds. dets (psPromotes (vanishedStep c fs recs mf v s)) = dets (psPromotes s) @ ds"
  by (auto simp: vanishedStep_def planVanished_def step_defs)

lemma vanishedStep_planned:
  "goneAway c fs mf v \<Longrightarrow>
     drID v \<in> deRecordID ` set (dets (psRetains (vanishedStep c fs recs mf v s)))
     \<or> drID v \<in> deRecordID ` set (dets (psPromotes (vanishedStep c fs recs mf v s)))"
  by (auto simp: vanishedStep_def planVanished_def step_defs goneAway_def mkItem_def image_comp image_iff
      simp del: map_map)

lemma savedBy_mono: "savedBy ds surv v \<Longrightarrow> set ds \<subseteq> set es \<Longrightarrow> savedBy es surv v"
  unfolding savedBy_def by blast

definition retainOk ::
    "plannerCfg \<Rightarrow> planFile list \<Rightarrow> destRecord list \<Rightarrow> (string \<times> destRecord) list \<Rightarrow> detail list \<Rightarrow> destRecord \<Rightarrow> bool"
where
  "retainOk c fs recs mf promotes v \<longleftrightarrow> goneAway c fs mf v \<and>
     (drState v \<in> {StatePresent, StateLinked} \<and> surviving fs recs v \<noteq> [] \<longrightarrow> savedBy promotes (surviving fs recs v) v)"

lemma retainOk_mono: "retainOk c fs recs mf ds v \<Longrightarrow> set ds \<subseteq> set es \<Longrightarrow> retainOk c fs recs mf es v"
  using savedBy_mono unfolding retainOk_def by blast

lemma fold_vanished:
  assumes "\<And>d. d \<in> set (dets (psRetains s)) \<Longrightarrow> \<exists>v \<in> V. deRecordID d = drID v \<and> retainOk c fs recs mf (dets (psPromotes s)) v"
    and "set vs \<subseteq> V"
  shows "(\<forall>d \<in> set (dets (psRetains (fold (vanishedStep c fs recs mf) vs s))).
      \<exists>v \<in> V. deRecordID d = drID v \<and> retainOk c fs recs mf (dets (psPromotes (fold (vanishedStep c fs recs mf) vs s))) v)"
  using assms
proof (induction vs arbitrary: s)
  case (Cons v vs)
  let ?s = "vanishedStep c fs recs mf v s"
  obtain ps where ps: "dets (psPromotes ?s) = dets (psPromotes s) @ ps" using vanishedStep_promotes by blast
  obtain ds where ds: "dets (psRetains ?s) = dets (psRetains s) @ ds"
    "\<And>d. d \<in> set ds \<Longrightarrow> deRecordID d = drID v \<and> retainOk c fs recs mf (dets (psPromotes ?s)) v"
    using vanishedStep_retains [of c fs recs mf v s] unfolding retainOk_def by blast
  have "\<exists>v \<in> V. deRecordID d = drID v \<and> retainOk c fs recs mf (dets (psPromotes ?s)) v"
    if "d \<in> set (dets (psRetains ?s))" for d
  proof (cases "d \<in> set ds")
    case True
    with ds(2) Cons.prems(2) show ?thesis by auto
  next
    case False
    with that ds(1) have "d \<in> set (dets (psRetains s))" by auto
    from Cons.prems(1) [OF this] obtain w where "w \<in> V" "deRecordID d = drID w"
      "retainOk c fs recs mf (dets (psPromotes s)) w" by blast
    moreover have "set (dets (psPromotes s)) \<subseteq> set (dets (psPromotes ?s))" by (simp add: ps)
    ultimately show ?thesis using retainOk_mono by blast
  qed
  from Cons.IH [OF this] Cons.prems(2) show ?case by simp
qed simp

text \<open>Lists that only grow along a fold.\<close>

lemma fold_grows:
  assumes "\<And>x s. set (g s) \<subseteq> set (g (step x s))"
  shows "set (g s) \<subseteq> set (g (fold step xs s))"
  using assms by (induction xs arbitrary: s) (auto, blast)

lemma fold_keeps:
  assumes "\<And>x s. g (step x s) = g s"
  shows "g (fold step xs s) = g s"
  using assms by (induction xs arbitrary: s) simp_all

lemma vanishedStep_grows:
  "set (dets (psRetains s)) \<subseteq> set (dets (psRetains (vanishedStep c fs recs mf v s)))"
  "set (dets (psPromotes s)) \<subseteq> set (dets (psPromotes (vanishedStep c fs recs mf v s)))"
  using vanishedStep_retains [of c fs recs mf v s] vanishedStep_promotes [of c fs recs mf v s]
  by (metis Un_upper1 set_append)+

lemma fold_vanished_planned:
  assumes "v \<in> set vs" "goneAway c fs mf v"
  shows "drID v \<in> deRecordID ` set (dets (psRetains (fold (vanishedStep c fs recs mf) vs s)))
     \<or> drID v \<in> deRecordID ` set (dets (psPromotes (fold (vanishedStep c fs recs mf) vs s)))"
  using assms(1)
proof (induction vs arbitrary: s)
  case (Cons w vs)
  let ?s = "vanishedStep c fs recs mf w s"
  show ?case
  proof (cases "v = w")
    case True
    have "set (dets (psRetains ?s)) \<subseteq> set (dets (psRetains (fold (vanishedStep c fs recs mf) vs ?s)))"
      "set (dets (psPromotes ?s)) \<subseteq> set (dets (psPromotes (fold (vanishedStep c fs recs mf) vs ?s)))"
      by (rule fold_grows [where g = "\<lambda>s. dets (psRetains s)"], rule vanishedStep_grows)
        (rule fold_grows [where g = "\<lambda>s. dets (psPromotes s)"], rule vanishedStep_grows)
    with vanishedStep_planned [OF assms(2), of recs s] True show ?thesis by auto
  next
    case False
    with Cons show ?thesis by auto
  qed
qed simp

text \<open>The promotes of changed primaries.\<close>

lemma promoteStep_frame:
  "psRetains (promoteStep c fs recs f s) = psRetains s \<and> psMoves (promoteStep c fs recs f s) = psMoves s
   \<and> psPuts (promoteStep c fs recs f s) = psPuts s \<and> psLinks (promoteStep c fs recs f s) = psLinks s
   \<and> psReleases (promoteStep c fs recs f s) = psReleases s \<and> psItemOf (promoteStep c fs recs f s) = psItemOf s
   \<and> psNeedRepair (promoteStep c fs recs f s) = psNeedRepair s \<and> psDeferred (promoteStep c fs recs f s) = psDeferred s"
  by (auto simp: promoteStep_def step_defs split: option.splits)

lemma promoteStep_grows: "set (dets (psPromotes s)) \<subseteq> set (dets (psPromotes (promoteStep c fs recs f s)))"
  by (auto simp: promoteStep_def step_defs split: option.splits)

lemma promoteStep_saves:
  assumes "pfRec f = Some r" "\<not> pfUnchanged f" "drState r = StatePresent" "full f \<or> keptChanged c f"
    "surviving fs recs r \<noteq> []"
  shows "savedBy (dets (psPromotes (promoteStep c fs recs f s))) (surviving fs recs r) r"
  using assms pickTarget_mem [OF assms(5)]
  by (auto simp: promoteStep_def step_defs savedBy_def mkItem_def)

lemma fold_promote_saves:
  assumes "f \<in> set gs" "pfRec f = Some r" "\<not> pfUnchanged f" "drState r = StatePresent" "full f \<or> keptChanged c f"
    "surviving fs recs r \<noteq> []"
  shows "savedBy (dets (psPromotes (fold (promoteStep c fs recs) gs s))) (surviving fs recs r) r"
  using assms(1)
proof (induction gs arbitrary: s)
  case (Cons g gs)
  show ?case
  proof (cases "f = g")
    case True
    have "set (dets (psPromotes (promoteStep c fs recs f s))) \<subseteq>
        set (dets (psPromotes (fold (promoteStep c fs recs) gs (promoteStep c fs recs f s))))"
      by (rule fold_grows [where g = "\<lambda>s. dets (psPromotes s)"], rule promoteStep_grows)
    from savedBy_mono [OF promoteStep_saves [OF assms(2-6)] this] True show ?thesis by simp
  next
    case False
    with Cons show ?thesis by simp
  qed
qed simp


text \<open>Every promote is of a record that goes, or of a live changed one that stays.\<close>

definition promoteOk ::
    "plannerCfg \<Rightarrow> planFile list \<Rightarrow> (string \<times> destRecord) list \<Rightarrow> destRecord set \<Rightarrow> detail \<Rightarrow> bool" where
  "promoteOk c fs mf V d \<longleftrightarrow>
     deFor d = ''retain'' \<and> (\<exists>v \<in> V. deRecordID d = drID v \<and> goneAway c fs mf v)
     \<or> deFor d = ''update'' \<and> (\<exists>f \<in> set fs. \<exists>r. pfRec f = Some r \<and> \<not> pfUnchanged f \<and> deRecordID d = drID r)"

lemma vanishedStep_promoteOk:
  "v \<in> V \<Longrightarrow> d \<in> set (dets (psPromotes (vanishedStep c fs recs mf v s))) \<Longrightarrow>
     d \<in> set (dets (psPromotes s)) \<or> promoteOk c fs mf V d"
  by (auto simp: vanishedStep_def planVanished_def step_defs goneAway_def promoteOk_def mkItem_def setAfter_def image_comp
      split: if_splits)

lemma promoteStep_promoteOk:
  "f \<in> set fs \<Longrightarrow> d \<in> set (dets (psPromotes (promoteStep c fs recs f s))) \<Longrightarrow>
     d \<in> set (dets (psPromotes s)) \<or> promoteOk c fs mf V d"
  by (auto simp: promoteStep_def step_defs promoteOk_def mkItem_def split: option.splits if_splits) blast+

lemma fold_adds:
  assumes "\<And>x s d. x \<in> set xs \<Longrightarrow> d \<in> set (g (step x s)) \<Longrightarrow> d \<in> set (g s) \<or> P d" "\<And>d. d \<in> set (g s) \<Longrightarrow> P d"
    "d \<in> set (g (fold step xs s))"
  shows "P d"
  using assms by (induction xs arbitrary: s) (simp, metis fold_simps(2) list.set_intros)

lemma promotes_ok:
  assumes "d \<in> set (dets (psPromotes (fold (promoteStep c fs recs) fs (fold (vanishedStep c fs recs mf) vs (initState names)))))"
    and "set vs \<subseteq> V"
  shows "promoteOk c fs mf V d"
proof (rule fold_adds [where g = "\<lambda>s. dets (psPromotes s)", OF promoteStep_promoteOk _ assms(1)])
  fix d assume "d \<in> set (dets (psPromotes (fold (vanishedStep c fs recs mf) vs (initState names))))"
  with assms(2) show "promoteOk c fs mf V d"
    by (rule_tac fold_adds [where g = "\<lambda>s. dets (psPromotes s)", OF vanishedStep_promoteOk [where V = V]])
      (auto simp: initState_def)
qed

section \<open>The items of a file\<close>

text \<open>What an item planned for a file says: its path, and the record it changes.\<close>

definition recordOf :: "planFile \<Rightarrow> planItem \<Rightarrow> (destRecord \<Rightarrow> bool) \<Rightarrow> bool" where
  "recordOf f it P \<longleftrightarrow> (\<exists>r. pfRec f = Some r \<and> deRecordID (piD it) = drID r \<and> P r)"

fun itemFor :: "plannerCfg \<Rightarrow> (string \<times> destRecord) list \<Rightarrow> planFile \<Rightarrow> planItem \<Rightarrow> bool" where
  "itemFor c mf f it \<longleftrightarrow> deSource (piD it) = pfRel f \<and>
     (case piAction it of
        ActionMove \<Rightarrow> pfRec f = None \<and> deSize (piD it) = pfSize f \<and> deMtimeNs (piD it) = pfMtimeNs f \<and>
          (\<exists>v. map_of mf (pfRel f) = Some v \<and> deRecordID (piD it) = drID v \<and> deFrom (piD it) = drRelPath v)
      | ActionUpdate \<Rightarrow> (full f \<or> keptChanged c f) \<and> \<not> pfUnchanged f \<and> recordOf f it (\<lambda>r. drState r \<noteq> StateMissing)
      | ActionLink \<Rightarrow> (full f \<or> keptChanged c f) \<and>
          (piChange it \<longrightarrow> \<not> pfUnchanged f \<and> recordOf f it (\<lambda>r. drState r \<noteq> StateMissing))
      | ActionCopy \<Rightarrow> (full f \<or> keptChanged c f) \<and> (pfRec f = None \<or> recordOf f it (\<lambda>_. True))
      | ActionAdopt \<Rightarrow> full f \<and> pfRec f = None
      | ActionRetain \<Rightarrow> \<not> full f \<and> cfRelease c \<noteq> None \<and> recordOf f it (\<lambda>r. drState r \<noteq> StateMissing)
      | _ \<Rightarrow> False)"

declare itemFor.simps [simp del]

text \<open>A step appends items to the lists of a file's items; it leaves the retains, and the promotes up
  to the item they wait for.\<close>

definition appends ::
    "planState \<Rightarrow> planState \<Rightarrow> planItem list \<Rightarrow> planItem list \<Rightarrow> planItem list \<Rightarrow> planItem list \<Rightarrow> bool" where
  "appends s s' ms ps ls rs \<longleftrightarrow> psMoves s' = psMoves s @ ms \<and> psPuts s' = psPuts s @ ps
     \<and> psLinks s' = psLinks s @ ls \<and> psReleases s' = psReleases s @ rs \<and> psRetains s' = psRetains s
     \<and> dets (psPromotes s') = dets (psPromotes s) \<and> psDeferred s' = psDeferred s"

lemmas item_simps = itemFor.simps recordOf_def mkItem_def fileDetail_def zeroDetail_def failItem_def unknownCopy_def

lemma moveFile_appends:
  assumes "map_of mf (pfRel f) = Some v" "pfRec f = None"
  shows "\<exists>it. appends s (moveFile c f v s) [it] [] [] [] \<and> itemFor c mf f it \<and> piAction it = ActionMove"
  using assms by (auto simp: moveFile_def Let_def appends_def item_simps split: option.splits)

lemma updateFile_appends:
  assumes "pfRec f = Some r" "full f \<or> keptChanged c f" "\<not> pfUnchanged f" "drState r \<noteq> StateMissing"
  shows "\<exists>it. appends s (updateFile c f r s) [] [it] [] [] \<and> itemFor c mf f it \<and> piAction it = ActionUpdate"
  using assms by (auto simp: updateFile_def putItem_def Let_def appends_def item_simps)

lemma repairFile_appends:
  assumes "pfRec f = Some r" "full f \<or> keptChanged c f"
  shows "\<exists>it. appends s (repairFile c f r s) [] [it] [] [] \<and> itemFor c mf f it \<and> piAction it = ActionCopy"
  using assms by (auto simp: repairFile_def putItem_def Let_def appends_def item_simps)

lemma newFile_appends:
  assumes "newFile c f s = Inr s'" "pfRec f = None" "full f"
  shows "\<exists>it. appends s s' [] [it] [] [] \<and> itemFor c mf f it"
  using assms
  by (auto simp: newFile_def putItem_def Let_def appends_def item_simps split: option.splits sum.splits fsError.splits if_splits)

lemma linkFile_appends:
  assumes "full f \<or> keptChanged c f"
    and "\<And>r1. r = Some r1 \<Longrightarrow> pfRec f = Some r1 \<and> (isRepair \<or> drState r1 = StateMissing \<or> \<not> pfUnchanged f)"
  shows "\<exists>it. appends s (linkFile c f prim r isRepair s) [] [] [it] [] \<and> itemFor c mf f it"
  using assms by (auto simp: linkFile_def Let_def appends_def item_simps split: option.splits)

lemma waitPromote_appends: "appends s s' ms ps ls rs \<Longrightarrow> appends s (waitPromote r n s') ms ps ls rs"
  by (auto simp: waitPromote_def appends_def split: option.splits)

lemma keepFile_appends:
  assumes "pfRec f = Some r" "\<not> full f"
  shows "\<exists>rs. appends s (keepFile c f r s) [] [] [] rs \<and> list_all (\<lambda>it. itemFor c mf f it \<and> piAction it = ActionRetain) rs"
  using assms
  by (auto simp: keepFile_def tierItem_def emitRelease_def Let_def appends_def item_simps split: option.splits if_splits)


text \<open>A file that has an item that writes its content is the source of one.\<close>

definition itemOfOk :: "planState \<Rightarrow> bool" where
  "itemOfOk s \<longleftrightarrow> (\<forall>rel. psItemOf s rel \<noteq> None \<longrightarrow> rel \<in> (deSource \<circ> piD) ` set (psMoves s @ psPuts s))"

lemmas source_simps = itemOfOk_def mkItem_def fileDetail_def zeroDetail_def failItem_def unknownCopy_def

lemma putItem_itemOf:
  "itemOfOk s \<Longrightarrow> deSource (piD it) = pfRel f \<Longrightarrow> itemOfOk (putItem f it s)"
  by (auto simp: itemOfOk_def putItem_def)

lemma itemOfOk_cong:
  "psItemOf s' = psItemOf s \<Longrightarrow> psMoves s' = psMoves s \<Longrightarrow> psPuts s' = psPuts s \<Longrightarrow> itemOfOk s' = itemOfOk s"
  by (simp add: itemOfOk_def)

lemma repairFile_itemOf: "itemOfOk s \<Longrightarrow> itemOfOk (repairFile c f r s)"
  unfolding repairFile_def Let_def by (rule putItem_itemOf) (simp_all add: source_simps)

lemma updateFile_itemOf: "itemOfOk s \<Longrightarrow> itemOfOk (updateFile c f r s)"
  unfolding updateFile_def Let_def by (rule putItem_itemOf) (simp_all add: source_simps)

lemma moveFile_itemOf: "itemOfOk s \<Longrightarrow> itemOfOk (moveFile c f v s)"
  by (auto simp: moveFile_def Let_def source_simps split: option.splits)

lemma linkFile_itemOf: "itemOfOk (linkFile c f prim r b s) = itemOfOk s"
  by (rule itemOfOk_cong) (auto simp: linkFile_def Let_def split: option.splits)

lemma waitPromote_itemOf: "itemOfOk (waitPromote r n s) = itemOfOk s"
  by (rule itemOfOk_cong) (auto simp: waitPromote_def split: option.splits)

lemma keepFile_itemOf: "itemOfOk (keepFile c f r s) = itemOfOk s"
  by (rule itemOfOk_cong)
    (auto simp: keepFile_def tierItem_def emitRelease_def Let_def split: option.splits)

lemma newFile_itemOf: "newFile c f s = Inr s' \<Longrightarrow> itemOfOk s \<Longrightarrow> itemOfOk s'"
  by (auto simp: newFile_def putItem_def Let_def source_simps split: option.splits sum.splits fsError.splits if_splits)

definition coveredIn :: "planState \<Rightarrow> planFile \<Rightarrow> bool" where
  "coveredIn s f \<longleftrightarrow> pfRel f \<in> (deSource \<circ> piD) ` set (psMoves s @ psPuts s @ psLinks s)
     \<or> pfUnchanged f \<and> pfRec f \<noteq> None"

lemma itemFor_source: "itemFor c mf f it \<Longrightarrow> deSource (piD it) = pfRel f"
  by (simp add: itemFor.simps)

lemma appends_covered:
  assumes "appends s s' ms ps ls rs" "it \<in> set (ms @ ps @ ls)" "itemFor c mf f it"
  shows "coveredIn s' f"
proof -
  have "it \<in> set (psMoves s' @ psPuts s' @ psLinks s')" using assms(1,2) by (auto simp: appends_def)
  with itemFor_source [OF assms(3)] show ?thesis unfolding coveredIn_def by (metis comp_apply image_eqI)
qed

text \<open>The step of one file.\<close>

definition stepOk ::
    "plannerCfg \<Rightarrow> (string \<times> destRecord) list \<Rightarrow> planFile \<Rightarrow> planState \<Rightarrow> planState \<Rightarrow> bool" where
  "stepOk c mf f s s' \<longleftrightarrow> (\<exists>ms ps ls rs. appends s s' ms ps ls rs \<and> list_all (itemFor c mf f) (ms @ ps @ ls @ rs)
     \<and> list_all (\<lambda>it. piAction it = ActionRetain) rs \<and> list_all (\<lambda>it. piAction it = ActionMove) ms
     \<and> (pfRec f = None \<and> map_of mf (pfRel f) \<noteq> None \<longrightarrow> ms \<noteq> []))"

lemma stepOk_one:
  assumes "appends s s' ms ps ls rs" "list_all (itemFor c mf f) (ms @ ps @ ls @ rs)"
    "list_all (\<lambda>it. piAction it = ActionRetain) rs" "list_all (\<lambda>it. piAction it = ActionMove) ms"
    "pfRec f = None \<Longrightarrow> map_of mf (pfRel f) \<noteq> None \<Longrightarrow> ms \<noteq> []"
  shows "stepOk c mf f s s'"
  unfolding stepOk_def
  by (intro exI [of _ ms] exI [of _ ps] exI [of _ ls] exI [of _ rs]) (use assms in simp)

lemma planFull_step:
  assumes res: "planFull c fs mf relink f s = Inr s'" and f: "full f \<or> keptChanged c f" and ok: "itemOfOk s"
  shows "stepOk c mf f s s' \<and> coveredIn s' f \<and> itemOfOk s'"
proof (cases "pfRec f")
  case None
  with f have fu: "full f" by (auto simp: keptChanged_def recHas_def)
  show ?thesis
  proof (cases "map_of mf (pfRel f)")
    case (Some v)
    with res None have s': "s' = moveFile c f v s" by (simp add: planFull_def Let_def)
    from moveFile_appends [OF Some None, of s c] obtain it where
      it: "appends s s' [it] [] [] []" "itemFor c mf f it" "piAction it = ActionMove" unfolding s' by blast
    have "stepOk c mf f s s'" by (rule stepOk_one [OF it(1)]) (use it None Some in simp_all)
    with appends_covered [OF it(1) _ it(2)] moveFile_itemOf [OF ok] s' show ?thesis by simp
  next
    case nomove: None
    show ?thesis
    proof (cases "pfRel (primaryOf fs (psPromoteTarget s) mf f) = pfRel f")
      case True
      with res None nomove have s': "newFile c f s = Inr s'" by (simp add: planFull_def Let_def)
      from newFile_appends [OF s' None fu] obtain it where it: "appends s s' [] [it] [] []" "itemFor c mf f it" by blast
      have "stepOk c mf f s s'" by (rule stepOk_one [OF it(1)]) (use it nomove in simp_all)
      with appends_covered [OF it(1) _ it(2)] newFile_itemOf [OF s' ok] show ?thesis by simp
    next
      case False
      with res None nomove have s': "s' = linkFile c f (primaryOf fs (psPromoteTarget s) mf f) None False s"
        by (simp add: planFull_def Let_def)
      from linkFile_appends [OF f, of None] obtain it where
        it: "appends s s' [] [] [it] []" "itemFor c mf f it" unfolding s' by blast
      have "stepOk c mf f s s'" by (rule stepOk_one [OF it(1)]) (use it nomove in simp_all)
      with appends_covered [OF it(1) _ it(2)] linkFile_itemOf ok s' show ?thesis by simp
    qed
  qed
next
  case (Some r)
  have put: ?thesis if "appends s s' [] [it] [] []" "itemFor c mf f it" "itemOfOk s'" for it
    using stepOk_one [OF that(1), of c mf f] appends_covered [OF that(1) _ that(2)] that Some by simp
  have lnk: ?thesis if "appends s s' [] [] [it] []" "itemFor c mf f it" "itemOfOk s'" for it
    using stepOk_one [OF that(1), of c mf f] appends_covered [OF that(1) _ that(2)] that Some by simp
  have same: ?thesis if "s' = s" "coveredIn s f"
    using that ok Some stepOk_one [of s s' "[]" "[]" "[]" "[]" c mf f] by (simp add: appends_def)
  let ?prim = "primaryOf fs (psPromoteTarget s) mf f"
  consider (planned) "s' = s" "psItemOf s (pfRel f) \<noteq> None"
    | (repair) "s' = repairFile c f r s"
    | (relink) b where "s' = linkFile c f ?prim (Some r) b s" "b \<or> drState r = StateMissing"
    | (unchanged) "s' = s" "pfUnchanged f"
    | (link) "s' = waitPromote r (psNext s) (linkFile c f ?prim (Some r) False s)" "\<not> pfUnchanged f"
    | (update) "s' = waitPromote r (psNext s) (updateFile c f r s)" "\<not> pfUnchanged f" "drState r \<noteq> StateMissing"
    using res Some unfolding planFull_def Let_def by (auto split: if_splits)
  then show ?thesis
  proof cases
    case planned
    with ok have "coveredIn s f" by (auto simp: itemOfOk_def coveredIn_def)
    with planned same show ?thesis by blast
  next
    case repair
    with repairFile_appends [OF Some f, of s mf] repairFile_itemOf [OF ok] put show ?thesis by blast
  next
    case relink
    with linkFile_appends [OF f, of "Some r" b s ?prim mf] Some linkFile_itemOf ok lnk show ?thesis by blast
  next
    case unchanged
    with same Some show ?thesis by (simp add: coveredIn_def)
  next
    case link
    with linkFile_appends [OF f, of "Some r" False s ?prim mf] Some linkFile_itemOf waitPromote_itemOf
      waitPromote_appends ok lnk show ?thesis by metis
  next
    case update
    with updateFile_appends [OF Some f update(2,3), of s mf] updateFile_itemOf [OF ok] waitPromote_itemOf
      waitPromote_appends put show ?thesis by metis
  qed
qed


lemma tierItem_appends: "appends s (tierItem c f why r (s\<lparr>psNonFullNew := x\<rparr>)) [] [] [] []"
  by (auto simp: tierItem_def Let_def appends_def)

lemma planKept_step:
  assumes "\<not> full f" "itemOfOk s"
  shows "stepOk c mf f s (planKept c mf f s) \<and> itemOfOk (planKept c mf f s)"
proof (cases "pfRec f")
  case (Some r)
  from keepFile_appends [OF Some assms(1), of s c mf] obtain rs where
    rs: "appends s (keepFile c f r s) [] [] [] rs" "list_all (\<lambda>it. itemFor c mf f it \<and> piAction it = ActionRetain) rs" by blast
  have "stepOk c mf f s (keepFile c f r s)" by (rule stepOk_one [OF rs(1)]) (use rs(2) Some in \<open>auto simp: list_all_iff\<close>)
  with keepFile_itemOf assms(2) Some show ?thesis by (simp add: planKept_def)
next
  case None
  show ?thesis
  proof (cases "map_of mf (pfRel f)")
    case nomove: None
    let ?s = "tierItem c f ''not copied'' None (s\<lparr>psNonFullNew := psNonFullNew s @ [f]\<rparr>)"
    have "itemOfOk ?s = itemOfOk s" by (rule itemOfOk_cong) (auto simp: tierItem_def Let_def)
    moreover have "stepOk c mf f s ?s" by (rule stepOk_one [OF tierItem_appends]) (use nomove in simp_all)
    ultimately show ?thesis using None nomove assms(2) by (simp add: planKept_def)
  next
    case (Some v)
    from moveFile_appends [OF Some None, of s c] obtain it where
      it: "appends s (moveFile c f v s) [it] [] [] []" "itemFor c mf f it" "piAction it = ActionMove" by blast
    have "stepOk c mf f s (moveFile c f v s)" by (rule stepOk_one [OF it(1)]) (use it in simp_all)
    with moveFile_itemOf [OF assms(2)] None Some show ?thesis by (simp add: planKept_def)
  qed
qed

lemma stepOk_cong:
  "stepOk c mf f (s\<lparr>psTierKept := x\<rparr>) s' = stepOk c mf f s s'"
  by (simp add: stepOk_def appends_def)

lemma planOne_step:
  assumes "planOne c fs mf relink f s = Inr s'" "itemOfOk s"
  shows "stepOk c mf f s s' \<and> itemOfOk s' \<and> (full f \<longrightarrow> coveredIn s' f)"
proof -
  consider "full f" "planFull c fs mf relink f s = Inr s'"
    | "keptChanged c f" "planFull c fs mf relink f (s\<lparr>psTierKept := addCount (pfSize f) (psTierKept s)\<rparr>) = Inr s'"
    | "\<not> full f" "s' = planKept c mf f s"
    using assms(1) by (auto simp: planOne_def split: if_splits)
  then show ?thesis
  proof cases
    case 1
    with planFull_step [OF 1(2)] assms(2) show ?thesis by blast
  next
    case 2
    have "itemOfOk (s\<lparr>psTierKept := addCount (pfSize f) (psTierKept s)\<rparr>)" using assms(2) by (simp add: itemOfOk_def)
    with planFull_step [OF 2(2)] 2(1) stepOk_cong show ?thesis by blast
  next
    case 3
    with planKept_step assms(2) show ?thesis by blast
  qed
qed

text \<open>The loop over the files.\<close>

definition loopOk ::
    "plannerCfg \<Rightarrow> (string \<times> destRecord) list \<Rightarrow> planFile list \<Rightarrow> planState \<Rightarrow> planState \<Rightarrow> bool" where
  "loopOk c mf gs s s' \<longleftrightarrow> (\<exists>ms ps ls rs. appends s s' ms ps ls rs
     \<and> list_all (\<lambda>it. \<exists>f \<in> set gs. itemFor c mf f it) (ms @ ps @ ls @ rs)
     \<and> list_all (\<lambda>it. piAction it = ActionRetain) rs \<and> list_all (\<lambda>it. piAction it = ActionMove) ms)
   \<and> list_all (\<lambda>f. full f \<longrightarrow> coveredIn s' f) gs
   \<and> list_all (\<lambda>f. pfRec f = None \<and> map_of mf (pfRel f) \<noteq> None \<longrightarrow> pfRel f \<in> (deSource \<circ> piD) ` set (psMoves s')) gs"

lemma appends_trans:
  assumes "appends s s1 ms ps ls rs" "appends s1 s2 ms' ps' ls' rs'"
  shows "appends s s2 (ms @ ms') (ps @ ps') (ls @ ls') (rs @ rs')"
  using assms by (simp add: appends_def)

lemma covered_appends: "appends s s' ms ps ls rs \<Longrightarrow> coveredIn s f \<Longrightarrow> coveredIn s' f"
  by (auto simp: appends_def coveredIn_def)

lemma planLoop_ok:
  assumes "planLoop c fs mf relink gs s = Inr s'" "itemOfOk s"
  shows "loopOk c mf gs s s' \<and> itemOfOk s'"
  using assms
proof (induction gs arbitrary: s)
  case Nil
  then show ?case by (auto simp: loopOk_def appends_def intro!: exI [of _ "[]"])
next
  case (Cons f gs)
  from Cons.prems(1) obtain s1 where s1: "planOne c fs mf relink f s = Inr s1" "planLoop c fs mf relink gs s1 = Inr s'"
    by (auto split: sum.splits)
  note one = planOne_step [OF s1(1) Cons.prems(2)]
  note rest = Cons.IH [OF s1(2)]
  from one obtain ms ps ls rs where a: "appends s s1 ms ps ls rs" "list_all (itemFor c mf f) (ms @ ps @ ls @ rs)"
    "list_all (\<lambda>it. piAction it = ActionRetain) rs" "list_all (\<lambda>it. piAction it = ActionMove) ms"
    "pfRec f = None \<and> map_of mf (pfRel f) \<noteq> None \<longrightarrow> ms \<noteq> []" unfolding stepOk_def by blast
  from one rest have r: "loopOk c mf gs s1 s'" "itemOfOk s'" by blast+
  then obtain ms' ps' ls' rs' where b: "appends s1 s' ms' ps' ls' rs'"
    "list_all (\<lambda>it. \<exists>f \<in> set gs. itemFor c mf f it) (ms' @ ps' @ ls' @ rs')"
    "list_all (\<lambda>it. piAction it = ActionRetain) rs'" "list_all (\<lambda>it. piAction it = ActionMove) ms'"
    unfolding loopOk_def by blast
  have "full f \<longrightarrow> coveredIn s' f" using one covered_appends [OF b(1)] by blast
  moreover have "pfRel f \<in> (deSource \<circ> piD) ` set (psMoves s')" if "pfRec f = None \<and> map_of mf (pfRel f) \<noteq> None"
  proof -
    from a(5) that obtain it where it: "it \<in> set ms" by (cases ms) auto
    then have "it \<in> set (psMoves s')" using a(1) b(1) by (simp add: appends_def)
    moreover have "itemFor c mf f it" using a(2) it by (auto simp: list_all_iff)
    then have "deSource (piD it) = pfRel f" by (rule itemFor_source)
    ultimately show ?thesis by (metis comp_apply image_eqI)
  qed
  moreover have "\<exists>ms ps ls rs. appends s s' ms ps ls rs
     \<and> list_all (\<lambda>it. \<exists>f \<in> set (f # gs). itemFor c mf f it) (ms @ ps @ ls @ rs)
     \<and> list_all (\<lambda>it. piAction it = ActionRetain) rs \<and> list_all (\<lambda>it. piAction it = ActionMove) ms"
    by (intro exI conjI, rule appends_trans [OF a(1) b(1)]) (use a b in \<open>auto simp: list_all_iff\<close>)
  ultimately show ?case using r unfolding loopOk_def by simp
qed

section \<open>Before the files\<close>

lemma lostStep_appends:
  assumes "survives fs d"
  shows "\<exists>ps. appends s (lostStep c fs f r d s) [] ps [] [] \<and>
     list_all (\<lambda>it. \<exists>g \<in> set fs. itemFor c mf g it \<and> piAction it = ActionCopy) ps
     \<and> (itemOfOk s \<longrightarrow> itemOfOk (lostStep c fs f r d s))"
proof -
  from assms obtain df where df: "fileByRel fs (drSourceRelPath d) = Some df" "pfRec df = Some d"
    by (auto simp: survives_def split: option.splits)
  have mem: "df \<in> set fs" using df(1) by (auto simp: fileByRel_def dest: find_Some_setD)
  have "(full df \<and> (\<exists>x. lostStep c fs f r d s = repairFile c df d (s\<lparr>psNeedRepair := x\<rparr>)))
      \<or> (\<exists>x. lostStep c fs f r d s = s\<lparr>psLost := x\<rparr>) \<or> lostStep c fs f r d s = s"
  proof (cases "full df")
    case True
    let ?n = "drState d = StateLinkRecorded
      \<and> \<not> (full f \<and> pfSize f = drSize d \<and> mtimeEqual c (pfMtimeNs f) (drMtimeNs d)) \<and> drID d \<notin> psNeedRepair s"
    have "lostStep c fs f r d s =
        (if ?n then repairFile c df d (s\<lparr>psNeedRepair := insert (drID d) (psNeedRepair s)\<rparr>) else s)"
      using True by (simp only: lostStep_def Let_def df(1) option.case not_True_eq_False if_False)
    then show ?thesis using True by (cases ?n) (metis if_P, metis if_not_P)
  next
    case False
    then have "\<exists>P x. lostStep c fs f r d s = (if P then s\<lparr>psLost := x\<rparr> else s)"
      by (simp only: lostStep_def Let_def df(1) option.case not_False_eq_True if_True) blast
    then show ?thesis by metis
  qed
  then consider (repair) x where "lostStep c fs f r d s = repairFile c df d (s\<lparr>psNeedRepair := x\<rparr>)" "full df"
    | (lost) x where "lostStep c fs f r d s = s\<lparr>psLost := x\<rparr>" | (same) "lostStep c fs f r d s = s"
    by blast
  then show ?thesis
  proof cases
    case repair
    from repairFile_appends [OF df(2), of c "s\<lparr>psNeedRepair := x\<rparr>" mf] repair(2) obtain it where
      it: "appends (s\<lparr>psNeedRepair := x\<rparr>) (lostStep c fs f r d s) [] [it] [] []" "itemFor c mf df it" "piAction it = ActionCopy"
      unfolding repair(1) by blast
    have "itemOfOk s \<longrightarrow> itemOfOk (lostStep c fs f r d s)"
      unfolding repair(1) using repairFile_itemOf [of "s\<lparr>psNeedRepair := x\<rparr>"] by (simp add: itemOfOk_def)
    with it mem show ?thesis by (intro exI [of _ "[it]"]) (auto simp: appends_def)
  next
    case lost
    then show ?thesis by (intro exI [of _ "[]"]) (simp add: appends_def itemOfOk_def)
  next
    case same
    then show ?thesis by (intro exI [of _ "[]"]) (simp add: appends_def)
  qed
qed


lemma fold_lost_appends:
  assumes "list_all (survives fs) ds" "itemOfOk s"
  shows "\<exists>ps. appends s (fold (lostStep c fs f r) ds s) [] ps [] [] \<and>
     list_all (\<lambda>it. \<exists>g \<in> set fs. itemFor c mf g it \<and> piAction it = ActionCopy) ps
     \<and> itemOfOk (fold (lostStep c fs f r) ds s)"
  using assms
proof (induction ds arbitrary: s)
  case Nil
  then show ?case by (intro exI [of _ "[]"]) (simp add: appends_def)
next
  case (Cons d ds)
  from lostStep_appends [of fs d s c f r mf] Cons.prems obtain ps where
    a: "appends s (lostStep c fs f r d s) [] ps [] []"
    "list_all (\<lambda>it. \<exists>g \<in> set fs. itemFor c mf g it \<and> piAction it = ActionCopy) ps" "itemOfOk (lostStep c fs f r d s)" by auto
  from Cons.IH [OF _ a(3)] Cons.prems(1) obtain ps' where
    b: "appends (lostStep c fs f r d s) (fold (lostStep c fs f r) ds (lostStep c fs f r d s)) [] ps' [] []"
    "list_all (\<lambda>it. \<exists>g \<in> set fs. itemFor c mf g it \<and> piAction it = ActionCopy) ps'"
    "itemOfOk (fold (lostStep c fs f r) ds (lostStep c fs f r d s))" by auto
  show ?case using appends_trans [OF a(1) b(1)] a(2) b(2,3) by (intro exI [of _ "ps @ ps'"]) simp
qed

lemma fold_missing_appends:
  assumes "itemOfOk s"
  shows "\<exists>ps. appends s (fold (missingStep c fs recs) gs s) [] ps [] [] \<and>
     list_all (\<lambda>it. \<exists>g \<in> set fs. itemFor c mf g it \<and> piAction it = ActionCopy) ps
     \<and> itemOfOk (fold (missingStep c fs recs) gs s)"
  using assms
proof (induction gs arbitrary: s)
  case Nil
  then show ?case by (intro exI [of _ "[]"]) (simp add: appends_def)
next
  case (Cons f gs)
  have "\<exists>ps. appends s (missingStep c fs recs f s) [] ps [] [] \<and>
     list_all (\<lambda>it. \<exists>g \<in> set fs. itemFor c mf g it \<and> piAction it = ActionCopy) ps
     \<and> itemOfOk (missingStep c fs recs f s)"
  proof (cases "\<exists>r. pfRec f = Some r \<and> drState r = StateMissing")
    case True
    then obtain r where r: "pfRec f = Some r" "drState r = StateMissing" by blast
    have "list_all (survives fs) (surviving fs recs r)" by (simp add: surviving_def list_all_iff)
    from fold_lost_appends [OF this Cons.prems] r show ?thesis by (simp add: missingStep_def)
  next
    case False
    then have "missingStep c fs recs f s = s" by (auto simp: missingStep_def split: option.splits)
    with Cons.prems show ?thesis by (intro exI [of _ "[]"]) (simp add: appends_def)
  qed
  then obtain ps where a: "appends s (missingStep c fs recs f s) [] ps [] []"
    "list_all (\<lambda>it. \<exists>g \<in> set fs. itemFor c mf g it \<and> piAction it = ActionCopy) ps"
    "itemOfOk (missingStep c fs recs f s)" by blast
  from Cons.IH [OF a(3)] obtain ps' where
    b: "appends (missingStep c fs recs f s) (fold (missingStep c fs recs) gs (missingStep c fs recs f s)) [] ps' [] []"
    "list_all (\<lambda>it. \<exists>g \<in> set fs. itemFor c mf g it \<and> piAction it = ActionCopy) ps'"
    "itemOfOk (fold (missingStep c fs recs) gs (missingStep c fs recs f s))" by auto
  show ?case using appends_trans [OF a(1) b(1)] a(2) b(2,3) by (intro exI [of _ "ps @ ps'"]) simp
qed

text \<open>The state the loop over the files starts from.\<close>

lemma beforeFiles_ok:
  fixes c fs recs mf names
  defines "b \<equiv> beforeFiles c fs recs mf names"
  defines "v \<equiv> fold (vanishedStep c fs recs mf) (vanishedRecs fs recs) (initState names)"
  shows "psMoves b = [] \<and> psLinks b = [] \<and> psReleases b = [] \<and> psRetains b = psRetains v
      \<and> psDeferred b = psDeferred v \<and> dets (psPromotes b) = dets (psPromotes (fold (promoteStep c fs recs) fs v))"
    and "list_all (\<lambda>it. \<exists>g \<in> set fs. itemFor c mf g it \<and> piAction it = ActionCopy) (psPuts b)" and "itemOfOk b"
proof -
  let ?p = "fold (promoteStep c fs recs) fs v"
  have "psMoves v = [] \<and> psPuts v = [] \<and> psLinks v = [] \<and> psReleases v = [] \<and> psItemOf v = Map.empty"
    unfolding v_def
    by (simp add: initState_def vanishedStep_frame fold_keeps [where g = psMoves] fold_keeps [where g = psPuts]
        fold_keeps [where g = psLinks] fold_keeps [where g = psReleases] fold_keeps [where g = psItemOf])
  moreover have "psRetains ?p = psRetains v \<and> psMoves ?p = psMoves v \<and> psPuts ?p = psPuts v \<and> psLinks ?p = psLinks v
      \<and> psReleases ?p = psReleases v \<and> psItemOf ?p = psItemOf v \<and> psDeferred ?p = psDeferred v"
    by (simp add: promoteStep_frame fold_keeps [where g = psMoves] fold_keeps [where g = psPuts]
        fold_keeps [where g = psLinks] fold_keeps [where g = psReleases] fold_keeps [where g = psItemOf]
        fold_keeps [where g = psRetains] fold_keeps [where g = psDeferred])
  ultimately have p: "psRetains ?p = psRetains v \<and> psDeferred ?p = psDeferred v" "psMoves ?p = []" "psPuts ?p = []" "psLinks ?p = []"
    "psReleases ?p = []" "itemOfOk ?p" by (simp_all add: itemOfOk_def)
  from fold_missing_appends [OF p(6), of c fs recs fs mf] obtain ps where
    "appends ?p b [] ps [] []" "list_all (\<lambda>it. \<exists>g \<in> set fs. itemFor c mf g it \<and> piAction it = ActionCopy) ps" "itemOfOk b"
    unfolding b_def beforeFiles_def v_def by blast
  with p show "psMoves b = [] \<and> psLinks b = [] \<and> psReleases b = [] \<and> psRetains b = psRetains v
      \<and> psDeferred b = psDeferred v \<and> dets (psPromotes b) = dets (psPromotes ?p)"
    "list_all (\<lambda>it. \<exists>g \<in> set fs. itemFor c mf g it \<and> piAction it = ActionCopy) (psPuts b)" "itemOfOk b"
    by (simp_all add: appends_def)
qed


section \<open>Moves pair equal content\<close>

definition sameContent :: "plannerCfg \<Rightarrow> string \<Rightarrow> destRecord \<Rightarrow> bool" where
  "sameContent c rel v \<longleftrightarrow> (\<exists>h. cfSourceHeadTail c rel = Inr h \<and> cfDestHeadTail c (drRelPath v) = Inr h)"

lemma pickMove_sound:
  "pickMove c f moved sh vs = Inr (Some v) \<Longrightarrow> (\<And>h. sh = Some h \<Longrightarrow> cfSourceHeadTail c (pfRel f) = Inr h) \<Longrightarrow>
     v \<in> set vs \<and> drID v \<notin> moved \<and> sameContent c (pfRel f) v"
proof (induction vs arbitrary: sh)
  case (Cons w vs)
  show ?case
  proof (cases "drID w \<in> moved")
    case True
    with Cons show ?thesis by auto
  next
    case False
    let ?src = "case sh of Some h \<Rightarrow> Inr h | None \<Rightarrow> cfSourceHeadTail c (pfRel f)"
    from False Cons.prems(1) obtain h where h: "?src = Inr h" by (auto split: sum.splits fsError.splits)
    then have src: "cfSourceHeadTail c (pfRel f) = Inr h" using Cons.prems(2) by (auto split: option.splits)
    show ?thesis
    proof (cases "cfDestHeadTail c (drRelPath w) = Inr h")
      case True
      with False Cons.prems(1) h have "v = w" by simp
      with False src True show ?thesis by (simp add: sameContent_def)
    next
      case notsame: False
      with False Cons.prems(1) h have "pickMove c f moved (Some h) vs = Inr (Some v)"
        by (auto split: sum.splits fsError.splits if_splits)
      with Cons.IH [of "Some h"] src show ?thesis by simp
    qed
  qed
qed simp

definition movesOk :: "plannerCfg \<Rightarrow> planFile list \<Rightarrow> destRecord list \<Rightarrow> (string \<times> destRecord) list \<Rightarrow> bool" where
  "movesOk c fs vanished mf \<longleftrightarrow> distinct (map (drID \<circ> snd) mf) \<and>
     (\<forall>(rel, v) \<in> set mf. v \<in> set vanished \<and> (drState v = StatePresent \<or> drState v = StateLinked) \<and> sameContent c rel v
        \<and> (\<exists>f \<in> set fs. pfRel f = rel \<and> pfRec f = None \<and> drSize v = pfSize f \<and> drMtimeNs v = pfMtimeNs f))"

lemma pairLoop_ok:
  assumes "pairLoop c fs vanished mf gs = Inr mf'" "movesOk c fs vanished mf" "set gs \<subseteq> set fs"
    "distinct (map fst mf @ map pfRel gs)"
  shows "movesOk c fs vanished mf' \<and> distinct (map fst mf')"
  using assms
proof (induction c fs vanished mf gs rule: pairLoop.induct)
  case (2 c fs vanished mf f rest)
  show ?case
  proof (cases "movable fs f")
    case False
    with 2 show ?thesis by simp
  next
    case True
    then have f: "f \<in> set fs" "pfRec f = None" using "2.prems"(3) by (auto simp: movable_def)
    let ?pick = "pickMove c f (set (map (drID \<circ> snd) mf)) None (moveCandidates vanished f)"
    from True "2.prems"(1) consider "?pick = Inr None" "pairLoop c fs vanished mf rest = Inr mf'"
      | v where "?pick = Inr (Some v)" "pairLoop c fs vanished (mf @ [(pfRel f, v)]) rest = Inr mf'"
      by (auto split: sum.splits option.splits)
    then show ?thesis
    proof cases
      case 1
      with 2 True show ?thesis by auto
    next
      case (2 v)
      from pickMove_sound [OF 2(1)] have v: "v \<in> set (moveCandidates vanished f)" "drID v \<notin> (drID \<circ> snd) ` set mf"
        "sameContent c (pfRel f) v" by auto
      have "movesOk c fs vanished (mf @ [(pfRel f, v)])"
        using v f "2.prems"(2) by (auto simp: movesOk_def moveCandidates_def)
      moreover have "distinct (map fst (mf @ [(pfRel f, v)]) @ map pfRel rest)" using "2.prems"(4) by auto
      ultimately show ?thesis using "2.IH"(3) [OF _ 2(1)] True 2 "2.prems"(3) by auto
    qed
  qed
qed auto


section \<open>An example\<close>

text \<open>A source with an unchanged file, a new file, a renamed file and a hardlink whose primary is
  gone: the plan has a copy, a move, a promote and a retain.\<close>

definition exFile :: "ident \<Rightarrow> string \<Rightarrow> int \<Rightarrow> planFile" where
  "exFile i rel sz = \<lparr>pfID = i, pfRel = rel, pfSize = sz, pfMtimeNs = 5, pfGroup = [], pfRec = None,
     pfUnchanged = False, pfDec = None, pfReplaced = False\<rparr>"

definition exRecord :: "ident \<Rightarrow> string \<Rightarrow> int \<Rightarrow> ident \<Rightarrow> recState \<Rightarrow> destRecord" where
  "exRecord i rel sz lnk st = \<lparr>drID = i, drDestinationID = 1, drSourceID = 1, drRelPath = ''m/'' @ rel,
     drSourceRelPath = rel, drSize = sz, drMtimeNs = 5, drHash = [], drLinkOf = lnk, drState = st, drRetainedPath = [],
     drReason = [], drJobID = 0, drCopiedAt = None, drVerifiedAt = None, drRetainedAt = None, drExpiresAt = None,
     drEngineRef = [], drHeadTail = []\<rparr>"

definition exPlanCfg :: plannerCfg where
  "exPlanCfg = \<lparr>cfSourceID = 1, cfDestFolder = ''m'',
     cfCaps = \<lparr>capCaseInsensitive = False, capInvalidChars = [], capTrailingDotSpace = True, capMtimeGranularityNs = 1\<rparr>,
     cfSettings = \<lparr>ssAdoptExisting = AdoptOff, ssMtimeWindowSec = 0, ssMaxChangePercent = 50, ssMaxChangeFiles = 100\<rparr>,
     cfSourceHeadTail = (\<lambda>_. Inr ''h''), cfDestHeadTail = (\<lambda>_. Inr ''h''), cfDestStat = (\<lambda>_. Inr None),
     cfTargeted = False, cfDryRun = False, cfRelease = None, cfArrAdded = None, cfUpdateKept = False,
     cfFoldKey = (\<lambda>s. s)\<rparr>"

definition exPlanFiles :: "planFile list" where
  "exPlanFiles = [exFile 1 ''a'' 10, exFile 2 ''b'' 20, exFile 3 ''c'' 30, exFile 4 ''d'' 40]"

definition exPlanRecs :: "destRecord list" where
  "exPlanRecs = [exRecord 1 ''a'' 10 0 StatePresent, exRecord 3 ''c'' 30 5 StateLinked,
     exRecord 4 ''old'' 40 0 StatePresent, exRecord 5 ''p'' 30 0 StatePresent]"

definition exPlan :: planState where
  "exPlan = (case plan exPlanCfg newNameIndex exPlanFiles exPlanRecs of Inr s \<Rightarrow> s | Inl _ \<Rightarrow> initState newNameIndex)"

lemma exPlan_input: "inputOk exPlanFiles exPlanRecs"
  by (simp add: inputOk_def exPlanFiles_def exPlanRecs_def exFile_def exRecord_def)

lemma exPlan_plan: "plan exPlanCfg newNameIndex exPlanFiles exPlanRecs = Inr exPlan"
proof -
  have "case plan exPlanCfg newNameIndex exPlanFiles exPlanRecs of Inr _ \<Rightarrow> True | Inl _ \<Rightarrow> False" by code_simp
  then show ?thesis unfolding exPlan_def by (auto split: sum.splits)
qed

section \<open>The whole plan\<close>

lemma itemFor_finish [simp]:
  "itemFor c mf f (withLost lost it) = itemFor c mf f it" "itemFor c mf f (it\<lparr>piAfter := a\<rparr>) = itemFor c mf f it"
  by (auto simp: itemFor.simps withLost_def recordOf_def cong: itemAction.case_cong)

lemma itemFor_setAfter:
  "list_all P its \<Longrightarrow> (\<And>it a. P (it\<lparr>piAfter := a\<rparr>) = P it) \<Longrightarrow> list_all P (setAfter n a its)"
  by (auto simp: setAfter_def list_all_iff)

lemma linkAfters_all:
  assumes "list_all P (psLinks s)" "\<And>it a. P (it\<lparr>piAfter := a\<rparr>) = P it"
  shows "list_all P (psLinks (linkAfters s))"
proof -
  have "list_all P (fold (\<lambda>(n, prim). setAfter n (psItemOf s prim)) xs its)" if "list_all P its" for xs its
    using that
  proof (induction xs arbitrary: its)
    case (Cons x xs)
    then show ?case using itemFor_setAfter [of P its] assms(2) by (cases x) simp
  qed simp
  with assms(1) show ?thesis by (simp add: linkAfters_def)
qed

lemma dets_fold_setAfter: "dets (fold (\<lambda>(n, prim). setAfter n (g prim)) xs its) = dets its"
  by (induction xs arbitrary: its) (auto simp: case_prod_unfold)

lemma finish_sources [simp]: "deSource (piD (withLost lost it)) = deSource (piD it)"
  by (simp add: withLost_def)

lemma finish_frame:
  "psRetains (carryLost (linkAfters s)) = psRetains s" "psPromotes (carryLost (linkAfters s)) = psPromotes s"
  "psMoves (carryLost (linkAfters s)) = psMoves s" "psReleases (carryLost (linkAfters s)) = psReleases s"
  "psDeferred (carryLost (linkAfters s)) = psDeferred s"
  by (simp_all add: carryLost_def linkAfters_def)

lemma finish_covered: "coveredIn s f \<Longrightarrow> coveredIn (carryLost (linkAfters s)) f"
proof -
  have "(deSource \<circ> piD) ` set (psLinks (linkAfters s)) = (deSource \<circ> piD) ` set (psLinks s)"
    using arg_cong [OF dets_fold_setAfter [of "psItemOf s" "psLinkItems s" "psLinks s"], of "\<lambda>ds. deSource ` set ds"]
    by (simp add: linkAfters_def image_comp)
  then show "coveredIn s f \<Longrightarrow> coveredIn (carryLost (linkAfters s)) f"
    by (simp add: coveredIn_def carryLost_def image_Un image_comp) (simp add: linkAfters_def)
qed

lemma plan_stages:
  fixes c files recs names
  defines "fs \<equiv> indexFiles c recs files"
  defines "vs \<equiv> vanishedRecs fs recs"
  assumes "inputOk files recs" "plan c names files recs = Inr s"
  obtains mf v where
    "v = fold (vanishedStep c fs recs mf) vs (initState names)" "movesOk c fs vs mf" "distinct (map fst mf)"
    "psRetains s = psRetains v" "dets (psPromotes s) = dets (psPromotes (fold (promoteStep c fs recs) fs v))" "psDeferred s = psDeferred v"
    "list_all (\<lambda>it. \<exists>f \<in> set fs. itemFor c mf f it) (psMoves s @ psPuts s @ psLinks s @ psReleases s)"
    "list_all (\<lambda>it. piAction it = ActionRetain) (psReleases s)" "list_all (\<lambda>it. piAction it = ActionMove) (psMoves s)"
    "list_all (\<lambda>f. full f \<longrightarrow> coveredIn s f) fs"
    "list_all (\<lambda>f. pfRec f = None \<and> map_of mf (pfRel f) \<noteq> None \<longrightarrow> pfRel f \<in> (deSource \<circ> piD) ` set (psMoves s)) fs"
proof -
  from assms(4) obtain mf s0 where mf: "pairMoves c fs vs = Inr mf"
    and s0: "planLoop c fs mf (relinkIDs fs recs) fs (beforeFiles c fs recs mf names) = Inr s0"
    and s: "s = carryLost (linkAfters s0)"
    by (auto simp: plan_def Let_def fs_def vs_def split: sum.splits)
  have "distinct (map pfRel fs)" using assms(3) by (simp add: indexFiles_rels inputOk_def fs_def)
  then have moves: "movesOk c fs vs mf \<and> distinct (map fst mf)"
    using pairLoop_ok [of c fs vs "[]" fs mf] mf by (simp add: pairMoves_def movesOk_def)
  let ?b = "beforeFiles c fs recs mf names"
  let ?v = "fold (vanishedStep c fs recs mf) vs (initState names)"
  note b = beforeFiles_ok [where c = c and fs = fs and recs = recs and mf = mf and names = names, folded vs_def]
  from planLoop_ok [OF s0 b(3)] obtain ms ps ls rs where
    a: "appends ?b s0 ms ps ls rs" "list_all (\<lambda>it. \<exists>f \<in> set fs. itemFor c mf f it) (ms @ ps @ ls @ rs)"
    "list_all (\<lambda>it. piAction it = ActionRetain) rs" "list_all (\<lambda>it. piAction it = ActionMove) ms"
    and loop: "loopOk c mf fs ?b s0"
    unfolding loopOk_def by blast
  let ?P = "\<lambda>it. \<exists>f \<in> set fs. itemFor c mf f it"
  have "list_all ?P (psMoves s0)" "list_all ?P (psPuts s0)" "list_all ?P (psLinks s0)" "list_all ?P (psReleases s0)"
    using a b(1,2) by (auto simp: appends_def list_all_iff)
  moreover from this have "list_all ?P (psLinks (linkAfters s0))" by (intro linkAfters_all) simp_all
  ultimately have items: "list_all ?P (psMoves s @ psPuts s @ psLinks s @ psReleases s)"
    by (auto simp: s carryLost_def linkAfters_def list_all_iff)
  have cov: "list_all (\<lambda>f. full f \<longrightarrow> coveredIn s f) fs" using loop finish_covered unfolding s loopOk_def by (simp add: list_all_iff)
  show thesis
    by (rule that [of ?v mf])
      (use moves a(1,3,4) b(1) items cov loop in \<open>simp_all add: s finish_frame appends_def loopOk_def\<close>)
qed

lemma planE:
  assumes "inputOk files recs" "plan c names files recs = Inr s"
  obtains mf where
    "movesOk c (indexFiles c recs files) (vanishedRecs (indexFiles c recs files) recs) mf" "distinct (map fst mf)"
    "\<And>d. d \<in> set (dets (psRetains s)) \<Longrightarrow> \<exists>v \<in> set (vanishedRecs (indexFiles c recs files) recs).
       deRecordID d = drID v \<and> retainOk c (indexFiles c recs files) recs mf (dets (psPromotes s)) v"
    "\<And>v. v \<in> set (vanishedRecs (indexFiles c recs files) recs) \<Longrightarrow> goneAway c (indexFiles c recs files) mf v \<Longrightarrow>
       drID v \<in> deRecordID ` set (dets (psRetains s)) \<or> drID v \<in> deRecordID ` set (dets (psPromotes s))"
    "\<And>f r. f \<in> set (indexFiles c recs files) \<Longrightarrow> pfRec f = Some r \<Longrightarrow> \<not> pfUnchanged f \<Longrightarrow> drState r = StatePresent \<Longrightarrow>
       full f \<or> keptChanged c f \<Longrightarrow> surviving (indexFiles c recs files) recs r \<noteq> [] \<Longrightarrow>
       savedBy (dets (psPromotes s)) (surviving (indexFiles c recs files) recs r) r"
    "\<And>it. it \<in> set (psMoves s @ psPuts s @ psLinks s @ psReleases s) \<Longrightarrow> \<exists>f \<in> set (indexFiles c recs files). itemFor c mf f it"
    "\<And>it. it \<in> set (psReleases s) \<Longrightarrow> piAction it = ActionRetain"
    "\<And>it. it \<in> set (psMoves s) \<Longrightarrow> piAction it = ActionMove"
    "\<And>f. f \<in> set (indexFiles c recs files) \<Longrightarrow> full f \<Longrightarrow> coveredIn s f"
    "\<And>f. f \<in> set (indexFiles c recs files) \<Longrightarrow> pfRec f = None \<Longrightarrow> map_of mf (pfRel f) \<noteq> None \<Longrightarrow>
       pfRel f \<in> (deSource \<circ> piD) ` set (psMoves s)"
    "\<And>d. d \<in> set (dets (psPromotes s)) \<Longrightarrow>
       promoteOk c (indexFiles c recs files) mf (set (vanishedRecs (indexFiles c recs files) recs)) d"
    "psDeferred s = int (length (filter (deferredBy c (indexFiles c recs files) mf) (vanishedRecs (indexFiles c recs files) recs)))"
proof -
  let ?fs = "indexFiles c recs files"
  let ?vs = "vanishedRecs ?fs recs"
  obtain mf v where v: "v = fold (vanishedStep c ?fs recs mf) ?vs (initState names)" "movesOk c ?fs ?vs mf" "distinct (map fst mf)"
    and s: "psRetains s = psRetains v" "dets (psPromotes s) = dets (psPromotes (fold (promoteStep c ?fs recs) ?fs v))" "psDeferred s = psDeferred v"
    and items: "list_all (\<lambda>it. \<exists>f \<in> set ?fs. itemFor c mf f it) (psMoves s @ psPuts s @ psLinks s @ psReleases s)"
      "list_all (\<lambda>it. piAction it = ActionRetain) (psReleases s)" "list_all (\<lambda>it. piAction it = ActionMove) (psMoves s)"
      "list_all (\<lambda>f. full f \<longrightarrow> coveredIn s f) ?fs"
      "list_all (\<lambda>f. pfRec f = None \<and> map_of mf (pfRel f) \<noteq> None \<longrightarrow> pfRel f \<in> (deSource \<circ> piD) ` set (psMoves s)) ?fs"
    using plan_stages [OF assms] by blast
  have grow: "set (dets (psPromotes v)) \<subseteq> set (dets (psPromotes s))"
    unfolding s(2) by (rule fold_grows [where g = "\<lambda>s. dets (psPromotes s)"], rule promoteStep_grows)
  have init: "psRetains (initState names) = []" by (simp add: initState_def)
  show thesis
  proof (rule that [OF v(2,3)])
    fix d assume "d \<in> set (dets (psRetains s))"
    with fold_vanished [of "initState names" "set ?vs" c ?fs recs mf ?vs] init s(1) v(1) obtain w where
      "w \<in> set ?vs" "deRecordID d = drID w" "retainOk c ?fs recs mf (dets (psPromotes v)) w" by auto
    with retainOk_mono [OF _ grow] show "\<exists>v \<in> set ?vs. deRecordID d = drID v \<and> retainOk c ?fs recs mf (dets (psPromotes s)) v"
      by blast
  next
    fix w assume "w \<in> set ?vs" "goneAway c ?fs mf w"
    from fold_vanished_planned [OF this, of recs "initState names"] grow s(1) v(1)
    show "drID w \<in> deRecordID ` set (dets (psRetains s)) \<or> drID w \<in> deRecordID ` set (dets (psPromotes s))" by auto
  next
    fix f r assume "f \<in> set ?fs" "pfRec f = Some r" "\<not> pfUnchanged f" "drState r = StatePresent" "full f \<or> keptChanged c f"
      "surviving ?fs recs r \<noteq> []"
    then show "savedBy (dets (psPromotes s)) (surviving ?fs recs r) r" unfolding s(2) by (rule fold_promote_saves)
  next
    fix d assume "d \<in> set (dets (psPromotes s))"
    then show "promoteOk c ?fs mf (set ?vs) d" unfolding s(2) v(1) by (rule promotes_ok) simp
  next
    show "psDeferred s = int (length (filter (deferredBy c ?fs mf) ?vs))" by (simp add: s(3) v(1) fold_vanished_deferred initState_def)
  qed (use items in \<open>auto simp: list_all_iff\<close>)
qed

lemma indexed_file:
  assumes "inputOk files recs" "f \<in> set (indexFiles c recs files)" "itemFor c mf f it" "recordOf f it P"
  shows "\<exists>r \<in> set recs. drID r = deRecordID (piD it) \<and> drSourceRelPath r = pfRel f \<and> P r"
  using assms indexFiles_rec [OF assms(1,2)] by (auto simp: recordOf_def)

lemma id_unique: "inputOk files recs \<Longrightarrow> r \<in> set recs \<Longrightarrow> r' \<in> set recs \<Longrightarrow> drID r = drID r' \<Longrightarrow> r = r'"
  by (auto simp: inputOk_def distinct_map dest: inj_onD)

lemma indexed_full:
  assumes "inputOk files recs" "f \<in> set (indexFiles c recs files)"
  shows "\<exists>g \<in> set files. pfRel g = pfRel f \<and> full g = full f"
  using indexFiles_mem [OF assms] by (auto simp: full_def)

lemma move_item:
  assumes ok: "inputOk files recs" and moves: "movesOk c (indexFiles c recs files) (vanishedRecs (indexFiles c recs files) recs) mf"
    and item: "f \<in> set (indexFiles c recs files)" "itemFor c mf f it" "piAction it = ActionMove"
  shows "\<exists>v. (pfRel f, v) \<in> set mf \<and> deRecordID (piD it) = drID v \<and> deSource (piD it) = pfRel f
     \<and> deSize (piD it) = pfSize f \<and> deMtimeNs (piD it) = pfMtimeNs f \<and> pfRec f = None"
  using item by (auto simp: itemFor.simps dest: map_of_SomeD)

text \<open>What the moves of a plan rename are the records of its pairs.\<close>

lemma moves_ids:
  assumes "inputOk files recs" "movesOk c (indexFiles c recs files) (vanishedRecs (indexFiles c recs files) recs) mf"
    "\<And>it. it \<in> set (psMoves s) \<Longrightarrow> \<exists>f \<in> set (indexFiles c recs files). itemFor c mf f it"
    "\<And>it. it \<in> set (psMoves s) \<Longrightarrow> piAction it = ActionMove"
  shows "deRecordID ` piD ` set (psMoves s) \<subseteq> drID ` snd ` set mf"
proof (intro image_subsetI, elim imageE, hypsubst)
  fix it assume it: "it \<in> set (psMoves s)"
  from assms(3) [OF it] obtain f where f: "f \<in> set (indexFiles c recs files)" "itemFor c mf f it" by blast
  from move_item [OF assms(1,2) f assms(4) [OF it]] show "deRecordID (piD it) \<in> drID ` snd ` set mf"
    by (metis image_eqI snd_conv)
qed

text \<open>The file of a release.\<close>

lemma release_item:
  assumes "inputOk files recs" "f \<in> set (indexFiles c recs files)" "itemFor c mf f it" "piAction it = ActionRetain"
  shows "deRecordID (piD it) \<in> drID ` {r \<in> set recs. \<exists>f \<in> set files. pfRel f = drSourceRelPath r \<and> \<not> full f}
    \<and> cfRelease c \<noteq> None"
proof -
  from assms(3,4) have f: "\<not> full f" "cfRelease c \<noteq> None" "recordOf f it (\<lambda>r. drState r \<noteq> StateMissing)"
    by (simp_all add: itemFor.simps)
  from indexed_file [OF assms(1-3) f(3)] indexed_full [OF assms(1,2)] f(1,2) show ?thesis by force
qed

text \<open>The details of the items that take a record out of the mirror once they are done: a retain, and a
  promote whose record goes with it.\<close>

definition takesOut :: "planState \<Rightarrow> detail set" where
  "takesOut s = piD ` set (psRetains s) \<union> {d \<in> piD ` set (psPromotes s). deFor d = ''retain''}"

text \<open>C3: a plan takes a record out of the mirror (by a retain, or by a promote for a retain) only when
  the record's source file is gone and the record is not moved to a new name, or, in a release the user
  asked for, when the file there is no longer full.\<close>

theorem plan_removes_only_vanished:
  assumes "inputOk files recs" "plan c names files recs = Inr s"
  shows "deRecordID ` takesOut s \<subseteq>
      drID ` {r \<in> set recs. drSourceRelPath r \<notin> pfRel ` set files} - deRecordID ` piD ` set (psMoves s)
    \<and> deRecordID ` piD ` set (psReleases s) \<subseteq>
      drID ` {r \<in> set recs. \<exists>f \<in> set files. pfRel f = drSourceRelPath r \<and> \<not> full f}
    \<and> (cfRelease c = None \<longrightarrow> psReleases s = [])"
proof -
  let ?fs = "indexFiles c recs files"
  show ?thesis
  proof (rule planE [OF assms])
    fix mf
    assume moves: "movesOk c ?fs (vanishedRecs ?fs recs) mf"
      and retains: "\<And>d. d \<in> set (dets (psRetains s)) \<Longrightarrow> \<exists>v \<in> set (vanishedRecs ?fs recs).
         deRecordID d = drID v \<and> retainOk c ?fs recs mf (dets (psPromotes s)) v"
      and promotes: "\<And>d. d \<in> set (dets (psPromotes s)) \<Longrightarrow> promoteOk c ?fs mf (set (vanishedRecs ?fs recs)) d"
      and items: "\<And>it. it \<in> set (psMoves s @ psPuts s @ psLinks s @ psReleases s) \<Longrightarrow> \<exists>f \<in> set ?fs. itemFor c mf f it"
      and rel: "\<And>it. it \<in> set (psReleases s) \<Longrightarrow> piAction it = ActionRetain"
      and mov: "\<And>it. it \<in> set (psMoves s) \<Longrightarrow> piAction it = ActionMove"
    have ids: "deRecordID ` piD ` set (psMoves s) \<subseteq> drID ` snd ` set mf"
      by (rule moves_ids [OF assms(1) moves]) (use items mov in auto)
    have out: "deRecordID d \<in> drID ` {r \<in> set recs. drSourceRelPath r \<notin> pfRel ` set files} - deRecordID ` piD ` set (psMoves s)"
      if "d \<in> takesOut s" for d
    proof -
      from that retains [of d] promotes [of d] obtain v where
        v: "v \<in> set (vanishedRecs ?fs recs)" "deRecordID d = drID v" "goneAway c ?fs mf v"
        unfolding takesOut_def retainOk_def promoteOk_def by auto
      have "drID v \<notin> deRecordID ` piD ` set (psMoves s)" using v(3) ids unfolding goneAway_def by blast
      with v vanishedRecs_iff [OF assms(1), THEN iffD1, OF v(1)] show ?thesis by simp
    qed
    have released: "deRecordID (piD it) \<in> drID ` {r \<in> set recs. \<exists>f \<in> set files. pfRel f = drSourceRelPath r \<and> \<not> full f}
        \<and> cfRelease c \<noteq> None" if "it \<in> set (psReleases s)" for it
      using items [of it] that release_item [OF assms(1) _ _ rel [OF that]] by auto
    have "cfRelease c \<noteq> None" if "psReleases s \<noteq> []" using released [of "hd (psReleases s)"] that by simp
    with out released show ?thesis by (simp only: image_subset_iff ball_simps) blast
  qed
qed

theorem plan_removes_only_vanished_witness:
  "map (deRecordID \<circ> piD) (psRetains exPlan) = [5]
   \<and> map (\<lambda>it. (deRecordID (piD it), deFor (piD it))) (psPromotes exPlan) = [(5, ''retain'')]
   \<and> deRecordID ` takesOut exPlan \<subseteq>
       drID ` {r \<in> set exPlanRecs. drSourceRelPath r \<notin> pfRel ` set exPlanFiles} - deRecordID ` piD ` set (psMoves exPlan)"
proof (intro conjI)
  show "map (deRecordID \<circ> piD) (psRetains exPlan) = [5]"
    "map (\<lambda>it. (deRecordID (piD it), deFor (piD it))) (psPromotes exPlan) = [(5, ''retain'')]" by code_simp+
  show "deRecordID ` takesOut exPlan \<subseteq>
      drID ` {r \<in> set exPlanRecs. drSourceRelPath r \<notin> pfRel ` set exPlanFiles} - deRecordID ` piD ` set (psMoves exPlan)"
    using plan_removes_only_vanished [OF exPlan_input exPlan_plan] by (rule conjunct1)
qed

text \<open>The two halves of a complete plan: the files, and the records whose file is gone.\<close>

lemma plan_covers_files:
  assumes "inputOk files recs" "plan c names files recs = Inr s" "g \<in> set files" "full g"
  shows "pfRel g \<in> deSource ` piD ` set (psMoves s @ psPuts s @ psLinks s)
    \<or> (\<exists>r \<in> set recs. drSourceRelPath r = pfRel g \<and> unchangedBy c r g)"
proof -
  let ?fs = "indexFiles c recs files"
  have cov: "\<And>f. f \<in> set ?fs \<Longrightarrow> full f \<Longrightarrow> coveredIn s f" by (rule planE [OF assms(1,2)]) blast
  have "pfRel g \<in> pfRel ` set ?fs" using assms(3) indexFiles_rels [of c recs files] by (metis image_eqI list.set_map)
  then obtain f where f: "f \<in> set ?fs" "pfRel f = pfRel g" by auto
  from indexFiles_mem [OF assms(1) f(1)] obtain h :: planFile where h: "h \<in> set files" "pfRel f = pfRel h"
    "pfDec f = pfDec h" "pfUnchanged f \<longrightarrow> (\<exists>r. recBySrc recs (pfRel h) = Some r \<and> unchangedBy c r h)" by blast
  have "h = g" using assms(3) f(2) h(1,2) assms(1) by (auto simp: inputOk_def distinct_map dest: inj_onD)
  with h assms(4) have "full f" by (simp add: full_def)
  from cov [OF f(1) this] h(4) \<open>h = g\<close> f(2) recBySrc_iff [OF assms(1)] show ?thesis
    by (auto simp: coveredIn_def image_comp)
qed

lemma paired_moves:
  assumes "movesOk c fs vs mf" "distinct (map fst mf)" "drID v \<in> drID ` snd ` set mf"
    "\<And>it. it \<in> set (psMoves s) \<Longrightarrow> piAction it = ActionMove \<and> (\<exists>f \<in> set fs. itemFor c mf f it)"
    "\<And>f. f \<in> set fs \<Longrightarrow> pfRec f = None \<Longrightarrow> map_of mf (pfRel f) \<noteq> None \<Longrightarrow> pfRel f \<in> (deSource \<circ> piD) ` set (psMoves s)"
  shows "drID v \<in> deRecordID ` piD ` set (psMoves s)"
proof -
  from assms(3) obtain rel w where w: "(rel, w) \<in> set mf" "drID w = drID v" by auto
  with assms(1) obtain f where f: "f \<in> set fs" "pfRel f = rel" "pfRec f = None" by (fastforce simp: movesOk_def)
  have m: "map_of mf rel = Some w" using w(1) assms(2) by simp
  with assms(5) [OF f(1,3)] f(2) obtain it where it: "it \<in> set (psMoves s)" "deSource (piD it) = rel" by auto
  from assms(4) [OF it(1)] obtain f' where "f' \<in> set fs" "itemFor c mf f' it" "piAction it = ActionMove" by auto
  with it(2) m have "deRecordID (piD it) = drID w" by (auto simp: itemFor.simps)
  with it(1) w(2) show ?thesis by force
qed

text \<open>A record whose file is gone has an item, or is left by a targeted sync.\<close>

lemma plan_gone_iff:
  assumes "inputOk files recs" "plan c names files recs = Inr s"
  obtains D where "psDeferred s = int (length (filter D (vanishedRecs (indexFiles c recs files) recs)))" "\<And>v. D v \<Longrightarrow> cfTargeted c"
    "\<And>v. v \<in> set (vanishedRecs (indexFiles c recs files) recs) \<Longrightarrow>
       D v \<longleftrightarrow> drID v \<notin> deRecordID ` piD ` set (psMoves s @ psRetains s @ psPromotes s)"
proof (rule planE [OF assms])
  let ?fs = "indexFiles c recs files" let ?vs = "vanishedRecs ?fs recs"
  fix mf
  assume moves: "movesOk c ?fs ?vs mf" "distinct (map fst mf)"
    and gone: "\<And>v. v \<in> set ?vs \<Longrightarrow> goneAway c ?fs mf v \<Longrightarrow>
       drID v \<in> deRecordID ` set (dets (psRetains s)) \<or> drID v \<in> deRecordID ` set (dets (psPromotes s))"
    and retains: "\<And>d. d \<in> set (dets (psRetains s)) \<Longrightarrow> \<exists>v \<in> set ?vs.
       deRecordID d = drID v \<and> retainOk c ?fs recs mf (dets (psPromotes s)) v"
    and promotes: "\<And>d. d \<in> set (dets (psPromotes s)) \<Longrightarrow> promoteOk c ?fs mf (set ?vs) d"
    and items: "\<And>it. it \<in> set (psMoves s @ psPuts s @ psLinks s @ psReleases s) \<Longrightarrow> \<exists>f \<in> set ?fs. itemFor c mf f it"
    and mov: "\<And>it. it \<in> set (psMoves s) \<Longrightarrow> piAction it = ActionMove"
    and moved: "\<And>f. f \<in> set ?fs \<Longrightarrow> pfRec f = None \<Longrightarrow> map_of mf (pfRel f) \<noteq> None \<Longrightarrow>
       pfRel f \<in> (deSource \<circ> piD) ` set (psMoves s)"
    and deferred: "psDeferred s = int (length (filter (deferredBy c ?fs mf) ?vs))"
  have same: "v = w" if "v \<in> set ?vs" "w \<in> set ?vs" "drID v = drID w" for v w
    using that id_unique [OF assms(1)] by (auto simp: vanishedRecs_def)
  have retained: "goneAway c ?fs mf v" if "v \<in> set ?vs" "d \<in> set (dets (psRetains s))" "deRecordID d = drID v" for v d
    using retains [OF that(2)] same [OF that(1)] that(3) by (auto simp: retainOk_def)
  have promoted: "goneAway c ?fs mf v" if "v \<in> set ?vs" "d \<in> set (dets (psPromotes s))" "deRecordID d = drID v" for v d
    using promotes [OF that(2)] same [OF that(1)] that(1,3) by (auto simp: promoteOk_def vanishedRecs_def seenIDs_iff)
  have pairs: "drID v \<in> deRecordID ` piD ` set (psMoves s) \<longleftrightarrow> drID v \<in> drID ` snd ` set mf" for v
    using moves_ids [OF assms(1) moves(1), of s] paired_moves [OF moves, of v s] items mov moved by auto
  have split: "drID v \<in> deRecordID ` piD ` set (psMoves s @ psRetains s @ psPromotes s) \<longleftrightarrow>
      drID v \<in> drID ` snd ` set mf \<or> goneAway c ?fs mf v" if "v \<in> set ?vs" for v
    using gone [OF that] retained [OF that] promoted [OF that] by (simp add: image_Un pairs) (force simp: image_iff)
  show thesis
    by (rule that [OF deferred]) (use split in \<open>auto simp: deferredBy_def goneAway_def\<close>)
qed

text \<open>C9: a plan is complete.  Every full file of the source is backed up with its size and
  modification time, or an item of the plan writes it (or fails with a reason).  Of the records whose
  source file is gone, exactly those that the plan counts as deferred have no move, retain or promote;
  only a targeted sync defers records.\<close>

theorem plan_complete:
  assumes "inputOk files recs" "plan c names files recs = Inr s"
  shows "pfRel ` {f \<in> set files. full f} \<subseteq>
      deSource ` piD ` set (psMoves s @ psPuts s @ psLinks s)
      \<union> pfRel ` {f \<in> set files. \<exists>r \<in> set recs. drSourceRelPath r = pfRel f \<and> unchangedBy c r f}
    \<and> psDeferred s = int (length (filter (\<lambda>r. drSourceRelPath r \<notin> pfRel ` set files
        \<and> drID r \<notin> deRecordID ` piD ` set (psMoves s @ psRetains s @ psPromotes s)) recs))
    \<and> (\<not> cfTargeted c \<longrightarrow> psDeferred s = 0)"
proof -
  let ?ids = "deRecordID ` piD ` set (psMoves s @ psRetains s @ psPromotes s)"
  let ?vs = "vanishedRecs (indexFiles c recs files) recs"
  obtain D where D: "psDeferred s = int (length (filter D ?vs))" "\<And>v. D v \<Longrightarrow> cfTargeted c" "\<And>v. v \<in> set ?vs \<Longrightarrow> D v \<longleftrightarrow> drID v \<notin> ?ids"
    by (rule plan_gone_iff [OF assms]) (rule that)
  have "filter D ?vs = filter (\<lambda>r. drID r \<notin> ?ids) ?vs" using D(3) by (intro filter_cong) auto
  also have "\<dots> = filter (\<lambda>r. drSourceRelPath r \<notin> pfRel ` set files \<and> drID r \<notin> ?ids) recs"
    using vanishedRecs_iff [OF assms(1), of _ c] unfolding vanishedRecs_def filter_filter by (intro filter_cong) auto
  finally have "psDeferred s = int (length (filter (\<lambda>r. drSourceRelPath r \<notin> pfRel ` set files \<and> drID r \<notin> ?ids) recs))" using D(1) by simp
  moreover have "psDeferred s = 0" if "\<not> cfTargeted c" using D(1,2) that by (auto simp: filter_empty_conv)
  moreover have "pfRel g \<in> deSource ` piD ` set (psMoves s @ psPuts s @ psLinks s)
      \<union> pfRel ` {f \<in> set files. \<exists>r \<in> set recs. drSourceRelPath r = pfRel f \<and> unchangedBy c r f}" if "g \<in> set files" "full g" for g
    using plan_covers_files [OF assms that] that by (simp only: Un_iff) (metis (mono_tags, lifting) image_eqI mem_Collect_eq)
  ultimately show ?thesis by (intro conjI image_subsetI) simp_all
qed

theorem plan_complete_witness:
  "pfRel ` {f \<in> set exPlanFiles. full f} \<subseteq> deSource ` piD ` set (psMoves exPlan @ psPuts exPlan @ psLinks exPlan)
      \<union> pfRel ` {f \<in> set exPlanFiles. \<exists>r \<in> set exPlanRecs. drSourceRelPath r = pfRel f \<and> unchangedBy exPlanCfg r f}
   \<and> filter (\<lambda>r. drSourceRelPath r \<notin> pfRel ` set exPlanFiles
        \<and> drID r \<notin> deRecordID ` piD ` set (psMoves exPlan @ psRetains exPlan @ psPromotes exPlan)) exPlanRecs = []"
proof -
  have t: "\<not> cfTargeted exPlanCfg" by (simp add: exPlanCfg_def)
  note p = plan_complete [OF exPlan_input exPlan_plan]
  have "psDeferred exPlan = 0" using p [THEN conjunct2, THEN conjunct2] t by (rule mp)
  with p [THEN conjunct2, THEN conjunct1] have "int (length (filter (\<lambda>r. drSourceRelPath r \<notin> pfRel ` set exPlanFiles
      \<and> drID r \<notin> deRecordID ` piD ` set (psMoves exPlan @ psRetains exPlan @ psPromotes exPlan)) exPlanRecs)) = 0" by (rule subst)
  then show ?thesis by (intro conjI p [THEN conjunct1]) (simp only: of_nat_eq_0_iff length_0_conv)
qed

text \<open>The record of an item that replaces or removes the content of a primary: a retain of a vanished
  record that has a file, an update, or a relink of a changed name.  A release moves content too; there
  the executor itself hands it to a hardlink, or refuses while a link needs it.\<close>

definition contentGoes :: "planState \<Rightarrow> destRecord \<Rightarrow> bool" where
  "contentGoes s r \<longleftrightarrow>
     list_ex (\<lambda>it. deRecordID (piD it) = drID r) (psRetains s) \<and> drState r \<in> {StatePresent, StateLinked}
     \<or> list_ex (\<lambda>it. deRecordID (piD it) = drID r \<and> piAction it = ActionUpdate) (psPuts s) \<and> drState r = StatePresent
     \<or> list_ex (\<lambda>it. deRecordID (piD it) = drID r \<and> piAction it = ActionLink \<and> piChange it) (psLinks s) \<and> drState r = StatePresent"

text \<open>C8: content that a surviving hardlink needs is never lost.  When a plan retains, updates or
  relinks a record that other live names with unchanged source files are links of, it promotes one
  of those names first (promotes are the first items of a plan).\<close>

theorem plan_saves_link_content:
  assumes "inputOk files recs" "plan c names files recs = Inr s"
    and "r \<in> set recs" "contentGoes s r" "surviving (indexFiles c recs files) recs r \<noteq> []"
  shows "\<exists>it \<in> set (psPromotes s). deRecordID (piD it) = drID r
    \<and> deTargetID (piD it) \<in> drID ` set (surviving (indexFiles c recs files) recs r)"
proof -
  let ?fs = "indexFiles c recs files"
  have "savedBy (dets (psPromotes s)) (surviving ?fs recs r) r"
  proof (rule planE [OF assms(1,2)])
    fix mf
    assume retains: "\<And>d. d \<in> set (dets (psRetains s)) \<Longrightarrow> \<exists>v \<in> set (vanishedRecs ?fs recs).
         deRecordID d = drID v \<and> retainOk c ?fs recs mf (dets (psPromotes s)) v"
      and saves: "\<And>f r. f \<in> set ?fs \<Longrightarrow> pfRec f = Some r \<Longrightarrow> \<not> pfUnchanged f \<Longrightarrow> drState r = StatePresent \<Longrightarrow>
         full f \<or> keptChanged c f \<Longrightarrow> surviving ?fs recs r \<noteq> [] \<Longrightarrow> savedBy (dets (psPromotes s)) (surviving ?fs recs r) r"
      and items: "\<And>it. it \<in> set (psMoves s @ psPuts s @ psLinks s @ psReleases s) \<Longrightarrow> \<exists>f \<in> set ?fs. itemFor c mf f it"
    have changed: "savedBy (dets (psPromotes s)) (surviving ?fs recs r) r"
      if it: "it \<in> set (psPuts s @ psLinks s)" "deRecordID (piD it) = drID r" "drState r = StatePresent"
        "piAction it = ActionUpdate \<or> piAction it = ActionLink \<and> piChange it" for it
    proof -
      from items [of it] it(1) obtain f where f: "f \<in> set ?fs" "itemFor c mf f it" by auto
      with it(4) have g: "full f \<or> keptChanged c f" "\<not> pfUnchanged f" "recordOf f it (\<lambda>r. drState r \<noteq> StateMissing)"
        by (auto simp: itemFor.simps)
      then obtain r' where r': "pfRec f = Some r'" "drID r' = drID r" using it(2) by (auto simp: recordOf_def)
      then have "r' = r" using indexFiles_rec [OF assms(1) f(1)] id_unique [OF assms(1) _ assms(3)] by blast
      with saves [OF f(1) _ g(2) it(3) g(1) assms(5)] r' show ?thesis by simp
    qed
    from assms(4) consider
      it where "it \<in> set (psRetains s)" "deRecordID (piD it) = drID r" "drState r \<in> {StatePresent, StateLinked}"
      | it where "it \<in> set (psPuts s @ psLinks s)" "deRecordID (piD it) = drID r" "drState r = StatePresent"
        "piAction it = ActionUpdate \<or> piAction it = ActionLink \<and> piChange it"
      unfolding contentGoes_def list_ex_iff by (metis Un_iff set_append)
    then show ?thesis
    proof cases
      case 1
      from retains [of "piD it"] 1(1,2) obtain v where v: "v \<in> set (vanishedRecs ?fs recs)" "drID v = drID r"
        "retainOk c ?fs recs mf (dets (psPromotes s)) v" by auto
      have "v \<in> set recs" using vanishedRecs_iff [OF assms(1), THEN iffD1, OF v(1)] by blast
      with id_unique [OF assms(1) _ assms(3)] v(2) have "v = r" by blast
      with v(3) 1(3) assms(5) show ?thesis unfolding retainOk_def by blast
    next
      case 2
      then show ?thesis by (rule changed)
    qed
  qed
  then show ?thesis by (auto simp: savedBy_def)
qed

theorem plan_saves_link_content_witness:
  "\<exists>it \<in> set (psPromotes exPlan). deRecordID (piD it) = 5
     \<and> deTargetID (piD it) \<in> drID ` set (surviving (indexFiles exPlanCfg exPlanRecs exPlanFiles) exPlanRecs
         (exRecord 5 ''p'' 30 0 StatePresent))"
proof -
  let ?r = "exRecord 5 ''p'' 30 0 StatePresent"
  have "?r \<in> set exPlanRecs" by (simp add: exPlanRecs_def)
  moreover have "contentGoes exPlan ?r" by code_simp
  moreover have "surviving (indexFiles exPlanCfg exPlanRecs exPlanFiles) exPlanRecs ?r \<noteq> []" by code_simp
  ultimately show ?thesis using plan_saves_link_content [OF exPlan_input exPlan_plan, of ?r] by (simp add: exRecord_def)
qed

text \<open>C39: a move renames a backup only to a new name of the same content: the file is new, the record's
  source file is gone, sizes and modification times are equal and the head/tail hashes of the two
  files were read and are equal.  No backup is moved to two names.\<close>

theorem plan_moves_equal_content:
  assumes "inputOk files recs" "plan c names files recs = Inr s" "it \<in> set (psMoves s)"
  shows "\<exists>f \<in> set files. \<exists>v \<in> set recs. deSource (piD it) = pfRel f \<and> deRecordID (piD it) = drID v
      \<and> pfRel f \<notin> drSourceRelPath ` set recs \<and> drSourceRelPath v \<notin> pfRel ` set files
      \<and> drSize v = pfSize f \<and> drMtimeNs v = pfMtimeNs f \<and> sameContent c (pfRel f) v
      \<and> list_all (\<lambda>it'. deRecordID (piD it') = drID v \<longrightarrow> deSource (piD it') = pfRel f) (psMoves s)"
proof (rule planE [OF assms(1,2)])
  let ?fs = "indexFiles c recs files"
  fix mf
  assume moves: "movesOk c ?fs (vanishedRecs ?fs recs) mf" and dist: "distinct (map fst mf)"
    and items: "\<And>it. it \<in> set (psMoves s @ psPuts s @ psLinks s @ psReleases s) \<Longrightarrow> \<exists>f \<in> set ?fs. itemFor c mf f it"
    and mov: "\<And>it. it \<in> set (psMoves s) \<Longrightarrow> piAction it = ActionMove"
  have one: "\<exists>f \<in> set ?fs. \<exists>v. (pfRel f, v) \<in> set mf \<and> deRecordID (piD it) = drID v \<and> deSource (piD it) = pfRel f
      \<and> pfRec f = None" if "it \<in> set (psMoves s)" for it
  proof -
    from items [of it] that obtain f where f: "f \<in> set ?fs" "itemFor c mf f it" by auto
    from move_item [OF assms(1) moves f mov [OF that]] f(1) show ?thesis by blast
  qed
  from one [OF assms(3)] obtain f v where f: "f \<in> set ?fs" "(pfRel f, v) \<in> set mf" "deRecordID (piD it) = drID v"
    "deSource (piD it) = pfRel f" "pfRec f = None" by blast
  have inj: "inj_on (\<lambda>p. drID (snd p)) (set mf)" using moves by (simp add: movesOk_def distinct_map comp_def)
  have all: "deSource (piD it') = pfRel f" if "it' \<in> set (psMoves s)" "deRecordID (piD it') = drID v" for it'
  proof -
    from one [OF that(1)] obtain f' :: planFile and v' where f': "(pfRel f', v') \<in> set mf" "deRecordID (piD it') = drID v'"
      "deSource (piD it') = pfRel f'" by blast
    with that(2) f(2) inj_onD [OF inj, of "(pfRel f', v')" "(pfRel f, v)"] show ?thesis by simp
  qed
  from moves f(2) obtain f1 where v: "v \<in> set (vanishedRecs ?fs recs)" "sameContent c (pfRel f) v"
    "f1 \<in> set ?fs" "pfRel f1 = pfRel f" "drSize v = pfSize f1" "drMtimeNs v = pfMtimeNs f1"
    unfolding movesOk_def by blast
  have "f1 = f" using v(3,4) f(1) assms(1) indexFiles_rels [of c recs files]
    by (metis (no_types, lifting) distinct_map inj_onD inputOk_def)
  moreover obtain g :: planFile where g: "g \<in> set files" "pfRel f = pfRel g" "pfSize f = pfSize g" "pfMtimeNs f = pfMtimeNs g"
    using indexFiles_mem [OF assms(1) f(1)] by blast
  moreover have "pfRel f \<notin> drSourceRelPath ` set recs"
  proof
    assume "pfRel f \<in> drSourceRelPath ` set recs"
    then obtain x where "x \<in> set recs" "drSourceRelPath x = pfRel f" by auto
    with indexFiles_rec [OF assms(1) f(1), of x] f(5) show False by simp
  qed
  moreover have "v \<in> set recs" "drSourceRelPath v \<notin> pfRel ` set files"
    using vanishedRecs_iff [OF assms(1), THEN iffD1, OF v(1)] by blast+
  ultimately show ?thesis
    using f v all by (intro bexI [of _ g] bexI [of _ v]) (auto simp: list_all_iff)
qed


theorem plan_moves_equal_content_witness:
  "\<exists>f \<in> set exPlanFiles. \<exists>v \<in> set exPlanRecs. drSize v = pfSize f \<and> drMtimeNs v = pfMtimeNs f
     \<and> pfRel f \<notin> drSourceRelPath ` set exPlanRecs \<and> drSourceRelPath v \<notin> pfRel ` set exPlanFiles
     \<and> deRecordID (piD (hd (psMoves exPlan))) = drID v"
proof -
  have "psMoves exPlan \<noteq> []" by code_simp
  then have "hd (psMoves exPlan) \<in> set (psMoves exPlan)" by simp
  from plan_moves_equal_content [OF exPlan_input exPlan_plan this] show ?thesis by blast
qed

end
