(* ===== verification/SyncGuard.thy ===== *)
theory SyncGuard
  imports SyncPlanSafety "HOL-Library.Multiset"
begin

text \<open>
  The mass-change guard (\<open>applyGuard\<close> of internal/syncer/guards.go): a plan with too many changes has
  all of them held, a file that shrank to less than half is always held, and what depends on a held
  item is held with it.  An item's \<open>after\<close> is the number of the item it depends on; the loop that
  holds dependents runs until a pass changes nothing.
\<close>

definition minHeldChanges :: int where
  "minHeldChanges = 20"

record guardResult =
  grChanges :: int
  grHeld :: int
  grLimited :: bool

definition countChanges :: "planItem list \<Rightarrow> int" where
  "countChanges its = int (length (filter (\<lambda>it. piChange it \<and> piStatus it = None) its))"

definition overLimit :: "syncSettings \<Rightarrow> int \<Rightarrow> int \<Rightarrow> bool" where
  "overLimit st liveFiles changes \<longleftrightarrow>
     wrap64 (changes * 100) > wrap64 (ssMaxChangePercent st * liveFiles) \<and> changes > minHeldChanges
     \<or> changes > ssMaxChangeFiles st"

definition holdItem :: "itemMsg \<Rightarrow> planItem \<Rightarrow> planItem" where
  "holdItem why it = it\<lparr>piStatus := Some ItemHeld, piErrMsg := why\<rparr>"

definition holdSeed :: "bool \<Rightarrow> planItem \<Rightarrow> planItem" where
  "holdSeed limited it =
     (if piStatus it \<noteq> None then it
      else if limited \<and> piChange it then holdItem MsgMassChange it
      else if piShrink it then holdItem (MsgTruncated (deSize (piD it)) (deOldSize (piD it))) it
      else it)"

definition itemNo :: "planItem list \<Rightarrow> nat \<Rightarrow> planItem option" where
  "itemNo its n = find (\<lambda>it. piNo it = n) its"

text \<open>Item \<open>n\<close> is held when the item it waits for is.\<close>

definition holdDependent :: "nat \<Rightarrow> planItem list \<Rightarrow> planItem list" where
  "holdDependent n its =
     map (\<lambda>it. if piNo it = n \<and> piStatus it = None
               then (case piAfter it of
                       None \<Rightarrow> it
                     | Some m \<Rightarrow>
                         (case itemNo its m of
                            None \<Rightarrow> it
                          | Some p \<Rightarrow> if piStatus p = Some ItemHeld then holdItem (MsgWith (piRel p) (piAction p)) it else it))
               else it) its"

definition holdPass :: "planItem list \<Rightarrow> planItem list" where
  "holdPass its = fold holdDependent (map piNo its) its"

definition openItems :: "planItem list \<Rightarrow> nat" where
  "openItems its = length (filter (\<lambda>it. piStatus it = None) its)"

text \<open>A pass that changes something leaves fewer open items.\<close>

lemma length_filter_map_le:
  assumes "\<And>x. P (g x) \<Longrightarrow> P x"
  shows "length (filter P (map g xs)) \<le> length (filter P xs)"
  using assms by (induction xs) (auto simp: le_SucI)

lemma length_filter_map_less:
  assumes "\<And>x. P (g x) \<Longrightarrow> P x" "y \<in> set xs" "P y" "\<not> P (g y)"
  shows "length (filter P (map g xs)) < length (filter P xs)"
  using assms(2)
proof (induction xs)
  case (Cons x xs)
  show ?case
  proof (cases "x = y")
    case True
    have "length (filter P (map g xs)) \<le> length (filter P xs)" using assms(1) by (rule length_filter_map_le)
    with True assms(3,4) show ?thesis by simp
  next
    case False
    with Cons assms(1) show ?thesis by (auto intro: less_SucI)
  qed
qed simp

lemma holdDependent_step:
  "holdDependent n its = its \<or> openItems (holdDependent n its) < openItems its"
proof (cases "holdDependent n its = its")
  case False
  obtain g where g: "holdDependent n its = map g its"
    and same: "\<And>it. piStatus (g it) = None \<Longrightarrow> piStatus it = None \<and> g it = it"
    and was: "\<And>it. g it \<noteq> it \<Longrightarrow> piStatus it = None"
    by (rule that [OF holdDependent_def]) (auto simp: holdItem_def split: if_splits option.splits)
  from False g obtain y where y: "y \<in> set its" "g y \<noteq> y" by (metis map_idI)
  have "openItems (map g its) < openItems its"
    unfolding openItems_def by (rule length_filter_map_less [OF _ y(1)]) (use same was [OF y(2)] y(2) in auto)
  with g show ?thesis by simp
qed simp

lemma holdPass_step: "holdPass its = its \<or> openItems (holdPass its) < openItems its"
proof -
  have "fold holdDependent ns xs = xs \<or> openItems (fold holdDependent ns xs) < openItems xs" for ns xs
  proof (induction ns arbitrary: xs)
    case (Cons n ns)
    from Cons.IH [of "holdDependent n xs"] holdDependent_step [of n xs] show ?case by auto
  qed simp
  then show ?thesis by (simp add: holdPass_def)
qed

function holdLoop :: "planItem list \<Rightarrow> planItem list" where
  "holdLoop its = (let its1 = holdPass its in if its1 = its then its else holdLoop its1)"
  by pat_completeness auto
termination
  by (relation "measure openItems") (use holdPass_step in auto)

declare holdLoop.simps [simp del]

definition heldItems :: "planItem list \<Rightarrow> int" where
  "heldItems its = int (length (filter (\<lambda>it. piStatus it = Some ItemHeld) its))"

text \<open>The result and the plan after the guard; \<open>held\<close> counts the items the guard held.\<close>

definition applyGuard :: "planItem list \<Rightarrow> int \<Rightarrow> syncSettings \<Rightarrow> bool \<Rightarrow> guardResult \<times> planItem list" where
  "applyGuard its liveFiles st allowChanges =
     (let changes = countChanges its in
      if allowChanges then (\<lparr>grChanges = changes, grHeld = 0, grLimited = False\<rparr>, its)
      else (let limited = overLimit st liveFiles changes;
                out = holdLoop (map (holdSeed limited) its)
            in (\<lparr>grChanges = changes, grHeld = heldItems out - heldItems its, grLimited = limited\<rparr>, out)))"

section \<open>What the guard holds\<close>

text \<open>The items a guarded plan must hold: an open change of a plan over its limits, an open update
  that shrank its file, and every open item that waits for one of them.\<close>

inductive mustHold :: "bool \<Rightarrow> planItem list \<Rightarrow> nat \<Rightarrow> bool" for limited its where
  already: "it \<in> set its \<Longrightarrow> piStatus it = Some ItemHeld \<Longrightarrow> mustHold limited its (piNo it)"
| change: "it \<in> set its \<Longrightarrow> piStatus it = None \<Longrightarrow> limited \<Longrightarrow> piChange it \<Longrightarrow> mustHold limited its (piNo it)"
| shrink: "it \<in> set its \<Longrightarrow> piStatus it = None \<Longrightarrow> piShrink it \<Longrightarrow> mustHold limited its (piNo it)"
| waits: "it \<in> set its \<Longrightarrow> piStatus it = None \<Longrightarrow> piAfter it = Some m \<Longrightarrow> mustHold limited its m \<Longrightarrow>
    mustHold limited its (piNo it)"

text \<open>What the loop keeps: an item is the planned one, or the planned one held with reason; the changes
  and shrunk files that the guard starts from stay held.\<close>

definition seeded :: "bool \<Rightarrow> planItem \<Rightarrow> bool" where
  "seeded limited it \<longleftrightarrow> piStatus it = None \<and> (limited \<and> piChange it \<or> piShrink it)"

definition heldFrom :: "bool \<Rightarrow> planItem list \<Rightarrow> planItem \<Rightarrow> planItem \<Rightarrow> bool" where
  "heldFrom limited its a b \<longleftrightarrow> (seeded limited a \<longrightarrow> b \<noteq> a) \<and>
     (b = a \<or> piStatus a = None \<and> mustHold limited its (piNo a) \<and> (\<exists>why. b = holdItem why a))"

lemma holdItem_simps [simp]:
  "piNo (holdItem why it) = piNo it" "piAfter (holdItem why it) = piAfter it"
  "piStatus (holdItem why it) = Some ItemHeld"
  by (simp_all add: holdItem_def)

lemma heldFrom_D:
  assumes "heldFrom limited its a b" "a \<in> set its"
  shows "piNo b = piNo a" "piStatus b = None \<Longrightarrow> b = a" "piStatus b = Some ItemHeld \<Longrightarrow> mustHold limited its (piNo a)"
  using assms by (auto simp: heldFrom_def intro: mustHold.already)

lemma heldFrom_seed: "a \<in> set its \<Longrightarrow> heldFrom limited its a (holdSeed limited a)"
  by (auto simp: heldFrom_def holdSeed_def seeded_def intro: mustHold.change mustHold.shrink dest: arg_cong [where f = piStatus])

lemma list_all2_partner:
  assumes "list_all2 R xs ys" "y \<in> set ys"
  shows "\<exists>x \<in> set xs. R x y"
  using assms by (induction rule: list_all2_induct) auto

lemma heldFrom_step:
  assumes "list_all2 (heldFrom limited its) its xs"
  shows "list_all2 (heldFrom limited its) its (holdDependent n xs)"
proof -
  let ?g = "\<lambda>it. if piNo it = n \<and> piStatus it = None
      then (case piAfter it of None \<Rightarrow> it
            | Some m \<Rightarrow> (case itemNo xs m of None \<Rightarrow> it
                | Some p \<Rightarrow> if piStatus p = Some ItemHeld then holdItem (MsgWith (piRel p) (piAction p)) it else it))
      else it"
  have "heldFrom limited its a (?g b)" if b: "heldFrom limited its a b" and a: "a \<in> set its" for a b
  proof (cases "?g b = b")
    case True
    with b show ?thesis by simp
  next
    case False
    then obtain m p where open1: "piStatus b = None" "piAfter b = Some m" "itemNo xs m = Some p" "piStatus p = Some ItemHeld"
      and new: "?g b = holdItem (MsgWith (piRel p) (piAction p)) b"
      by (auto split: if_splits option.splits)
    from open1(3) have p: "p \<in> set xs" "piNo p = m" by (auto simp: itemNo_def dest: find_Some_setD)
    from list_all2_partner [OF assms p(1)] obtain q where q: "q \<in> set its" "heldFrom limited its q p" by blast
    with heldFrom_D [OF q(2,1)] p(2) open1(4) have "mustHold limited its m" by simp
    with a open1 heldFrom_D(2) [OF b a] have "mustHold limited its (piNo a)" by (auto intro: mustHold.waits)
    with new heldFrom_D(2) [OF b a] open1(1) show ?thesis
      by (auto simp: heldFrom_def dest: arg_cong [where f = piStatus])
  qed
  with assms have "list_all2 (heldFrom limited its) its (map ?g xs)"
    by (simp add: list_all2_conv_all_nth)
  then show ?thesis by (simp only: holdDependent_def)
qed

lemma heldFrom_pass:
  "list_all2 (heldFrom limited its) its xs \<Longrightarrow> list_all2 (heldFrom limited its) its (holdPass xs)"
proof -
  have "list_all2 (heldFrom limited its) its (fold holdDependent ns xs)"
    if "list_all2 (heldFrom limited its) its xs" for ns xs
    using that by (induction ns arbitrary: xs) (auto intro: heldFrom_step)
  then show "list_all2 (heldFrom limited its) its xs \<Longrightarrow> ?thesis" by (simp add: holdPass_def)
qed

lemma heldFrom_loop:
  "list_all2 (heldFrom limited its) its xs \<Longrightarrow> list_all2 (heldFrom limited its) its (holdLoop xs)"
proof (induction xs rule: holdLoop.induct)
  case (1 xs)
  then show ?case by (subst holdLoop.simps) (auto simp: Let_def intro: heldFrom_pass)
qed

text \<open>The loop ends with a plan that no item can be held from: a pass that changes nothing has changed
  nothing at any of its steps, since every change leaves fewer open items.\<close>

lemma holdLoop_fixed: "holdPass (holdLoop xs) = holdLoop xs"
proof (induction xs rule: holdLoop.induct)
  case (1 xs)
  then show ?case by (cases "holdPass xs = xs") (simp_all add: holdLoop.simps [of xs] Let_def)
qed

lemma openItems_mono: "openItems (fold holdDependent ns xs) \<le> openItems xs"
proof (induction ns arbitrary: xs)
  case (Cons n ns)
  from Cons.IH [of "holdDependent n xs"] holdDependent_step [of n xs] show ?case by auto
qed simp

lemma fixed_steps: "fold holdDependent ns xs = xs \<Longrightarrow> n \<in> set ns \<Longrightarrow> holdDependent n xs = xs"
proof (induction ns)
  case (Cons m ns)
  have "holdDependent m xs = xs"
    using holdDependent_step [of m xs] openItems_mono [of ns "holdDependent m xs"] Cons.prems(1) by auto
  with Cons show ?case by auto
qed simp

lemma find_distinct_key:
  "distinct (map g xs) \<Longrightarrow> x \<in> set xs \<Longrightarrow> find (\<lambda>y. g y = g x) xs = Some x"
  by (induction xs) (auto simp: rev_image_eqI)

lemma fixed_holds:
  assumes "holdPass ys = ys" "distinct (map piNo ys)" "b \<in> set ys" "piStatus b = None" "piAfter b = Some m"
    "p \<in> set ys" "piNo p = m"
  shows "piStatus p \<noteq> Some ItemHeld"
proof
  assume held: "piStatus p = Some ItemHeld"
  have p: "itemNo ys m = Some p" using find_distinct_key [OF assms(2,6)] assms(7) by (simp add: itemNo_def)
  have "holdDependent (piNo b) ys = ys" using assms(1,3) by (intro fixed_steps) (auto simp: holdPass_def)
  then have "(case piAfter b of None \<Rightarrow> b | Some m \<Rightarrow> (case itemNo ys m of None \<Rightarrow> b
       | Some p \<Rightarrow> if piStatus p = Some ItemHeld then holdItem (MsgWith (piRel p) (piAction p)) b else b)) = b"
    using assms(3,4) unfolding holdDependent_def by (auto simp: map_eq_conv [where g = "\<lambda>x. x", simplified] dest!: bspec)
  with assms(4,5) p held show False by (auto dest: arg_cong [where f = piStatus])
qed

lemma holdLoop_complete:
  assumes "list_all2 (heldFrom limited its) its ys" "holdPass ys = ys" "distinct (map piNo its)" "mustHold limited its n"
    "i < length its" "piNo (its ! i) = n"
  shows "piStatus (ys ! i) = Some ItemHeld"
  using assms(4-6)
proof (induction arbitrary: i)
  case (already it)
  then have "its ! i = it" using assms(3) by (metis distinct_map inj_onD nth_mem)
  with already assms(1) show ?case by (auto simp: list_all2_conv_all_nth heldFrom_def)
next
  case (change it)
  then have "its ! i = it" using assms(3) by (metis distinct_map inj_onD nth_mem)
  with change assms(1) show ?case by (auto simp: list_all2_conv_all_nth heldFrom_def seeded_def)
next
  case (shrink it)
  then have "its ! i = it" using assms(3) by (metis distinct_map inj_onD nth_mem)
  with shrink assms(1) show ?case by (auto simp: list_all2_conv_all_nth heldFrom_def seeded_def)
next
  case (waits it m)
  then have it: "its ! i = it" using assms(3) by (metis distinct_map inj_onD nth_mem)
  have R: "length ys = length its" "\<And>k. k < length its \<Longrightarrow> heldFrom limited its (its ! k) (ys ! k)"
    using assms(1) by (auto simp: list_all2_conv_all_nth)
  have nos: "map piNo ys = map piNo its" using R heldFrom_D(1) [OF R(2)] by (auto intro!: nth_equalityI)
  from waits.hyps(4) obtain k where k: "k < length its" "piNo (its ! k) = m"
    by (cases) (metis in_set_conv_nth)+
  from waits.IH [OF this] have held: "piStatus (ys ! k) = Some ItemHeld" .
  show ?case
  proof (rule ccontr)
    assume "piStatus (ys ! i) \<noteq> Some ItemHeld"
    then have "ys ! i = it" using R(2) [OF waits.prems(1)] it by (auto simp: heldFrom_def)
    moreover have "piNo (ys ! k) = m" using nos k R(1) by (metis nth_map)
    ultimately show False
      using fixed_holds [OF assms(2), of "ys ! i" m "ys ! k"] nos assms(3) R(1) k(1) held waits nth_mem [of i ys]
      by simp
  qed
qed

section \<open>The numbers of a plan's items\<close>

text \<open>The planner numbers its items without gaps and gives no number twice, and it holds nothing itself:
  holding is the guard's.\<close>

definition marks :: "planItem list \<Rightarrow> (nat \<times> bool) multiset" where
  "marks its = mset (map (\<lambda>it. (piNo it, piStatus it = Some ItemHeld)) its)"

definition unheld :: "nat \<Rightarrow> (nat \<times> bool) multiset" where
  "unheld n = mset (map (\<lambda>i. (i, False)) [0..<n])"

definition numbered :: "planState \<Rightarrow> bool" where
  "numbered s \<longleftrightarrow> marks (psPromotes s) + marks (psMoves s) + marks (psPuts s) + marks (psLinks s)
     + marks (psRetains s) + marks (psReleases s) + marks (psSkips s) = unheld (psNext s)"

lemma marks_simps [simp]:
  "marks [] = {#}" "marks (xs @ ys) = marks xs + marks ys" "marks [it] = {#(piNo it, piStatus it = Some ItemHeld)#}"
  "marks (setAfter n a xs) = marks xs" "marks (map (withLost l) xs) = marks xs"
  by (simp_all add: marks_def setAfter_def withLost_def image_mset.compositionality comp_def if_distrib cong: if_cong)

lemma unheld_simps [simp]: "unheld 0 = {#}" "unheld (Suc n) = add_mset (n, False) (unheld n)"
  by (simp_all add: unheld_def)

lemma numbered_frame [simp]:
  "numbered (s\<lparr>psPromotes := setAfter n a (psPromotes s)\<rparr>) = numbered s"
  "numbered (s\<lparr>psNeedRepair := x1\<rparr>) = numbered s" "numbered (s\<lparr>psPromoteTarget := x2\<rparr>) = numbered s"
  "numbered (s\<lparr>psDeferred := x3\<rparr>) = numbered s" "numbered (s\<lparr>psLost := x4\<rparr>) = numbered s"
  "numbered (s\<lparr>psTierKept := x5\<rparr>) = numbered s" "numbered (s\<lparr>psNonFullNew := x6\<rparr>) = numbered s"
  "numbered (s\<lparr>psStaleFiles := x7\<rparr>) = numbered s" "numbered (s\<lparr>psNames := x8\<rparr>) = numbered s"
  "numbered (s\<lparr>psWarnings := x9\<rparr>) = numbered s" "numbered (s\<lparr>psPromoteFor := x10\<rparr>) = numbered s"
  by (simp_all add: numbered_def)

lemma numbered_emit [simp]:
  assumes "numbered s"
  shows "numbered (emitRetain c v s)" "numbered (emitPromote c v t w b s)" "numbered (emitRelease c f r n s)"
    "numbered (tierItem c f why r0 s)" "numbered (moveFile c f v s)" "numbered (linkFile c f prim r0 b s)"
  using assms
  by (simp_all add: numbered_def mkItem_def failItem_def emitRetain_def emitPromote_def emitRelease_def tierItem_def
      moveFile_def linkFile_def Let_def split: option.splits)

lemma numbered_put [simp]:
  "numbered s \<Longrightarrow> piNo it = psNext s \<Longrightarrow> piStatus it \<noteq> Some ItemHeld \<Longrightarrow> numbered (putItem f it s)"
  by (simp add: numbered_def putItem_def)

lemma numbered_write [simp]:
  assumes "numbered s"
  shows "numbered (updateFile c f r s)" "numbered (repairFile c f r s)"
  using assms by (simp_all add: updateFile_def repairFile_def Let_def mkItem_def)

lemma numbered_newFile: "newFile c f s = Inr s' \<Longrightarrow> numbered s \<Longrightarrow> numbered s'"
  by (auto simp: newFile_def Let_def mkItem_def failItem_def unknownCopy_def
      split: option.splits sum.splits fsError.splits if_splits)

lemma numbered_waitPromote [simp]: "numbered (waitPromote r n s) = numbered s"
  by (simp add: waitPromote_def split: option.splits)

lemma numbered_keepFile [simp]: "numbered s \<Longrightarrow> numbered (keepFile c f r s)"
  by (simp add: keepFile_def Let_def split: option.splits)

lemma numbered_planVanished [simp]: "numbered s \<Longrightarrow> numbered (planVanished c fs recs v s)"
  by (simp add: planVanished_def Let_def)

lemma numbered_fold: "(\<And>x s. numbered s \<Longrightarrow> numbered (step x s)) \<Longrightarrow> numbered s \<Longrightarrow> numbered (fold step xs s)"
  by (induction xs arbitrary: s) simp_all

lemma numbered_lostStep [simp]: "numbered s \<Longrightarrow> numbered (lostStep c fs f r d s)"
  by (auto simp: lostStep_def Let_def split: option.splits)

lemma numbered_beforeFiles: "numbered (beforeFiles c fs recs mf names)"
proof -
  have "numbered (initState names)" by (simp add: numbered_def initState_def)
  then have "numbered (fold (vanishedStep c fs recs mf) vs (initState names))" for vs
    by (rule numbered_fold [rotated]) (auto simp: vanishedStep_def)
  then have "numbered (fold (promoteStep c fs recs) fs (fold (vanishedStep c fs recs mf) vs (initState names)))" for vs
    by (rule numbered_fold [rotated]) (auto simp: promoteStep_def Let_def split: option.splits)
  then show ?thesis unfolding beforeFiles_def
    by (rule numbered_fold [rotated]) (auto simp: missingStep_def intro: numbered_fold split: option.splits)
qed

lemma numbered_planFull:
  "planFull c fs mf relink f s = Inr s' \<Longrightarrow> numbered s \<Longrightarrow> numbered s'"
  unfolding planFull_def Let_def
  by (auto dest: numbered_newFile split: option.splits if_splits)

lemma numbered_planLoop: "planLoop c fs mf relink gs s = Inr s' \<Longrightarrow> numbered s \<Longrightarrow> numbered s'"
proof (induction gs arbitrary: s)
  case (Cons g gs)
  then obtain s1 where s1: "planOne c fs mf relink g s = Inr s1" "planLoop c fs mf relink gs s1 = Inr s'"
    by (auto split: sum.splits)
  have "numbered s1"
    using s1(1) Cons.prems(2) by (auto simp: planOne_def planKept_def dest: numbered_planFull split: if_splits option.splits)
  with Cons.IH s1(2) show ?case by blast
qed simp

lemma numbered_finish: "numbered s \<Longrightarrow> numbered (carryLost (linkAfters s))"
proof -
  have "marks (fold (\<lambda>(n, prim). setAfter n (g prim)) xs its) = marks its" for g :: "string \<Rightarrow> nat option" and xs its
    by (induction xs arbitrary: its) auto
  then show "numbered s \<Longrightarrow> ?thesis" by (simp add: numbered_def carryLost_def linkAfters_def)
qed

lemma plan_numbered: "plan c names files recs = Inr s \<Longrightarrow> numbered s"
  using numbered_finish numbered_planLoop [OF _ numbered_beforeFiles]
  by (auto simp: plan_def Let_def split: sum.splits)

lemma planItems_distinct:
  assumes "plan c names files recs = Inr s"
  shows "distinct (map piNo (planItems recs s))"
proof -
  have "marks (planItems recs s) = unheld (psNext s)"
    using plan_numbered [OF assms] by (simp add: numbered_def planItems_def marks_def ac_simps)
  from arg_cong [OF this, of "image_mset fst"] have "mset (map piNo (planItems recs s)) = mset [0..<psNext s]"
    by (simp add: marks_def unheld_def image_mset.compositionality comp_def)
  then show ?thesis by (metis distinct_upt mset_eq_imp_distinct_iff)
qed

section \<open>Guarded plans\<close>

lemma applyGuard_items:
  assumes "distinct (map piNo its)"
  shows "list_all2 (\<lambda>a b. if piStatus a = None \<and> mustHold (overLimit st liveFiles (countChanges its)) its (piNo a)
                        then \<exists>why. b = holdItem why a else b = a)
      its (snd (applyGuard its liveFiles st False))"
proof -
  let ?lim = "overLimit st liveFiles (countChanges its)"
  let ?ys = "holdLoop (map (holdSeed ?lim) its)"
  have R: "list_all2 (heldFrom ?lim its) its ?ys"
    by (rule heldFrom_loop) (simp add: list_all2_conv_all_nth heldFrom_seed)
  have "if piStatus (its ! i) = None \<and> mustHold ?lim its (piNo (its ! i)) then \<exists>why. ?ys ! i = holdItem why (its ! i)
      else ?ys ! i = its ! i" if "i < length its" for i
    using R that holdLoop_complete [OF R holdLoop_fixed assms _ that refl]
    by (auto simp: list_all2_conv_all_nth heldFrom_def)
  with R show ?thesis by (simp add: applyGuard_def Let_def list_all2_conv_all_nth)
qed

text \<open>C13: the guard holds exactly what it must of a source's plan: every open change of a plan over
  its limits, every open update to less than half the size, and every open item that waits, directly
  or through others, for a held one; all other items stay as planned, and a plan whose changes are
  allowed is left whole.\<close>

theorem guard_holds_exactly:
  assumes "plan c names files recs = Inr s"
  shows "list_all2 (\<lambda>a b. if piStatus a = None \<and>
                            mustHold (overLimit st liveFiles (countChanges (planItems recs s))) (planItems recs s) (piNo a)
                        then \<exists>why. b = holdItem why a else b = a)
      (planItems recs s) (snd (applyGuard (planItems recs s) liveFiles st False))
    \<and> snd (applyGuard (planItems recs s) liveFiles st True) = planItems recs s"
  using applyGuard_items [OF planItems_distinct [OF assms]] by (simp add: applyGuard_def Let_def)

text \<open>In the example every change is too many: the promote waits for the held retain.\<close>

definition exStrict :: syncSettings where
  "exStrict = (cfSettings exPlanCfg)\<lparr>ssMaxChangeFiles := 0\<rparr>"

theorem guard_holds_exactly_witness:
  "map (\<lambda>it. (piNo it, piAction it, piStatus it)) (snd (applyGuard (planItems exPlanRecs exPlan) 4 exStrict False))
     = [(0, ActionPromote, Some ItemHeld), (3, ActionMove, None), (2, ActionCopy, None), (1, ActionRetain, Some ItemHeld)]
   \<and> list_all2 (\<lambda>a b. if piStatus a = None \<and>
                            mustHold (overLimit exStrict 4 (countChanges (planItems exPlanRecs exPlan))) (planItems exPlanRecs exPlan) (piNo a)
                        then \<exists>why. b = holdItem why a else b = a)
      (planItems exPlanRecs exPlan) (snd (applyGuard (planItems exPlanRecs exPlan) 4 exStrict False))"
proof
  show "map (\<lambda>it. (piNo it, piAction it, piStatus it)) (snd (applyGuard (planItems exPlanRecs exPlan) 4 exStrict False))
     = [(0, ActionPromote, Some ItemHeld), (3, ActionMove, None), (2, ActionCopy, None), (1, ActionRetain, Some ItemHeld)]"
    by code_simp
qed (use guard_holds_exactly [OF exPlan_plan] in blast)

end
