(* ===== verification/RecordTable.thy ===== *)
theory RecordTable
  imports SyncPlan JobStore
begin

text \<open>
  The table of destination records (\<open>destination_files\<close>) and the transactions on it
  (internal/syncer/store.go, and the writes of internal/syncer/exec.go, reconcile.go and
  retention.go).  A table is the list of its rows.  A statement that breaks a constraint of the
  table fails, and a failed statement fails its transaction, which then changes nothing.

  SQL's NULL is the zero value, as \<open>nullInt\<close>, \<open>nullStr\<close> and \<open>nullTime\<close> write it.  The rows of
  the tables \<open>sources\<close> and \<open>destinations\<close> are outside the model.
\<close>

section \<open>Constraints\<close>

datatype dbError = DbCheck | DbUnique | DbForeign | DbNotFound | DbItem string

definition sbind :: "'e + 'a \<Rightarrow> ('a \<Rightarrow> 'e + 'b) \<Rightarrow> 'e + 'b" where
  "sbind m f = (case m of Inl e \<Rightarrow> Inl e | Inr x \<Rightarrow> f x)"

type_synonym recTable = "destRecord list"

definition ReasonDeleted :: string where "ReasonDeleted = ''deleted''"
definition ReasonReplaced :: string where "ReasonReplaced = ''replaced''"
definition ReasonDisplaced :: string where "ReasonDisplaced = ''displaced''"
definition ReasonDamaged :: string where "ReasonDamaged = ''damaged''"
definition ReasonReleased :: string where "ReasonReleased = ''released''"

definition retainReasons :: "string list" where
  "retainReasons = [ReasonDeleted, ReasonReplaced, ReasonDisplaced, ReasonDamaged, ReasonReleased]"

definition checkRow :: "destRecord \<Rightarrow> bool" where
  "checkRow r \<longleftrightarrow> (drState r = StateLinked \<or> drState r = StateLinkRecorded \<longrightarrow> drLinkOf r \<noteq> 0)
     \<and> (drState r = StateRetained \<longrightarrow> drRetainedPath r \<noteq> [] \<and> drExpiresAt r \<noteq> None)
     \<and> (drReason r = [] \<or> drReason r \<in> set retainReasons)"

definition isLive :: "destRecord \<Rightarrow> bool" where
  "isLive r = Live (drState r)"

definition livePath :: "destRecord \<Rightarrow> ident \<times> string" where
  "livePath r = (drDestinationID r, drRelPath r)"

definition uniqueLive :: "recTable \<Rightarrow> bool" where
  "uniqueLive rows = distinct (map livePath (filter isLive rows))"

definition linksExist :: "recTable \<Rightarrow> bool" where
  "linksExist rows = list_all (\<lambda>r. drLinkOf r = 0 \<or> drLinkOf r \<in> set (map drID rows)) rows"

definition constrained :: "recTable \<Rightarrow> dbError + recTable" where
  "constrained rows =
     (if \<not> list_all checkRow rows then Inl DbCheck
      else if \<not> uniqueLive rows then Inl DbUnique
      else if \<not> linksExist rows then Inl DbForeign
      else Inr rows)"

section \<open>Statements\<close>

definition insertRecord :: "destRecord \<Rightarrow> recTable \<Rightarrow> dbError + recTable" where
  "insertRecord rec rows = constrained (rows @ [rec\<lparr>drID := nextRowID (map drID rows)\<rparr>])"

definition updateRows :: "(destRecord \<Rightarrow> bool) \<Rightarrow> (destRecord \<Rightarrow> destRecord) \<Rightarrow> recTable \<Rightarrow> dbError + recTable" where
  "updateRows P f rows = constrained (map (\<lambda>r. if P r then f r else r) rows)"

text \<open>The statement does not set \<open>destination_id\<close>.\<close>

definition updateRecord :: "destRecord \<Rightarrow> recTable \<Rightarrow> dbError + recTable" where
  "updateRecord rec rows =
     (if drID rec \<notin> set (map drID rows) then Inl DbNotFound
      else updateRows (\<lambda>r. drID r = drID rec) (\<lambda>r. rec\<lparr>drDestinationID := drDestinationID r\<rparr>) rows)"

definition getTx :: "ident \<Rightarrow> recTable \<Rightarrow> destRecord option" where
  "getTx i rows = find (\<lambda>r. drID r = i) rows"

definition liveAtTx :: "ident \<Rightarrow> string \<Rightarrow> recTable \<Rightarrow> destRecord option" where
  "liveAtTx dest rel rows = find (\<lambda>r. drDestinationID r = dest \<and> drRelPath r = rel \<and> isLive r) rows"

definition liveForSourcePath :: "ident \<Rightarrow> ident \<Rightarrow> string \<Rightarrow> recTable \<Rightarrow> destRecord option" where
  "liveForSourcePath dest src rel rows =
     find (\<lambda>r. drDestinationID r = dest \<and> drSourceID r = src \<and> drSourceRelPath r = rel \<and> isLive r) rows"

definition Dependents :: "ident \<Rightarrow> recTable \<Rightarrow> destRecord list" where
  "Dependents i rows = sort_key drRelPath (sort_key drID (filter (\<lambda>r. drLinkOf r = i \<and> isLive r) rows))"

definition retainedExists :: "destRecord \<Rightarrow> recTable \<Rightarrow> bool" where
  "retainedExists rec rows = list_ex (\<lambda>r. drDestinationID r = drDestinationID rec \<and> drSourceID r = drSourceID rec
     \<and> drSourceRelPath r = drSourceRelPath rec \<and> drState r = StateRetained \<and> drRetainedPath r = drRetainedPath rec) rows"

definition repoint :: "ident \<Rightarrow> ident \<Rightarrow> recTable \<Rightarrow> dbError + recTable" where
  "repoint from to rows =
     sbind (updateRows (\<lambda>r. drLinkOf r = from \<and> drID r \<noteq> to \<and> isLive r) (\<lambda>r. r\<lparr>drLinkOf := to\<rparr>) rows)
       (updateRows (\<lambda>r. drLinkOf r = from \<and> \<not> isLive r) (\<lambda>r. r\<lparr>drLinkOf := 0\<rparr>))"

fun loseLinks :: "ident \<Rightarrow> ident list \<Rightarrow> recTable \<Rightarrow> dbError + recTable" where
  "loseLinks primary [] rows = Inr rows"
| "loseLinks primary (i # is) rows =
     sbind (updateRows (\<lambda>r. drID r = i \<and> drLinkOf r = primary \<and> drState r = StateLinkRecorded)
              (\<lambda>r. r\<lparr>drState := StateMissing, drLinkOf := 0\<rparr>) rows)
       (loseLinks primary is)"

text \<open>\<open>ON DELETE RESTRICT\<close>: a row that another one links to is not deleted.\<close>

definition deleteRecord :: "ident \<Rightarrow> recTable \<Rightarrow> dbError + recTable" where
  "deleteRecord i rows =
     sbind (updateRows (\<lambda>r. drLinkOf r = i \<and> \<not> isLive r) (\<lambda>r. r\<lparr>drLinkOf := 0\<rparr>) rows)
       (\<lambda>t. if i \<in> set (map drID t) \<and> i \<in> set (map drLinkOf t) then Inl DbForeign
            else Inr (filter (\<lambda>r. drID r \<noteq> i) t))"

fun deleteAll :: "ident list \<Rightarrow> recTable \<Rightarrow> dbError + recTable" where
  "deleteAll [] rows = Inr rows"
| "deleteAll (i # is) rows = sbind (deleteRecord i rows) (deleteAll is)"

text \<open>Retention intents.\<close>

definition setIntentTx :: "ident \<Rightarrow> string \<Rightarrow> string \<Rightarrow> string \<Rightarrow> recTable \<Rightarrow> dbError + recTable" where
  "setIntentTx dest rel retained reason rows =
     (let P = (\<lambda>r. drDestinationID r = dest \<and> drRelPath r = rel \<and> drState r \<in> {StatePresent, StateLinked, StateMissing})
      in sbind (updateRows P (\<lambda>r. r\<lparr>drRetainedPath := retained, drReason := reason\<rparr>) rows)
           (\<lambda>t. if list_ex P rows then Inr t else Inl (DbItem ''the record changed; it is not retained'')))"

definition clearIntentTx :: "ident \<Rightarrow> string \<Rightarrow> recTable \<Rightarrow> dbError + recTable" where
  "clearIntentTx i retained rows =
     updateRows (\<lambda>r. drID r = i \<and> drRetainedPath r = retained \<and> isLive r)
       (\<lambda>r. r\<lparr>drRetainedPath := [], drReason := []\<rparr>) rows"

definition markMissing :: "ident \<Rightarrow> recTable \<Rightarrow> dbError + recTable" where
  "markMissing i rows =
     updateRows (\<lambda>r. drID r = i \<and> drState r \<in> {StatePresent, StateLinked}) (\<lambda>r. r\<lparr>drState := StateMissing\<rparr>) rows"

definition setVerified :: "ident \<Rightarrow> string \<Rightarrow> gotime \<Rightarrow> recTable \<Rightarrow> dbError + recTable" where
  "setVerified i hash now rows =
     updateRows (\<lambda>r. drID r = i)
       (\<lambda>r. r\<lparr>drVerifiedAt := Some now, drHash := (if drHash r = [] then hash else drHash r)\<rparr>) rows"

text \<open>Reads of the retention job.\<close>

definition Expired :: "ident \<Rightarrow> gotime \<Rightarrow> recTable \<Rightarrow> destRecord list" where
  "Expired dest now rows =
     sort_key (\<lambda>r. case drExpiresAt r of Some t \<Rightarrow> t | None \<Rightarrow> 0) (sort_key drID
       (filter (\<lambda>r. drDestinationID r = dest \<and> drState r = StateRetained
          \<and> (case drExpiresAt r of Some t \<Rightarrow> t \<le> now | None \<Rightarrow> False)) rows))"

definition intents :: "ident \<Rightarrow> recTable \<Rightarrow> destRecord list" where
  "intents dest rows =
     sort_key drID (filter (\<lambda>r. drDestinationID r = dest \<and> isLive r \<and> drRetainedPath r \<noteq> []) rows)"

definition LiveForSource :: "ident \<Rightarrow> ident \<Rightarrow> recTable \<Rightarrow> destRecord list" where
  "LiveForSource dest src rows =
     sort_key drSourceRelPath (sort_key drID
       (filter (\<lambda>r. drDestinationID r = dest \<and> drSourceID r = src \<and> isLive r) rows))"

section \<open>Execution state of an item\<close>

record execDetail = detail +
  edTemp :: string
  edTempDone :: bool
  edTempSize :: int
  edTempMtimeNs :: int
  edTempHash :: string
  edRetained :: string
  edRetainedSize :: int
  edRetainedMtimeNs :: int
  edRetainedHash :: string
  edRetainedReason :: string
  edDisplaced :: string
  edDisplacedSize :: int
  edDisplacedMtimeNs :: int
  edOutcome :: string
  edWindowCuts :: int

text \<open>The destination, the job and the time of a transaction.\<close>

record txEnv =
  txDest :: ident
  txJob :: ident
  txNow :: gotime
  txDeletedDays :: int

definition DefaultDeletedDays :: int where
  "DefaultDeletedDays = 30"

definition expiry :: "int \<Rightarrow> gotime \<Rightarrow> gotime" where
  "expiry deletedDays now =
     now + wrap64 ((if deletedDays < 1 then DefaultDeletedDays else deletedDays) * 24 * hour_ns)"

definition zeroRecord :: destRecord where
  "zeroRecord = \<lparr>drID = 0, drDestinationID = 0, drSourceID = 0, drRelPath = [], drSourceRelPath = [], drSize = 0,
     drMtimeNs = 0, drHash = [], drLinkOf = 0, drState = StatePresent, drRetainedPath = [], drReason = [],
     drJobID = 0, drCopiedAt = None, drVerifiedAt = None, drRetainedAt = None, drExpiresAt = None,
     drEngineRef = [], drHeadTail = []\<rparr>"

definition retainedRow ::
    "txEnv \<Rightarrow> ident \<Rightarrow> string \<Rightarrow> string \<Rightarrow> string \<Rightarrow> int \<Rightarrow> int \<Rightarrow> string \<Rightarrow> string \<Rightarrow> destRecord" where
  "retainedRow e source rel sourceRel retained sz mtimeNs hash reason =
     zeroRecord\<lparr>drDestinationID := txDest e, drSourceID := source, drRelPath := rel, drSourceRelPath := sourceRel,
       drSize := sz, drMtimeNs := mtimeNs, drHash := hash, drState := StateRetained, drRetainedPath := retained,
       drReason := reason, drJobID := txJob e, drRetainedAt := Some (txNow e),
       drExpiresAt := Some (expiry (txDeletedDays e) (txNow e))\<rparr>"

definition insertRetained :: "destRecord \<Rightarrow> recTable \<Rightarrow> dbError + recTable" where
  "insertRetained rec rows = (if retainedExists rec rows then Inr rows else insertRecord rec rows)"

section \<open>Transactions\<close>

text \<open>\<open>recordAdopted\<close>: an adopted file is recorded present.\<close>

definition adoptedTx :: "txEnv \<Rightarrow> string \<Rightarrow> execDetail \<Rightarrow> int \<Rightarrow> int \<Rightarrow> string \<Rightarrow> recTable \<Rightarrow> dbError + recTable" where
  "adoptedTx e dest d sz mtimeNs hash rows =
     (let rec = zeroRecord\<lparr>drDestinationID := txDest e, drSourceID := deSourceID d, drRelPath := dest,
            drSourceRelPath := deSource d, drSize := sz, drMtimeNs := mtimeNs, drHash := hash, drState := StatePresent,
            drJobID := txJob e, drCopiedAt := Some (txNow e)\<rparr>
      in case liveAtTx (txDest e) dest rows of
           Some cur \<Rightarrow>
             if drSourceID cur \<noteq> deSourceID d then Inl (DbItem ''recorded for another source'')
             else updateRecord (rec\<lparr>drID := drID cur\<rparr>) rows
         | None \<Rightarrow> insertRecord rec rows)"

definition displacedTx :: "txEnv \<Rightarrow> string \<Rightarrow> execDetail \<Rightarrow> recTable \<Rightarrow> dbError + recTable" where
  "displacedTx e rel d =
     insertRetained (retainedRow e (deSourceID d) rel (deSource d) (edDisplaced d) (edDisplacedSize d)
       (edDisplacedMtimeNs d) [] ReasonDisplaced)"

fun releaseAll :: "destRecord list \<Rightarrow> recTable \<Rightarrow> dbError + recTable" where
  "releaseAll [] rows = Inr rows"
| "releaseAll (d # ds) rows = sbind (updateRecord (d\<lparr>drState := StatePresent, drLinkOf := 0\<rparr>) rows) (releaseAll ds)"

definition releaseDependents :: "destRecord \<Rightarrow> recTable \<Rightarrow> dbError + recTable" where
  "releaseDependents cur rows =
     (if drState cur = StateMissing then Inr rows
      else releaseAll (filter (\<lambda>d. drState d = StateLinked \<and> drSize d = drSize cur \<and> drMtimeNs d = drMtimeNs cur)
                         (Dependents (drID cur) rows)) rows)"

definition placedTx :: "txEnv \<Rightarrow> string \<Rightarrow> execDetail \<Rightarrow> bool \<Rightarrow> recTable \<Rightarrow> dbError + recTable" where
  "placedTx e dest d retained rows =
     (let rec = zeroRecord\<lparr>drDestinationID := txDest e, drSourceID := deSourceID d, drRelPath := dest,
            drSourceRelPath := deSource d, drSize := edTempSize d, drMtimeNs := edTempMtimeNs d, drHash := edTempHash d,
            drState := StatePresent, drJobID := txJob e, drCopiedAt := Some (txNow e)\<rparr>
      in sbind (case liveAtTx (txDest e) dest rows of
                  Some cur \<Rightarrow>
                    if drSourceID cur \<noteq> deSourceID d then Inl (DbItem ''recorded for another source'')
                    else sbind (if drState cur = StateMissing then loseLinks (drID cur) (deLostLinks d) rows else Inr rows)
                           (\<lambda>t. sbind (releaseDependents cur t) (updateRecord (rec\<lparr>drID := drID cur\<rparr>)))
                | None \<Rightarrow> insertRecord rec rows)
           (\<lambda>t. if \<not> retained \<or> edRetained d = [] then Inr t
                else insertRetained (retainedRow e (deSourceID d) dest (deSource d) (edRetained d) (edRetainedSize d)
                       (edRetainedMtimeNs d) (edRetainedHash d) (edRetainedReason d)) t))"

definition moveTx :: "txEnv \<Rightarrow> ident \<Rightarrow> string \<Rightarrow> string \<Rightarrow> recTable \<Rightarrow> dbError + recTable" where
  "moveTx e i to source rows =
     (case getTx i rows of
        None \<Rightarrow> Inl (DbItem ''the record vanished'')
      | Some cur \<Rightarrow>
          (case updateRecord (cur\<lparr>drRelPath := to, drSourceRelPath := source, drJobID := txJob e\<rparr>) rows of
             Inl DbUnique \<Rightarrow> Inl (DbItem ''already recorded at the destination'')
           | r \<Rightarrow> r))"

definition linkTx ::
    "txEnv \<Rightarrow> string \<Rightarrow> execDetail \<Rightarrow> recState \<Rightarrow> ident \<Rightarrow> int \<Rightarrow> int \<Rightarrow> bool \<Rightarrow> recTable \<Rightarrow> dbError + recTable" where
  "linkTx e dest d mode prim sz mtimeNs retained rows =
     (case getTx prim rows of
        None \<Rightarrow> Inl (DbItem ''the primary changed during the link'')
      | Some p \<Rightarrow>
          if drState p \<noteq> StatePresent then Inl (DbItem ''the primary changed during the link'')
          else (let nr = zeroRecord\<lparr>drDestinationID := txDest e, drSourceID := deSourceID d, drRelPath := dest,
                       drSourceRelPath := deSource d, drSize := sz, drMtimeNs := mtimeNs, drHash := drHash p,
                       drLinkOf := drID p, drState := mode, drJobID := txJob e, drCopiedAt := Some (txNow e)\<rparr>
                in sbind (case liveAtTx (txDest e) dest rows of
                            Some cur \<Rightarrow>
                              sbind (if drState cur = StateMissing then loseLinks (drID cur) (deLostLinks d) rows else Inr rows)
                                (\<lambda>t. sbind (repoint (drID cur) (drID p) t) (updateRecord (nr\<lparr>drID := drID cur\<rparr>)))
                          | None \<Rightarrow> insertRecord nr rows)
                     (\<lambda>t. if retained
                          then insertRetained (retainedRow e (deSourceID d) dest (deSource d) (edRetained d)
                                 (edRetainedSize d) (edRetainedMtimeNs d) (edRetainedHash d) (edRetainedReason d)) t
                          else Inr t)))"

definition promoteTx :: "txEnv \<Rightarrow> destRecord \<Rightarrow> destRecord \<Rightarrow> bool \<Rightarrow> bool \<Rightarrow> recTable \<Rightarrow> dbError + recTable" where
  "promoteTx e t v moved forRetain rows =
     sbind (updateRecord (t\<lparr>drState := StatePresent, drLinkOf := 0, drHash := drHash v, drJobID := txJob e,
              drCopiedAt := (if moved then Some (txNow e) else drCopiedAt t)\<rparr>) rows)
       (\<lambda>t1. sbind (repoint (drID v) (drID t) t1)
         (\<lambda>t2. if \<not> moved then Inr t2
               else if forRetain then deleteRecord (drID v) t2
               else updateRecord (v\<lparr>drState := StateMissing\<rparr>) t2))"

definition retainTx ::
    "txEnv \<Rightarrow> destRecord \<Rightarrow> execDetail \<Rightarrow> ident list \<Rightarrow> ident option \<Rightarrow> bool \<Rightarrow> recTable \<Rightarrow> dbError + recTable" where
  "retainTx e v d gone heir retained rows =
     sbind (deleteAll gone rows)
       (\<lambda>t1. sbind (case heir of
                     None \<Rightarrow> Inr t1
                   | Some i \<Rightarrow>
                       (case getTx i t1 of
                          None \<Rightarrow> Inr t1
                        | Some h \<Rightarrow> sbind (updateRecord (h\<lparr>drState := StatePresent, drLinkOf := 0\<rparr>) t1)
                                     (repoint (drID v) (drID h))))
         (\<lambda>t2. if \<not> retained then deleteRecord (drID v) t2
               else (let reason = (if edRetainedReason d = [] then ReasonDeleted else edRetainedReason d);
                         row = retainedRow e (deSourceID d) (drRelPath v) (drSourceRelPath v) (edRetained d)
                                 (edRetainedSize d) (edRetainedMtimeNs d) (edRetainedHash d) reason
                     in if retainedExists row t2 then deleteRecord (drID v) t2
                        else updateRecord (v\<lparr>drState := StateRetained, drRetainedPath := edRetained d, drReason := reason,
                               drLinkOf := 0, drJobID := txJob e, drSize := edRetainedSize d, drHash := edRetainedHash d,
                               drRetainedAt := Some (txNow e), drExpiresAt := Some (expiry (txDeletedDays e) (txNow e)),
                               drMtimeNs := (if edRetainedMtimeNs d \<noteq> 0 then edRetainedMtimeNs d else drMtimeNs v)\<rparr>) t2)))"

text \<open>\<open>retainedVersion\<close>: what the row of a file in retention says of it.\<close>

record retainedVersion =
  rvMtimeNs :: int
  rvHash :: string
  rvReason :: string

definition settledRow :: "txEnv \<Rightarrow> destRecord \<Rightarrow> retainedVersion option \<Rightarrow> int \<Rightarrow> int \<Rightarrow> destRecord" where
  "settledRow e rec v retSize retMtimeNs =
     (let reason = (if drReason rec = [] then ReasonDeleted else drReason rec);
          w = (case v of
                 Some w \<Rightarrow> w
               | None \<Rightarrow> \<lparr>rvMtimeNs = (if reason = ReasonDamaged then retMtimeNs else drMtimeNs rec), rvHash = [],
                          rvReason = reason\<rparr>)
      in (retainedRow e (drSourceID rec) (drRelPath rec) (drSourceRelPath rec) (drRetainedPath rec) retSize
            (rvMtimeNs w) (rvHash w) (rvReason w))\<lparr>drDestinationID := drDestinationID rec\<rparr>)"

definition settleTx ::
    "txEnv \<Rightarrow> destRecord \<Rightarrow> retainedVersion option \<Rightarrow> bool \<Rightarrow> bool \<Rightarrow> int \<Rightarrow> int \<Rightarrow> recTable \<Rightarrow> dbError + recTable" where
  "settleTx e rec v unknown isRec retSize retMtimeNs rows =
     sbind (if unknown
            then updateRows (\<lambda>r. drID r = drID rec \<and> drRetainedPath r = drRetainedPath rec
                               \<and> drState r \<in> {StatePresent, StateLinked})
                   (\<lambda>r. r\<lparr>drState := StateMissing\<rparr>) rows
            else Inr rows)
       (\<lambda>t1. sbind (if isRec then insertRetained (settledRow e rec v retSize retMtimeNs) t1 else Inr t1)
         (clearIntentTx (drID rec) (drRetainedPath rec)))"

end
