(* ===== verification/RecordLinks.thy ===== *)
theory RecordLinks
  imports RecordTable
begin

text \<open>
  What every transaction keeps of the table of destination records: the constraints of the schema,
  and that a hardlinked name points to a record of the same destination that holds content itself
  (present or missing, never a link and never retained), so that links never form chains and never
  lose their primary.
\<close>

definition holder :: "destRecord \<Rightarrow> bool" where
  "holder r \<longleftrightarrow> (drState r = StatePresent \<or> drState r = StateMissing) \<and> drLinkOf r = 0"

definition linkOk :: "recTable \<Rightarrow> destRecord \<Rightarrow> bool" where
  "linkOk rows r \<longleftrightarrow> drLinkOf r = 0 \<or> isLive r \<and> drState r \<noteq> StatePresent
     \<and> (\<exists>p \<in> set rows. drID p = drLinkOf r \<and> holder p \<and> drDestinationID p = drDestinationID r)"

definition linksOk :: "recTable \<Rightarrow> bool" where
  "linksOk rows = list_all (linkOk rows) rows"

definition tableOk :: "recTable \<Rightarrow> bool" where
  "tableOk rows \<longleftrightarrow> distinct (map drID rows) \<and> list_all (\<lambda>r. drID r > 0) rows
     \<and> list_all checkRow rows \<and> uniqueLive rows \<and> linksOk rows"

lemma constrained_InrD: "constrained rows = Inr t \<Longrightarrow> t = rows \<and> list_all checkRow rows \<and> uniqueLive rows \<and> linksExist rows"
  by (auto simp: constrained_def split: if_splits)

lemma linkOk_cases: "linkOk rows r \<Longrightarrow> drLinkOf r \<noteq> 0 \<Longrightarrow> isLive r \<and> drState r \<noteq> StatePresent"
  by (simp add: linkOk_def)

text \<open>A change of some rows keeps the links when it keeps who holds content for whom.\<close>

definition keepsLinks :: "recTable \<Rightarrow> (destRecord \<Rightarrow> destRecord) \<Rightarrow> bool" where
  "keepsLinks rows g \<longleftrightarrow> (\<forall>r \<in> set rows. drID (g r) = drID r \<and> drDestinationID (g r) = drDestinationID r
     \<and> linkOk (map g rows) (g r))"

lemma updateRows_ok:
  assumes "tableOk rows" "updateRows P f rows = Inr t" "keepsLinks rows (\<lambda>r. if P r then f r else r)"
  shows "tableOk t"
proof -
  let ?g = "\<lambda>r. if P r then f r else r"
  from assms(2) have t: "t = map ?g rows" "list_all checkRow t" "uniqueLive t"
    by (auto simp: updateRows_def dest!: constrained_InrD)
  have ids: "map drID t = map drID rows" using assms(3) by (simp add: t(1) keepsLinks_def)
  have "list_all (linkOk t) t" using assms(3) by (auto simp: t(1) keepsLinks_def list_all_iff)
  moreover have "list_all (\<lambda>r. drID r > 0) t"
    using assms(1) ids by (auto simp: tableOk_def list_all_iff dest!: arg_cong [of _ _ set]) (metis image_iff)
  ultimately show ?thesis using t(2,3) assms(1) unfolding tableOk_def linksOk_def ids by blast
qed

text \<open>Rows that stay holders when they were.\<close>

lemma linkOk_map:
  assumes "linkOk rows r" "\<And>p. p \<in> set rows \<Longrightarrow> drID (g p) = drID p \<and> drDestinationID (g p) = drDestinationID p"
    "\<And>p. p \<in> set rows \<Longrightarrow> holder p \<Longrightarrow> holder (g p)"
    "drLinkOf (g r) = 0 \<or> drLinkOf (g r) = drLinkOf r \<and> isLive (g r) \<and> drState (g r) \<noteq> StatePresent"
    "drDestinationID (g r) = drDestinationID r"
  shows "linkOk (map g rows) (g r)"
  using assms unfolding linkOk_def by (metis (no_types, lifting) image_eqI list.set_map)

lemma keepsLinks_same:
  assumes "tableOk rows"
    "\<And>r. r \<in> set rows \<Longrightarrow> drID (g r) = drID r \<and> drDestinationID (g r) = drDestinationID r"
    "\<And>r. r \<in> set rows \<Longrightarrow> holder r \<Longrightarrow> holder (g r)"
    "\<And>r. r \<in> set rows \<Longrightarrow> drLinkOf (g r) = 0 \<or> drLinkOf (g r) = drLinkOf r \<and> isLive (g r) \<and> drState (g r) \<noteq> StatePresent"
  shows "keepsLinks rows g"
  unfolding keepsLinks_def
proof (intro ballI conjI)
  fix r assume r: "r \<in> set rows"
  with assms(1) have "linkOk rows r" by (simp add: tableOk_def linksOk_def list_all_iff)
  then show "linkOk (map g rows) (g r)" by (rule linkOk_map) (use r assms(2-) in auto)
qed (use assms(2) in auto)

lemma tableOk_row: "tableOk rows \<Longrightarrow> r \<in> set rows \<Longrightarrow> linkOk rows r"
  by (simp add: tableOk_def linksOk_def list_all_iff)

lemma rec_unique: "tableOk rows \<Longrightarrow> r \<in> set rows \<Longrightarrow> s \<in> set rows \<Longrightarrow> drID r = drID s \<Longrightarrow> r = s"
  by (auto simp: tableOk_def distinct_map dest: inj_onD)

lemma isLive_simps [simp]:
  "isLive (r\<lparr>drLinkOf := x\<rparr>) = isLive r" "isLive (r\<lparr>drRetainedPath := p, drReason := q\<rparr>) = isLive r"
  "isLive (r\<lparr>drState := StateMissing\<rparr>)"
  by (simp_all add: isLive_def)

text \<open>Statements that keep every link where it is.\<close>

lemma updateRows_same:
  assumes "tableOk rows" "updateRows P f rows = Inr t"
    "\<And>r. r \<in> set rows \<Longrightarrow> P r \<Longrightarrow> drID (f r) = drID r \<and> drDestinationID (f r) = drDestinationID r"
    "\<And>r. r \<in> set rows \<Longrightarrow> P r \<Longrightarrow> holder r \<Longrightarrow> holder (f r)"
    "\<And>r. r \<in> set rows \<Longrightarrow> P r \<Longrightarrow> drLinkOf (f r) = 0 \<or> drLinkOf (f r) = drLinkOf r \<and> isLive (f r) \<and> drState (f r) \<noteq> StatePresent"
  shows "tableOk t"
proof (rule updateRows_ok [OF assms(1,2)], rule keepsLinks_same [OF assms(1)])
  fix r assume r: "r \<in> set rows"
  show "drLinkOf (if P r then f r else r) = 0 \<or> drLinkOf (if P r then f r else r) = drLinkOf r
      \<and> isLive (if P r then f r else r) \<and> drState (if P r then f r else r) \<noteq> StatePresent"
    using assms(5) [OF r] linkOk_cases [OF tableOk_row [OF assms(1) r]] by auto
qed (use assms(3,4) in auto)

lemma updateRecord_same:
  assumes "tableOk rows" "updateRecord rec rows = Inr t" "r \<in> set rows" "drID r = drID rec"
    "holder r \<Longrightarrow> holder rec" "drLinkOf rec = 0 \<or> drLinkOf rec = drLinkOf r \<and> isLive rec \<and> drState rec \<noteq> StatePresent"
  shows "tableOk t"
proof (rule updateRows_same [OF assms(1)])
  show "updateRows (\<lambda>r. drID r = drID rec) (\<lambda>r. rec\<lparr>drDestinationID := drDestinationID r\<rparr>) rows = Inr t"
    using assms(2) by (simp add: updateRecord_def split: if_splits)
  fix s assume "s \<in> set rows" "drID s = drID rec"
  with rec_unique [OF assms(1,3)] assms(4) have s: "s = r" by simp
  show "holder s \<Longrightarrow> holder (rec\<lparr>drDestinationID := drDestinationID s\<rparr>)" using assms(5) s by (simp add: holder_def)
  show "drLinkOf (rec\<lparr>drDestinationID := drDestinationID s\<rparr>) = 0 \<or> drLinkOf (rec\<lparr>drDestinationID := drDestinationID s\<rparr>) = drLinkOf s
      \<and> isLive (rec\<lparr>drDestinationID := drDestinationID s\<rparr>) \<and> drState (rec\<lparr>drDestinationID := drDestinationID s\<rparr>) \<noteq> StatePresent"
    using assms(6) s by (auto simp: isLive_def)
qed simp_all

lemma updateRecord_mem: "updateRecord rec rows = Inr t \<Longrightarrow> \<exists>r \<in> set rows. drID r = drID rec"
  by (auto simp: updateRecord_def split: if_splits)

lemma updateRecord_holder:
  "tableOk rows \<Longrightarrow> updateRecord rec rows = Inr t \<Longrightarrow> holder rec \<Longrightarrow> tableOk t"
  using updateRecord_mem updateRecord_same by (metis holder_def)

lemma insertRecord_ok:
  assumes "tableOk rows" "insertRecord rec rows = Inr t" "drLinkOf rec = 0 \<or> isLive rec \<and> drState rec \<noteq> StatePresent
     \<and> (\<exists>p \<in> set rows. drID p = drLinkOf rec \<and> holder p \<and> drDestinationID p = drDestinationID rec)"
  shows "tableOk t"
proof -
  let ?n = "rec\<lparr>drID := nextRowID (map drID rows)\<rparr>"
  from assms(2) have t: "t = rows @ [?n]" "list_all checkRow t" "uniqueLive t"
    by (auto simp: insertRecord_def dest!: constrained_InrD)
  have fresh: "x < nextRowID (map drID rows)" if "x \<in> set (map drID rows)" for x
  proof -
    have "x \<le> foldr max ids 0" if "x \<in> set ids" for ids :: "int list" using that by (induction ids) (auto simp: max.coboundedI2 le_max_iff_disj)
    with that show ?thesis by (fastforce simp: nextRowID_def)
  qed
  have pos: "0 \<le> foldr max ids (0::int)" for ids by (induction ids) auto
  have "linkOk t r" if "r \<in> set rows" for r
    using tableOk_row [OF assms(1) that] by (auto simp: linkOk_def t(1))
  moreover have "linkOk t ?n" using assms(3) by (auto simp: linkOk_def t(1) isLive_def)
  ultimately have "linksOk t" by (auto simp: linksOk_def list_all_iff t(1))
  moreover have "distinct (map drID t)" using assms(1) fresh by (fastforce simp: t(1) tableOk_def)
  moreover have "list_all (\<lambda>r. drID r > 0) t" using assms(1) pos [of "map drID rows"] by (auto simp: t(1) tableOk_def nextRowID_def)
  ultimately show ?thesis using t by (simp add: tableOk_def)
qed

lemma sbind_InrD: "sbind m f = Inr x \<Longrightarrow> \<exists>y. m = Inr y \<and> f y = Inr x"
  by (auto simp: sbind_def split: sum.splits)

lemma zeroRecord_simps [simp]:
  "drLinkOf zeroRecord = 0" "drState zeroRecord = StatePresent"
  by (simp_all add: zeroRecord_def)

lemma retainedRow_simps [simp]:
  "drLinkOf (retainedRow e sid rel srel ret sz mt h w) = 0" "drState (retainedRow e sid rel srel ret sz mt h w) = StateRetained"
  by (simp_all add: retainedRow_def)

lemma insertRetained_ok: "tableOk rows \<Longrightarrow> insertRetained rec rows = Inr t \<Longrightarrow> drLinkOf rec = 0 \<Longrightarrow> tableOk t"
  by (auto simp: insertRetained_def split: if_splits intro: insertRecord_ok)

text \<open>No row links to a row that is deleted: the schema restricts it.\<close>

lemma retained_unlinked: "tableOk rows \<Longrightarrow> r \<in> set rows \<Longrightarrow> \<not> isLive r \<Longrightarrow> drLinkOf r = 0"
  using tableOk_row linkOk_cases by blast

lemma noRetainedLinks:
  assumes "tableOk rows" "updateRows (\<lambda>r. drLinkOf r = i \<and> \<not> isLive r) (\<lambda>r. r\<lparr>drLinkOf := 0\<rparr>) rows = Inr t"
  shows "t = rows"
proof -
  from assms(2) have "t = map (\<lambda>r. if drLinkOf r = i \<and> \<not> isLive r then r\<lparr>drLinkOf := 0\<rparr> else r) rows"
    by (auto simp: updateRows_def dest!: constrained_InrD)
  moreover have "(if drLinkOf r = i \<and> \<not> isLive r then r\<lparr>drLinkOf := 0\<rparr> else r) = r" if "r \<in> set rows" for r
    using retained_unlinked [OF assms(1) that] by auto
  ultimately show ?thesis by (simp add: map_idI)
qed

lemma uniqueLive_filter: "uniqueLive rows \<Longrightarrow> uniqueLive (filter P rows)"
proof -
  have "filter isLive (filter P rows) = filter P (filter isLive rows)" by (simp add: conj_commute)
  then show "uniqueLive rows \<Longrightarrow> ?thesis" by (simp add: uniqueLive_def distinct_map_filter del: filter_filter)
qed

lemma deleteRecord_ok:
  assumes "tableOk rows" "deleteRecord i rows = Inr t"
  shows "tableOk t" "t = filter (\<lambda>r. drID r \<noteq> i) rows" "i \<in> drID ` set rows \<Longrightarrow> i \<notin> drLinkOf ` set rows"
proof -
  from assms(2) obtain t1 where t1: "updateRows (\<lambda>r. drLinkOf r = i \<and> \<not> isLive r) (\<lambda>r. r\<lparr>drLinkOf := 0\<rparr>) rows = Inr t1"
    and rest: "(if i \<in> set (map drID t1) \<and> i \<in> set (map drLinkOf t1) then Inl DbForeign
        else Inr (filter (\<lambda>r. drID r \<noteq> i) t1)) = Inr t"
    unfolding deleteRecord_def by (blast dest: sbind_InrD)
  have t1: "t1 = rows" using noRetainedLinks [OF assms(1) t1] .
  with rest show t: "t = filter (\<lambda>r. drID r \<noteq> i) rows" and free: "i \<in> drID ` set rows \<Longrightarrow> i \<notin> drLinkOf ` set rows"
    by (auto split: if_splits)
  have "linkOk t r" if r: "r \<in> set t" for r
  proof -
    from r t have r0: "r \<in> set rows" by simp
    from tableOk_row [OF assms(1) r0] free r0 show ?thesis unfolding linkOk_def t by force
  qed
  then show "tableOk t"
    using assms(1) uniqueLive_filter by (auto simp: tableOk_def linksOk_def list_all_iff t distinct_map_filter)
qed

lemma deleteAll_ok: "tableOk rows \<Longrightarrow> deleteAll is rows = Inr t \<Longrightarrow> tableOk t \<and> t = filter (\<lambda>r. drID r \<notin> set is) rows"
proof (induction "is" arbitrary: rows)
  case (Cons i "is")
  then obtain t1 where t1: "deleteRecord i rows = Inr t1" "deleteAll is t1 = Inr t" by (auto dest: sbind_InrD)
  from Cons.IH [OF deleteRecord_ok(1) [OF Cons.prems(1) t1(1)] t1(2)] deleteRecord_ok(2) [OF Cons.prems(1) t1(1)]
  show ?case by (auto intro: filter_cong)
qed simp

lemma loseLinks_ok: "tableOk rows \<Longrightarrow> loseLinks p is rows = Inr t \<Longrightarrow> tableOk t"
proof (induction "is" arbitrary: rows)
  case (Cons i "is")
  then obtain t1 where t1: "updateRows (\<lambda>r. drID r = i \<and> drLinkOf r = p \<and> drState r = StateLinkRecorded)
      (\<lambda>r. r\<lparr>drState := StateMissing, drLinkOf := 0\<rparr>) rows = Inr t1" "loseLinks p is t1 = Inr t" by (auto dest: sbind_InrD)
  have "tableOk t1" by (rule updateRows_same [OF Cons.prems(1) t1(1)]) (auto simp: holder_def)
  with Cons.IH t1(2) show ?case by blast
qed simp

text \<open>Re-pointing: the new target must hold content at the same destination.\<close>

lemma repoint_ok:
  assumes "tableOk rows" "repoint from to rows = Inr t" "h \<in> set rows" "drID h = to" "holder h"
    "\<And>r. r \<in> set rows \<Longrightarrow> drLinkOf r = from \<Longrightarrow> drDestinationID r = drDestinationID h" "from \<noteq> 0"
  shows "tableOk t" "\<And>r. r \<in> set t \<Longrightarrow> drLinkOf r = from \<Longrightarrow> from = to"
    "t = map (\<lambda>r. if drLinkOf r = from \<and> drID r \<noteq> to \<and> isLive r then r\<lparr>drLinkOf := to\<rparr> else r) rows"
proof -
  let ?g = "\<lambda>r. if drLinkOf r = from \<and> drID r \<noteq> to \<and> isLive r then r\<lparr>drLinkOf := to\<rparr> else r"
  from assms(2) obtain t1 where t1: "updateRows (\<lambda>r. drLinkOf r = from \<and> drID r \<noteq> to \<and> isLive r) (\<lambda>r. r\<lparr>drLinkOf := to\<rparr>) rows = Inr t1"
    and t2: "updateRows (\<lambda>r. drLinkOf r = from \<and> \<not> isLive r) (\<lambda>r. r\<lparr>drLinkOf := 0\<rparr>) t1 = Inr t"
    unfolding repoint_def by (blast dest: sbind_InrD)
  have ok1: "tableOk t1"
  proof (rule updateRows_ok [OF assms(1) t1])
    have h: "?g h = h" using assms(5,7) by (auto simp: holder_def)
    show "keepsLinks rows ?g"
      unfolding keepsLinks_def
    proof (intro ballI conjI)
      fix r assume r: "r \<in> set rows"
      have row: "linkOk rows r" by (rule tableOk_row [OF assms(1) r])
      show "linkOk (map ?g rows) (?g r)"
      proof (cases "drLinkOf r = from \<and> drID r \<noteq> to \<and> isLive r")
        case True
        moreover from True row assms(7) have "drState r \<noteq> StatePresent" by (auto simp: linkOk_def)
        moreover have "h \<in> set (map ?g rows)" using h assms(3) by force
        ultimately show ?thesis using assms(4,5) assms(6) [OF r] unfolding linkOk_def by fastforce
      next
        case False
        then show ?thesis using row by (intro linkOk_map) (auto simp: holder_def linkOk_def assms(7))
      qed
    qed auto
  qed
  have tt: "t = t1" by (rule noRetainedLinks [OF ok1 t2])
  then show "tableOk t" using ok1 by simp
  from t1 show t: "t = map ?g rows" unfolding tt by (auto simp: updateRows_def dest!: constrained_InrD)
  show "from = to" if r: "r \<in> set t" "drLinkOf r = from" for r
  proof -
    from r(1) t obtain s where s: "s \<in> set rows" "r = ?g s" by auto
    show ?thesis
    proof (cases "drLinkOf s = from \<and> drID s \<noteq> to \<and> isLive s")
      case True
      with s(2) r(2) show ?thesis by simp
    next
      case False
      with s(2) r(2) have sl: "drLinkOf s = from" by auto
      with tableOk_row [OF assms(1) s(1)] assms(7) have "isLive s" by (auto simp: linkOk_def)
      with False sl have "drID s = to" by simp
      with rec_unique [OF assms(1) s(1) assms(3)] assms(4,5) sl show ?thesis by (simp add: holder_def assms(7))
    qed
  qed
qed

lemma link_holder:
  assumes "tableOk rows" "r \<in> set rows" "cur \<in> set rows" "drLinkOf r = drID cur"
  shows "holder cur" "drDestinationID r = drDestinationID cur" "drID r \<noteq> drID cur"
proof -
  have pos: "drID cur \<noteq> 0" using assms(1,3) by (auto simp: tableOk_def list_all_iff)
  with tableOk_row [OF assms(1,2)] assms(4) obtain p where p: "p \<in> set rows" "drID p = drID cur" "holder p"
    "drDestinationID p = drDestinationID r" by (auto simp: linkOk_def)
  then have "p = cur" using rec_unique [OF assms(1) p(1) assms(3)] by simp
  with p show "holder cur" "drDestinationID r = drDestinationID cur" by simp_all
  show "drID r \<noteq> drID cur"
  proof
    assume "drID r = drID cur"
    then have "r = cur" by (rule rec_unique [OF assms(1-3)])
    with \<open>holder cur\<close> assms(4) pos show False by (simp add: holder_def)
  qed
qed

text \<open>A record that nothing links to may change freely, as long as its own link is good.\<close>

lemma updateRecord_free:
  assumes "tableOk rows" "updateRecord rec rows = Inr t" "drID rec \<notin> drLinkOf ` set rows"
    "drLinkOf rec = 0 \<or> isLive rec \<and> drState rec \<noteq> StatePresent
       \<and> (\<exists>p \<in> set rows. drID p = drLinkOf rec \<and> drID p \<noteq> drID rec \<and> holder p
            \<and> (\<forall>r \<in> set rows. drID r = drID rec \<longrightarrow> drDestinationID p = drDestinationID r))"
  shows "tableOk t"
proof (rule updateRows_ok [OF assms(1)])
  let ?g = "\<lambda>r. if drID r = drID rec then rec\<lparr>drDestinationID := drDestinationID r\<rparr> else r"
  show "updateRows (\<lambda>r. drID r = drID rec) (\<lambda>r. rec\<lparr>drDestinationID := drDestinationID r\<rparr>) rows = Inr t"
    using assms(2) by (simp add: updateRecord_def split: if_splits)
  show "keepsLinks rows ?g"
    unfolding keepsLinks_def
  proof (intro ballI conjI)
    fix r assume r: "r \<in> set rows"
    show "linkOk (map ?g rows) (?g r)"
    proof (cases "drID r = drID rec")
      case False
      moreover from tableOk_row [OF assms(1) r] have "drLinkOf r = 0 \<or> isLive r \<and> drState r \<noteq> StatePresent \<and>
          (\<exists>p \<in> set rows. drID p = drLinkOf r \<and> drID p \<noteq> drID rec \<and> holder p \<and> drDestinationID p = drDestinationID r)"
        using assms(3) r unfolding linkOk_def by force
      ultimately show ?thesis unfolding linkOk_def by (force simp: image_iff)
    next
      case True
      with assms(4) r show ?thesis unfolding linkOk_def by (force simp: isLive_def image_iff)
    qed
  qed auto
qed

section \<open>Transactions\<close>

lemma find_memD: "find P xs = Some x \<Longrightarrow> x \<in> set xs \<and> P x"
  by (rule find_Some_setD)

lemma adoptedTx_ok: "tableOk rows \<Longrightarrow> adoptedTx e dest d sz mt h rows = Inr t \<Longrightarrow> tableOk t"
  unfolding adoptedTx_def Let_def
  by (auto split: option.splits if_splits intro: insertRecord_ok updateRecord_holder simp: holder_def)

lemma displacedTx_ok: "tableOk rows \<Longrightarrow> displacedTx e rel d rows = Inr t \<Longrightarrow> tableOk t"
  unfolding displacedTx_def by (erule (1) insertRetained_ok) simp

lemma releaseAll_ok: "tableOk rows \<Longrightarrow> releaseAll ds rows = Inr t \<Longrightarrow> tableOk t"
proof (induction ds arbitrary: rows)
  case (Cons d ds)
  then obtain t1 where t1: "updateRecord (d\<lparr>drState := StatePresent, drLinkOf := 0\<rparr>) rows = Inr t1" "releaseAll ds t1 = Inr t"
    by (auto dest: sbind_InrD)
  have "tableOk t1" by (rule updateRecord_holder [OF Cons.prems(1) t1(1)]) (simp add: holder_def)
  with Cons.IH t1(2) show ?case by blast
qed simp

lemma releaseDependents_ok: "tableOk rows \<Longrightarrow> releaseDependents cur rows = Inr t \<Longrightarrow> tableOk t"
  by (auto simp: releaseDependents_def split: if_splits intro: releaseAll_ok)

lemma placedTx_ok:
  assumes "tableOk rows" "placedTx e dest d retained rows = Inr t"
  shows "tableOk t"
proof -
  let ?rec = "zeroRecord\<lparr>drDestinationID := txDest e, drSourceID := deSourceID d, drRelPath := dest,
      drSourceRelPath := deSource d, drSize := edTempSize d, drMtimeNs := edTempMtimeNs d, drHash := edTempHash d,
      drState := StatePresent, drJobID := txJob e, drCopiedAt := Some (txNow e)\<rparr>"
  from assms(2) obtain t1 where
    first: "(case liveAtTx (txDest e) dest rows of
       Some cur \<Rightarrow> if drSourceID cur \<noteq> deSourceID d then Inl (DbItem ''recorded for another source'')
         else sbind (if drState cur = StateMissing then loseLinks (drID cur) (deLostLinks d) rows else Inr rows)
                (\<lambda>t. sbind (releaseDependents cur t) (updateRecord (?rec\<lparr>drID := drID cur\<rparr>)))
     | None \<Rightarrow> insertRecord ?rec rows) = Inr t1"
    and rest: "(if \<not> retained \<or> edRetained d = [] then Inr t1
       else insertRetained (retainedRow e (deSourceID d) dest (deSource d) (edRetained d) (edRetainedSize d)
              (edRetainedMtimeNs d) (edRetainedHash d) (edRetainedReason d)) t1) = Inr t"
    unfolding placedTx_def Let_def by (blast dest: sbind_InrD)
  have "tableOk t1"
  proof (cases "liveAtTx (txDest e) dest rows")
    case None
    with first show ?thesis by (intro insertRecord_ok [OF assms(1)]) auto
  next
    case (Some cur)
    with first obtain t2 t3 where
      t2: "(if drState cur = StateMissing then loseLinks (drID cur) (deLostLinks d) rows else Inr rows) = Inr t2"
      and t3: "releaseDependents cur t2 = Inr t3" "updateRecord (?rec\<lparr>drID := drID cur\<rparr>) t3 = Inr t1"
      by (auto split: if_splits dest!: sbind_InrD)
    have "tableOk t2" using t2 assms(1) by (auto split: if_splits intro: loseLinks_ok)
    then have "tableOk t3" by (rule releaseDependents_ok [OF _ t3(1)])
    then show ?thesis by (rule updateRecord_holder [OF _ t3(2)]) (simp add: holder_def)
  qed
  with rest show ?thesis by (auto split: if_splits intro: insertRetained_ok)
qed

lemma moveTx_ok:
  assumes "tableOk rows" "moveTx e i to source rows = Inr t"
  shows "tableOk t"
proof -
  from assms(2) obtain cur where cur: "getTx i rows = Some cur"
    and upd: "updateRecord (cur\<lparr>drRelPath := to, drSourceRelPath := source, drJobID := txJob e\<rparr>) rows = Inr t"
    unfolding moveTx_def by (auto split: option.splits sum.splits dbError.splits)
  from cur have mem: "cur \<in> set rows" by (auto simp: getTx_def dest: find_memD)
  show ?thesis
    by (rule updateRecord_same [OF assms(1) upd mem])
      (use tableOk_row [OF assms(1) mem] in \<open>auto simp: holder_def linkOk_def isLive_def\<close>)
qed

text \<open>The primary of a new link is another record of the same destination.\<close>

lemma present_holder: "tableOk rows \<Longrightarrow> r \<in> set rows \<Longrightarrow> drState r = StatePresent \<Longrightarrow> holder r"
  using tableOk_row linkOk_cases unfolding holder_def by blast

lemma loseLinks_rows:
  "loseLinks p is rows = Inr t \<Longrightarrow> r \<in> set rows \<Longrightarrow> drState r \<noteq> StateLinkRecorded \<Longrightarrow> r \<in> set t"
proof (induction "is" arbitrary: rows)
  case (Cons i "is")
  then obtain t1 where t1: "updateRows (\<lambda>r. drID r = i \<and> drLinkOf r = p \<and> drState r = StateLinkRecorded)
      (\<lambda>r. r\<lparr>drState := StateMissing, drLinkOf := 0\<rparr>) rows = Inr t1" "loseLinks p is t1 = Inr t" by (auto dest: sbind_InrD)
  have "r \<in> set t1" using t1(1) Cons.prems(2,3) by (force simp: updateRows_def dest!: constrained_InrD)
  with Cons t1(2) show ?case by blast
qed simp

lemma linkTx_ok:
  assumes "tableOk rows" "linkTx e dest d mode prim sz mt retained rows = Inr t"
    and "mode = StateLinked \<or> mode = StateLinkRecorded"
    and "\<And>p. p \<in> set rows \<Longrightarrow> drID p = prim \<Longrightarrow> drDestinationID p = txDest e \<and> drRelPath p \<noteq> dest"
  shows "tableOk t"
proof -
  from assms(2) obtain p where p: "p \<in> set rows" "drID p = prim" "drState p = StatePresent"
    unfolding linkTx_def by (auto simp: getTx_def split: option.splits if_splits dest: find_memD)
  let ?nr = "zeroRecord\<lparr>drDestinationID := txDest e, drSourceID := deSourceID d, drRelPath := dest,
      drSourceRelPath := deSource d, drSize := sz, drMtimeNs := mt, drHash := drHash p,
      drLinkOf := drID p, drState := mode, drJobID := txJob e, drCopiedAt := Some (txNow e)\<rparr>"
  have get: "getTx prim rows = Some p" using p rec_unique [OF assms(1)]
    by (metis (mono_tags, lifting) find_None_iff find_memD getTx_def not_None_eq)
  obtain t1 where
    first: "(case liveAtTx (txDest e) dest rows of
       Some cur \<Rightarrow> sbind (if drState cur = StateMissing then loseLinks (drID cur) (deLostLinks d) rows else Inr rows)
             (\<lambda>t. sbind (repoint (drID cur) (drID p) t) (updateRecord (?nr\<lparr>drID := drID cur\<rparr>)))
     | None \<Rightarrow> insertRecord ?nr rows) = Inr t1"
    and rest: "(if retained then insertRetained (retainedRow e (deSourceID d) dest (deSource d) (edRetained d)
         (edRetainedSize d) (edRetainedMtimeNs d) (edRetainedHash d) (edRetainedReason d)) t1 else Inr t1) = Inr t"
    using assms(2) p(3) unfolding linkTx_def Let_def get option.case by (auto split: if_splits dest!: sbind_InrD)
  have hp: "holder p" by (rule present_holder [OF assms(1) p(1,3)])
  have dp: "drDestinationID p = txDest e" "drRelPath p \<noteq> dest" using assms(4) [OF p(1,2)] by auto
  have nrLive: "isLive ?nr" "drState ?nr \<noteq> StatePresent" using assms(3) by (auto simp: isLive_def)
  have "tableOk t1"
  proof (cases "liveAtTx (txDest e) dest rows")
    case None
    with first have ins: "insertRecord ?nr rows = Inr t1" by simp
    show ?thesis by (rule insertRecord_ok [OF assms(1) ins]) (use p(1) hp dp nrLive in auto)
  next
    case (Some cur)
    then have cur: "cur \<in> set rows" "drDestinationID cur = txDest e" "drRelPath cur = dest"
      by (auto simp: liveAtTx_def dest: find_memD)
    from Some first obtain t2 t3 where
      t2: "(if drState cur = StateMissing then loseLinks (drID cur) (deLostLinks d) rows else Inr rows) = Inr t2"
      and t3: "repoint (drID cur) (drID p) t2 = Inr t3" "updateRecord (?nr\<lparr>drID := drID cur\<rparr>) t3 = Inr t1"
      by (auto dest!: sbind_InrD)
    have ok2: "tableOk t2" using t2 assms(1) by (auto split: if_splits intro: loseLinks_ok)
    have p2: "p \<in> set t2" using t2 p loseLinks_rows by (force split: if_splits)
    have ids: "drID cur \<noteq> drID p" using cur p dp rec_unique [OF assms(1)] by blast
    have cur2: "cur \<in> set t2" using t2 cur(1) loseLinks_rows [of "drID cur" "deLostLinks d" rows t2 cur] by (auto split: if_splits)
    have pos: "drID cur \<noteq> 0" using assms(1) cur(1) by (auto simp: tableOk_def list_all_iff)
    have dest2: "drDestinationID r = drDestinationID p" if "r \<in> set t2" "drLinkOf r = drID cur" for r
      using link_holder(2) [OF ok2 that(1) cur2 that(2)] cur(2) dp(1) by simp
    note rp = repoint_ok [OF ok2 t3(1) p2 refl hp dest2 pos]
    have free: "drID cur \<notin> drLinkOf ` set t3" using rp(2) ids by (metis imageE)
    have p3: "p \<in> set t3" using rp(3) p2 hp pos by (force simp: holder_def)
    have c3: "\<And>r. r \<in> set t3 \<Longrightarrow> drID r = drID cur \<Longrightarrow> drDestinationID r = txDest e"
    proof -
      fix r assume "r \<in> set t3" "drID r = drID cur"
      then obtain s where "s \<in> set t2" "drID s = drID cur" "drDestinationID r = drDestinationID s" using rp(3) by (auto split: if_splits)
      with rec_unique [OF ok2 _ cur2] cur(2) show "drDestinationID r = txDest e" by metis
    qed
    show ?thesis
      by (rule updateRecord_free [OF rp(1) t3(2)]) (use free nrLive p3 hp dp(1) ids c3 in \<open>auto simp: isLive_def\<close>)
  qed
  with rest show ?thesis by (auto split: if_splits intro: insertRetained_ok)
qed

lemma getTx_mem: "tableOk rows \<Longrightarrow> r \<in> set rows \<Longrightarrow> getTx (drID r) rows = Some r"
  unfolding getTx_def using rec_unique
  by (metis (mono_tags, lifting) find_None_iff find_memD not_None_eq)

lemma updateRecord_rows:
  "updateRecord rec rows = Inr t \<Longrightarrow>
     t = map (\<lambda>r. if drID r = drID rec then rec\<lparr>drDestinationID := drDestinationID r\<rparr> else r) rows"
  by (auto simp: updateRecord_def updateRows_def split: if_splits dest!: constrained_InrD)

text \<open>A promote: the target is a link of the primary.\<close>

lemma promoteTx_ok:
  assumes "tableOk rows" "promoteTx e t v moved forRetain rows = Inr u"
    "t \<in> set rows" "v \<in> set rows" "drLinkOf t = drID v"
  shows "tableOk u"
proof -
  let ?t = "t\<lparr>drState := StatePresent, drLinkOf := 0, drHash := drHash v, drJobID := txJob e,
      drCopiedAt := (if moved then Some (txNow e) else drCopiedAt t)\<rparr>"
  from assms(2) obtain t1 t2 where t1: "updateRecord ?t rows = Inr t1"
    and t2: "repoint (drID v) (drID t) t1 = Inr t2"
    and rest: "(if \<not> moved then Inr t2 else if forRetain then deleteRecord (drID v) t2
        else updateRecord (v\<lparr>drState := StateMissing\<rparr>) t2) = Inr u"
    unfolding promoteTx_def by (auto dest!: sbind_InrD)
  have pos: "drID v \<noteq> 0" using assms(1,4) by (auto simp: tableOk_def list_all_iff)
  have ok1: "tableOk t1" by (rule updateRecord_holder [OF assms(1) t1]) (simp add: holder_def)
  have hv: "holder v" and dv: "drDestinationID t = drDestinationID v" and ne: "drID t \<noteq> drID v"
    using link_holder [OF assms(1,3,4,5)] by simp_all
  note rows1 = updateRecord_rows [OF t1]
  have mem1: "?t \<in> set t1" "v \<in> set t1" using rows1 assms(3,4) ne by (force simp: image_iff)+
  have dest1: "drDestinationID r = drDestinationID ?t" if "r \<in> set t1" "drLinkOf r = drID v" for r
    using link_holder(2) [OF ok1 that(1) mem1(2) that(2)] dv by simp
  note rp = repoint_ok [OF ok1 t2 mem1(1) _ _ dest1 pos, simplified holder_def, simplified]
  have v2: "v \<in> set t2" using rp(3) mem1(2) hv pos by (force simp: holder_def)
  have "tableOk u" if "deleteRecord (drID v) t2 = Inr u" using deleteRecord_ok(1) [OF rp(1) that] .
  moreover have "tableOk u" if "updateRecord (v\<lparr>drState := StateMissing\<rparr>) t2 = Inr u"
    by (rule updateRecord_same [OF rp(1) that v2]) (use hv in \<open>auto simp: holder_def\<close>)
  ultimately show ?thesis using rest rp(1) by (auto split: if_splits)
qed

text \<open>A retain: every other name of the content has an heir, or goes too.\<close>

lemma retainTx_ok:
  assumes "tableOk rows" "retainTx e v d gone heir retained rows = Inr u" "v \<in> set rows"
    "heir = None \<Longrightarrow> drID ` {r \<in> set rows. drLinkOf r = drID v} \<subseteq> set gone"
    "\<And>i. heir = Some i \<Longrightarrow> i \<notin> set gone \<and> (\<exists>h \<in> set rows. drID h = i \<and> drLinkOf h = drID v)"
    "drID v \<notin> set gone"
  shows "tableOk u"
proof -
  from assms(2) obtain t1 t2 where t1: "deleteAll gone rows = Inr t1"
    and t2: "(case heir of None \<Rightarrow> Inr t1
        | Some i \<Rightarrow> (case getTx i t1 of None \<Rightarrow> Inr t1
             | Some h \<Rightarrow> sbind (updateRecord (h\<lparr>drState := StatePresent, drLinkOf := 0\<rparr>) t1) (repoint (drID v) (drID h)))) = Inr t2"
    and rest: "deleteRecord (drID v) t2 = Inr u \<or> (\<exists>rec. drID rec = drID v \<and> drLinkOf rec = 0 \<and> updateRecord rec t2 = Inr u)"
    unfolding retainTx_def Let_def by (auto dest!: sbind_InrD split: if_splits) fastforce+
  have ok1: "tableOk t1" "t1 = filter (\<lambda>r. drID r \<notin> set gone) rows" using deleteAll_ok [OF assms(1) t1] by blast+
  have pos: "drID v \<noteq> 0" using assms(1,3) by (auto simp: tableOk_def list_all_iff)
  have v1: "v \<in> set t1" using ok1(2) assms(3,6) by simp
  have "tableOk t2 \<and> drID v \<notin> drLinkOf ` set t2"
  proof (cases heir)
    case None
    with t2 have "t2 = t1" by simp
    with assms(4) [OF None] ok1 show ?thesis by (auto simp: image_subset_iff)
  next
    case (Some i)
    with assms(5) ok1(2) obtain h where h: "h \<in> set t1" "drID h = i" "drLinkOf h = drID v" by auto
    let ?h = "h\<lparr>drState := StatePresent, drLinkOf := 0\<rparr>"
    from t2 Some h getTx_mem [OF ok1(1) h(1)] obtain t3 where t3: "updateRecord ?h t1 = Inr t3"
      and rp: "repoint (drID v) (drID ?h) t3 = Inr t2" by (auto dest!: sbind_InrD)
    have ok3: "tableOk t3" by (rule updateRecord_holder [OF ok1(1) t3]) (simp add: holder_def)
    have hv: "holder v" and dv: "drDestinationID h = drDestinationID v" and ne: "drID h \<noteq> drID v"
      using link_holder [OF ok1(1) h(1) v1 h(3)] by simp_all
    have mem: "?h \<in> set t3" "v \<in> set t3" using updateRecord_rows [OF t3] h(1) v1 ne by (force simp: image_iff)+
    have dest: "drDestinationID r = drDestinationID ?h" if "r \<in> set t3" "drLinkOf r = drID v" for r
      using link_holder(2) [OF ok3 that(1) mem(2) that(2)] dv by simp
    have "holder ?h" by (simp add: holder_def)
    note inst = repoint_ok [where h = ?h, OF ok3 rp mem(1) refl this _ pos]
    have ok2: "tableOk t2" by (rule inst(1)) (use dest in auto)
    have to2: "drID v = drID ?h" if "x \<in> set t2" "drLinkOf x = drID v" for x
      by (rule inst(2) [OF _ that]) (use dest in auto)
    have "drID v \<notin> drLinkOf ` set t2"
    proof
      assume "drID v \<in> drLinkOf ` set t2"
      then obtain x where "x \<in> set t2" "drLinkOf x = drID v" by (metis imageE)
      from to2 [OF this] ne show False by simp
    qed
    with ok2 show ?thesis by blast
  qed
  with rest show ?thesis using deleteRecord_ok(1) updateRecord_free by metis
qed

lemma clearIntentTx_ok:
  assumes "tableOk rows" "clearIntentTx i ret rows = Inr t"
  shows "tableOk t"
proof (rule updateRows_same [OF assms(1) assms(2) [unfolded clearIntentTx_def]])
  fix r assume "r \<in> set rows"
  with assms(1) show "drLinkOf (r\<lparr>drRetainedPath := [], drReason := []\<rparr>) = 0 \<or> drLinkOf (r\<lparr>drRetainedPath := [], drReason := []\<rparr>) = drLinkOf r
      \<and> isLive (r\<lparr>drRetainedPath := [], drReason := []\<rparr>) \<and> drState (r\<lparr>drRetainedPath := [], drReason := []\<rparr>) \<noteq> StatePresent"
    using linkOk_cases [OF tableOk_row] by auto
qed (auto simp: holder_def)

lemma markMissing_ok: "tableOk rows \<Longrightarrow> updateRows (\<lambda>r. P r \<and> drState r \<in> {StatePresent, StateLinked})
    (\<lambda>r. r\<lparr>drState := StateMissing\<rparr>) rows = Inr t \<Longrightarrow> tableOk t"
  by (erule updateRows_same, assumption) (auto simp: holder_def)

lemma settledRow_link [simp]: "drLinkOf (settledRow e rec v sz mt) = 0"
  by (simp add: settledRow_def Let_def)

lemma settleTx_ok:
  assumes "tableOk rows" "settleTx e rec v unknown isRec sz mt rows = Inr u"
  shows "tableOk u"
proof -
  let ?P = "\<lambda>r. drID r = drID rec \<and> drRetainedPath r = drRetainedPath rec"
  from assms(2) obtain t1 t2 where
    t1: "(if unknown then updateRows (\<lambda>r. ?P r \<and> drState r \<in> {StatePresent, StateLinked})
            (\<lambda>r. r\<lparr>drState := StateMissing\<rparr>) rows else Inr rows) = Inr t1"
    and t2: "(if isRec then insertRetained (settledRow e rec v sz mt) t1 else Inr t1) = Inr t2"
    and u: "clearIntentTx (drID rec) (drRetainedPath rec) t2 = Inr u"
    unfolding settleTx_def conj_assoc by (blast dest: sbind_InrD)
  have "tableOk t1"
    using t1 assms(1) markMissing_ok [of rows ?P t1] by (cases unknown) simp_all
  with t2 have "tableOk t2" by (cases isRec) (auto intro: insertRetained_ok)
  from clearIntentTx_ok [OF this u] show ?thesis .
qed

section \<open>Steps\<close>

text \<open>A step of the table is a transaction that succeeds, with what its caller has checked: the
  primary of a link is another record of the destination, the target of a promote links to its
  primary, and a retain leaves no name without its content.  Deleting a row alone is an expiry or the
  retain of a recorded link.\<close>

inductive recStep :: "recTable \<Rightarrow> recTable \<Rightarrow> bool" for rows where
  adopted: "adoptedTx e dest d sz mt h rows = Inr t \<Longrightarrow> recStep rows t"
| displaced: "displacedTx e rel d rows = Inr t \<Longrightarrow> recStep rows t"
| placed: "placedTx e dest d retained rows = Inr t \<Longrightarrow> recStep rows t"
| moved: "moveTx e i to source rows = Inr t \<Longrightarrow> recStep rows t"
| linked: "linkTx e dest d mode (drID p) sz mt retained rows = Inr t \<Longrightarrow> mode \<in> {StateLinked, StateLinkRecorded} \<Longrightarrow>
    p \<in> set rows \<Longrightarrow> drDestinationID p = txDest e \<Longrightarrow> drRelPath p \<noteq> dest \<Longrightarrow> recStep rows t"
| promoted: "promoteTx e t v wasMoved forRetain rows = Inr u \<Longrightarrow> t \<in> set rows \<Longrightarrow> v \<in> set rows \<Longrightarrow>
    drLinkOf t = drID v \<Longrightarrow> recStep rows u"
| retained: "retainTx e v d gone heir kept rows = Inr t \<Longrightarrow> v \<in> set rows \<Longrightarrow> drID v \<notin> set gone \<Longrightarrow>
    (heir = None \<Longrightarrow> drID ` {r \<in> set rows. drLinkOf r = drID v} \<subseteq> set gone) \<Longrightarrow>
    (\<And>i. heir = Some i \<Longrightarrow> i \<notin> set gone \<and> (\<exists>h \<in> set rows. drID h = i \<and> drLinkOf h = drID v)) \<Longrightarrow> recStep rows t"
| deleted: "deleteRecord i rows = Inr t \<Longrightarrow> recStep rows t"
| intent: "setIntentTx dest rel ret reason rows = Inr t \<Longrightarrow> recStep rows t"
| settled: "settleTx e rec v unknown isRec sz mt rows = Inr t \<Longrightarrow> recStep rows t"
| missing: "markMissing i rows = Inr t \<Longrightarrow> recStep rows t"
| verified: "setVerified i h now rows = Inr t \<Longrightarrow> recStep rows t"

lemma setIntentTx_ok:
  assumes "tableOk rows" "setIntentTx dest rel ret reason rows = Inr t"
  shows "tableOk t"
proof -
  let ?P = "\<lambda>r. drDestinationID r = dest \<and> drRelPath r = rel \<and> drState r \<in> {StatePresent, StateLinked, StateMissing}"
  have upd: "updateRows ?P (\<lambda>r. r\<lparr>drRetainedPath := ret, drReason := reason\<rparr>) rows = Inr t"
    using assms(2) unfolding setIntentTx_def Let_def by (auto dest!: sbind_InrD split: if_splits)
  show ?thesis
  proof (rule updateRows_same [OF assms(1) upd])
    fix r assume "r \<in> set rows"
    with assms(1) show "drLinkOf (r\<lparr>drRetainedPath := ret, drReason := reason\<rparr>) = 0
        \<or> drLinkOf (r\<lparr>drRetainedPath := ret, drReason := reason\<rparr>) = drLinkOf r
          \<and> isLive (r\<lparr>drRetainedPath := ret, drReason := reason\<rparr>)
          \<and> drState (r\<lparr>drRetainedPath := ret, drReason := reason\<rparr>) \<noteq> StatePresent"
      using linkOk_cases [OF tableOk_row] by auto
  qed (auto simp: holder_def)
qed

lemma setVerified_ok:
  assumes "tableOk rows" "setVerified i h now rows = Inr t"
  shows "tableOk t"
proof (rule updateRows_same [OF assms(1) assms(2) [unfolded setVerified_def]])
  fix r assume r: "r \<in> set rows"
  show "drLinkOf (r\<lparr>drVerifiedAt := Some now, drHash := (if drHash r = [] then h else drHash r)\<rparr>) = 0
      \<or> drLinkOf (r\<lparr>drVerifiedAt := Some now, drHash := (if drHash r = [] then h else drHash r)\<rparr>) = drLinkOf r
        \<and> isLive (r\<lparr>drVerifiedAt := Some now, drHash := (if drHash r = [] then h else drHash r)\<rparr>)
        \<and> drState (r\<lparr>drVerifiedAt := Some now, drHash := (if drHash r = [] then h else drHash r)\<rparr>) \<noteq> StatePresent"
    using linkOk_cases [OF tableOk_row [OF assms(1) r]] by (auto simp: isLive_def)
qed (auto simp: holder_def)

lemma recStep_ok:
  assumes "recStep rows t" "tableOk rows"
  shows "tableOk t"
  using assms(1)
proof cases
  case (linked e dest d mode p sz mt retained)
  then show ?thesis using rec_unique [OF assms(2)] by (intro linkTx_ok [OF assms(2) linked(1)]) auto
next
  case (missing i)
  then show ?thesis using markMissing_ok [OF assms(2), of "\<lambda>r. drID r = i"] by (simp add: markMissing_def)
next
  case (retained e v d gone heir kept)
  then show ?thesis by (intro retainTx_ok [OF assms(2) retained(1,2)]) auto
qed (use assms(2) in \<open>auto intro: adoptedTx_ok displacedTx_ok placedTx_ok moveTx_ok promoteTx_ok deleteRecord_ok(1)
  setIntentTx_ok settleTx_ok setVerified_ok\<close>)

text \<open>C10: the table of destination records is well formed after any sequence of transactions: ids
  are unique, the schema's constraints hold, no two live records share a path of a destination, and
  every hardlinked name points to a live record of the same destination that is no link itself, so
  the content of a linked name always has a record of its own.\<close>

theorem recSteps_keep_tableOk:
  assumes "recStep\<^sup>*\<^sup>* [] rows"
  shows "distinct (map drID rows) \<and> list_all checkRow rows
    \<and> distinct (map (\<lambda>r. (drDestinationID r, drRelPath r)) (filter (\<lambda>r. Live (drState r)) rows))
    \<and> (\<forall>r \<in> set rows. drLinkOf r \<noteq> 0 \<longrightarrow> drState r \<in> {StateLinked, StateLinkRecorded, StateMissing}
        \<and> (\<exists>p \<in> set rows. drID p = drLinkOf r \<and> drDestinationID p = drDestinationID r
             \<and> drState p \<in> {StatePresent, StateMissing} \<and> drLinkOf p = 0))"
proof -
  have "tableOk rows"
    using assms
  proof (induction rule: rtranclp_induct)
    case base
    show ?case by (simp add: tableOk_def uniqueLive_def linksOk_def)
  qed (rule recStep_ok)
  moreover have "drState r \<in> {StateLinked, StateLinkRecorded, StateMissing}" if "isLive r" "drState r \<noteq> StatePresent" for r
    using that by (cases "drState r") (auto simp: isLive_def)
  ultimately show ?thesis
    unfolding tableOk_def linksOk_def list_all_iff linkOk_def holder_def uniqueLive_def livePath_def isLive_def
    by fastforce
qed

text \<open>A copy, a hardlink to it and the promote of the link when its primary vanished.\<close>

definition exEnv :: txEnv where
  "exEnv = \<lparr>txDest = 1, txJob = 7, txNow = 100, txDeletedDays = 30\<rparr>"

definition exDetail :: "string \<Rightarrow> execDetail" where
  "exDetail source = detail.extend (zeroDetail\<lparr>deSourceID := 1, deSource := source\<rparr>)
     (execDetail.fields ''m/.bunkarr-tmp-x'' True 10 5 [] [] 0 0 [] [] [] 0 0 [] 0)"

definition exTable :: "nat \<Rightarrow> recTable" where
  "exTable n =
     (let t1 = (case placedTx exEnv ''m/a'' (exDetail ''a'') False [] of Inr t \<Rightarrow> t | Inl _ \<Rightarrow> []);
          t2 = (case linkTx exEnv ''m/b'' (exDetail ''b'') StateLinked 1 10 5 False t1 of Inr t \<Rightarrow> t | Inl _ \<Rightarrow> []);
          t3 = (case promoteTx exEnv (t2 ! 1) (t2 ! 0) False True t2 of Inr t \<Rightarrow> t | Inl _ \<Rightarrow> [])
      in if n = 0 then [] else if n = 1 then t1 else if n = 2 then t2 else t3)"

lemma exTable_steps: "recStep\<^sup>*\<^sup>* [] (exTable 3)"
proof -
  have 1: "recStep [] (exTable 1)"
  proof (rule recStep.placed)
    show "placedTx exEnv ''m/a'' (exDetail ''a'') False [] = Inr (exTable 1)" by code_simp
  qed
  have 2: "recStep (exTable 1) (exTable 2)"
  proof (rule recStep.linked [where p = "hd (exTable 1)"])
    show "linkTx exEnv ''m/b'' (exDetail ''b'') StateLinked (drID (hd (exTable 1))) 10 5 False (exTable 1) = Inr (exTable 2)"
      by code_simp
    show "hd (exTable 1) \<in> set (exTable 1)" "drDestinationID (hd (exTable 1)) = txDest exEnv"
      "drRelPath (hd (exTable 1)) \<noteq> ''m/b''" by code_simp+
  qed simp
  have 3: "recStep (exTable 2) (exTable 3)"
  proof (rule recStep.promoted [where t = "exTable 2 ! 1" and v = "exTable 2 ! 0"])
    show "promoteTx exEnv (exTable 2 ! 1) (exTable 2 ! 0) False True (exTable 2) = Inr (exTable 3)" by code_simp
    show "exTable 2 ! 1 \<in> set (exTable 2)" "exTable 2 ! 0 \<in> set (exTable 2)"
      "drLinkOf (exTable 2 ! 1) = drID (exTable 2 ! 0)" by code_simp+
  qed
  from 1 2 3 show ?thesis by (meson converse_rtranclp_into_rtranclp rtranclp.rtrancl_refl)
qed

theorem recSteps_keep_tableOk_witness:
  "map (\<lambda>r. (drID r, drRelPath r, drState r, drLinkOf r)) (exTable 3)
     = [(1, ''m/a'', StatePresent, 0), (2, ''m/b'', StatePresent, 0)] \<and> distinct (map drID (exTable 3))"
proof
  show "map (\<lambda>r. (drID r, drRelPath r, drState r, drLinkOf r)) (exTable 3)
     = [(1, ''m/a'', StatePresent, 0), (2, ''m/b'', StatePresent, 0)]" by code_simp
qed (use recSteps_keep_tableOk [OF exTable_steps] in blast)

end
