(* ===== verification/DestFS.thy ===== *)
theory DestFS
  imports RecordTable
begin

text \<open>
  The filesystem of a destination and the operations of internal/engines/filecopy on it.  A
  filesystem maps names to files (inodes), so that a hardlink is a second name of a file; a file has
  its data, a modification time and says whether it is a regular file.  Directories are left out:
  creating and pruning them changes no file.  Names are compared exactly, as on a case-sensitive
  destination.

  Everything outside is an environment (\<open>execEnv\<close>) that answers by the number of the step: the
  source's files, the clock, the catalog, the random part of a temp name, and a fault at any step,
  an error of any class or a crash (\<open>ErrCrash\<close>), which no handler of the code sees.  An operation
  that fails after its effect (the fsync of a directory) is a fault behind the effect.
\<close>

section \<open>Files\<close>

record fnode =
  fnRegular :: bool
  fnMtimeNs :: int
  fnData :: string

record destFS =
  dfNames :: "string \<Rightarrow> nat option"
  dfNodes :: "nat \<Rightarrow> fnode"
  dfNext :: nat

record fullStat = fileStat +
  fsIno :: nat
  fsNlink :: int

datatype execErr = ErrItem | ErrHeld | ErrExists | ErrOther | ErrFatal | ErrCrash

definition statOf :: "int \<Rightarrow> nat \<Rightarrow> fnode \<Rightarrow> fullStat" where
  "statOf nlink i n = \<lparr>stSize = int (length (fnData n)), stMtimeNs = fnMtimeNs n, stRegular = fnRegular n, fsIno = i, fsNlink = nlink\<rparr>"

definition sameFile :: "fullStat \<Rightarrow> fullStat \<Rightarrow> bool" where
  "sameFile a b \<longleftrightarrow> fsIno a = fsIno b"

text \<open>\<open>rename\<close>: two names of one file stay as they are.\<close>

definition renameFS :: "string \<Rightarrow> string \<Rightarrow> destFS \<Rightarrow> destFS" where
  "renameFS p q fs =
     (if dfNames fs p = dfNames fs q then fs
      else fs\<lparr>dfNames := (dfNames fs)(q := dfNames fs p, p := None)\<rparr>)"

definition linkFS :: "string \<Rightarrow> string \<Rightarrow> destFS \<Rightarrow> destFS" where
  "linkFS p q fs = fs\<lparr>dfNames := (dfNames fs)(q := dfNames fs p)\<rparr>"

definition removeFS :: "string \<Rightarrow> destFS \<Rightarrow> destFS" where
  "removeFS p fs = fs\<lparr>dfNames := (dfNames fs)(p := None)\<rparr>"

definition createFS :: "string \<Rightarrow> destFS \<Rightarrow> destFS" where
  "createFS p fs =
     fs\<lparr>dfNames := (dfNames fs)(p := Some (dfNext fs)), dfNext := Suc (dfNext fs),
        dfNodes := (dfNodes fs)(dfNext fs := \<lparr>fnRegular = True, fnMtimeNs = 0, fnData = []\<rparr>)\<rparr>"

definition changeFS :: "string \<Rightarrow> (fnode \<Rightarrow> fnode) \<Rightarrow> destFS \<Rightarrow> destFS" where
  "changeFS p f fs =
     (case dfNames fs p of
        None \<Rightarrow> fs
      | Some i \<Rightarrow> fs\<lparr>dfNodes := (dfNodes fs)(i := f (dfNodes fs i))\<rparr>)"

section \<open>Environment, state and programs\<close>

text \<open>What a destination's transfer window says of the next item (\<open>runWindowed\<close>): it runs, the job
  is deferred, or a copy too large for the window fails.\<close>

datatype windowVerdict = WindowRun | WindowDefer | WindowOversize

datatype verifyMode = VerifyOff | VerifySample | VerifyFull

record execEnv =
  xvDest :: ident
  xvJob :: ident
  xvRetentionDir :: string
  xvDeletedDays :: int
  xvHardlinks :: bool
  xvGranularityNs :: int
  xvSettings :: syncSettings
  xvVerify :: verifyMode
  xvAllowChanges :: bool
  xvLinkMode :: bool
  xvIdentity :: bool
  xvHasRoot :: bool
  xvHash :: "string \<Rightarrow> string"
  xvNow :: "nat \<Rightarrow> gotime"
  xvFault :: "nat \<Rightarrow> execErr option"
  xvCancelled :: "nat \<Rightarrow> bool"
  xvRandom :: "nat \<Rightarrow> string"
  xvNlink :: "nat \<Rightarrow> int"
  xvSrcStat :: "nat \<Rightarrow> string \<Rightarrow> execErr + fullStat option"
  xvSrcData :: "nat \<Rightarrow> string \<Rightarrow> execErr + string"
  xvInCatalog :: "nat \<Rightarrow> string \<Rightarrow> execErr + bool"
  xvNotBackedUp :: "nat \<Rightarrow> string \<Rightarrow> execErr + string"
  xvRecheckEvery :: nat
  xvWindow :: "nat \<Rightarrow> windowVerdict"
  xvCut :: "nat \<Rightarrow> bool"
  xvCheckRelease :: "nat \<Rightarrow> destRecord \<Rightarrow> execErr + string"

record execState =
  xsTick :: nat
  xsFS :: destFS
  xsRows :: recTable
  xsD :: execDetail
  xsSaved :: execDetail
  xsStatus :: itemStatus

type_synonym 'a exec = "execState \<Rightarrow> (execErr + 'a) \<times> execState"

definition ret :: "'a \<Rightarrow> 'a exec" where
  "ret x s = (Inr x, s)"

definition throw :: "execErr \<Rightarrow> 'a exec" where
  "throw e s = (Inl e, s)"

definition bindX :: "'a exec \<Rightarrow> ('a \<Rightarrow> 'b exec) \<Rightarrow> 'b exec" where
  "bindX m f s = (case m s of (Inl e, s1) \<Rightarrow> (Inl e, s1) | (Inr x, s1) \<Rightarrow> f x s1)"

definition require :: "bool \<Rightarrow> execErr \<Rightarrow> unit exec" where
  "require b e = (if b then ret () else throw e)"

definition gets :: "(execState \<Rightarrow> 'a) \<Rightarrow> 'a exec" where
  "gets f s = (Inr (f s), s)"

definition modifies :: "(execState \<Rightarrow> execState) \<Rightarrow> unit exec" where
  "modifies f s = (Inr (), f s)"

definition modD :: "(execDetail \<Rightarrow> execDetail) \<Rightarrow> unit exec" where
  "modD f = modifies (\<lambda>s. s\<lparr>xsD := f (xsD s)\<rparr>)"

definition modFS :: "(destFS \<Rightarrow> destFS) \<Rightarrow> unit exec" where
  "modFS f = modifies (\<lambda>s. s\<lparr>xsFS := f (xsFS s)\<rparr>)"

text \<open>A step of the environment: its answer, and the next step's number.\<close>

definition ask :: "(nat \<Rightarrow> execErr + 'a) \<Rightarrow> 'a exec" where
  "ask q s = (q (xsTick s), s\<lparr>xsTick := Suc (xsTick s)\<rparr>)"

definition faultPoint :: "execEnv \<Rightarrow> unit exec" where
  "faultPoint v = ask (\<lambda>t. case xvFault v t of Some e \<Rightarrow> Inl e | None \<Rightarrow> Inr ())"

section \<open>Operations of the copy engine\<close>

definition hasPrefix :: "string \<Rightarrow> string \<Rightarrow> bool" where
  "hasPrefix s p \<longleftrightarrow> take (length p) s = p"

definition RetentionRoot :: string where "RetentionRoot = ''.bunkarr/retention''"
definition MarkerRel :: string where "MarkerRel = ''.bunkarr/destination.json''"

text \<open>\<open>path.Base\<close>.\<close>

definition pathBase :: "string \<Rightarrow> string" where
  "pathBase p =
     (let q = rev (dropWhile (\<lambda>c. c = CHR ''/'') (rev p))
      in if p = [] then ''.'' else if q = [] then ''/'' else last (splitSlash q))"

definition IsTempName :: "string \<Rightarrow> bool" where
  "IsTempName base = hasPrefix base TempPrefix"

definition checkRel :: "string \<Rightarrow> bool" where
  "checkRel rel \<longleftrightarrow> rel \<noteq> [] \<and> rel \<noteq> ''.'' \<and> hd rel \<noteq> CHR ''/'' \<and> pathClean rel = rel
     \<and> CHR 0x00 \<notin> set rel \<and> rel \<noteq> ''..'' \<and> \<not> hasPrefix rel ''../''"

definition checkWritable :: "string \<Rightarrow> bool" where
  "checkWritable rel \<longleftrightarrow> checkRel rel \<and> rel \<noteq> MetaDir \<and> rel \<noteq> MarkerRel"

definition nodeAt :: "string \<Rightarrow> destFS \<Rightarrow> fnode option" where
  "nodeAt p fs = map_option (dfNodes fs) (dfNames fs p)"

definition requireRegular :: "string \<Rightarrow> unit exec" where
  "requireRegular p =
     bindX (gets (\<lambda>s. nodeAt p (xsFS s)))
       (\<lambda>n. require (case n of Some n1 \<Rightarrow> fnRegular n1 | None \<Rightarrow> False) ErrOther)"

definition lstatDest :: "execEnv \<Rightarrow> string \<Rightarrow> fullStat option exec" where
  "lstatDest v p =
     (if p = [] then ret None
      else bindX (require (checkRel p) ErrOther)
        (\<lambda>_. bindX (faultPoint v)
        (\<lambda>_. gets (\<lambda>s. map_option (\<lambda>i. statOf (xvNlink v (xsTick s)) i (dfNodes (xsFS s) i)) (dfNames (xsFS s) p)))))"

definition renameName :: "string \<Rightarrow> string \<Rightarrow> bool \<Rightarrow> unit exec" where
  "renameName p q noReplace =
     bindX (gets (\<lambda>s. dfNames (xsFS s) q))
       (\<lambda>n. bindX (require (\<not> noReplace \<or> n = None) ErrExists) (\<lambda>_. modFS (renameFS p q)))"

definition MoveFile :: "execEnv \<Rightarrow> string \<Rightarrow> string \<Rightarrow> bool \<Rightarrow> unit exec" where
  "MoveFile v fromRel toRel noReplace =
     bindX (require (checkWritable fromRel \<and> checkWritable toRel) ErrOther)
       (\<lambda>_. bindX (faultPoint v)
       (\<lambda>_. bindX (requireRegular fromRel)
       (\<lambda>_. bindX (renameName fromRel toRel noReplace)
       (\<lambda>_. faultPoint v))))"

definition LinkFile :: "execEnv \<Rightarrow> string \<Rightarrow> string \<Rightarrow> unit exec" where
  "LinkFile v existingRel newRel =
     bindX (require (checkRel existingRel \<and> checkWritable newRel) ErrOther)
       (\<lambda>_. bindX (faultPoint v)
       (\<lambda>_. bindX (requireRegular existingRel)
       (\<lambda>_. bindX (gets (\<lambda>s. dfNames (xsFS s) newRel))
       (\<lambda>n. bindX (require (n = None) ErrExists)
       (\<lambda>_. bindX (modFS (linkFS existingRel newRel))
       (\<lambda>_. faultPoint v))))))"

definition CommitTemp :: "execEnv \<Rightarrow> string \<Rightarrow> string \<Rightarrow> bool \<Rightarrow> unit exec" where
  "CommitTemp v tempRel finalRel noReplace =
     bindX (require (checkRel tempRel \<and> IsTempName (pathBase tempRel) \<and> checkWritable finalRel) ErrOther)
       (\<lambda>_. bindX (faultPoint v)
       (\<lambda>_. bindX (requireRegular tempRel)
       (\<lambda>_. bindX (renameName tempRel finalRel noReplace)
       (\<lambda>_. faultPoint v))))"

definition CleanupTemp :: "execEnv \<Rightarrow> string \<Rightarrow> unit exec" where
  "CleanupTemp v tempRel =
     bindX (require (checkRel tempRel \<and> IsTempName (pathBase tempRel)) ErrOther)
       (\<lambda>_. bindX (faultPoint v)
       (\<lambda>_. bindX (gets (\<lambda>s. nodeAt tempRel (xsFS s)))
       (\<lambda>n. case n of
              None \<Rightarrow> ret ()
            | Some n1 \<Rightarrow> bindX (require (fnRegular n1) ErrOther) (\<lambda>_. modFS (removeFS tempRel)))))"

definition SetMtime :: "execEnv \<Rightarrow> string \<Rightarrow> int \<Rightarrow> unit exec" where
  "SetMtime v rel mtimeNs =
     bindX (require (checkWritable rel) ErrOther)
       (\<lambda>_. bindX (faultPoint v)
       (\<lambda>_. bindX (requireRegular rel)
       (\<lambda>_. modFS (changeFS rel (\<lambda>n. n\<lparr>fnMtimeNs := mtimeNs\<rparr>)))))"

definition HashFile :: "execEnv \<Rightarrow> string \<Rightarrow> string exec" where
  "HashFile v rel =
     bindX (require (checkRel rel) ErrOther)
       (\<lambda>_. bindX (faultPoint v)
       (\<lambda>_. bindX (requireRegular rel)
       (\<lambda>_. gets (\<lambda>s. case nodeAt rel (xsFS s) of Some n \<Rightarrow> xvHash v (fnData n) | None \<Rightarrow> []))))"

text \<open>Temp names: the base name, cut to leave room, with a random end.\<close>

definition maxTempBase :: nat where
  "maxTempBase = 229"

definition RuneStart :: "char \<Rightarrow> bool" where
  "RuneStart c \<longleftrightarrow> \<not> (128 \<le> (of_char c :: nat) \<and> (of_char c :: nat) < 192)"

primrec cutAt :: "string \<Rightarrow> nat \<Rightarrow> nat" where
  "cutAt s 0 = 0"
| "cutAt s (Suc n) = (if RuneStart (s ! Suc n) then Suc n else cutAt s n)"

definition truncateUTF8 :: "string \<Rightarrow> nat \<Rightarrow> string" where
  "truncateUTF8 s n = (if length s \<le> n then s else take (cutAt s n) s)"

definition tempName :: "string \<Rightarrow> string \<Rightarrow> string" where
  "tempName rnd base = TempPrefix @ truncateUTF8 base maxTempBase @ ''-'' @ rnd"

definition sourceStat :: "execEnv \<Rightarrow> string \<Rightarrow> fullStat option exec" where
  "sourceStat v rel = ask (\<lambda>t. xvSrcStat v t rel)"

text \<open>On an error the new temp file is removed; a crash leaves it.\<close>

definition removeOnError :: "string \<Rightarrow> 'a exec \<Rightarrow> 'a exec" where
  "removeOnError temp m s =
     (case m s of
        (Inl e, s1) \<Rightarrow> (Inl e, if e = ErrCrash then s1 else s1\<lparr>xsFS := removeFS temp (xsFS s1)\<rparr>)
      | r \<Rightarrow> r)"

definition fillTemp :: "execEnv \<Rightarrow> string \<Rightarrow> string \<Rightarrow> fullStat \<Rightarrow> (int \<times> int \<times> string) exec" where
  "fillTemp v srcRel temp before =
     bindX (faultPoint v)
     (\<lambda>_. bindX (ask (\<lambda>t. xvSrcData v t srcRel))
     (\<lambda>dat. bindX (modFS (changeFS temp (\<lambda>n. n\<lparr>fnData := dat\<rparr>)))
     (\<lambda>_. bindX (faultPoint v)
     (\<lambda>_. bindX (sourceStat v srcRel)
     (\<lambda>after. bindX (require (int (length dat) = stSize before \<and>
                  (case after of Some a \<Rightarrow> stSize a = stSize before \<and> stMtimeNs a = stMtimeNs before
                   | None \<Rightarrow> False)) ErrOther)
     (\<lambda>_. bindX (modFS (changeFS temp (\<lambda>n. n\<lparr>fnMtimeNs := stMtimeNs before\<rparr>)))
     (\<lambda>_. bindX (faultPoint v)
     (\<lambda>_. ret (int (length dat), stMtimeNs before, if xvVerify v = VerifyOff then [] else xvHash v dat)))))))))"

definition createTemp :: "string \<Rightarrow> unit exec" where
  "createTemp temp =
     bindX (gets (\<lambda>s. dfNames (xsFS s) temp))
       (\<lambda>n. bindX (require (n = None) ErrOther) (\<lambda>_. modFS (createFS temp)))"

definition WriteTemp :: "execEnv \<Rightarrow> string \<Rightarrow> string \<Rightarrow> (string \<Rightarrow> unit exec) \<Rightarrow> (int \<times> int \<times> string) exec" where
  "WriteTemp v srcRel dstRel onTemp =
     bindX (require (checkRel srcRel \<and> checkWritable dstRel) ErrOther)
       (\<lambda>_. bindX (faultPoint v)
       (\<lambda>_. bindX (sourceStat v srcRel)
       (\<lambda>b. case b of
              None \<Rightarrow> throw ErrOther
            | Some before \<Rightarrow>
                bindX (require (stRegular before) ErrOther)
                (\<lambda>_. bindX (gets (\<lambda>s. pathJoin (pathDir dstRel) (tempName (xvRandom v (xsTick s)) (pathBase dstRel))))
                (\<lambda>temp. bindX (onTemp temp)
                (\<lambda>_. bindX (createTemp temp)
                (\<lambda>_. removeOnError temp (fillTemp v srcRel temp before))))))))"

section \<open>Names in retention\<close>

definition maxRetentionSuffix :: int where
  "maxRetentionSuffix = 9999"

text \<open>\<open>path.Ext\<close> of a base name.\<close>

definition pathExt :: "string \<Rightarrow> string" where
  "pathExt base =
     (if CHR ''.'' \<in> set base then CHR ''.'' # rev (takeWhile (\<lambda>c. c \<noteq> CHR ''.'') (rev base)) else [])"

definition basePart :: "string \<Rightarrow> string" where
  "basePart p = rev (takeWhile (\<lambda>c. c \<noteq> CHR ''/'') (rev p))"

definition suffixed :: "string \<Rightarrow> int \<Rightarrow> string" where
  "suffixed p n =
     (if n = 0 then p
      else (let base = basePart p;
                ext0 = pathExt base;
                ext = (if ext0 = base then [] else ext0)
            in dirPart p @ take (length base - length ext) base @ ''.'' @ formatInt n @ ext))"

function targetFrom :: "(string \<Rightarrow> nat option) \<Rightarrow> string \<Rightarrow> int \<Rightarrow> string option" where
  "targetFrom names base i =
     (if i > maxRetentionSuffix then None
      else if names (suffixed base i) = None then Some (suffixed base i)
      else targetFrom names base (i + 1))"
  by pat_completeness auto
termination
  by (relation "measure (\<lambda>(_, _, i). nat (maxRetentionSuffix + 1 - i))") auto

declare targetFrom.simps [simp del]

definition checkRetentionDir :: "string \<Rightarrow> bool" where
  "checkRetentionDir dir \<longleftrightarrow> checkRel dir \<and> hasPrefix dir (RetentionRoot @ ''/'')
     \<and> (let rest = drop (length RetentionRoot + 1) dir in rest \<noteq> [] \<and> CHR ''/'' \<notin> set rest)"

definition retentionTarget :: "execEnv \<Rightarrow> string \<Rightarrow> string exec" where
  "retentionTarget v rel =
     bindX (require (checkRetentionDir (xvRetentionDir v) \<and> checkRel rel) ErrOther)
       (\<lambda>_. bindX (faultPoint v)
       (\<lambda>_. bindX (gets (\<lambda>s. targetFrom (dfNames (xsFS s)) (pathJoin (xvRetentionDir v) rel) 0))
       (\<lambda>t. case t of Some p \<Rightarrow> ret p | None \<Rightarrow> throw ErrOther)))"

section \<open>Writes of an item\<close>

definition txOf :: "execEnv \<Rightarrow> gotime \<Rightarrow> txEnv" where
  "txOf v now = \<lparr>txDest = xvDest v, txJob = xvJob v, txNow = now, txDeletedDays = xvDeletedDays v\<rparr>"

text \<open>One transaction: applied as a whole, or not at all.\<close>

definition writeTx :: "execEnv \<Rightarrow> (txEnv \<Rightarrow> recTable \<Rightarrow> dbError + recTable) \<Rightarrow> unit exec" where
  "writeTx v tx =
     bindX (faultPoint v)
       (\<lambda>_. bindX (gets (\<lambda>s. tx (txOf v (xvNow v (xsTick s))) (xsRows s)))
       (\<lambda>r. case r of
              Inl (DbItem _) \<Rightarrow> throw ErrItem
            | Inl _ \<Rightarrow> throw ErrOther
            | Inr t \<Rightarrow> modifies (\<lambda>s. s\<lparr>xsRows := t\<rparr>)))"

definition readRows :: "execEnv \<Rightarrow> (recTable \<Rightarrow> 'a) \<Rightarrow> 'a exec" where
  "readRows v q = bindX (faultPoint v) (\<lambda>_. gets (\<lambda>s. q (xsRows s)))"

definition saveDetail :: "execEnv \<Rightarrow> unit exec" where
  "saveDetail v = bindX (faultPoint v) (\<lambda>_. modifies (\<lambda>s. s\<lparr>xsSaved := xsD s\<rparr>))"

definition finishItem :: "execEnv \<Rightarrow> itemStatus \<Rightarrow> unit exec" where
  "finishItem v st =
     bindX (gets (\<lambda>s. edOutcome (xsD s)))
       (\<lambda>o1. bindX (if o1 \<noteq> [] then saveDetail v else ret ())
       (\<lambda>_. bindX (faultPoint v) (\<lambda>_. modifies (\<lambda>s. s\<lparr>xsStatus := st\<rparr>))))"

end
