(* ===== verification/SyncExec.thy ===== *)
theory SyncExec
  imports DestFS
begin

text \<open>
  The execution of one item of a sync (internal/syncer/exec.go, identity.go and the settling of
  retention intents in reconcile.go), as a program over the destination's filesystem, the table of
  records and the item's detail.  Messages and progress are left out; an error is known by its class.
  The catalog's answers (\<open>inCatalog\<close>, \<open>notBackedUp\<close>) and the re-check of a release are answers of
  the environment.
\<close>

section \<open>Telling files apart\<close>

text \<open>An error as a value; a crash is none.\<close>

definition tryX :: "'a exec \<Rightarrow> (execErr + 'a) exec" where
  "tryX m s = (case m s of (Inl ErrCrash, s1) \<Rightarrow> (Inl ErrCrash, s1) | (r, s1) \<Rightarrow> (Inr r, s1))"

definition sameDestFile :: "execEnv \<Rightarrow> string \<Rightarrow> fullStat \<Rightarrow> string \<Rightarrow> fullStat \<Rightarrow> bool exec" where
  "sameDestFile v a sa b sb =
     bindX (faultPoint v)
       (\<lambda>_. if xvIdentity v then ret (sameFile sa sb)
            else if \<not> stRegular sa \<or> \<not> stRegular sb \<or> stSize sa \<noteq> stSize sb \<or> stMtimeNs sa \<noteq> stMtimeNs sb then ret False
            else bindX (HashFile v a) (\<lambda>ha. bindX (HashFile v b) (\<lambda>hb. ret (ha = hb))))"

definition hardlinkOf :: "execEnv \<Rightarrow> string \<Rightarrow> fullStat \<Rightarrow> string \<Rightarrow> fullStat \<Rightarrow> bool exec" where
  "hardlinkOf v a sa b sb =
     bindX (faultPoint v)
       (\<lambda>_. if \<not> xvIdentity v \<and> (fsNlink sa = 1 \<or> fsNlink sb = 1) then ret False else sameDestFile v a sa b sb)"

definition sourceFile :: "execEnv \<Rightarrow> fullStat exec" where
  "sourceFile v =
     bindX (gets (\<lambda>s. deSource (xsD s)))
       (\<lambda>rel. bindX (sourceStat v rel)
       (\<lambda>st. case st of
               None \<Rightarrow> throw ErrItem
             | Some x \<Rightarrow> bindX (require (stRegular x) ErrItem) (\<lambda>_. ret x)))"

definition doneItem :: "execEnv \<Rightarrow> unit exec" where
  "doneItem v = finishItem v ItemDone"

definition setOutcome :: "string \<Rightarrow> unit exec" where
  "setOutcome w = modD (\<lambda>d. d\<lparr>edOutcome := w\<rparr>)"

definition removeTemp :: "execEnv \<Rightarrow> unit exec" where
  "removeTemp v =
     bindX (gets (\<lambda>s. edTemp (xsD s)))
       (\<lambda>temp. if temp = [] then ret () else bindX (tryX (CleanupTemp v temp)) (\<lambda>_. ret ()))"

section \<open>Adoption and displacement\<close>

definition tryAdopt :: "execEnv \<Rightarrow> string \<Rightarrow> fullStat \<Rightarrow> fullStat \<Rightarrow> (bool \<times> string) exec" where
  "tryAdopt v dest fin src =
     (if \<not> stRegular fin \<or> stSize fin \<noteq> stSize src then ret (False, [])
      else (case ssAdoptExisting (xvSettings v) of
              AdoptSizeMtime \<Rightarrow>
                ret (MtimeMatch (stMtimeNs fin) (stMtimeNs src) (xvGranularityNs v) (ssMtimeWindowSec (xvSettings v)), [])
            | AdoptSizeHash \<Rightarrow>
                bindX (gets (\<lambda>s. deSource (xsD s)))
                (\<lambda>rel. bindX (ask (\<lambda>t. xvSrcData v t rel))
                (\<lambda>sd. bindX (HashFile v dest)
                (\<lambda>dh. if xvHash v sd \<noteq> dh then ret (False, [])
                      else bindX (sourceFile v)
                      (\<lambda>after. bindX (require (stSize after = stSize src \<and> stMtimeNs after = stMtimeNs src) ErrItem)
                      (\<lambda>_. bindX (if MtimeMatch (stMtimeNs fin) (stMtimeNs src) (xvGranularityNs v) 0 then ret ()
                                  else SetMtime v dest (stMtimeNs src))
                      (\<lambda>_. ret (True, xvHash v sd)))))))
            | AdoptOff \<Rightarrow> ret (False, [])))"

definition recordAdopted :: "execEnv \<Rightarrow> string \<Rightarrow> fullStat \<Rightarrow> string \<Rightarrow> unit exec" where
  "recordAdopted v dest src hash =
     bindX (gets xsD) (\<lambda>d. writeTx v (\<lambda>e. adoptedTx e dest d (stSize src) (stMtimeNs src) hash))"

definition recordDisplaced :: "execEnv \<Rightarrow> string \<Rightarrow> unit exec" where
  "recordDisplaced v itemRel = bindX (gets xsD) (\<lambda>d. writeTx v (\<lambda>e. displacedTx e itemRel d))"

text \<open>The rename into retention; a name taken meanwhile is replaced by the next free one, three times.\<close>

fun displaceLoop :: "execEnv \<Rightarrow> string \<Rightarrow> fullStat \<Rightarrow> nat \<Rightarrow> unit exec" where
  "displaceLoop v dest st n =
     bindX (gets (\<lambda>s. edDisplaced (xsD s)))
       (\<lambda>cur. bindX (if cur \<noteq> [] then ret ()
                    else bindX (retentionTarget v dest)
                      (\<lambda>target. bindX (modD (\<lambda>d. d\<lparr>edDisplaced := target, edDisplacedSize := stSize st, edDisplacedMtimeNs := stMtimeNs st\<rparr>))
                      (\<lambda>_. saveDetail v)))
       (\<lambda>_. bindX (gets (\<lambda>s. edDisplaced (xsD s)))
       (\<lambda>target. bindX (tryX (MoveFile v dest target True))
       (\<lambda>r. case (r, n) of
              (Inl ErrExists, Suc m) \<Rightarrow> bindX (modD (\<lambda>d. d\<lparr>edDisplaced := []\<rparr>)) (\<lambda>_. displaceLoop v dest st m)
            | (Inl e, _) \<Rightarrow> throw e
            | (Inr _, _) \<Rightarrow> ret ()))))"

declare displaceLoop.simps [simp del]

definition displace :: "execEnv \<Rightarrow> string \<Rightarrow> string \<Rightarrow> fullStat \<Rightarrow> unit exec" where
  "displace v itemRel dest st =
     bindX (require (stRegular st) ErrItem)
       (\<lambda>_. bindX (gets (\<lambda>s. edDisplaced (xsD s)))
       (\<lambda>cur. bindX (lstatDest v cur)
       (\<lambda>there. bindX (if there = None then ret ()
                       else bindX (recordDisplaced v itemRel) (\<lambda>_. modD (\<lambda>d. d\<lparr>edDisplaced := []\<rparr>)))
       (\<lambda>_. bindX (displaceLoop v dest st 3)
       (\<lambda>_. recordDisplaced v itemRel)))))"

definition recordEarlierDisplace :: "execEnv \<Rightarrow> string \<Rightarrow> unit exec" where
  "recordEarlierDisplace v itemRel =
     bindX (gets (\<lambda>s. edDisplaced (xsD s)))
       (\<lambda>cur. bindX (lstatDest v cur) (\<lambda>there. if there = None then ret () else recordDisplaced v itemRel))"

section \<open>Keeping old versions\<close>

definition suspect :: "execEnv \<Rightarrow> destRecord \<Rightarrow> fullStat \<Rightarrow> bool exec" where
  "suspect v rec fin =
     bindX (gets (\<lambda>s. deReason (xsD s)))
       (\<lambda>why. if why = ''repair'' then ret True
              else if drState rec \<noteq> StateLinked \<or> drLinkOf rec = 0 then ret False
              else bindX (readRows v (getTx (drLinkOf rec)))
              (\<lambda>p. case p of
                     None \<Rightarrow> ret True
                   | Some p1 \<Rightarrow>
                       if drState p1 \<noteq> StatePresent then ret True
                       else bindX (faultPoint v)
                       (\<lambda>_. if \<not> xvIdentity v then ret True
                            else bindX (lstatDest v (drRelPath p1))
                            (\<lambda>pf. ret (case pf of None \<Rightarrow> True | Some x \<Rightarrow> \<not> sameFile x fin)))))"

text \<open>A file that cannot be read is damaged, unless the error stops the job.\<close>

definition hashOrDamaged :: "execEnv \<Rightarrow> string \<Rightarrow> string option exec" where
  "hashOrDamaged v rel =
     bindX (tryX (HashFile v rel))
       (\<lambda>r. case r of
              Inr h \<Rightarrow> ret (Some h)
            | Inl e \<Rightarrow> bindX (gets (\<lambda>s. xvCancelled v (xsTick s)))
                        (\<lambda>c. if c \<or> e = ErrFatal then throw e else ret None))"

definition oldVersion :: "execEnv \<Rightarrow> destRecord \<Rightarrow> string \<Rightarrow> fullStat \<Rightarrow> string \<Rightarrow> retainedVersion exec" where
  "oldVersion v rec rel fin reason =
     (let w = \<lparr>rvMtimeNs = drMtimeNs rec, rvHash = [], rvReason = reason\<rparr>;
          damaged = \<lparr>rvMtimeNs = stMtimeNs fin, rvHash = [], rvReason = ReasonDamaged\<rparr>
      in if drState rec = StateMissing then ret damaged
         else bindX (suspect v rec fin)
         (\<lambda>sus. if stSize fin \<noteq> drSize rec then ret (if sus then damaged else w)
                else if \<not> sus then ret (w\<lparr>rvHash := drHash rec\<rparr>)
                else if drHash rec = [] then ret w
                else bindX (hashOrDamaged v rel)
                (\<lambda>got. case got of
                         None \<Rightarrow> ret damaged
                       | Some h \<Rightarrow> ret (if h \<noteq> drHash rec then damaged else w\<lparr>rvHash := h\<rparr>))))"

text \<open>The name in retention is chosen, with what its row will say, and saved before the file is there.\<close>

definition keepTarget :: "execEnv \<Rightarrow> destRecord \<Rightarrow> string \<Rightarrow> fullStat \<Rightarrow> string \<Rightarrow> unit exec" where
  "keepTarget v rec rel fin reason =
     bindX (oldVersion v rec rel fin reason)
       (\<lambda>w. bindX (retentionTarget v rel)
       (\<lambda>target. bindX (modD (\<lambda>d. d\<lparr>edRetained := target, edRetainedSize := stSize fin,
                         edRetainedMtimeNs := rvMtimeNs w, edRetainedHash := rvHash w, edRetainedReason := rvReason w\<rparr>))
       (\<lambda>_. saveDetail v)))"

definition keepRename :: "execEnv \<Rightarrow> string \<Rightarrow> bool \<Rightarrow> (execErr + unit) exec" where
  "keepRename v rel isLink =
     bindX (gets xsD)
       (\<lambda>d. bindX (writeTx v (\<lambda>e. setIntentTx (txDest e) rel (edRetained d) (edRetainedReason d)))
       (\<lambda>_. tryX (if isLink then LinkFile v rel (edRetained d) else MoveFile v rel (edRetained d) True)))"

fun keepLoop :: "execEnv \<Rightarrow> destRecord \<Rightarrow> string \<Rightarrow> fullStat \<Rightarrow> bool \<Rightarrow> string \<Rightarrow> nat \<Rightarrow> unit exec" where
  "keepLoop v rec rel fin isLink reason n =
     bindX (gets (\<lambda>s. edRetained (xsD s)))
       (\<lambda>cur. bindX (if cur \<noteq> [] then ret () else keepTarget v rec rel fin reason)
       (\<lambda>_. bindX (keepRename v rel isLink)
       (\<lambda>r. case (r, n) of
              (Inl ErrExists, Suc m) \<Rightarrow>
                bindX (modD (\<lambda>d. d\<lparr>edRetained := []\<rparr>)) (\<lambda>_. keepLoop v rec rel fin isLink reason m)
            | (Inl e, _) \<Rightarrow> throw e
            | (Inr _, _) \<Rightarrow> ret ())))"

declare keepLoop.simps [simp del]

definition keepInRetention :: "execEnv \<Rightarrow> destRecord \<Rightarrow> string \<Rightarrow> fullStat \<Rightarrow> bool \<Rightarrow> string \<Rightarrow> unit exec" where
  "keepInRetention v rec rel fin isLink reason = keepLoop v rec rel fin isLink reason 3"

definition retainOld :: "execEnv \<Rightarrow> destRecord \<Rightarrow> string \<Rightarrow> fullStat \<Rightarrow> unit exec" where
  "retainOld v rec dest fin = keepInRetention v rec dest fin (xvHardlinks v) ReasonReplaced"

definition retainName :: "execEnv \<Rightarrow> destRecord \<Rightarrow> string \<Rightarrow> fullStat \<Rightarrow> unit exec" where
  "retainName v rec dest fin =
     bindX (require (stRegular fin) ErrItem) (\<lambda>_. keepInRetention v rec dest fin False ReasonReplaced)"

definition recordPlaced :: "execEnv \<Rightarrow> string \<Rightarrow> bool \<Rightarrow> unit exec" where
  "recordPlaced v dest retained = bindX (gets xsD) (\<lambda>d. writeTx v (\<lambda>e. placedTx e dest d retained))"

fun checkLinks :: "execEnv \<Rightarrow> destRecord \<Rightarrow> fullStat \<Rightarrow> destRecord list \<Rightarrow> unit exec" where
  "checkLinks v rec src [] = ret ()"
| "checkLinks v rec src (d # ds) =
     bindX (gets xsD)
       (\<lambda>x. if drState d \<noteq> StateLinkRecorded
               \<or> (if drState rec = StateMissing
                  then drSize d = stSize src \<and> MtimeMatch (drMtimeNs d) (stMtimeNs src) (xvGranularityNs v) 0
                       \<or> drID d \<in> set (deLostLinks x)
                  else drSize d \<noteq> drSize rec \<or> drMtimeNs d \<noteq> drMtimeNs rec)
            then checkLinks v rec src ds
            else bindX (if drSourceID d = deSourceID x
                        then bindX (sourceStat v (drSourceRelPath d))
                          (\<lambda>st. ret (case st of None \<Rightarrow> False | Some y \<Rightarrow> stSize y = drSize d \<and> stMtimeNs y = drMtimeNs d))
                        else ret True)
              (\<lambda>needs. if needs then throw ErrItem else checkLinks v rec src ds))"

definition checkDependents :: "execEnv \<Rightarrow> destRecord \<Rightarrow> fullStat \<Rightarrow> unit exec" where
  "checkDependents v rec src = bindX (readRows v (Dependents (drID rec))) (checkLinks v rec src)"

section \<open>Copies and updates\<close>

definition VerifyTemp :: "execEnv \<Rightarrow> unit exec" where
  "VerifyTemp v = (if xvVerify v = VerifyFull then faultPoint v else ret ())"

definition keepPlaced ::
    "execEnv \<Rightarrow> string \<Rightarrow> destRecord option \<Rightarrow> fullStat option \<Rightarrow> fullStat option \<Rightarrow> fullStat option exec" where
  "keepPlaced v dest rec0 retSt fin =
     (case retSt of
        Some r \<Rightarrow>
          (case fin of
             Some f \<Rightarrow>
               bindX (gets (\<lambda>s. edRetained (xsD s)))
               (\<lambda>retained. bindX (sameDestFile v dest f retained r)
               (\<lambda>same. if same then ret fin else bindX (displace v dest dest f) (\<lambda>_. ret None)))
           | None \<Rightarrow> ret None)
      | None \<Rightarrow>
          (case (rec0, fin) of
             (Some rec, Some f) \<Rightarrow> bindX (retainOld v rec dest f) (\<lambda>_. lstatDest v dest)
           | _ \<Rightarrow> ret None))"

text \<open>The old version is kept, then the new one takes its name.\<close>

definition placeCommit ::
    "execEnv \<Rightarrow> string \<Rightarrow> destRecord option \<Rightarrow> bool \<Rightarrow> fullStat option \<Rightarrow> unit exec" where
  "placeCommit v dest rec0 ours retSt =
     bindX (lstatDest v dest)
       (\<lambda>fin. bindX (gets (\<lambda>s. edTemp (xsD s)))
       (\<lambda>temp. if ours \<and> (fin \<noteq> None \<or> retSt \<noteq> None)
               then bindX (keepPlaced v dest rec0 retSt fin)
                 (\<lambda>fin2. bindX (CommitTemp v temp dest (fin2 = None)) (\<lambda>_. recordPlaced v dest True))
               else if \<not> ours \<and> fin \<noteq> None then throw ErrItem
               else bindX (CommitTemp v temp dest (fin = None)) (\<lambda>_. recordPlaced v dest False)))"

definition placeWrite ::
    "execEnv \<Rightarrow> string \<Rightarrow> destRecord option \<Rightarrow> bool \<Rightarrow> fullStat option \<Rightarrow> int exec" where
  "placeWrite v dest rec0 ours retSt =
     bindX (gets (\<lambda>s. deSource (xsD s)))
       (\<lambda>srcRel. bindX (WriteTemp v srcRel dest
                        (\<lambda>temp. bindX (modD (\<lambda>d. d\<lparr>edTemp := temp, edTempDone := False\<rparr>)) (\<lambda>_. saveDetail v)))
       (\<lambda>t. case t of (sz, mtimeNs, hash) \<Rightarrow>
            bindX (VerifyTemp v)
       (\<lambda>_. bindX (modD (\<lambda>d. d\<lparr>edTempDone := True, edTempSize := sz, edTempMtimeNs := mtimeNs, edTempHash := hash\<rparr>))
       (\<lambda>_. bindX (saveDetail v)
       (\<lambda>_. bindX (placeCommit v dest rec0 ours retSt) (\<lambda>_. ret sz))))))"

definition reasonReplacedInPlace :: string where
  "reasonReplacedInPlace = ''replaced in place''"

text \<open>The new version is started over; an unrecorded file in the way is adopted or displaced.\<close>

definition placeOver ::
    "execEnv \<Rightarrow> string \<Rightarrow> destRecord option \<Rightarrow> bool \<Rightarrow> fullStat option \<Rightarrow> fullStat option \<Rightarrow> fullStat \<Rightarrow> int exec" where
  "placeOver v dest rec0 ours retSt fin src =
     bindX (removeTemp v)
       (\<lambda>_. bindX (modD (\<lambda>d. d\<lparr>edTemp := [], edTempDone := False\<rparr>))
       (\<lambda>_. case fin of
              None \<Rightarrow> placeWrite v dest rec0 ours retSt
            | Some f \<Rightarrow>
                if ours then placeWrite v dest rec0 ours retSt
                else bindX (tryAdopt v dest f src)
                  (\<lambda>a. if fst a
                       then bindX (recordAdopted v dest src (snd a)) (\<lambda>_. bindX (setOutcome ''adopted'') (\<lambda>_. ret 0))
                       else bindX (displace v dest dest f) (\<lambda>_. placeWrite v dest rec0 ours retSt))))"

definition placeNew ::
    "execEnv \<Rightarrow> string \<Rightarrow> destRecord option \<Rightarrow> bool \<Rightarrow> fullStat option \<Rightarrow> fullStat option \<Rightarrow> int exec" where
  "placeNew v dest rec0 ours retSt fin =
     bindX (sourceFile v)
       (\<lambda>src. bindX (gets xsD)
       (\<lambda>d. if (case (rec0, fin) of
                  (Some r, Some f) \<Rightarrow> drState r = StatePresent \<and> drSize r = stSize src \<and> drMtimeNs r = stMtimeNs src
                    \<and> stRegular f \<and> stSize f = drSize r \<and> (deReason d \<noteq> reasonReplacedInPlace \<or> drJobID r = xvJob v)
                | _ \<Rightarrow> False)
            then bindX (removeTemp v) (\<lambda>_. bindX (setOutcome ''already done'') (\<lambda>_. ret (edTempSize d)))
            else bindX (require (\<not> (deOldSize d > 0 \<and> \<not> xvAllowChanges v \<and> shrinks (stSize src) (deOldSize d))) ErrHeld)
       (\<lambda>_. bindX (case rec0 of Some r \<Rightarrow> if ours then checkDependents v r src else ret () | None \<Rightarrow> ret ())
       (\<lambda>_. placeOver v dest rec0 ours retSt fin src))))"

text \<open>What an earlier attempt left decides how the copy goes on.\<close>

definition placeState ::
    "execEnv \<Rightarrow> string \<Rightarrow> destRecord option \<Rightarrow> execDetail \<Rightarrow> fullStat option \<Rightarrow> fullStat option \<Rightarrow> fullStat option \<Rightarrow> bool \<Rightarrow> int exec" where
  "placeState v dest rec0 d tempSt retSt fin linkedOld =
     (let ours = (case rec0 of Some r \<Rightarrow> drState r \<in> {StatePresent, StateLinked, StateMissing} | None \<Rightarrow> False);
          tempComplete = (case tempSt of Some t \<Rightarrow> edTempDone d \<and> stRegular t \<and> stSize t = edTempSize d | None \<Rightarrow> False)
      in if ours \<and> retSt \<noteq> None \<and> tempComplete \<and> fin = None
         then bindX (bindX (CommitTemp v (edTemp d) dest True) (\<lambda>_. recordPlaced v dest True)) (\<lambda>_. ret (edTempSize d))
         else if ours \<and> tempComplete \<and> linkedOld
         then bindX (bindX (CommitTemp v (edTemp d) dest False) (\<lambda>_. recordPlaced v dest True)) (\<lambda>_. ret (edTempSize d))
         else if edTempDone d \<and> tempSt = None
           \<and> (case fin of Some f \<Rightarrow> stRegular f \<and> stSize f = edTempSize d
                 \<and> MtimeMatch (stMtimeNs f) (edTempMtimeNs d) (xvGranularityNs v) 0 | None \<Rightarrow> False)
           \<and> (edRetained d = [] \<or> retSt \<noteq> None \<and> \<not> linkedOld)
         then bindX (recordPlaced v dest (retSt \<noteq> None)) (\<lambda>_. ret (edTempSize d))
         else placeNew v dest rec0 ours retSt fin)"

definition place :: "execEnv \<Rightarrow> string \<Rightarrow> int exec" where
  "place v dest =
     bindX (readRows v (liveAtTx (xvDest v) dest))
       (\<lambda>rec0. bindX (gets xsD)
       (\<lambda>d. bindX (require (case rec0 of Some r \<Rightarrow> drSourceID r = deSourceID d | None \<Rightarrow> True) ErrItem)
       (\<lambda>_. bindX (lstatDest v (edTemp d))
       (\<lambda>tempSt. bindX (lstatDest v (edRetained d))
       (\<lambda>retSt. bindX (lstatDest v dest)
       (\<lambda>fin. bindX (case (fin, retSt) of
                       (Some f, Some r) \<Rightarrow> sameDestFile v dest f (edRetained d) r
                     | _ \<Rightarrow> ret False)
       (\<lambda>linkedOld. placeState v dest rec0 d tempSt retSt fin linkedOld)))))))"

definition putCopy :: "execEnv \<Rightarrow> string \<Rightarrow> unit exec" where
  "putCopy v itemRel = bindX (place v itemRel) (\<lambda>_. doneItem v)"

definition fallbackPlace :: "execEnv \<Rightarrow> string \<Rightarrow> unit exec" where
  "fallbackPlace v itemRel =
     bindX (gets xsD)
       (\<lambda>d. if (case deTier d of Some t \<Rightarrow> dTier t \<noteq> Full | None \<Rightarrow> False) \<and> edTemp d = []
            then finishItem v ItemSkipped
            else bindX (place v itemRel)
              (\<lambda>_. bindX (gets (\<lambda>s. edOutcome (xsD s)))
              (\<lambda>o1. bindX (if o1 = [] then setOutcome ''copied'' else ret ()) (\<lambda>_. doneItem v))))"

definition adoptItem :: "execEnv \<Rightarrow> string \<Rightarrow> unit exec" where
  "adoptItem v itemRel =
     bindX (gets xsD)
       (\<lambda>d. if edTemp d \<noteq> [] then fallbackPlace v itemRel
            else bindX (readRows v (liveAtTx (xvDest v) itemRel))
       (\<lambda>rec0. bindX (sourceFile v)
       (\<lambda>src. case rec0 of
                Some r \<Rightarrow>
                  if drSourceID r = deSourceID d \<and> drState r = StatePresent \<and> drSize r = stSize src \<and> drMtimeNs r = stMtimeNs src
                  then bindX (setOutcome ''already done'') (\<lambda>_. doneItem v)
                  else fallbackPlace v itemRel
              | None \<Rightarrow>
                  bindX (lstatDest v itemRel)
                  (\<lambda>fin. case fin of
                           None \<Rightarrow> fallbackPlace v itemRel
                         | Some f \<Rightarrow>
                             bindX (tryAdopt v itemRel f src)
                             (\<lambda>a. if fst a then bindX (recordAdopted v itemRel src (snd a)) (\<lambda>_. doneItem v)
                                  else fallbackPlace v itemRel)))))"

section \<open>Moves\<close>

definition reappeared :: "execEnv \<Rightarrow> string \<Rightarrow> bool exec" where
  "reappeared v rel =
     bindX (sourceStat v rel)
       (\<lambda>st. case st of
               None \<Rightarrow> ret False
             | Some x \<Rightarrow> if stRegular x then ask (\<lambda>t. xvInCatalog v t rel) else ret False)"

text \<open>Whether the source still shows the planned content under its new name only.\<close>

definition moveStands :: "execEnv \<Rightarrow> destRecord \<Rightarrow> bool exec" where
  "moveStands v rec =
     bindX (gets xsD)
       (\<lambda>d. bindX (sourceFile v)
       (\<lambda>src. if stSize src \<noteq> deSize d \<or> stMtimeNs src \<noteq> deMtimeNs d \<or> stSize src \<noteq> drSize rec then ret False
              else bindX (reappeared v (drSourceRelPath rec)) (\<lambda>back. ret (\<not> back))))"

definition recordMoved :: "execEnv \<Rightarrow> destRecord \<Rightarrow> string \<Rightarrow> unit exec" where
  "recordMoved v rec to =
     bindX (gets (\<lambda>s. deSource (xsD s)))
       (\<lambda>source. bindX (writeTx v (\<lambda>e. moveTx e (drID rec) to source)) (\<lambda>_. doneItem v))"

definition moveNow :: "execEnv \<Rightarrow> destRecord \<Rightarrow> string \<Rightarrow> string \<Rightarrow> fullStat option \<Rightarrow> fullStat option \<Rightarrow> unit exec" where
  "moveNow v rec from to fromSt toSt =
     (case fromSt of
        None \<Rightarrow> fallbackPlace v to
      | Some f \<Rightarrow>
          if \<not> stRegular f \<or> stSize f \<noteq> drSize rec then fallbackPlace v to
          else bindX (case toSt of
                        None \<Rightarrow> ret ()
                      | Some t \<Rightarrow> bindX (readRows v (liveAtTx (xvDest v) to))
                          (\<lambda>r. bindX (require (r = None) ErrItem) (\<lambda>_. displace v to to t)))
            (\<lambda>_. bindX (MoveFile v from to True) (\<lambda>_. recordMoved v rec to)))"

definition moveItem :: "execEnv \<Rightarrow> string \<Rightarrow> unit exec" where
  "moveItem v to =
     bindX (gets xsD)
       (\<lambda>d. if edTemp d \<noteq> [] then fallbackPlace v to
            else bindX (readRows v (getTx (deRecordID d)))
       (\<lambda>rec0. case rec0 of
                 None \<Rightarrow> fallbackPlace v to
               | Some r \<Rightarrow>
                   if isLive r \<and> drRelPath r = to \<and> drSourceRelPath r = deSource d
                   then bindX (setOutcome ''already done'') (\<lambda>_. doneItem v)
                   else if \<not> isLive r \<or> drSourceID r \<noteq> deSourceID d \<or> drRelPath r \<noteq> deFrom d
                           \<or> drState r \<notin> {StatePresent, StateLinked} then fallbackPlace v to
                   else bindX (lstatDest v (deFrom d))
                     (\<lambda>fromSt. bindX (lstatDest v to)
                     (\<lambda>toSt. if fromSt = None \<and> (case toSt of Some t \<Rightarrow> stRegular t \<and> stSize t = drSize r | None \<Rightarrow> False)
                             then recordMoved v r to
                             else bindX (moveStands v r)
                               (\<lambda>stands. if stands then moveNow v r (deFrom d) to fromSt toSt else fallbackPlace v to)))))"

section \<open>Links\<close>

text \<open>Whether the primary is recorded and there with this name's content, one inode at the source.\<close>

definition linkValid :: "execEnv \<Rightarrow> destRecord option \<Rightarrow> fullStat \<Rightarrow> (destRecord \<times> fullStat) option exec" where
  "linkValid v rec0 src =
     bindX (gets xsD)
       (\<lambda>d. bindX (readRows v (liveForSourcePath (xvDest v) (deSourceID d) (dePrimary d)))
       (\<lambda>prim0. case prim0 of
                  None \<Rightarrow> ret None
                | Some p \<Rightarrow>
                    if drState p \<noteq> StatePresent \<or> drSize p \<noteq> stSize src \<or> drMtimeNs p \<noteq> stMtimeNs src
                       \<or> (case rec0 of Some r \<Rightarrow> drID r = drID p | None \<Rightarrow> False) then ret None
                    else bindX (sourceStat v (dePrimary d))
                      (\<lambda>ps. if (case ps of None \<Rightarrow> True | Some x \<Rightarrow> \<not> sameFile x src \<or> stSize x \<noteq> stSize src \<or> stMtimeNs x \<noteq> stMtimeNs src)
                            then ret None
                            else bindX (lstatDest v (drRelPath p))
                              (\<lambda>pd. ret (case pd of
                                           None \<Rightarrow> None
                                         | Some x \<Rightarrow> if stRegular x \<and> stSize x = drSize p then Some (p, x) else None)))))"

definition isLinkOf :: "execEnv \<Rightarrow> bool \<Rightarrow> string \<Rightarrow> fullStat \<Rightarrow> string \<Rightarrow> fullStat \<Rightarrow> bool exec" where
  "isLinkOf v recorded dest st prim primDest =
     (if recorded then sameDestFile v dest st prim primDest else hardlinkOf v dest st prim primDest)"

text \<open>A name that is taken is the hardlink if it is one already.\<close>

definition makeLink :: "execEnv \<Rightarrow> string \<Rightarrow> destRecord \<Rightarrow> fullStat \<Rightarrow> unit exec" where
  "makeLink v dest p primDest =
     bindX (tryX (LinkFile v (drRelPath p) dest))
       (\<lambda>r. case r of
              Inr _ \<Rightarrow> ret ()
            | Inl e \<Rightarrow>
                if e \<noteq> ErrExists then throw e
                else bindX (tryX (lstatDest v dest))
                  (\<lambda>c. case c of
                         Inr (Some cur) \<Rightarrow>
                           bindX (hardlinkOf v dest cur (drRelPath p) primDest) (\<lambda>same. require same ErrExists)
                       | _ \<Rightarrow> throw ErrExists))"

definition recordLink :: "execEnv \<Rightarrow> string \<Rightarrow> recState \<Rightarrow> destRecord \<Rightarrow> fullStat \<Rightarrow> bool \<Rightarrow> unit exec" where
  "recordLink v dest mode p src retained =
     bindX (gets xsD)
       (\<lambda>d. bindX (writeTx v (\<lambda>e. linkTx e dest d mode (drID p) (stSize src) (stMtimeNs src) retained))
       (\<lambda>_. bindX (if mode = StateLinkRecorded then setOutcome ''recorded'' else ret ()) (\<lambda>_. doneItem v)))"

text \<open>What is at the path now: the hardlink, the name's own old version, or an unmanaged file.  The
  answer says whether the name was adopted as a copy of its own, and whether the old version is kept.\<close>

definition clearName ::
    "execEnv \<Rightarrow> string \<Rightarrow> destRecord option \<Rightarrow> bool \<Rightarrow> bool \<Rightarrow> fullStat \<Rightarrow> fullStat \<Rightarrow> (bool \<times> bool) exec" where
  "clearName v dest rec0 ours retained src f =
     (case rec0 of
        Some r \<Rightarrow>
          if ours \<and> \<not> retained then bindX (retainName v r dest f) (\<lambda>_. ret (False, True))
          else bindX (tryAdopt v dest f src)
            (\<lambda>a. if fst a then bindX (recordAdopted v dest src (snd a)) (\<lambda>_. bindX (setOutcome ''adopted'') (\<lambda>_. ret (True, retained)))
                 else bindX (displace v dest dest f) (\<lambda>_. ret (False, retained)))
      | None \<Rightarrow>
          bindX (tryAdopt v dest f src)
            (\<lambda>a. if fst a then bindX (recordAdopted v dest src (snd a)) (\<lambda>_. bindX (setOutcome ''adopted'') (\<lambda>_. ret (True, retained)))
                 else bindX (displace v dest dest f) (\<lambda>_. ret (False, retained))))"

definition linkNow ::
    "execEnv \<Rightarrow> string \<Rightarrow> recState \<Rightarrow> destRecord option \<Rightarrow> bool \<Rightarrow> bool \<Rightarrow> destRecord \<Rightarrow> fullStat \<Rightarrow> fullStat \<Rightarrow> unit exec" where
  "linkNow v dest mode rec0 ours recorded p primDest src =
     bindX (lstatDest v dest)
       (\<lambda>fin. bindX (gets (\<lambda>s. edRetained (xsD s)))
       (\<lambda>ret0. bindX (lstatDest v ret0)
       (\<lambda>retSt. bindX (case fin of
                         Some f \<Rightarrow> if mode = StateLinked then isLinkOf v recorded dest f (drRelPath p) primDest else ret False
                       | None \<Rightarrow> ret False)
       (\<lambda>linked. bindX (case fin of
                          Some f \<Rightarrow> if linked then ret (False, retSt \<noteq> None) else clearName v dest rec0 ours (retSt \<noteq> None) src f
                        | None \<Rightarrow> ret (False, retSt \<noteq> None))
       (\<lambda>r. if fst r then doneItem v
            else bindX (if mode = StateLinked \<and> \<not> linked then makeLink v dest p primDest else ret ())
              (\<lambda>_. recordLink v dest mode p src (snd r)))))))"

definition linkItem :: "execEnv \<Rightarrow> string \<Rightarrow> unit exec" where
  "linkItem v dest =
     bindX (gets xsD)
       (\<lambda>d. if edTemp d \<noteq> [] then fallbackPlace v dest
            else bindX (sourceFile v)
       (\<lambda>src. bindX (readRows v (liveAtTx (xvDest v) dest))
       (\<lambda>rec0. bindX (require (case rec0 of Some r \<Rightarrow> drSourceID r = deSourceID d | None \<Rightarrow> True) ErrItem)
       (\<lambda>_. bindX (linkValid v rec0 src)
       (\<lambda>valid. case valid of
                  None \<Rightarrow> fallbackPlace v dest
                | Some (p, primDest) \<Rightarrow>
                    let mode = (if xvLinkMode v then StateLinked else StateLinkRecorded);
                        recorded = (case rec0 of Some r \<Rightarrow> drState r = mode \<and> drLinkOf r = drID p \<and> drJobID r = xvJob v | None \<Rightarrow> False);
                        current = (recorded \<and> (case rec0 of Some r \<Rightarrow> drSize r = stSize src \<and> drMtimeNs r = stMtimeNs src | None \<Rightarrow> False));
                        ours = (case rec0 of Some r \<Rightarrow> drState r \<in> {StatePresent, StateLinked, StateMissing} | None \<Rightarrow> False)
                    in bindX (if \<not> current then ret False
                              else if mode = StateLinkRecorded then ret True
                              else bindX (lstatDest v dest)
                                (\<lambda>fin. case fin of
                                         None \<Rightarrow> ret False
                                       | Some f \<Rightarrow> isLinkOf v recorded dest f (drRelPath p) primDest))
                    (\<lambda>already. if already then bindX (setOutcome ''already done'') (\<lambda>_. doneItem v)
                               else bindX (case rec0 of Some r \<Rightarrow> if ours then checkDependents v r src else ret () | None \<Rightarrow> ret ())
                                 (\<lambda>_. linkNow v dest mode rec0 ours recorded p primDest src)))))))"

section \<open>Promotes\<close>

definition recordPromote :: "execEnv \<Rightarrow> destRecord \<Rightarrow> destRecord \<Rightarrow> bool \<Rightarrow> unit exec" where
  "recordPromote v t w moved =
     bindX (gets (\<lambda>s. deFor (xsD s)))
       (\<lambda>f. bindX (writeTx v (\<lambda>e. promoteTx e t w moved (f = ''retain''))) (\<lambda>_. doneItem v))"

text \<open>The target's source file must be as recorded, and the update it prepares must not be held.\<close>

definition promoteStands :: "execEnv \<Rightarrow> destRecord \<Rightarrow> destRecord \<Rightarrow> unit exec" where
  "promoteStands v t w =
     bindX (sourceStat v (drSourceRelPath t))
       (\<lambda>ts. bindX (require (case ts of Some x \<Rightarrow> stSize x = drSize t \<and> stMtimeNs x = drMtimeNs t | None \<Rightarrow> False) ErrItem)
       (\<lambda>_. bindX (gets (\<lambda>s. deFor (xsD s)))
       (\<lambda>f. if f = ''update'' \<and> \<not> xvAllowChanges v
            then bindX (sourceStat v (drSourceRelPath w))
              (\<lambda>ps. require (\<not> (case ps of Some x \<Rightarrow> shrinks (stSize x) (drSize w) | None \<Rightarrow> False)) ErrHeld)
            else ret ())))"

definition promoteFile :: "execEnv \<Rightarrow> string \<Rightarrow> destRecord \<Rightarrow> destRecord \<Rightarrow> unit exec" where
  "promoteFile v itemRel t w =
     bindX (lstatDest v (drRelPath w))
       (\<lambda>vs. bindX (lstatDest v (drRelPath t))
       (\<lambda>tf. if vs = None \<and> (case tf of Some x \<Rightarrow> stRegular x \<and> stSize x = drSize w | None \<Rightarrow> False)
             then recordPromote v t w True
             else bindX (promoteStands v t w)
               (\<lambda>_. bindX (require (case vs of Some x \<Rightarrow> stRegular x \<and> stSize x = drSize w | None \<Rightarrow> False) ErrItem)
               (\<lambda>_. bindX (case tf of Some x \<Rightarrow> displace v itemRel (drRelPath t) x | None \<Rightarrow> ret ())
               (\<lambda>_. bindX (MoveFile v (drRelPath w) (drRelPath t) True)
               (\<lambda>_. recordPromote v t w True))))))"

definition promoteItem :: "execEnv \<Rightarrow> string \<Rightarrow> unit exec" where
  "promoteItem v itemRel =
     bindX (gets xsD)
       (\<lambda>d. bindX (readRows v (getTx (deTargetID d)))
       (\<lambda>t0. case t0 of
               None \<Rightarrow> throw ErrItem
             | Some t \<Rightarrow>
                 if drState t = StatePresent \<and> drLinkOf t = 0
                 then bindX (setOutcome ''already done'') (\<lambda>_. doneItem v)
                 else bindX (readRows v (getTx (deRecordID d)))
                 (\<lambda>w0. case w0 of
                         None \<Rightarrow> throw ErrItem
                       | Some w \<Rightarrow>
                           bindX (require (isLive w \<and> isLive t \<and> drLinkOf t = drID w
                                    \<and> drState t \<in> {StateLinked, StateLinkRecorded}) ErrItem)
                           (\<lambda>_. if drState t = StateLinkRecorded then promoteFile v itemRel t w
                                else bindX (promoteStands v t w)
                                  (\<lambda>_. bindX (lstatDest v (drRelPath t))
                                  (\<lambda>tf. bindX (require (case tf of Some x \<Rightarrow> stRegular x \<and> stSize x = drSize w | None \<Rightarrow> False) ErrItem)
                                  (\<lambda>_. recordPromote v t w False)))))))"

section \<open>Retains\<close>

text \<open>The names that depend on a record: the recorded-only ones that vanished too, and the first
  hardlink that can take over.\<close>

fun retainDeps :: "execEnv \<Rightarrow> destRecord \<Rightarrow> ident list \<Rightarrow> ident option \<Rightarrow> destRecord list \<Rightarrow> (ident list \<times> ident option) exec" where
  "retainDeps v w gone heir [] = ret (gone, heir)"
| "retainDeps v w gone heir (d # ds) =
     bindX (gets (\<lambda>s. deSourceID (xsD s)))
       (\<lambda>sid. if drState d = StateLinkRecorded \<and> drSourceID d = sid
              then bindX (reappeared v (drSourceRelPath d))
                (\<lambda>back. retainDeps v w (if back then gone else gone @ [drID d]) heir ds)
              else if drState d = StateLinked \<and> heir = None
              then bindX (lstatDest v (drRelPath d))
                (\<lambda>st. retainDeps v w gone (case st of
                                             Some x \<Rightarrow> if stRegular x \<and> stSize x = drSize w then Some (drID d) else None
                                           | None \<Rightarrow> None) ds)
              else retainDeps v w gone heir ds)"

definition recordRetain :: "execEnv \<Rightarrow> destRecord \<Rightarrow> ident list \<Rightarrow> ident option \<Rightarrow> bool \<Rightarrow> unit exec" where
  "recordRetain v w gone heir retained =
     bindX (gets xsD)
       (\<lambda>d. bindX (writeTx v (\<lambda>e. retainTx e w d gone heir retained))
       (\<lambda>_. bindX (if retained then ret () else setOutcome ''record removed'') (\<lambda>_. doneItem v)))"

definition retainFile :: "execEnv \<Rightarrow> destRecord \<Rightarrow> bool \<Rightarrow> bool \<Rightarrow> fullStat option \<Rightarrow> bool exec" where
  "retainFile v w isRelease retained fin =
     (case fin of
        None \<Rightarrow> ret retained
      | Some f \<Rightarrow>
          if retained then ret True
          else bindX (require (stRegular f) ErrItem)
            (\<lambda>_. bindX (if isRelease then ret []
                        else ask (\<lambda>t. xvNotBackedUp v t (drSourceRelPath w)))
            (\<lambda>name. bindX (require (name = []) ErrItem)
            (\<lambda>_. bindX (keepInRetention v w (drRelPath w) f False (if isRelease then ReasonReleased else ReasonDeleted))
            (\<lambda>_. ret True)))))"

definition retainLive :: "execEnv \<Rightarrow> destRecord \<Rightarrow> unit exec" where
  "retainLive v w =
     bindX (gets xsD)
       (\<lambda>d. let isRelease = (deReason d = ReasonReleased) in
            bindX (if isRelease \<and> edRetained d = [] then ask (\<lambda>t. xvCheckRelease v t w) else ret [])
       (\<lambda>why. if why \<noteq> [] then finishItem v ItemSkipped
              else bindX (lstatDest v (drRelPath w))
       (\<lambda>fin. bindX (if fin = None then lstatDest v (edRetained d) else ret None)
       (\<lambda>kept. bindX (if kept = None \<and> \<not> isRelease then reappeared v (drSourceRelPath w) else ret False)
       (\<lambda>back. if back then finishItem v ItemSkipped
               else bindX (readRows v (Dependents (drID w)))
       (\<lambda>deps. bindX (retainDeps v w [] None deps)
       (\<lambda>gh. bindX (require (\<not> (length deps > length (fst gh) \<and> snd gh = None)) ErrItem)
       (\<lambda>_. if drState w = StateLinkRecorded
            then bindX (writeTx v (\<lambda>e. deleteRecord (drID w)))
              (\<lambda>_. bindX (setOutcome ''record removed'') (\<lambda>_. doneItem v))
            else bindX (retainFile v w isRelease (kept \<noteq> None) fin)
              (\<lambda>retained. recordRetain v w (fst gh) (snd gh) retained)))))))))"

definition retainItem :: "execEnv \<Rightarrow> unit exec" where
  "retainItem v =
     bindX (gets xsD)
       (\<lambda>d. bindX (readRows v (getTx (deRecordID d)))
       (\<lambda>w0. case w0 of
               None \<Rightarrow> bindX (setOutcome ''record removed'') (\<lambda>_. doneItem v)
             | Some w \<Rightarrow>
                 if drState w = StateRetained \<and> (edRetained d = [] \<or> drRetainedPath w = edRetained d)
                 then bindX (setOutcome ''already done'') (\<lambda>_. doneItem v)
                 else if \<not> isLive w \<or> drSourceID w \<noteq> deSourceID d \<or> drSourceRelPath w \<noteq> deSource d
                 then finishItem v ItemSkipped
                 else retainLive v w))"

section \<open>Items that stop\<close>

definition failRun :: "execEnv \<Rightarrow> unit exec" where
  "failRun v = bindX (faultPoint v) (\<lambda>_. modifies (\<lambda>s. s\<lparr>xsStatus := ItemFailed\<rparr>))"

text \<open>\<open>settle\<close>: a file in retention whose outcome was not recorded goes back, or is recorded there.\<close>

definition settle :: "execEnv \<Rightarrow> destRecord \<Rightarrow> retainedVersion option \<Rightarrow> unit exec" where
  "settle v rec w =
     bindX (lstatDest v (drRetainedPath rec))
       (\<lambda>kept. case kept of
                 None \<Rightarrow> writeTx v (\<lambda>e. settleTx e rec w False False 0 0)
               | Some k \<Rightarrow>
                   bindX (require (stRegular k) ErrOther)
                   (\<lambda>_. bindX (tryX (lstatDest v (drRelPath rec)))
                   (\<lambda>cur. bindX (case cur of
                                   Inl _ \<Rightarrow> ret (True, False)
                                 | Inr None \<Rightarrow>
                                     bindX (tryX (MoveFile v (drRetainedPath rec) (drRelPath rec) True))
                                       (\<lambda>r. ret (case r of Inl _ \<Rightarrow> True | Inr _ \<Rightarrow> False, False))
                                 | Inr (Some c) \<Rightarrow>
                                     bindX (sameDestFile v (drRelPath rec) c (drRetainedPath rec) k) (\<lambda>same. ret (True, \<not> same)))
                   (\<lambda>ru. writeTx v (\<lambda>e. settleTx e rec w (snd ru) (fst ru) (stSize k) (stMtimeNs k))))))"

definition putBack :: "execEnv \<Rightarrow> itemAction \<Rightarrow> string \<Rightarrow> unit exec" where
  "putBack v act itemRel =
     bindX (gets xsD)
       (\<lambda>d. if edRetained d = [] then ret ()
            else bindX (tryX (readRows v (if act = ActionRetain then getTx (deRecordID d) else liveAtTx (xvDest v) itemRel)))
       (\<lambda>r. case r of
              Inr (Some rec) \<Rightarrow>
                if \<not> isLive rec \<or> drRetainedPath rec \<noteq> edRetained d then ret ()
                else bindX (tryX (settle v rec (if edRetainedReason d = [] then None
                         else Some \<lparr>rvMtimeNs = edRetainedMtimeNs d, rvHash = edRetainedHash d, rvReason = edRetainedReason d\<rparr>)))
                     (\<lambda>_. ret ())
            | _ \<Rightarrow> ret ()))"

definition cleanupTemp :: "execEnv \<Rightarrow> string \<Rightarrow> unit exec" where
  "cleanupTemp v itemRel =
     bindX (gets xsD)
       (\<lambda>d. if edTemp d = [] then ret ()
            else if \<not> edTempDone d \<or> edRetained d = [] then removeTemp v
            else bindX (tryX (lstatDest v (edTemp d)))
       (\<lambda>t. bindX (tryX (lstatDest v (edRetained d)))
       (\<lambda>r. bindX (tryX (lstatDest v itemRel))
       (\<lambda>f. case (t, r, f) of
              (Inr t1, Inr r1, Inr f1) \<Rightarrow>
                if (case t1 of Some x \<Rightarrow> stSize x = edTempSize d | None \<Rightarrow> False) \<and> r1 \<noteq> None \<and> f1 = None
                then ret () else removeTemp v
            | _ \<Rightarrow> ret ()))))"

definition salvage :: "execEnv \<Rightarrow> itemAction \<Rightarrow> string \<Rightarrow> unit exec" where
  "salvage v act itemRel =
     bindX (putBack v act itemRel) (\<lambda>_. bindX (tryX (recordEarlierDisplace v itemRel)) (\<lambda>_. removeTemp v))"

definition runAction :: "execEnv \<Rightarrow> itemAction \<Rightarrow> string \<Rightarrow> unit exec" where
  "runAction v act itemRel =
     bindX (recordEarlierDisplace v itemRel)
       (\<lambda>_. case act of
              ActionCopy \<Rightarrow> putCopy v itemRel
            | ActionUpdate \<Rightarrow> putCopy v itemRel
            | ActionAdopt \<Rightarrow> adoptItem v itemRel
            | ActionMove \<Rightarrow> moveItem v itemRel
            | ActionLink \<Rightarrow> linkItem v itemRel
            | ActionPromote \<Rightarrow> promoteItem v itemRel
            | ActionRetain \<Rightarrow> retainItem v
            | _ \<Rightarrow> throw ErrItem)"

definition runItem :: "execEnv \<Rightarrow> itemAction \<Rightarrow> string \<Rightarrow> unit exec" where
  "runItem v act itemRel =
     bindX (gets (\<lambda>s. deSourceID (xsD s)))
       (\<lambda>sid. if sid \<noteq> 0 \<and> \<not> xvHasRoot v then finishItem v ItemSkipped
              else bindX (tryX (runAction v act itemRel))
       (\<lambda>r. case r of
              Inr _ \<Rightarrow> ret ()
            | Inl e \<Rightarrow>
                bindX (gets (\<lambda>s. xvCancelled v (xsTick s)))
                (\<lambda>c. if c
                     then bindX (putBack v act itemRel) (\<lambda>_. bindX (cleanupTemp v itemRel) (\<lambda>_. throw ErrFatal))
                     else if e = ErrFatal
                     then bindX (salvage v act itemRel) (\<lambda>_. throw ErrFatal)
                     else bindX (putBack v act itemRel)
                       (\<lambda>_. bindX (cleanupTemp v itemRel)
                       (\<lambda>_. if e = ErrHeld then finishItem v ItemHeld else failRun v)))))"

end
