(* ===== verification/ExecRules.thy ===== *)
theory ExecRules
  imports SyncExec
begin

text \<open>
  What the execution of an item guarantees about the destination, whatever the environment does at
  any of its steps.
\<close>

section \<open>Programs that keep an invariant\<close>

definition keeps :: "(execState \<Rightarrow> bool) \<Rightarrow> 'a exec \<Rightarrow> bool" where
  "keeps I m \<longleftrightarrow> (\<forall>s. I s \<longrightarrow> I (snd (m s)))"

text \<open>A triple says more of the state after a result; an error keeps the invariant.\<close>

definition triple :: "(execState \<Rightarrow> bool) \<Rightarrow> (execState \<Rightarrow> bool) \<Rightarrow> 'a exec \<Rightarrow> ('a \<Rightarrow> execState \<Rightarrow> bool) \<Rightarrow> bool" where
  "triple I P m Q \<longleftrightarrow> (\<forall>s. P s \<longrightarrow> I (snd (m s)) \<and> (\<forall>x s1. m s = (Inr x, s1) \<longrightarrow> Q x s1))"

lemma keeps_triple: "keeps I m \<longleftrightarrow> triple I I m (\<lambda>_. I)"
  unfolding keeps_def triple_def by (metis snd_conv)

lemma triple_bind:
  assumes "triple I P m R" "\<And>x. triple I (R x) (f x) Q"
  shows "triple I P (bindX m f) Q"
  unfolding triple_def bindX_def
proof (intro allI impI)
  fix s assume "P s"
  with assms(1) have m: "I (snd (m s))" "\<And>x s1. m s = (Inr x, s1) \<Longrightarrow> R x s1" by (auto simp: triple_def)
  show "I (snd (case m s of (Inl e, s1) \<Rightarrow> (Inl e, s1) | (Inr x, s1) \<Rightarrow> f x s1))
      \<and> (\<forall>y s2. (case m s of (Inl e, s1) \<Rightarrow> (Inl e, s1) | (Inr x, s1) \<Rightarrow> f x s1) = (Inr y, s2) \<longrightarrow> Q y s2)"
  proof (cases "m s")
    case (Pair r s1)
    then show ?thesis
    proof (cases r)
      case (Inl e)
      with Pair m show ?thesis by simp
    next
      case (Inr x)
      with Pair m(2) have "R x s1" by simp
      with assms(2) Pair Inr show ?thesis by (auto simp: triple_def)
    qed
  qed
qed

lemma triple_weaken:
  "triple I P m Q \<Longrightarrow> (\<And>s. P1 s \<Longrightarrow> P s) \<Longrightarrow> (\<And>x s. Q x s \<Longrightarrow> Q1 x s) \<Longrightarrow> triple I P1 m Q1"
  unfolding triple_def by blast

lemma keeps_bind: "keeps I m \<Longrightarrow> (\<And>x. keeps I (f x)) \<Longrightarrow> keeps I (bindX m f)"
  unfolding keeps_triple by (rule triple_bind)

lemma keeps_ret: "keeps I (ret x)"
  by (simp add: keeps_def ret_def)

lemma keeps_throw: "keeps I (throw e)"
  by (simp add: keeps_def throw_def)

lemma keeps_require: "keeps I (require b e)"
  by (simp add: require_def keeps_ret keeps_throw)

lemma keeps_gets: "keeps I (gets f)"
  by (simp add: keeps_def gets_def)

lemma keeps_tryX: "keeps I m \<Longrightarrow> keeps I (tryX m)"
  unfolding keeps_def tryX_def by (auto split: prod.splits sum.splits execErr.splits)

lemma keeps_bind_gets: "(\<And>s. I s \<Longrightarrow> R (g s)) \<Longrightarrow> (\<And>x. R x \<Longrightarrow> keeps I (f x)) \<Longrightarrow> keeps I (bindX (gets g) f)"
  by (simp add: keeps_def bindX_def gets_def)

lemma keeps_if: "(b \<Longrightarrow> keeps I m) \<Longrightarrow> (\<not> b \<Longrightarrow> keeps I n) \<Longrightarrow> keeps I (if b then m else n)"
  by simp

lemma keeps_option:
  "(x = None \<Longrightarrow> keeps I m) \<Longrightarrow> (\<And>y. x = Some y \<Longrightarrow> keeps I (f y)) \<Longrightarrow> keeps I (case x of None \<Rightarrow> m | Some y \<Rightarrow> f y)"
  by (cases x) auto

lemma keeps_sum:
  "(\<And>y. x = Inl y \<Longrightarrow> keeps I (f y)) \<Longrightarrow> (\<And>y. x = Inr y \<Longrightarrow> keeps I (g y)) \<Longrightarrow> keeps I (case x of Inl y \<Rightarrow> f y | Inr y \<Rightarrow> g y)"
  by (cases x) auto

lemmas keeps_basic = keeps_ret keeps_throw keeps_require keeps_gets keeps_tryX keeps_if keeps_option keeps_sum

text \<open>What a program's result says, from a state with the invariant.\<close>

definition gives :: "(execState \<Rightarrow> bool) \<Rightarrow> 'a exec \<Rightarrow> ('a \<Rightarrow> bool) \<Rightarrow> bool" where
  "gives I m R \<longleftrightarrow> (\<forall>s x s1. I s \<longrightarrow> m s = (Inr x, s1) \<longrightarrow> R x)"

lemma keeps_bind_gives:
  assumes "keeps I m" "gives I m R" "\<And>x. R x \<Longrightarrow> keeps I (f x)"
  shows "keeps I (bindX m f)"
  unfolding keeps_triple
proof (rule triple_bind [where R = "\<lambda>x s. R x \<and> I s"])
  show "triple I I m (\<lambda>x s. R x \<and> I s)"
    using assms(1,2) unfolding triple_def keeps_def gives_def by (metis snd_conv)
  show "triple I (\<lambda>s. R x \<and> I s) (f x) (\<lambda>_. I)" for x
    using assms(3) [of x] unfolding triple_def keeps_def by (metis snd_conv)
qed

lemma gives_bind: "keeps I m \<Longrightarrow> (\<And>x. gives I (f x) R) \<Longrightarrow> gives I (bindX m f) R"
  unfolding gives_def keeps_def bindX_def by (auto split: prod.splits sum.splits) (metis snd_conv)

lemma gives_gets: "(\<And>s. I s \<Longrightarrow> R (g s)) \<Longrightarrow> gives I (gets g) R"
  by (simp add: gives_def gets_def)

text \<open>An invariant of the filesystem, the records and the detail is kept by every program that only
  reads them: the steps of the environment, and the writes of the item's saved detail and status.\<close>

locale step_invariant =
  fixes I :: "execState \<Rightarrow> bool"
  assumes tick: "I (s\<lparr>xsTick := t\<rparr>) = I s"
    and saved: "I s \<Longrightarrow> I (s\<lparr>xsSaved := xsD s\<rparr>)"
    and status: "I (s\<lparr>xsStatus := st\<rparr>) = I s"
begin

lemma keeps_ask: "keeps I (ask q)"
  by (simp add: keeps_def ask_def tick)

lemma keeps_faultPoint: "keeps I (faultPoint v)"
  unfolding faultPoint_def by (rule keeps_ask)

lemma keeps_sourceStat: "keeps I (sourceStat v p)"
  unfolding sourceStat_def by (rule keeps_ask)

lemmas env = keeps_ask keeps_faultPoint keeps_sourceStat

lemma keeps_requireRegular: "keeps I (requireRegular p)"
  unfolding requireRegular_def by (intro keeps_bind keeps_basic)

lemma keeps_lstatDest: "keeps I (lstatDest v p)"
  unfolding lstatDest_def by (intro keeps_bind keeps_basic env)

lemma keeps_HashFile: "keeps I (HashFile v p)"
  unfolding HashFile_def by (intro keeps_bind keeps_basic env keeps_requireRegular)

lemma keeps_saveDetail: "keeps I (saveDetail v)"
  unfolding saveDetail_def by (intro keeps_bind env) (simp add: keeps_def modifies_def saved)

lemma keeps_finishItem: "keeps I (finishItem v st)"
  unfolding finishItem_def
  by (intro keeps_bind keeps_basic env keeps_saveDetail) (simp add: keeps_def modifies_def status)

lemma keeps_readRows: "keeps I (readRows v q)"
  unfolding readRows_def by (intro keeps_bind env keeps_gets)

lemmas dest_reads = keeps_requireRegular keeps_lstatDest keeps_HashFile keeps_saveDetail keeps_finishItem keeps_readRows

lemma keeps_sameDestFile: "keeps I (sameDestFile v a sa b sb)"
  unfolding sameDestFile_def by (intro keeps_bind keeps_basic env dest_reads)

lemma keeps_hardlinkOf: "keeps I (hardlinkOf v a sa b sb)"
  unfolding hardlinkOf_def by (intro keeps_bind keeps_basic env keeps_sameDestFile)

lemma keeps_isLinkOf: "keeps I (isLinkOf v r a sa b sb)"
  unfolding isLinkOf_def by (intro keeps_if keeps_sameDestFile keeps_hardlinkOf)

lemma keeps_sourceFile: "keeps I (sourceFile v)"
  unfolding sourceFile_def by (intro keeps_bind keeps_basic env)

lemma keeps_doneItem: "keeps I (doneItem v)"
  unfolding doneItem_def by (rule keeps_finishItem)

lemma keeps_suspect: "keeps I (suspect v rec fin)"
  unfolding suspect_def by (intro keeps_bind keeps_basic env dest_reads)

lemma keeps_hashOrDamaged: "keeps I (hashOrDamaged v rel)"
  unfolding hashOrDamaged_def by (intro keeps_bind keeps_basic env dest_reads)

lemma keeps_oldVersion: "keeps I (oldVersion v rec rel fin reason)"
  unfolding oldVersion_def Let_def by (intro keeps_bind keeps_basic keeps_suspect keeps_hashOrDamaged)

lemma keeps_checkLinks: "keeps I (checkLinks v rec src ds)"
  by (induction ds) (auto intro!: keeps_bind keeps_basic env split: option.split)

lemma keeps_checkDependents: "keeps I (checkDependents v rec src)"
  unfolding checkDependents_def by (intro keeps_bind dest_reads keeps_checkLinks)

lemma keeps_VerifyTemp: "keeps I (VerifyTemp v)"
  unfolding VerifyTemp_def by (intro keeps_basic env)

lemma keeps_reappeared: "keeps I (reappeared v rel)"
  unfolding reappeared_def by (intro keeps_bind keeps_basic env)

lemma keeps_moveStands: "keeps I (moveStands v rec)"
  unfolding moveStands_def by (intro keeps_bind keeps_basic keeps_sourceFile keeps_reappeared)

lemma keeps_linkValid: "keeps I (linkValid v rec0 src)"
  unfolding linkValid_def by (intro keeps_bind keeps_basic env dest_reads)

lemma keeps_promoteStands: "keeps I (promoteStands v t w)"
  unfolding promoteStands_def by (intro keeps_bind keeps_basic env)

lemma keeps_retainDeps: "keeps I (retainDeps v w gone heir ds)"
  by (induction ds arbitrary: gone heir)
    (auto intro!: keeps_bind keeps_basic dest_reads keeps_reappeared)

lemma keeps_failRun: "keeps I (failRun v)"
  unfolding failRun_def by (intro keeps_bind env) (simp add: keeps_def modifies_def status)

lemma keeps_writeTx:
  assumes "\<And>s e t. I s \<Longrightarrow> tx e (xsRows s) = Inr t \<Longrightarrow> I (s\<lparr>xsRows := t\<rparr>)"
  shows "keeps I (writeTx v tx)"
  unfolding writeTx_def
proof (rule keeps_bind [OF keeps_faultPoint])
  show "keeps I (bindX (gets (\<lambda>s. tx (txOf v (xvNow v (xsTick s))) (xsRows s)))
      (\<lambda>r. case r of Inl (DbItem _) \<Rightarrow> throw ErrItem | Inl _ \<Rightarrow> throw ErrOther | Inr t \<Rightarrow> modifies (\<lambda>s. s\<lparr>xsRows := t\<rparr>)))"
    unfolding keeps_def
  proof (intro allI impI)
    fix s :: execState assume s: "I s"
    let ?r = "tx (txOf v (xvNow v (xsTick s))) (xsRows s)"
    from s assms have "I (s\<lparr>xsRows := t\<rparr>)" if "?r = Inr t" for t using that by blast
    with s show "I (snd (bindX (gets (\<lambda>s. tx (txOf v (xvNow v (xsTick s))) (xsRows s)))
      (\<lambda>r. case r of Inl (DbItem _) \<Rightarrow> throw ErrItem | Inl _ \<Rightarrow> throw ErrOther | Inr t \<Rightarrow> modifies (\<lambda>s. s\<lparr>xsRows := t\<rparr>)) s))"
      by (cases ?r) (auto simp: bindX_def gets_def throw_def modifies_def split: dbError.splits)
  qed
qed

lemma keeps_retentionTarget: "keeps I (retentionTarget v rel)"
  unfolding retentionTarget_def by (intro keeps_bind keeps_basic env)

lemmas reads = env dest_reads keeps_sameDestFile keeps_hardlinkOf keeps_isLinkOf keeps_sourceFile keeps_doneItem keeps_suspect
  keeps_hashOrDamaged keeps_oldVersion keeps_checkDependents keeps_VerifyTemp keeps_reappeared keeps_moveStands
  keeps_linkValid keeps_promoteStands keeps_retainDeps keeps_failRun keeps_retentionTarget

end

section \<open>The invariant\<close>

definition tempPath :: "string \<Rightarrow> bool" where
  "tempPath p = IsTempName (pathBase p)"

definition inRetention :: "string \<Rightarrow> bool" where
  "inRetention p = hasPrefix p (RetentionRoot @ ''/'')"

definition okPath :: "string \<Rightarrow> bool" where
  "okPath p \<longleftrightarrow> list_all goodName (splitSlash p) \<and> \<not> tempPath p \<and> \<not> inRetention p"

definition retPath :: "string \<Rightarrow> bool" where
  "retPath p \<longleftrightarrow> \<not> tempPath p \<and> inRetention p"

definition holds :: "destFS \<Rightarrow> string \<Rightarrow> bool" where
  "holds fs c \<longleftrightarrow> (\<exists>p i. \<not> tempPath p \<and> dfNames fs p = Some i \<and> fnData (dfNodes fs i) = c)"

definition rowsOk :: "recTable \<Rightarrow> bool" where
  "rowsOk rows = list_all (\<lambda>r. okPath (drRelPath r)) rows"

definition detailOk :: "execDetail \<Rightarrow> bool" where
  "detailOk d \<longleftrightarrow> (edRetained d = [] \<or> retPath (edRetained d)) \<and> (edDisplaced d = [] \<or> retPath (edDisplaced d))"

definition fsOk :: "destFS \<Rightarrow> bool" where
  "fsOk fs \<longleftrightarrow> (\<forall>p i. dfNames fs p = Some i \<longrightarrow> i < dfNext fs)"

definition safe :: "string set \<Rightarrow> execState \<Rightarrow> bool" where
  "safe C s \<longleftrightarrow> fsOk (xsFS s) \<and> (\<forall>c \<in> C. holds (xsFS s) c) \<and> rowsOk (xsRows s) \<and> detailOk (xsD s) \<and> detailOk (xsSaved s)"

lemma safe_tick [simp]: "safe C (s\<lparr>xsTick := t\<rparr>) = safe C s"
  by (simp add: safe_def)

lemma safe_status [simp]: "safe C (s\<lparr>xsStatus := st\<rparr>) = safe C s"
  by (simp add: safe_def)

lemma safe_saved [simp]: "safe C s \<Longrightarrow> safe C (s\<lparr>xsSaved := xsD s\<rparr>)"
  by (simp add: safe_def)

text \<open>The invariant, alone and with a fact about the filesystem and the detail.\<close>

interpretation sf: step_invariant "safe C" for C
  by unfold_locales simp_all

interpretation sfx: step_invariant "\<lambda>s. safe C s \<and> J (xsFS s) (xsD s)" for C J
  by unfold_locales simp_all

lemma safe_modD: "(\<And>d. detailOk d \<Longrightarrow> detailOk (f d)) \<Longrightarrow> keeps (safe C) (modD f)"
  by (simp add: keeps_def modD_def modifies_def safe_def)

lemma safe_modFS:
  "(\<And>fs. fsOk fs \<Longrightarrow> (\<forall>c \<in> C. holds fs c) \<Longrightarrow> fsOk (f fs) \<and> (\<forall>c \<in> C. holds (f fs) c)) \<Longrightarrow> keeps (safe C) (modFS f)"
  by (simp add: keeps_def modFS_def modifies_def safe_def)

section \<open>Operations of the copy engine\<close>

lemma holds_rename:
  assumes "holds fs c" "dfNames fs q = None" "\<not> tempPath q \<or> tempPath p"
  shows "holds (renameFS p q fs) c"
proof -
  from assms(1) obtain r i where r: "\<not> tempPath r" "dfNames fs r = Some i" "fnData (dfNodes fs i) = c" by (auto simp: holds_def)
  show ?thesis
  proof (cases "r = p")
    case True
    with r assms show ?thesis unfolding holds_def renameFS_def by (intro exI [of _ q] exI [of _ i]) auto
  next
    case False
    with r assms show ?thesis unfolding holds_def renameFS_def by (intro exI [of _ r] exI [of _ i]) auto
  qed
qed

lemma fsOk_rename: "fsOk fs \<Longrightarrow> fsOk (renameFS p q fs)"
  by (auto simp: fsOk_def renameFS_def)

lemma safe_renameName:
  assumes "\<not> tempPath q \<or> tempPath p"
  shows "keeps (safe C) (renameName p q True)"
  unfolding keeps_def renameName_def
proof (intro allI impI)
  fix s assume s: "safe C s"
  show "safe C (snd (bindX (gets (\<lambda>s. dfNames (xsFS s) q))
        (\<lambda>n. bindX (require (\<not> True \<or> n = None) ErrExists) (\<lambda>_. modFS (renameFS p q))) s))"
  proof (cases "dfNames (xsFS s) q = None")
    case True
    have "safe C (s\<lparr>xsFS := renameFS p q (xsFS s)\<rparr>)"
      using s holds_rename [OF _ True assms] fsOk_rename by (simp add: safe_def)
    with True show ?thesis by (simp add: bindX_def gets_def require_def ret_def modFS_def modifies_def)
  next
    case False
    with s show ?thesis by (auto simp: bindX_def gets_def require_def throw_def)
  qed
qed

lemma safe_MoveFile: "\<not> tempPath q \<Longrightarrow> keeps (safe C) (MoveFile v p q True)"
  unfolding MoveFile_def by (intro keeps_bind keeps_basic sf.env sf.keeps_requireRegular safe_renameName) simp

lemma holds_linkFS:
  assumes "dfNames fs q = None" "holds fs c"
  shows "holds (linkFS p q fs) c"
proof -
  from assms(2) obtain r i where r: "\<not> tempPath r" "dfNames fs r = Some i" "fnData (dfNodes fs i) = c" by (auto simp: holds_def)
  with assms(1) show ?thesis unfolding holds_def linkFS_def by (intro exI [of _ r] exI [of _ i]) auto
qed

lemma fsOk_linkFS: "fsOk fs \<Longrightarrow> fsOk (linkFS p q fs)"
  by (auto simp: fsOk_def linkFS_def)

lemma safe_LinkFile: "keeps (safe C) (LinkFile v p q)"
proof -
  have ok: "safe C (s\<lparr>xsFS := linkFS p q (xsFS s)\<rparr>)" if "safe C s" "dfNames (xsFS s) q = None" for s
    using that by (simp add: safe_def holds_linkFS fsOk_linkFS)
  have "keeps (safe C) (faultPoint v)" by (rule sf.keeps_faultPoint)
  then have link: "keeps (safe C) (bindX (gets (\<lambda>s. dfNames (xsFS s) q)) (\<lambda>n. bindX (require (n = None) ErrExists)
      (\<lambda>_. bindX (modFS (linkFS p q)) (\<lambda>_. faultPoint v))))"
    unfolding keeps_def bindX_def gets_def require_def modFS_def modifies_def ret_def throw_def
    by (auto simp: ok)
  show ?thesis unfolding LinkFile_def by (intro keeps_bind keeps_basic sf.env sf.keeps_requireRegular link)
qed

lemma safe_CommitTemp: "keeps (safe C) (CommitTemp v temp q True)"
proof (cases "tempPath temp")
  case True
  then show ?thesis
    unfolding CommitTemp_def by (intro keeps_bind keeps_basic sf.env sf.keeps_requireRegular safe_renameName) simp
next
  case False
  then show ?thesis by (simp add: CommitTemp_def keeps_def bindX_def require_def throw_def tempPath_def)
qed

lemma safe_removeFS: "tempPath p \<Longrightarrow> keeps (safe C) (modFS (removeFS p))"
proof (rule safe_modFS)
  fix fs assume "tempPath p" "fsOk fs" "\<forall>c \<in> C. holds fs c"
  then show "fsOk (removeFS p fs) \<and> (\<forall>c \<in> C. holds (removeFS p fs) c)"
    by (auto simp: fsOk_def removeFS_def holds_def) metis
qed

lemma safe_CleanupTemp: "keeps (safe C) (CleanupTemp v temp)"
proof (cases "tempPath temp")
  case True
  show ?thesis
    unfolding CleanupTemp_def by (intro keeps_bind keeps_basic sf.env safe_removeFS True)
next
  case False
  then show ?thesis by (simp add: CleanupTemp_def keeps_def bindX_def require_def throw_def tempPath_def)
qed

lemma safe_SetMtime: "keeps (safe C) (SetMtime v p t)"
proof -
  have "fsOk (changeFS p (\<lambda>n. n\<lparr>fnMtimeNs := t\<rparr>) fs) \<and> (\<forall>c \<in> C. holds (changeFS p (\<lambda>n. n\<lparr>fnMtimeNs := t\<rparr>) fs) c)"
    if "fsOk fs" "\<forall>c \<in> C. holds fs c" for fs
  proof -
    have "fnData (dfNodes (changeFS p (\<lambda>n. n\<lparr>fnMtimeNs := t\<rparr>) fs) i) = fnData (dfNodes fs i)"
      "dfNames (changeFS p (\<lambda>n. n\<lparr>fnMtimeNs := t\<rparr>) fs) = dfNames fs" "dfNext (changeFS p (\<lambda>n. n\<lparr>fnMtimeNs := t\<rparr>) fs) = dfNext fs" for i
      by (auto simp: changeFS_def split: option.splits)
    with that show ?thesis by (simp add: fsOk_def holds_def)
  qed
  then show ?thesis
    unfolding SetMtime_def by (intro keeps_bind keeps_basic sf.env sf.keeps_requireRegular safe_modFS)
qed

text \<open>Statements and transactions that keep the recorded paths.\<close>

definition rok :: "dbError + recTable \<Rightarrow> bool" where
  "rok m = (case m of Inl _ \<Rightarrow> True | Inr t \<Rightarrow> rowsOk t)"

lemma rok_simps [simp]: "rok (Inl e)" "rok (Inr t) = rowsOk t"
  by (simp_all add: rok_def)

lemma rok_sbind: "rok m \<Longrightarrow> (\<And>t. rowsOk t \<Longrightarrow> rok (f t)) \<Longrightarrow> rok (sbind m f)"
  by (cases m) (simp_all add: sbind_def)

lemma rok_constrained: "rowsOk rows \<Longrightarrow> rok (constrained rows)"
  by (simp add: constrained_def)

lemma rok_updateRows: "rowsOk rows \<Longrightarrow> (\<And>r. okPath (drRelPath r) \<Longrightarrow> okPath (drRelPath (f r))) \<Longrightarrow> rok (updateRows P f rows)"
  unfolding updateRows_def by (rule rok_constrained) (auto simp: rowsOk_def list_all_iff)

lemma rok_updateRecord: "rowsOk rows \<Longrightarrow> okPath (drRelPath rec) \<Longrightarrow> rok (updateRecord rec rows)"
  by (simp add: updateRecord_def rok_updateRows)

lemma rok_insertRecord: "rowsOk rows \<Longrightarrow> okPath (drRelPath rec) \<Longrightarrow> rok (insertRecord rec rows)"
  unfolding insertRecord_def by (rule rok_constrained) (auto simp: rowsOk_def)

lemma rok_insertRetained: "rowsOk rows \<Longrightarrow> okPath (drRelPath rec) \<Longrightarrow> rok (insertRetained rec rows)"
  by (simp add: insertRetained_def rok_insertRecord)

lemma rok_repoint: "rowsOk rows \<Longrightarrow> rok (repoint i j rows)"
  unfolding repoint_def by (intro rok_sbind rok_updateRows) simp_all

lemma rok_deleteRecord: "rowsOk rows \<Longrightarrow> rok (deleteRecord i rows)"
  unfolding deleteRecord_def
  by (rule rok_sbind, rule rok_updateRows) (auto simp: rowsOk_def list_all_iff)

lemma rok_deleteAll: "rowsOk rows \<Longrightarrow> rok (deleteAll is rows)"
  by (induction "is" arbitrary: rows) (auto intro!: rok_sbind rok_deleteRecord)

lemma rok_loseLinks: "rowsOk rows \<Longrightarrow> rok (loseLinks i is rows)"
  by (induction "is" arbitrary: rows) (auto intro!: rok_sbind rok_updateRows)

lemma rowsOk_row: "rowsOk rows \<Longrightarrow> r \<in> set rows \<Longrightarrow> okPath (drRelPath r)"
  by (simp add: rowsOk_def list_all_iff)

lemma rok_releaseAll:
  "rowsOk rows \<Longrightarrow> \<forall>d \<in> set ds. okPath (drRelPath d) \<Longrightarrow> rok (releaseAll ds rows)"
  by (induction ds arbitrary: rows) (auto intro!: rok_sbind rok_updateRecord)

lemma rok_releaseDependents: "rowsOk rows \<Longrightarrow> rok (releaseDependents r rows)"
  unfolding releaseDependents_def Dependents_def
  by (cases "drState r = StateMissing") (auto intro!: rok_releaseAll dest: rowsOk_row)

lemma find_okPath: "rowsOk rows \<Longrightarrow> find P rows = Some r \<Longrightarrow> okPath (drRelPath r)"
  by (auto simp: find_Some_iff rowsOk_def list_all_length)

lemmas rok_statements = rok_sbind rok_updateRecord rok_insertRecord rok_insertRetained rok_repoint rok_deleteRecord
  rok_deleteAll rok_loseLinks rok_releaseDependents

lemma retainedRow_rel [simp]: "drRelPath (retainedRow e sid rel srel p sz m h reason) = rel"
  by (simp add: retainedRow_def)

lemma rok_adoptedTx: "rowsOk rows \<Longrightarrow> okPath dest \<Longrightarrow> rok (adoptedTx e dest d sz m h rows)"
  by (auto simp: adoptedTx_def Let_def split: option.splits intro!: rok_statements)

lemma rok_displacedTx: "rowsOk rows \<Longrightarrow> okPath rel \<Longrightarrow> rok (displacedTx e rel d rows)"
  by (auto simp: displacedTx_def intro!: rok_statements)

lemma rok_placedTx: "rowsOk rows \<Longrightarrow> okPath dest \<Longrightarrow> rok (placedTx e dest d retained rows)"
  unfolding placedTx_def Let_def
  by (rule rok_sbind) (auto split: option.splits intro!: rok_statements)

lemma rok_moveTx: "rowsOk rows \<Longrightarrow> okPath to \<Longrightarrow> rok (moveTx e i to source rows)"
proof -
  assume ok: "rowsOk rows" "okPath to"
  have "rok m \<Longrightarrow> rok (case m of Inl DbUnique \<Rightarrow> Inl (DbItem w) | r \<Rightarrow> r)" for m w
    by (cases m) (auto split: dbError.splits)
  with ok show ?thesis by (auto simp: moveTx_def rok_updateRecord split: option.split)
qed

lemma rok_linkTx: "rowsOk rows \<Longrightarrow> okPath dest \<Longrightarrow> rok (linkTx e dest d mode prim sz m retained rows)"
  unfolding linkTx_def Let_def
  by (cases "getTx prim rows") (auto split: option.splits intro!: rok_statements)

lemma rok_promoteTx:
  "rowsOk rows \<Longrightarrow> okPath (drRelPath t) \<Longrightarrow> okPath (drRelPath w) \<Longrightarrow> rok (promoteTx e t w moved forRetain rows)"
  unfolding promoteTx_def by (auto intro!: rok_statements)

lemma rok_retainTx: "rowsOk rows \<Longrightarrow> okPath (drRelPath w) \<Longrightarrow> rok (retainTx e w d gone heir retained rows)"
  unfolding retainTx_def Let_def getTx_def
  by (rule rok_sbind) (auto split: option.splits intro!: rok_statements intro: find_okPath)

lemma rok_setIntentTx: "rowsOk rows \<Longrightarrow> rok (setIntentTx dest rel retained reason rows)"
  unfolding setIntentTx_def Let_def by (auto intro!: rok_sbind rok_updateRows)

lemma rok_settleTx: "rowsOk rows \<Longrightarrow> okPath (drRelPath rec) \<Longrightarrow> rok (settleTx e rec w unknown isRec sz m rows)"
  unfolding settleTx_def settledRow_def Let_def clearIntentTx_def
  by (auto intro!: rok_sbind rok_updateRows rok_insertRetained)

lemma safe_writeTx:
  assumes "\<And>e rows. rowsOk rows \<Longrightarrow> rok (tx e rows)"
  shows "keeps (safe C) (writeTx v tx)"
proof (rule sf.keeps_writeTx)
  fix s e t assume "safe C s" "tx e (xsRows s) = Inr t"
  with assms [of "xsRows s" e] show "safe C (s\<lparr>xsRows := t\<rparr>)" by (simp add: safe_def)
qed

section \<open>Paths of temp files and of retention\<close>

lemma splitSlash_snoc_name:
  "CHR ''/'' \<notin> set w \<Longrightarrow> splitSlash (d @ CHR ''/'' # w) = splitSlash d @ [w]"
proof (induction d)
  case Nil
  then show ?case by (simp add: splitSlash_name)
next
  case (Cons c d)
  obtain a as where "splitSlash d = a # as" by (cases "splitSlash d") auto
  with Cons show ?case by simp
qed

lemma joinSlash_snoc2: "ws \<noteq> [] \<Longrightarrow> joinSlash (ws @ [w]) = joinSlash ws @ CHR ''/'' # w"
  by (induction ws rule: joinSlash.induct) (simp_all add: joinSlash_Cons)

lemma pathBase_name: "w \<noteq> [] \<Longrightarrow> CHR ''/'' \<notin> set w \<Longrightarrow> pathBase w = w"
proof -
  assume w: "w \<noteq> []" "CHR ''/'' \<notin> set w"
  then have "rev w \<noteq> []" "hd (rev w) \<noteq> CHR ''/''" by (auto simp: hd_rev) (metis last_in_set)
  then have "dropWhile (\<lambda>c. c = CHR ''/'') (rev w) = rev w" by (cases "rev w") auto
  with w show ?thesis by (simp add: pathBase_def Let_def splitSlash_name)
qed

lemma pathBase_join: "w \<noteq> [] \<Longrightarrow> CHR ''/'' \<notin> set w \<Longrightarrow> pathBase (d @ CHR ''/'' # w) = w"
proof -
  assume w: "w \<noteq> []" "CHR ''/'' \<notin> set w"
  then have "rev w \<noteq> []" "hd (rev w) \<noteq> CHR ''/''" by (auto simp: hd_rev) (metis last_in_set)
  then have "dropWhile (\<lambda>c. c = CHR ''/'') (rev w @ CHR ''/'' # rev d) = rev w @ CHR ''/'' # rev d" by (cases "rev w") auto
  with w show ?thesis by (simp add: pathBase_def Let_def splitSlash_snoc_name)
qed

text \<open>The last element of a cleaned join is the name that was joined.\<close>

lemma pathBase_pathJoin:
  assumes "goodName w"
  shows "pathBase (pathJoin d w) = w"
proof -
  have w: "w \<noteq> []" "CHR ''/'' \<notin> set w" using assms by (auto simp: goodName_def)
  have push: "foldl (cleanStep r) [] (splitSlash (x @ CHR ''/'' # w)) = w # foldl (cleanStep r) [] (splitSlash x)" for r x
    using assms by (simp add: splitSlash_snoc_name [OF w(2)] cleanStep_def goodName_def)
  show ?thesis
  proof (cases "d = []")
    case True
    have "pathClean w = w" using pathClean_join(1) [of "[w]"] assms by simp
    with True w show ?thesis by (simp add: pathJoin_def pathBase_name)
  next
    case False
    let ?r = "hd d = CHR ''/''"
    let ?st = "foldl (cleanStep ?r) [] (splitSlash d)"
    have "pathClean (d @ CHR ''/'' # w) = (if ?r then CHR ''/'' # joinSlash (rev ?st @ [w]) else joinSlash (rev ?st @ [w]))"
      using False w by (simp add: pathClean_def Let_def push joinSlash_Nil_iff)
    moreover have "joinSlash (rev ?st @ [w]) = (if ?st = [] then w else joinSlash (rev ?st) @ CHR ''/'' # w)"
      by (cases "?st = []") (simp_all add: joinSlash_snoc2)
    ultimately show ?thesis
      using w False pathBase_join [OF w, of "[]"] pathBase_join [OF w, of "CHR ''/'' # joinSlash (rev ?st)"]
      by (auto simp: pathJoin_def pathBase_join pathBase_name)
  qed
qed

lemma tempPath_tempName:
  assumes "CHR ''/'' \<notin> set rnd" "CHR ''/'' \<notin> set base"
  shows "tempPath (pathJoin d (tempName rnd base))"
proof -
  have "set (truncateUTF8 base maxTempBase) \<subseteq> set base" by (auto simp: truncateUTF8_def dest: in_set_takeD)
  with assms have "goodName (tempName rnd base)" by (auto simp: goodName_def tempName_def TempPrefix_def)
  then show ?thesis by (simp add: tempPath_def pathBase_pathJoin IsTempName_def hasPrefix_def tempName_def)
qed

lemma pathBase_no_slash: "checkRel p \<Longrightarrow> CHR ''/'' \<notin> set (pathBase p)"
proof -
  assume "checkRel p"
  have "CHR ''/'' \<notin> set (last (splitSlash q))" for q using splitSlash_no_slash [OF last_in_set [OF splitSlash_ne]] .
  moreover have "rev (dropWhile (\<lambda>c. c = CHR ''/'') (rev p)) \<noteq> []" if "p \<noteq> []" "hd p \<noteq> CHR ''/''"
  proof -
    have "\<exists>x \<in> set p. x \<noteq> CHR ''/''" using that by (metis hd_in_set)
    then show ?thesis by simp
  qed
  ultimately show ?thesis using \<open>checkRel p\<close> by (auto simp: pathBase_def Let_def checkRel_def)
qed

lemma okPath_parts:
  assumes "okPath p"
  obtains ws w where "splitSlash p = ws @ [w]" "\<forall>x \<in> set (ws @ [w]). goodName x" "pathBase p = w" "\<not> IsTempName w"
proof -
  obtain ws w where sp: "splitSlash p = ws @ [w]" by (metis append_butlast_last_id splitSlash_ne)
  have good: "\<forall>x \<in> set (ws @ [w]). goodName x" using assms by (simp add: okPath_def list_all_iff flip: sp)
  then have w: "w \<noteq> []" "CHR ''/'' \<notin> set w" by (auto simp: goodName_def)
  have "p = joinSlash (ws @ [w])" by (simp flip: sp)
  then have "pathBase p = w" using w by (cases "ws = []") (simp_all add: joinSlash_snoc pathBase_join pathBase_name)
  with sp good assms show thesis by (intro that) (auto simp: okPath_def tempPath_def)
qed

text \<open>A number put into a name before its extension never makes a temp name of it.\<close>

lemma IsTempName_insert:
  assumes "\<not> IsTempName base" "k > 0" "base \<noteq> []"
  shows "\<not> IsTempName (take k base @ CHR ''.'' # z)"
proof
  assume t: "IsTempName (take k base @ CHR ''.'' # z)"
  show False
  proof (cases "length (take k base) \<ge> length TempPrefix")
    case True
    with t have "take (length TempPrefix) base = TempPrefix" by (simp add: IsTempName_def hasPrefix_def take_append min_def split: if_splits)
    with assms(1) show False by (simp add: IsTempName_def hasPrefix_def)
  next
    case False
    define n where "n = length (take k base)"
    with False have n: "n < 13" "0 < n" using assms(2,3) by (auto simp: TempPrefix_def)
    have "TempPrefix ! n = (take k base @ CHR ''.'' # z) ! n"
      using t n by (metis IsTempName_def False hasPrefix_def n_def not_le nth_take)
    then have "TempPrefix ! n = CHR ''.''" by (simp add: n_def nth_append)
    moreover have "TempPrefix ! n \<in> set (tl TempPrefix)"
      using n nth_mem [of "n - 1" "tl TempPrefix"] by (simp add: nth_tl TempPrefix_def)
    ultimately show False by (simp add: TempPrefix_def)
  qed
qed

lemma basePart_join: "CHR ''/'' \<notin> set w \<Longrightarrow> basePart (d @ CHR ''/'' # w) = w"
  by (simp add: basePart_def takeWhile_append)

lemma formatInt_no_slash: "0 \<le> n \<Longrightarrow> CHR ''/'' \<notin> set (formatInt n)"
proof -
  have "\<not> isDigit (CHR ''/'')" by (simp add: isDigit_def)
  then show "0 \<le> n \<Longrightarrow> ?thesis" using formatNat_digits [of "nat n"] by (auto simp: formatInt_def list_all_iff)
qed

lemma pathExt_parts: "set (pathExt b) \<subseteq> insert (CHR ''.'') (set b)" "length (pathExt b) \<le> length b"
    "length (pathExt b) = length b \<Longrightarrow> pathExt b = b"
proof -
  show "set (pathExt b) \<subseteq> insert (CHR ''.'') (set b)" by (auto simp: pathExt_def dest: set_takeWhileD)
  let ?P = "\<lambda>c. c \<noteq> CHR ''.''"
  have eq: "b = pathExt b" if dot: "CHR ''.'' \<in> set b" and len: "length b \<le> Suc (length (takeWhile ?P (rev b)))"
  proof -
    obtain c u where d: "dropWhile ?P (rev b) = c # u" using dot by (cases "dropWhile ?P (rev b)") (auto simp: dropWhile_eq_Nil_conv)
    then have "c = CHR ''.''" using hd_dropWhile [of ?P "rev b"] by simp
    have s: "rev b = takeWhile ?P (rev b) @ c # u" by (simp flip: d)
    then have "length b = length (takeWhile ?P (rev b)) + Suc (length u)" by (metis length_append length_Cons length_rev)
    with len have "u = []" by simp
    with s have "b = rev (takeWhile ?P (rev b) @ [c])" by (metis rev_rev_ident)
    with dot \<open>c = CHR ''.''\<close> show ?thesis by (simp add: pathExt_def)
  qed
  have "length (takeWhile ?P (rev b)) < length b" if "CHR ''.'' \<in> set b"
  proof -
    from that have "dropWhile ?P (rev b) \<noteq> []" by (auto simp: dropWhile_eq_Nil_conv)
    moreover have "length (takeWhile ?P (rev b)) + length (dropWhile ?P (rev b)) = length b"
      by (metis length_append length_rev takeWhile_dropWhile_id)
    ultimately show ?thesis by (metis add_cancel_right_right le_add1 le_neq_implies_less length_0_conv)
  qed
  then show "length (pathExt b) \<le> length b" by (simp add: pathExt_def Suc_le_eq)
  show "length (pathExt b) = length b \<Longrightarrow> pathExt b = b" using eq by (auto simp: pathExt_def split: if_splits)
qed

lemma suffixed_name:
  assumes "goodName w" "\<not> IsTempName w" "0 \<le> n"
  obtains z where "suffixed (d @ CHR ''/'' # w) n = d @ CHR ''/'' # z" "z \<noteq> []" "CHR ''/'' \<notin> set z" "\<not> IsTempName z"
proof (cases "n = 0")
  case True
  with assms show thesis by (intro that [of w]) (auto simp: suffixed_def goodName_def)
next
  case False
  have w: "w \<noteq> []" "CHR ''/'' \<notin> set w" using assms(1) by (auto simp: goodName_def)
  let ?ext = "if pathExt w = w then [] else pathExt w"
  let ?k = "length w - length ?ext"
  let ?z = "take ?k w @ ''.'' @ formatInt n @ ?ext"
  have "?k > 0" using w(1) pathExt_parts(2,3) [of w] by (auto simp: le_less)
  then have "\<not> IsTempName ?z" using IsTempName_insert [OF assms(2), of ?k] w(1) by simp
  moreover have "CHR ''/'' \<notin> set ?z"
    using w(2) pathExt_parts(1) [of w] formatInt_no_slash [OF assms(3)] by (auto dest: in_set_takeD)
  moreover have "suffixed (d @ CHR ''/'' # w) n = d @ CHR ''/'' # ?z"
    using False by (simp add: suffixed_def Let_def basePart_join [OF w(2)] dirPart_join [OF w(2)])
  ultimately show thesis by (intro that [of ?z]) auto
qed

lemma targetFrom_name:
  "targetFrom names p i = Some t \<Longrightarrow> 0 \<le> i \<Longrightarrow> (\<exists>n \<ge> 0. t = suffixed p n) \<and> names t = None"
proof (induction names p i rule: targetFrom.induct)
  case (1 names p i)
  show ?case
  proof (cases "i > maxRetentionSuffix \<or> names (suffixed p i) = None")
    case True
    with 1(2,3) show ?thesis by (auto simp: targetFrom.simps [of names p i] split: if_splits)
  next
    case False
    with 1(2) have "targetFrom names p (i + 1) = Some t" by (auto simp: targetFrom.simps [of names p i])
    with False 1(1,3) show ?thesis by auto
  qed
qed

text \<open>A target in retention is a free name there, and no temp name.\<close>

lemma checkRel_names: "checkRel p \<Longrightarrow> \<forall>w \<in> set (splitSlash p). goodName w"
  by (rule ValidTargetPath_names) (simp add: checkRel_def ValidTargetPath_def hasPrefix_def numeral_3_eq_3)

lemma retentionDir_name:
  assumes "checkRetentionDir dir"
  obtains x where "dir = joinSlash [''.bunkarr'', ''retention'', x]" "goodName x"
proof -
  let ?x = "drop (length RetentionRoot + 1) dir"
  have x: "checkRel dir" "CHR ''/'' \<notin> set ?x" "dir = RetentionRoot @ CHR ''/'' # ?x"
    using assms append_take_drop_id [of "length RetentionRoot + 1" dir]
    by (auto simp: checkRetentionDir_def hasPrefix_def Let_def)
  then have "?x \<in> set (splitSlash dir)" using splitSlash_snoc_name [OF x(2), of RetentionRoot] by (metis in_set_conv_decomp)
  with checkRel_names [OF x(1)] have "goodName ?x" by blast
  moreover have "dir = joinSlash [''.bunkarr'', ''retention'', ?x]" using x(3) by (simp add: RetentionRoot_def)
  ultimately show thesis by (rule that [rotated])
qed

lemma target_retPath:
  assumes "checkRetentionDir dir" "okPath rel" "targetFrom names (pathJoin dir rel) 0 = Some t"
  shows "retPath t" "names t = None"
proof -
  obtain x where x: "dir = joinSlash [''.bunkarr'', ''retention'', x]" "goodName x" using retentionDir_name [OF assms(1)] .
  obtain ws w where ws: "splitSlash rel = ws @ [w]" "\<forall>y \<in> set (ws @ [w]). goodName y" "\<not> IsTempName w"
    using okPath_parts [OF assms(2)] by metis
  let ?ds = "[''.bunkarr'', ''retention'', x] @ ws"
  have rel: "rel = joinSlash (ws @ [w])" by (simp flip: ws(1))
  have all: "\<forall>y \<in> set (?ds @ [w]). goodName y" using ws(2) x(2) by (simp add: goodName_def)
  have "rel \<noteq> []" unfolding rel by (rule goodNames_join(1) [OF _ ws(2)]) simp
  have "joinSlash (?ds @ [w]) = dir @ CHR ''/'' # rel" unfolding x(1) rel by (simp add: joinSlash_Cons)
  then have "pathJoin dir rel = joinSlash (?ds @ [w])"
    using pathClean_join(1) [OF _ all] \<open>rel \<noteq> []\<close> x(1) by (simp add: pathJoin_def del: append.simps)
  then have p: "pathJoin dir rel = joinSlash ?ds @ CHR ''/'' # w" by (subst (asm) joinSlash_snoc) simp_all
  obtain n where n: "n \<ge> 0" "t = suffixed (joinSlash ?ds @ CHR ''/'' # w) n" "names t = None"
    using targetFrom_name [OF assms(3)] unfolding p by auto
  show "names t = None" by (rule n(3))
  obtain z where z: "t = joinSlash ?ds @ CHR ''/'' # z" "z \<noteq> []" "CHR ''/'' \<notin> set z" "\<not> IsTempName z"
    using suffixed_name [OF _ ws(3) n(1)] ws(2) n(2) by (metis in_set_conv_decomp)
  have "\<not> tempPath t" by (simp add: tempPath_def z pathBase_join del: append.simps)
  moreover have "inRetention t" by (cases "ws") (simp_all add: z(1) inRetention_def hasPrefix_def RetentionRoot_def)
  ultimately show "retPath t" by (simp add: retPath_def)
qed

end
