(* ===== verification/ExecSafety.thy ===== *)
theory ExecSafety
  imports ExecRules
begin

text \<open>
  The execution of an item never loses content: whatever the environment does at any step (faults,
  a crash, a source that changes), a content that a file of the destination had under a name that is
  no temp name is there under such a name afterwards.
\<close>

section \<open>The environment\<close>

definition envOk :: "execEnv \<Rightarrow> bool" where
  "envOk v \<longleftrightarrow> (\<forall>t. CHR ''/'' \<notin> set (xvRandom v t)) \<and> inj (xvHash v)"

lemma triple_keeps: "keeps I m \<Longrightarrow> (\<And>s. P s \<Longrightarrow> I s) \<Longrightarrow> triple I P m (\<lambda>_. I)"
  unfolding triple_def keeps_def by (metis snd_conv)

lemma triple_frame: "keeps (\<lambda>s. I s \<and> J s) m \<Longrightarrow> triple I (\<lambda>s. I s \<and> J s) m (\<lambda>_ s. I s \<and> J s)"
  unfolding triple_def keeps_def by (metis snd_conv)

lemma triple_throw: "(\<And>s. P s \<Longrightarrow> I s) \<Longrightarrow> triple I P (throw e) Q"
  by (simp add: triple_def throw_def)

lemma triple_ret: "(\<And>s. P s \<Longrightarrow> I s \<and> Q x s) \<Longrightarrow> triple I P (ret x) Q"
  by (simp add: triple_def ret_def)

lemma triple_gets: "(\<And>s. P s \<Longrightarrow> I s \<and> Q (g s) s) \<Longrightarrow> triple I P (gets g) Q"
  by (simp add: triple_def gets_def)

lemma triple_require: "(\<And>s. P s \<Longrightarrow> I s) \<Longrightarrow> (\<And>s. P s \<Longrightarrow> b \<Longrightarrow> Q () s) \<Longrightarrow> triple I P (require b e) Q"
  by (simp add: triple_def require_def ret_def throw_def)

lemma triple_cond: "(b \<Longrightarrow> triple I P m Q) \<Longrightarrow> (\<not> b \<Longrightarrow> triple I P n Q) \<Longrightarrow> triple I P (if b then m else n) Q"
  by simp

lemma triple_pre: "(\<And>s. P s \<Longrightarrow> b) \<Longrightarrow> (b \<Longrightarrow> triple I P m Q) \<Longrightarrow> triple I P m Q"
  unfolding triple_def by blast

section \<open>Temp files\<close>

text \<open>A new temp file's inode has no other name, so filling it changes no other file.\<close>

definition alone :: "string \<Rightarrow> destFS \<Rightarrow> bool" where
  "alone temp fs \<longleftrightarrow> (\<forall>p i. p \<noteq> temp \<longrightarrow> dfNames fs p = Some i \<longrightarrow> dfNames fs temp \<noteq> Some i)"

lemma alone_changeFS [simp]: "alone temp (changeFS p f fs) = alone temp fs"
  by (simp add: alone_def changeFS_def split: option.splits)

lemma holds_changeFS: "alone temp fs \<Longrightarrow> tempPath temp \<Longrightarrow> holds fs c \<Longrightarrow> holds (changeFS temp f fs) c"
  unfolding holds_def alone_def changeFS_def by (auto split: option.splits) metis

lemma fsOk_changeFS: "fsOk fs \<Longrightarrow> fsOk (changeFS p f fs)"
  by (simp add: fsOk_def changeFS_def split: option.splits)

lemma keeps_changeFS:
  "tempPath temp \<Longrightarrow> keeps (\<lambda>s. safe C s \<and> alone temp (xsFS s)) (modFS (changeFS temp f))"
  by (auto simp: keeps_def modFS_def modifies_def safe_def holds_changeFS fsOk_changeFS)

lemma keeps_fillTemp:
  assumes "tempPath temp"
  shows "keeps (\<lambda>s. safe C s \<and> alone temp (xsFS s)) (fillTemp v srcRel temp before)"
  unfolding fillTemp_def by (intro keeps_bind keeps_basic sfx.env keeps_changeFS assms)

lemma holds_removeFS: "tempPath temp \<Longrightarrow> holds fs c \<Longrightarrow> holds (removeFS temp fs) c"
  unfolding holds_def removeFS_def by auto

lemma fsOk_removeFS: "fsOk fs \<Longrightarrow> fsOk (removeFS p fs)"
  by (simp add: fsOk_def removeFS_def)

lemma keeps_removeOnError:
  assumes "keeps I m" "\<And>s. I s \<Longrightarrow> I (s\<lparr>xsFS := removeFS temp (xsFS s)\<rparr>)"
  shows "keeps I (removeOnError temp m)"
  unfolding keeps_def
proof (intro allI impI)
  fix s assume "I s"
  with assms(1) have "I (snd (m s))" by (simp add: keeps_def)
  with assms(2) show "I (snd (removeOnError temp m s))" by (cases "m s"; cases "fst (m s)") (auto simp: removeOnError_def)
qed

lemma triple_removeOnError:
  assumes "keeps (\<lambda>s. safe C s \<and> J s) m" "tempPath temp"
  shows "triple (safe C) (\<lambda>s. safe C s \<and> J s) (removeOnError temp m) (\<lambda>_. safe C)"
  unfolding triple_def
proof (intro allI impI conjI)
  fix s assume "safe C s \<and> J s"
  with assms(1) have "safe C (snd (m s))" by (simp add: keeps_def)
  then show "safe C (snd (removeOnError temp m s))"
    using assms(2) by (auto simp: removeOnError_def safe_def holds_removeFS fsOk_removeFS split: prod.splits sum.splits)
  fix x s1 assume "removeOnError temp m s = (Inr x, s1)"
  with \<open>safe C (snd (m s))\<close> show "safe C s1" by (auto simp: removeOnError_def split: prod.splits sum.splits)
qed

lemma triple_createTemp:
  assumes "tempPath temp"
  shows "triple (safe C) (safe C) (createTemp temp) (\<lambda>_ s. safe C s \<and> alone temp (xsFS s))"
proof -
  have "safe C (s\<lparr>xsFS := createFS temp (xsFS s)\<rparr>) \<and> alone temp (createFS temp (xsFS s))" if s: "safe C s" for s
  proof -
    have ok: "fsOk (xsFS s)" using s by (simp add: safe_def)
    then have "fsOk (createFS temp (xsFS s))" by (auto simp: fsOk_def createFS_def less_Suc_eq)
    moreover have "holds (createFS temp (xsFS s)) c" if "holds (xsFS s) c" for c
    proof -
      from that obtain p i where p: "\<not> tempPath p" "dfNames (xsFS s) p = Some i" "fnData (dfNodes (xsFS s) i) = c"
        by (auto simp: holds_def)
      with ok assms show ?thesis
        unfolding holds_def createFS_def by (intro exI [of _ p] exI [of _ i]) (auto simp: fsOk_def)
    qed
    moreover have "alone temp (createFS temp (xsFS s))"
      using ok by (auto simp: alone_def createFS_def fsOk_def)
    ultimately show ?thesis using s by (simp add: safe_def)
  qed
  then show ?thesis
    by (auto simp: triple_def createTemp_def bindX_def gets_def require_def ret_def throw_def modFS_def modifies_def)
qed

lemma safe_WriteTemp:
  assumes "envOk v" "\<And>temp. keeps (safe C) (onTemp temp)"
  shows "keeps (safe C) (WriteTemp v srcRel dst onTemp)"
proof (cases "checkRel dst")
  case True
  let ?temp = "\<lambda>s. pathJoin (pathDir dst) (tempName (xvRandom v (xsTick s)) (pathBase dst))"
  have temp: "tempPath (?temp s)" for s
    using tempPath_tempName pathBase_no_slash [OF True] assms(1) by (simp add: envOk_def)
  have fill: "keeps (safe C) (bindX (onTemp temp) (\<lambda>_. bindX (createTemp temp) (\<lambda>_. removeOnError temp (fillTemp v srcRel temp before))))"
    if "tempPath temp" for temp before
  proof (rule keeps_bind [OF assms(2)])
    show "keeps (safe C) (bindX (createTemp temp) (\<lambda>_. removeOnError temp (fillTemp v srcRel temp before)))"
      unfolding keeps_triple
      by (rule triple_bind [OF triple_createTemp [OF that] triple_removeOnError [OF keeps_fillTemp [OF that] that]])
  qed
  show ?thesis
    unfolding WriteTemp_def
    by (intro keeps_bind keeps_basic sf.env keeps_bind_gets [where R = tempPath] temp fill)
next
  case False
  then show ?thesis by (simp add: WriteTemp_def keeps_def bindX_def require_def throw_def checkWritable_def)
qed

section \<open>Retention\<close>

lemma gives_retentionTarget:
  assumes "okPath rel"
  shows "gives I (retentionTarget v rel) retPath"
proof (cases "checkRetentionDir (xvRetentionDir v)")
  case True
  have "retPath t" if "targetFrom names (pathJoin (xvRetentionDir v) rel) 0 = Some t" for names t
    by (rule target_retPath(1) [OF True assms that])
  then show ?thesis
    unfolding gives_def retentionTarget_def bindX_def gets_def ret_def throw_def
    by (auto split: prod.splits sum.splits option.splits)
next
  case False
  then show ?thesis by (simp add: gives_def retentionTarget_def bindX_def require_def throw_def)
qed

lemma tempPath_Nil [simp]: "\<not> tempPath []"
  by (simp add: tempPath_def pathBase_def IsTempName_def hasPrefix_def TempPrefix_def)

lemma detailOk_paths:
  "detailOk d \<Longrightarrow> \<not> tempPath (edRetained d)" "detailOk d \<Longrightarrow> \<not> tempPath (edDisplaced d)"
  by (auto simp: detailOk_def retPath_def)

lemma detailOk_safe: "safe C s \<Longrightarrow> detailOk (xsD s)"
  by (simp add: safe_def)

text \<open>A rename that found its target taken is tried again with another one.\<close>

lemma keeps_retry:
  assumes "\<And>m. n = Suc m \<Longrightarrow> keeps I (f m)"
  shows "keeps I (case (r, n) of (Inl ErrExists, Suc m) \<Rightarrow> f m | (Inl e, _) \<Rightarrow> throw e | (Inr _, _) \<Rightarrow> ret ())"
  using assms by (auto simp: keeps_ret keeps_throw split: sum.split execErr.split nat.split)

lemma safe_setDisplaced:
  "p = [] \<or> retPath p \<Longrightarrow> keeps (safe C) (modD (\<lambda>d. d\<lparr>edDisplaced := p, edDisplacedSize := sz, edDisplacedMtimeNs := m\<rparr>))"
  "keeps (safe C) (modD (\<lambda>d. d\<lparr>edDisplaced := []\<rparr>))"
  by (rule safe_modD, simp add: detailOk_def)+

lemma safe_displaceLoop:
  assumes "envOk v" "okPath dest"
  shows "keeps (safe C) (displaceLoop v dest st n)"
proof (induction n rule: less_induct)
  case (less n)
  have choose: "keeps (safe C) (bindX (retentionTarget v dest) (\<lambda>target.
      bindX (modD (\<lambda>d. d\<lparr>edDisplaced := target, edDisplacedSize := stSize st, edDisplacedMtimeNs := stMtimeNs st\<rparr>)) (\<lambda>_. saveDetail v)))"
    by (rule keeps_bind_gives [OF sf.keeps_retentionTarget gives_retentionTarget [OF assms(2)]])
      (intro keeps_bind safe_setDisplaced sf.reads disjI2)
  have retry: "keeps (safe C) (case (r, n) of
              (Inl ErrExists, Suc m) \<Rightarrow> bindX (modD (\<lambda>d. d\<lparr>edDisplaced := []\<rparr>)) (\<lambda>_. displaceLoop v dest st m)
            | (Inl e, _) \<Rightarrow> throw e
            | (Inr _, _) \<Rightarrow> ret ())" for r :: "execErr + unit"
    by (intro keeps_retry keeps_bind safe_setDisplaced less) simp
  have move: "keeps (safe C) (bindX (gets (\<lambda>s. edDisplaced (xsD s))) (\<lambda>target. bindX (tryX (MoveFile v dest target True))
       (\<lambda>r. case (r, n) of
              (Inl ErrExists, Suc m) \<Rightarrow> bindX (modD (\<lambda>d. d\<lparr>edDisplaced := []\<rparr>)) (\<lambda>_. displaceLoop v dest st m)
            | (Inl e, _) \<Rightarrow> throw e
            | (Inr _, _) \<Rightarrow> ret ())))"
    by (rule keeps_bind_gets [where R = "\<lambda>p. \<not> tempPath p"], blast dest: detailOk_safe detailOk_paths(2))
      (intro keeps_bind [OF keeps_tryX retry] safe_MoveFile)
  show "keeps (safe C) (displaceLoop v dest st n)"
    unfolding displaceLoop.simps [of v dest st n] by (intro keeps_bind keeps_gets keeps_if keeps_ret choose move)
qed

lemma safe_recordDisplaced: "okPath item \<Longrightarrow> keeps (safe C) (recordDisplaced v item)"
  unfolding recordDisplaced_def by (intro keeps_bind keeps_gets safe_writeTx rok_displacedTx)

lemma safe_displace:
  assumes "envOk v" "okPath item" "okPath dest"
  shows "keeps (safe C) (displace v item dest st)"
  unfolding displace_def
  by (intro keeps_bind keeps_basic sf.reads safe_recordDisplaced safe_setDisplaced safe_displaceLoop assms)

lemma safe_recordEarlierDisplace: "okPath item \<Longrightarrow> keeps (safe C) (recordEarlierDisplace v item)"
  unfolding recordEarlierDisplace_def by (intro keeps_bind keeps_basic sf.reads safe_recordDisplaced)

lemma safe_removeTemp: "keeps (safe C) (removeTemp v)"
  unfolding removeTemp_def by (intro keeps_bind keeps_basic safe_CleanupTemp)

text \<open>What a file at a path is worth when it is replaced: its content is under another name too.\<close>

definition keptCopy :: "string \<Rightarrow> destFS \<Rightarrow> bool" where
  "keptCopy dest fs \<longleftrightarrow> (\<forall>i. dfNames fs dest = Some i \<longrightarrow>
     (\<exists>p j. \<not> tempPath p \<and> p \<noteq> dest \<and> dfNames fs p = Some j \<and> fnData (dfNodes fs j) = fnData (dfNodes fs i)))"

lemma holds_replace:
  assumes "keptCopy dest fs" "tempPath temp" "\<not> tempPath dest" "holds fs c"
  shows "holds (renameFS temp dest fs) c"
proof -
  from assms(4) obtain r i where r: "\<not> tempPath r" "dfNames fs r = Some i" "fnData (dfNodes fs i) = c" by (auto simp: holds_def)
  obtain p j where p: "\<not> tempPath p" "p \<noteq> dest" "dfNames fs p = Some j" "fnData (dfNodes fs j) = c"
    using assms(1) r by (cases "r = dest") (auto simp: keptCopy_def)
  have "temp \<noteq> p" using assms(2) p(1) by blast
  with p show ?thesis unfolding holds_def renameFS_def by (intro exI [of _ p] exI [of _ j]) auto
qed

lemma triple_CommitTemp:
  assumes "\<not> tempPath dest"
  shows "triple (safe C) (\<lambda>s. safe C s \<and> (\<not> noReplace \<longrightarrow> keptCopy dest (xsFS s))) (CommitTemp v temp dest noReplace) (\<lambda>_. safe C)"
proof (cases "noReplace \<or> \<not> tempPath temp")
  case True
  have "keeps (safe C) (CommitTemp v temp dest noReplace)" if "\<not> tempPath temp"
    using that by (simp add: CommitTemp_def keeps_def bindX_def require_def throw_def tempPath_def)
  with True safe_CommitTemp [of C v temp dest] have "keeps (safe C) (CommitTemp v temp dest noReplace)" by (cases noReplace) auto
  then show ?thesis by (rule triple_keeps) simp
next
  case False
  let ?I = "\<lambda>s. safe C s \<and> keptCopy dest (xsFS s)"
  have "safe C (s\<lparr>xsFS := renameFS temp dest (xsFS s)\<rparr>)" if "?I s" for s
    using that False assms by (simp add: safe_def holds_replace fsOk_rename)
  then have ren: "triple (safe C) ?I (renameName temp dest False) (\<lambda>_. safe C)"
    by (simp add: triple_def renameName_def bindX_def gets_def require_def ret_def modFS_def modifies_def)
  have "triple (safe C) ?I (CommitTemp v temp dest False) (\<lambda>_. safe C)"
    unfolding CommitTemp_def
    by (intro triple_bind [OF triple_frame] triple_bind [OF ren] keeps_require sfx.reads triple_keeps [OF sf.keeps_faultPoint])
  with False show ?thesis by simp
qed

lemma triple_tryX:
  "triple I P m Q \<Longrightarrow> triple I P (tryX m) (\<lambda>r s. I s \<and> (case r of Inr x \<Rightarrow> Q x s | Inl _ \<Rightarrow> True))"
  unfolding triple_def tryX_def by (fastforce split: prod.splits sum.splits execErr.splits)

lemma triple_retry:
  assumes "\<And>m. n = Suc m \<Longrightarrow> triple I I (f m) (\<lambda>_. Q)" "\<And>s. Q s \<Longrightarrow> I s"
  shows "triple I (\<lambda>s. I s \<and> (case r of Inr (x :: unit) \<Rightarrow> Q s | Inl _ \<Rightarrow> True))
    (case (r, n) of (Inl ErrExists, Suc m) \<Rightarrow> f m | (Inl e, _) \<Rightarrow> throw e | (Inr _, _) \<Rightarrow> ret ()) (\<lambda>_. Q)"
  using assms
  by (auto intro!: triple_throw triple_ret split: sum.split execErr.split nat.split)

lemma triple_MoveFile:
  assumes "\<not> tempPath q"
  shows "triple (safe C) (safe C) (MoveFile v p q True) (\<lambda>_ s. safe C s \<and> keptCopy p (xsFS s))"
proof -
  have ren: "triple (safe C) (safe C) (renameName p q True) (\<lambda>_ s. safe C s \<and> keptCopy p (xsFS s))"
    unfolding triple_def
  proof (intro allI impI conjI)
    fix s assume s: "safe C s"
    with safe_renameName [of q p C] assms show ok: "safe C (snd (renameName p q True s))" by (simp add: keeps_def)
    fix x s1 assume r: "renameName p q True s = (Inr x, s1)"
    with ok show "safe C s1" by simp
    from r have "dfNames (xsFS s) q = None" "s1 = s\<lparr>xsFS := renameFS p q (xsFS s)\<rparr>"
      by (auto simp: renameName_def bindX_def gets_def require_def ret_def throw_def modFS_def modifies_def split: if_splits)
    then show "keptCopy p (xsFS s1)" by (auto simp: keptCopy_def renameFS_def)
  qed
  have "triple (safe C) (safe C) (bindX (renameName p q True) (\<lambda>_. faultPoint v)) (\<lambda>_ s. safe C s \<and> keptCopy p (xsFS s))"
    by (rule triple_bind [OF ren triple_frame [OF sfx.keeps_faultPoint]])
  then show ?thesis
    unfolding MoveFile_def
    by (intro triple_bind [OF triple_keeps [OF keeps_require]] triple_bind [OF triple_keeps [OF sf.keeps_faultPoint]]
        triple_bind [OF triple_keeps [OF sf.keeps_requireRegular]])
qed

lemma triple_LinkFile:
  assumes "\<not> tempPath q" "p \<noteq> q"
  shows "triple (safe C) (safe C) (LinkFile v p q) (\<lambda>_ s. safe C s \<and> keptCopy p (xsFS s))"
proof -
  have "safe C (s\<lparr>xsFS := linkFS p q (xsFS s)\<rparr>) \<and> keptCopy p (linkFS p q (xsFS s))"
    if "safe C s" "dfNames (xsFS s) q = None" for s
  proof
    show "safe C (s\<lparr>xsFS := linkFS p q (xsFS s)\<rparr>)" using that by (simp add: safe_def holds_linkFS fsOk_linkFS)
    show "keptCopy p (linkFS p q (xsFS s))" using assms by (auto simp: keptCopy_def linkFS_def)
  qed
  then have link: "triple (safe C) (safe C) (bindX (gets (\<lambda>s. dfNames (xsFS s) q)) (\<lambda>n. bindX (require (n = None) ErrExists)
      (\<lambda>_. bindX (modFS (linkFS p q)) (\<lambda>_. faultPoint v)))) (\<lambda>_ s. safe C s \<and> keptCopy p (xsFS s))"
    by (auto simp: triple_def bindX_def gets_def require_def ret_def throw_def modFS_def modifies_def faultPoint_def ask_def
        split: option.splits)
  show ?thesis
    unfolding LinkFile_def
    by (intro triple_bind [OF triple_keeps [OF keeps_require]] triple_bind [OF triple_keeps [OF sf.keeps_faultPoint]]
        triple_bind [OF triple_keeps [OF sf.keeps_requireRegular]] link)
qed

lemma safe_setRetained:
  "p = [] \<or> retPath p \<Longrightarrow> keeps (safe C) (modD (\<lambda>d. d\<lparr>edRetained := p, edRetainedSize := sz,
     edRetainedMtimeNs := m, edRetainedHash := h, edRetainedReason := why\<rparr>))"
  "keeps (safe C) (modD (\<lambda>d. d\<lparr>edRetained := []\<rparr>))"
  by (rule safe_modD, simp add: detailOk_def)+

lemma safe_keepTarget:
  assumes "envOk v" "okPath rel"
  shows "keeps (safe C) (keepTarget v rec rel fin reason)"
  unfolding keepTarget_def
  by (intro keeps_bind [OF sf.keeps_oldVersion] keeps_bind_gives [OF sf.keeps_retentionTarget gives_retentionTarget [OF assms(2)]])
    (intro keeps_bind safe_setRetained sf.reads disjI2)

lemma triple_keepRename:
  assumes "okPath rel"
  shows "triple (safe C) (safe C) (keepRename v rel isLink)
    (\<lambda>r s. safe C s \<and> (case r of Inr x \<Rightarrow> safe C s \<and> keptCopy rel (xsFS s) | Inl _ \<Rightarrow> True))"
  unfolding keepRename_def
proof (rule triple_bind)
  show "triple (safe C) (safe C) (gets xsD) (\<lambda>d s. safe C s \<and> detailOk d)"
    by (rule triple_gets) (simp add: detailOk_safe)
  fix d
  show "triple (safe C) (\<lambda>s. safe C s \<and> detailOk d) (bindX (writeTx v (\<lambda>e. setIntentTx (txDest e) rel (edRetained d) (edRetainedReason d)))
       (\<lambda>_. tryX (if isLink then LinkFile v rel (edRetained d) else MoveFile v rel (edRetained d) True)))
    (\<lambda>r s. safe C s \<and> (case r of Inr x \<Rightarrow> safe C s \<and> keptCopy rel (xsFS s) | Inl _ \<Rightarrow> True))"
  proof (rule triple_pre [where b = "detailOk d"])
    assume d: "detailOk d"
    have "rel \<noteq> edRetained d" using d assms by (auto simp: detailOk_def okPath_def retPath_def goodName_def)
    note link = triple_LinkFile [OF detailOk_paths(1) [OF d] this] triple_MoveFile [OF detailOk_paths(1) [OF d]]
    show ?thesis
      by (intro triple_bind [OF triple_keeps [OF safe_writeTx [OF rok_setIntentTx]]] triple_tryX triple_cond link) simp_all
  qed simp
qed

lemma triple_keepLoop:
  assumes "envOk v" "okPath rel"
  shows "triple (safe C) (safe C) (keepLoop v rec rel fin isLink reason n) (\<lambda>_ s. safe C s \<and> keptCopy rel (xsFS s))"
proof (induction n rule: less_induct)
  case (less n)
  let ?Q = "\<lambda>s. safe C s \<and> keptCopy rel (xsFS s)"
  have "triple (safe C) (\<lambda>s. safe C s \<and> (case r of Inr (x :: unit) \<Rightarrow> ?Q s | Inl _ \<Rightarrow> True)) (case (r, n) of
              (Inl ErrExists, Suc m) \<Rightarrow> bindX (modD (\<lambda>d. d\<lparr>edRetained := []\<rparr>)) (\<lambda>_. keepLoop v rec rel fin isLink reason m)
            | (Inl e, _) \<Rightarrow> throw e
            | (Inr _, _) \<Rightarrow> ret ()) (\<lambda>_. ?Q)" for r
    by (intro triple_retry triple_bind [OF triple_keeps [OF safe_setRetained(2)]] less) simp_all
  from triple_bind [OF triple_keepRename [OF assms(2)] this] show ?case
    unfolding keepLoop.simps [of v rec rel fin isLink reason n]
    by (intro triple_bind [OF triple_keeps [OF keeps_gets]] triple_bind [OF triple_keeps [OF keeps_if]] keeps_ret safe_keepTarget assms)
qed

lemma triple_retainOld:
  "envOk v \<Longrightarrow> okPath dest \<Longrightarrow> triple (safe C) (safe C) (retainOld v rec dest fin) (\<lambda>_ s. safe C s \<and> keptCopy dest (xsFS s))"
  unfolding retainOld_def keepInRetention_def by (rule triple_keepLoop)

lemma safe_keepInRetention:
  "envOk v \<Longrightarrow> okPath rel \<Longrightarrow> keeps (safe C) (keepInRetention v rec rel fin isLink reason)"
  using triple_keepLoop unfolding keeps_def triple_def keepInRetention_def by blast

lemma safe_retainName: "envOk v \<Longrightarrow> okPath dest \<Longrightarrow> keeps (safe C) (retainName v rec dest fin)"
  unfolding retainName_def by (intro keeps_bind keeps_require safe_keepInRetention)

section \<open>What a stat says\<close>

definition statAs :: "string \<Rightarrow> fullStat option \<Rightarrow> destFS \<Rightarrow> bool" where
  "statAs p st fs = (case st of None \<Rightarrow> p = [] \<or> dfNames fs p = None | Some f \<Rightarrow> dfNames fs p = Some (fsIno f))"

text \<open>The item's name in retention, and what a stat found there.\<close>

definition pin :: "string \<Rightarrow> fullStat option \<Rightarrow> destFS \<Rightarrow> execDetail \<Rightarrow> bool" where
  "pin p st fs d \<longleftrightarrow> edRetained d = p \<and> statAs p st fs"

interpretation fx: step_invariant "\<lambda>s. J (xsFS s) (xsD s)" for J
  by unfold_locales simp_all

lemma keeps_conj: "keeps I m \<Longrightarrow> keeps J m \<Longrightarrow> keeps (\<lambda>s. I s \<and> J s) m"
  by (simp add: keeps_def)

lemma triple_lstatDest:
  "triple (safe C) (\<lambda>s. safe C s \<and> J (xsFS s) (xsD s)) (lstatDest v p)
     (\<lambda>st s. safe C s \<and> J (xsFS s) (xsD s) \<and> statAs p st (xsFS s))"
  unfolding lstatDest_def
proof (rule triple_cond)
  show "triple (safe C) (\<lambda>s. safe C s \<and> J (xsFS s) (xsD s)) (ret None) (\<lambda>st s. safe C s \<and> J (xsFS s) (xsD s) \<and> statAs p st (xsFS s))"
    if "p = []" by (rule triple_ret) (simp add: statAs_def that)
  show "triple (safe C) (\<lambda>s. safe C s \<and> J (xsFS s) (xsD s)) (bindX (require (checkRel p) ErrOther) (\<lambda>_. bindX (faultPoint v) (\<lambda>_. gets (\<lambda>s. map_option
      (\<lambda>i. statOf (xvNlink v (xsTick s)) i (dfNodes (xsFS s) i)) (dfNames (xsFS s) p)))))
      (\<lambda>st s. safe C s \<and> J (xsFS s) (xsD s) \<and> statAs p st (xsFS s))"
    by (rule triple_bind [OF triple_frame [OF keeps_require]], rule triple_bind [OF triple_frame [OF sfx.keeps_faultPoint]], rule triple_gets)
      (auto simp: statAs_def statOf_def split: option.split)
qed

lemma triple_HashFile:
  "triple (safe C) (\<lambda>s. safe C s \<and> J (xsFS s) (xsD s)) (HashFile v p)
     (\<lambda>h s. safe C s \<and> J (xsFS s) (xsD s) \<and> (\<forall>i. dfNames (xsFS s) p = Some i \<longrightarrow> h = xvHash v (fnData (dfNodes (xsFS s) i))))"
  unfolding HashFile_def
  by (rule triple_bind [OF triple_frame [OF keeps_require]], rule triple_bind [OF triple_frame [OF sfx.keeps_faultPoint]], rule triple_bind [OF triple_frame [OF sfx.keeps_requireRegular]],
      rule triple_gets) (auto simp: nodeAt_def)

text \<open>Two names of one file, or of equal files, are copies of each other.\<close>

lemma triple_sameDestFile:
  assumes "inj (xvHash v)" "\<not> tempPath b" "a \<noteq> b"
    and names: "\<And>fs d. J fs d \<Longrightarrow> dfNames fs a = Some (fsIno sa) \<and> dfNames fs b = Some (fsIno sb)"
  shows "triple (safe C) (\<lambda>s. safe C s \<and> J (xsFS s) (xsD s)) (sameDestFile v a sa b sb)
     (\<lambda>same s. safe C s \<and> J (xsFS s) (xsD s) \<and> (same \<longrightarrow> keptCopy a (xsFS s)))"
proof -
  let ?P = "\<lambda>s. safe C s \<and> J (xsFS s) (xsD s)"
  let ?Q = "\<lambda>same s. safe C s \<and> J (xsFS s) (xsD s) \<and> (same \<longrightarrow> keptCopy a (xsFS s))"
  let ?h = "\<lambda>p h (s :: execState). \<forall>i. dfNames (xsFS s) p = Some i \<longrightarrow> h = xvHash v (fnData (dfNodes (xsFS s) i))"
  have copy: "keptCopy a fs" if "J fs d" "fnData (dfNodes fs (fsIno sa)) = fnData (dfNodes fs (fsIno sb))" for fs d
    using names [OF that(1)] that(2) assms(2,3) unfolding keptCopy_def by auto
  have idt: "triple (safe C) ?P (ret (sameFile sa sb)) ?Q"
    by (rule triple_ret) (auto simp: sameFile_def intro: copy)
  have ha: "triple (safe C) ?P (HashFile v a) (\<lambda>h s. safe C s \<and> (J (xsFS s) (xsD s) \<and> ?h a h s))"
    by (rule triple_HashFile)
  have hb: "triple (safe C) (\<lambda>s. safe C s \<and> (J (xsFS s) (xsD s) \<and> ?h a ha s)) (HashFile v b)
      (\<lambda>hb s. safe C s \<and> (J (xsFS s) (xsD s) \<and> ?h a ha s) \<and> ?h b hb s)" for ha
    by (rule triple_HashFile [where J = "\<lambda>fs d. J fs d \<and> (\<forall>i. dfNames fs a = Some i \<longrightarrow> ha = xvHash v (fnData (dfNodes fs i)))"])
  have cmp: "triple (safe C) (\<lambda>s. safe C s \<and> (J (xsFS s) (xsD s) \<and> ?h a ha s) \<and> ?h b hb s) (ret (ha = hb)) ?Q" for ha hb
    by (rule triple_ret) (use names in \<open>auto simp: inj_eq [OF assms(1)] intro!: copy\<close>)
  have no: "triple (safe C) ?P (ret False) ?Q" by (rule triple_ret) simp
  show ?thesis
    unfolding sameDestFile_def
    by (rule triple_bind [OF triple_frame [OF sfx.keeps_faultPoint]])
      (intro triple_cond idt no triple_bind [OF ha] triple_bind [OF hb] cmp)
qed

section \<open>Copies and updates\<close>

text \<open>Work on temp files leaves the item's name in retention alone.\<close>

lemma pin_temp:
  assumes "\<not> tempPath p" "tempPath temp"
  shows "statAs p st (removeFS temp fs) = statAs p st fs" "statAs p st (createFS temp fs) = statAs p st fs"
    "statAs p st (changeFS temp f fs) = statAs p st fs"
  using assms by (auto simp: statAs_def removeFS_def createFS_def changeFS_def split: option.splits)

lemma pin_removeTemp:
  assumes "\<not> tempPath p"
  shows "keeps (\<lambda>s. pin p st (xsFS s) (xsD s)) (removeTemp v)"
proof -
  have "keeps (\<lambda>s. pin p st (xsFS s) (xsD s)) (CleanupTemp v temp)" for temp
  proof (cases "tempPath temp")
    case True
    then have "keeps (\<lambda>s. pin p st (xsFS s) (xsD s)) (modFS (removeFS temp))"
      by (simp add: keeps_def modFS_def modifies_def pin_def pin_temp [OF assms])
    then show ?thesis unfolding CleanupTemp_def by (intro keeps_bind keeps_basic fx.env)
  next
    case False
    then show ?thesis by (simp add: CleanupTemp_def keeps_def bindX_def require_def throw_def tempPath_def)
  qed
  then show ?thesis unfolding removeTemp_def by (intro keeps_bind keeps_basic)
qed

lemma pin_WriteTemp:
  assumes "envOk v" "\<not> tempPath p" "\<And>temp. keeps (\<lambda>s. pin p st (xsFS s) (xsD s)) (onTemp temp)"
  shows "keeps (\<lambda>s. pin p st (xsFS s) (xsD s)) (WriteTemp v srcRel dst onTemp)"
proof (cases "checkRel dst")
  case True
  let ?I = "\<lambda>s. pin p st (xsFS s) (xsD s)"
  have temp: "tempPath (pathJoin (pathDir dst) (tempName (xvRandom v (xsTick s)) (pathBase dst)))" for s
    using tempPath_tempName pathBase_no_slash [OF True] assms(1) by (simp add: envOk_def)
  have mods: "keeps ?I (modFS (createFS temp))" "keeps ?I (modFS (changeFS temp f))" if "tempPath temp" for temp f
    using that by (simp_all add: keeps_def modFS_def modifies_def pin_def pin_temp [OF assms(2)])
  have fill: "keeps ?I (bindX (onTemp temp) (\<lambda>_. bindX (createTemp temp) (\<lambda>_. removeOnError temp (fillTemp v srcRel temp before))))"
    if "tempPath temp" for temp before
    unfolding createTemp_def fillTemp_def
    by (intro keeps_bind keeps_basic keeps_removeOnError fx.env mods assms(3) that)
      (simp add: pin_def pin_temp [OF assms(2) that])
  show ?thesis
    unfolding WriteTemp_def by (intro keeps_bind keeps_basic fx.env keeps_bind_gets [where R = tempPath] temp fill)
next
  case False
  then show ?thesis by (simp add: WriteTemp_def keeps_def bindX_def require_def throw_def checkWritable_def)
qed

lemma safe_recordPlaced: "okPath dest \<Longrightarrow> keeps (safe C) (recordPlaced v dest retained)"
  unfolding recordPlaced_def by (intro keeps_bind keeps_gets safe_writeTx rok_placedTx)

lemma safe_recordAdopted: "okPath dest \<Longrightarrow> keeps (safe C) (recordAdopted v dest src h)"
  unfolding recordAdopted_def by (intro keeps_bind keeps_gets safe_writeTx rok_adoptedTx)

lemma safe_tryAdopt: "keeps (safe C) (tryAdopt v dest fin src)"
  unfolding tryAdopt_def
  by (intro keeps_if keeps_ret) (auto intro!: keeps_bind keeps_basic sf.reads safe_SetMtime split: adoptMode.split)

lemma safe_setOutcome: "keeps (safe C) (setOutcome w)"
  unfolding setOutcome_def by (rule safe_modD) (simp add: detailOk_def)

lemma triple_keepPlaced:
  assumes "envOk v" "okPath dest" "rec0 \<noteq> None" "p = [] \<or> retPath p"
  shows "triple (safe C) (\<lambda>s. safe C s \<and> pin p retSt (xsFS s) (xsD s) \<and> statAs dest fin (xsFS s)) (keepPlaced v dest rec0 retSt fin)
    (\<lambda>fin2 s. safe C s \<and> (fin2 = None \<or> keptCopy dest (xsFS s)))"
proof -
  let ?Q = "\<lambda>fin2 s. safe C s \<and> (fin2 = None \<or> keptCopy dest (xsFS s))"
  obtain rec where rec: "rec0 = Some rec" using assms(3) by blast
  have dest: "\<not> tempPath p" "dest \<noteq> p" using assms(2,4) by (auto simp: okPath_def retPath_def goodName_def)
  have free: "triple (safe C) P (ret None) ?Q" if "\<And>s. P s \<Longrightarrow> safe C s" for P by (rule triple_ret) (simp add: that)
  have old: "triple (safe C) (safe C) (bindX (retainOld v rec dest f) (\<lambda>_. lstatDest v dest)) ?Q" for f
    by (rule triple_bind [OF triple_retainOld [OF assms(1,2)]],
        rule triple_weaken [OF triple_frame [OF sfx.keeps_lstatDest [where J = "\<lambda>fs d. keptCopy dest fs"]]]) auto
  have displaced: "triple (safe C) P (bindX (displace v dest dest f) (\<lambda>_. ret None)) ?Q" if "\<And>s. P s \<Longrightarrow> safe C s" for P f
    by (rule triple_bind [OF triple_keeps [OF safe_displace [OF assms(1,2,2)] that]]) (auto intro!: free)
  have same: "triple (safe C) (\<lambda>s. safe C s \<and> (pin p (Some r) (xsFS s) (xsD s) \<and> statAs dest (Some f) (xsFS s)))
      (bindX (sameDestFile v dest f p r) (\<lambda>same. if same then ret (Some f) else bindX (displace v dest dest f) (\<lambda>_. ret None))) ?Q" for r f
  proof (rule triple_bind [OF triple_sameDestFile [where J = "\<lambda>fs d. pin p (Some r) fs d \<and> statAs dest (Some f) fs"]])
    show "inj (xvHash v)" using assms(1) by (simp add: envOk_def)
  qed (use dest in \<open>auto simp: pin_def statAs_def intro!: triple_ret displaced\<close>)
  show ?thesis
  proof (cases retSt)
    case None
    then show ?thesis unfolding keepPlaced_def rec
      by (cases fin) (auto intro!: free triple_weaken [OF old])
  next
    case (Some r)
    have "triple (safe C) (\<lambda>s. safe C s \<and> pin p retSt (xsFS s) (xsD s) \<and> statAs dest (Some f) (xsFS s))
       (bindX (gets (\<lambda>s. edRetained (xsD s)))
               (\<lambda>retained. bindX (sameDestFile v dest f retained r)
               (\<lambda>same. if same then ret (Some f) else bindX (displace v dest dest f) (\<lambda>_. ret None)))) ?Q" for f
      using same [of r f] by (auto simp: Some triple_def bindX_def gets_def pin_def)
    with Some show ?thesis unfolding keepPlaced_def by (cases fin) (auto intro!: free)
  qed
qed

lemma triple_commit_record:
  assumes "okPath dest"
  shows "triple (safe C) (\<lambda>s. safe C s \<and> (noReplace \<or> keptCopy dest (xsFS s)))
    (bindX (CommitTemp v temp dest noReplace) (\<lambda>_. recordPlaced v dest retained)) (\<lambda>_. safe C)"
proof (rule triple_bind)
  show "triple (safe C) (\<lambda>s. safe C s \<and> (noReplace \<or> keptCopy dest (xsFS s))) (CommitTemp v temp dest noReplace) (\<lambda>_. safe C)"
    by (rule triple_weaken [OF triple_CommitTemp]) (use assms in \<open>auto simp: okPath_def\<close>)
qed (rule triple_keeps [OF safe_recordPlaced [OF assms]])

text \<open>A copy knows where the version it replaces is kept, if it has a record.\<close>

definition oursPin :: "bool \<Rightarrow> string \<Rightarrow> fullStat option \<Rightarrow> destFS \<Rightarrow> execDetail \<Rightarrow> bool" where
  "oursPin ours p retSt fs d \<longleftrightarrow> (ours \<longrightarrow> pin p retSt fs d)"

lemma keeps_ours: "keeps (\<lambda>s. pin p st (xsFS s) (xsD s)) m \<Longrightarrow> keeps (safe C) m
    \<Longrightarrow> keeps (\<lambda>s. safe C s \<and> oursPin ours p st (xsFS s) (xsD s)) m"
  by (auto simp: keeps_def oursPin_def)

lemma triple_placeCommit:
  assumes "envOk v" "okPath dest" "ours \<Longrightarrow> rec0 \<noteq> None" "p = [] \<or> retPath p"
  shows "triple (safe C) (\<lambda>s. safe C s \<and> oursPin ours p retSt (xsFS s) (xsD s)) (placeCommit v dest rec0 ours retSt) (\<lambda>_. safe C)"
  unfolding placeCommit_def
proof (rule triple_bind [OF triple_lstatDest], rule triple_bind [OF triple_gets])
  fix fin temp
  let ?P = "\<lambda>s. safe C s \<and> oursPin ours p retSt (xsFS s) (xsD s) \<and> statAs dest fin (xsFS s)"
  have kept: "triple (safe C) ?P (bindX (keepPlaced v dest rec0 retSt fin)
      (\<lambda>fin2. bindX (CommitTemp v temp dest (fin2 = None)) (\<lambda>_. recordPlaced v dest True))) (\<lambda>_. safe C)" if "ours"
    by (rule triple_bind [OF triple_weaken [OF triple_keepPlaced [OF assms(1,2) assms(3) [OF that] assms(4)]] triple_commit_record [OF assms(2)]])
      (auto simp: oursPin_def that)
  show "triple (safe C) ?P (if ours \<and> (fin \<noteq> None \<or> retSt \<noteq> None)
               then bindX (keepPlaced v dest rec0 retSt fin)
                 (\<lambda>fin2. bindX (CommitTemp v temp dest (fin2 = None)) (\<lambda>_. recordPlaced v dest True))
               else if \<not> ours \<and> fin \<noteq> None then throw ErrItem
               else bindX (CommitTemp v temp dest (fin = None)) (\<lambda>_. recordPlaced v dest False)) (\<lambda>_. safe C)"
    by (intro triple_cond kept triple_throw triple_weaken [OF triple_commit_record [OF assms(2)]]) auto
qed simp

lemma detailOk_temp:
  "keeps (safe C) (modD (\<lambda>d. d\<lparr>edTemp := t, edTempDone := b\<rparr>))"
  "keeps (safe C) (modD (\<lambda>d. d\<lparr>edTempDone := b, edTempSize := sz, edTempMtimeNs := m, edTempHash := h\<rparr>))"
  by (rule safe_modD, simp add: detailOk_def)+

lemma pin_modD:
  "keeps (\<lambda>s. pin p st (xsFS s) (xsD s)) (modD (\<lambda>d. d\<lparr>edTemp := t, edTempDone := b\<rparr>))"
  "keeps (\<lambda>s. pin p st (xsFS s) (xsD s)) (modD (\<lambda>d. d\<lparr>edTempDone := b, edTempSize := sz, edTempMtimeNs := m, edTempHash := h\<rparr>))"
  by (simp_all add: keeps_def modD_def modifies_def pin_def)

lemma triple_placeWrite:
  assumes "envOk v" "okPath dest" "ours \<Longrightarrow> rec0 \<noteq> None" "p = [] \<or> retPath p"
  shows "triple (safe C) (\<lambda>s. safe C s \<and> oursPin ours p retSt (xsFS s) (xsD s)) (placeWrite v dest rec0 ours retSt) (\<lambda>_. safe C)"
proof -
  have p: "\<not> tempPath p" using assms(4) by (auto simp: retPath_def)
  have w: "keeps (\<lambda>s. safe C s \<and> oursPin ours p retSt (xsFS s) (xsD s)) (WriteTemp v srcRel dest
      (\<lambda>temp. bindX (modD (\<lambda>d. d\<lparr>edTemp := temp, edTempDone := False\<rparr>)) (\<lambda>_. saveDetail v)))" for srcRel
    by (intro keeps_ours pin_WriteTemp safe_WriteTemp assms(1) p keeps_bind detailOk_temp pin_modD sf.reads fx.reads)
  have m: "keeps (\<lambda>s. safe C s \<and> oursPin ours p retSt (xsFS s) (xsD s))
      (modD (\<lambda>d. d\<lparr>edTempDone := True, edTempSize := sz, edTempMtimeNs := mt, edTempHash := h\<rparr>))" for sz mt h
    by (intro keeps_ours detailOk_temp pin_modD)
  show ?thesis
    unfolding placeWrite_def
    by (rule triple_bind [OF triple_frame [OF keeps_gets]], rule triple_bind [OF triple_frame [OF w]])
      (auto intro!: triple_bind [OF triple_frame [OF sfx.keeps_VerifyTemp]] triple_bind [OF triple_frame [OF m]]
        triple_bind [OF triple_frame [OF sfx.keeps_saveDetail]] triple_bind [OF triple_placeCommit [OF assms]] triple_ret)
qed

lemma triple_placeOver:
  assumes "envOk v" "okPath dest" "ours \<Longrightarrow> rec0 \<noteq> None" "p = [] \<or> retPath p"
  shows "triple (safe C) (\<lambda>s. safe C s \<and> oursPin ours p retSt (xsFS s) (xsD s)) (placeOver v dest rec0 ours retSt fin src) (\<lambda>_. safe C)"
proof -
  have p: "\<not> tempPath p" using assms(4) by (auto simp: retPath_def)
  have t: "keeps (\<lambda>s. safe C s \<and> oursPin ours p retSt (xsFS s) (xsD s)) (removeTemp v)"
    "keeps (\<lambda>s. safe C s \<and> oursPin ours p retSt (xsFS s) (xsD s)) (modD (\<lambda>d. d\<lparr>edTemp := [], edTempDone := False\<rparr>))"
    by (intro keeps_ours pin_removeTemp safe_removeTemp detailOk_temp pin_modD p)+
  have free: "keeps (safe C) (placeWrite v dest rec0 ours retSt)" if "\<not> ours"
    unfolding keeps_triple using that
    by (intro triple_weaken [OF triple_placeWrite [OF assms(1,2) assms(3) assms(4)]]) (auto simp: oursPin_def)
  have "keeps (safe C) (bindX (tryAdopt v dest f src) (\<lambda>a. if fst a
        then bindX (recordAdopted v dest src (snd a)) (\<lambda>_. bindX (setOutcome ''adopted'') (\<lambda>_. ret 0))
        else bindX (displace v dest dest f) (\<lambda>_. placeWrite v dest rec0 ours retSt)))" if "\<not> ours" for f
    by (intro keeps_bind keeps_basic safe_tryAdopt safe_recordAdopted safe_setOutcome safe_displace free that assms)
  note other = triple_keeps [OF this]
  show ?thesis
    unfolding placeOver_def
    by (rule triple_bind [OF triple_frame [OF t(1)]], rule triple_bind [OF triple_frame [OF t(2)]])
      (auto split: option.split intro!: triple_placeWrite assms other)
qed

lemma triple_placeNew:
  assumes "envOk v" "okPath dest" "ours \<Longrightarrow> rec0 \<noteq> None" "p = [] \<or> retPath p"
  shows "triple (safe C) (\<lambda>s. safe C s \<and> oursPin ours p retSt (xsFS s) (xsD s)) (placeNew v dest rec0 ours retSt fin) (\<lambda>_. safe C)"
proof -
  have deps: "keeps (\<lambda>s. safe C s \<and> oursPin ours p retSt (xsFS s) (xsD s))
      (case rec0 of Some r \<Rightarrow> if ours then checkDependents v r src else ret () | None \<Rightarrow> ret ())" for src
    by (cases rec0) (auto intro!: keeps_basic sfx.reads)
  have "keeps (safe C) (bindX (removeTemp v) (\<lambda>_. bindX (setOutcome ''already done'') (\<lambda>_. ret x)))" for x :: int
    by (intro keeps_bind keeps_basic safe_removeTemp safe_setOutcome)
  note already = triple_keeps [OF this]
  show ?thesis
    unfolding placeNew_def
    by (rule triple_bind [OF triple_frame [OF sfx.keeps_sourceFile]], rule triple_bind [OF triple_frame [OF keeps_gets]], rule triple_cond)
      (rule already, simp, rule triple_bind [OF triple_frame [OF keeps_require]], rule triple_bind [OF triple_frame [OF deps]],
        rule triple_placeOver [OF assms])
qed

lemma triple_placeState:
  assumes "envOk v" "okPath dest" "p = [] \<or> retPath p"
  shows "triple (safe C) (\<lambda>s. safe C s \<and> pin p retSt (xsFS s) (xsD s) \<and> (linkedOld \<longrightarrow> keptCopy dest (xsFS s)))
    (placeState v dest rec0 d tempSt retSt fin linkedOld) (\<lambda>_. safe C)"
  unfolding placeState_def Let_def
proof (intro triple_cond)
  let ?P = "\<lambda>s. safe C s \<and> pin p retSt (xsFS s) (xsD s) \<and> (linkedOld \<longrightarrow> keptCopy dest (xsFS s))"
  let ?ours = "case rec0 of Some r \<Rightarrow> drState r \<in> {StatePresent, StateLinked, StateMissing} | None \<Rightarrow> False"
  have commit: "triple (safe C) ?P (bindX (bindX (CommitTemp v (edTemp d) dest nr) (\<lambda>_. recordPlaced v dest True)) (\<lambda>_. ret x)) (\<lambda>_. safe C)"
    if "nr \<or> linkedOld" for nr and x :: int
    by (rule triple_bind [OF triple_weaken [OF triple_commit_record [OF assms(2)]] triple_ret]) (use that in auto)
  show "triple (safe C) ?P (bindX (bindX (CommitTemp v (edTemp d) dest True) (\<lambda>_. recordPlaced v dest True)) (\<lambda>_. ret (edTempSize d))) (\<lambda>_. safe C)"
    by (rule commit) simp
  show "triple (safe C) ?P (bindX (bindX (CommitTemp v (edTemp d) dest False) (\<lambda>_. recordPlaced v dest True)) (\<lambda>_. ret (edTempSize d))) (\<lambda>_. safe C)"
    if "?ours \<and> (case tempSt of Some t \<Rightarrow> edTempDone d \<and> stRegular t \<and> stSize t = edTempSize d | None \<Rightarrow> False) \<and> linkedOld"
    using that by (intro commit) simp
  show "triple (safe C) ?P (bindX (recordPlaced v dest (retSt \<noteq> None)) (\<lambda>_. ret (edTempSize d))) (\<lambda>_. safe C)"
    by (rule triple_keeps, intro keeps_bind keeps_ret safe_recordPlaced assms) simp
  show "triple (safe C) ?P (placeNew v dest rec0 ?ours retSt fin) (\<lambda>_. safe C)"
    by (rule triple_weaken [OF triple_placeNew [OF assms(1,2) _ assms(3)]]) (auto simp: oursPin_def split: option.splits)
qed

text \<open>Whether the file at the path is the version that is in retention already.\<close>

lemma triple_linkedOld:
  assumes "envOk v" "okPath dest" "p = [] \<or> retPath p"
  shows "triple (safe C) (\<lambda>s. safe C s \<and> pin p retSt (xsFS s) (xsD s) \<and> statAs dest fin (xsFS s))
      (case (fin, retSt) of (Some f, Some r) \<Rightarrow> sameDestFile v dest f p r | _ \<Rightarrow> ret False)
      (\<lambda>l s. safe C s \<and> pin p retSt (xsFS s) (xsD s) \<and> (l \<longrightarrow> keptCopy dest (xsFS s)))"
proof (cases "fin = None \<or> retSt = None")
  case True
  then show ?thesis by (cases fin; cases retSt) (auto intro!: triple_ret)
next
  case False
  then obtain f r where fr: "fin = Some f" "retSt = Some r" by auto
  have "dest \<noteq> p" "\<not> tempPath p" using assms(2,3) by (auto simp: okPath_def retPath_def goodName_def)
  with assms(1) show ?thesis
    unfolding fr
    by (simp, intro triple_weaken [OF triple_sameDestFile [where J = "\<lambda>fs D. pin p (Some r) fs D \<and> statAs dest (Some f) fs"]])
      (auto simp: envOk_def pin_def statAs_def)
qed

lemma safe_place:
  assumes "envOk v" "okPath dest"
  shows "keeps (safe C) (place v dest)"
  unfolding keeps_triple place_def
proof (rule triple_bind [OF triple_keeps [OF sf.keeps_readRows]], (simp)[1], rule triple_bind)
  show "triple (safe C) (safe C) (gets xsD) (\<lambda>d s. safe C s \<and> (detailOk d \<and> edRetained (xsD s) = edRetained d))"
    by (rule triple_gets) (simp add: detailOk_safe)
  fix rec0 d
  let ?J = "\<lambda>fs :: destFS. \<lambda>D :: execDetail. detailOk d \<and> edRetained D = edRetained d"
  let ?rest = "\<lambda>tempSt retSt. bindX (lstatDest v dest)
       (\<lambda>fin. bindX (case (fin, retSt) of
                       (Some f, Some r) \<Rightarrow> sameDestFile v dest f (edRetained d) r
                     | _ \<Rightarrow> ret False)
       (\<lambda>linkedOld. placeState v dest rec0 d tempSt retSt fin linkedOld))"
  have rest: "triple (safe C) (\<lambda>s. safe C s \<and> ?J (xsFS s) (xsD s) \<and> statAs (edRetained d) retSt (xsFS s)) (?rest tempSt retSt) (\<lambda>_. safe C)"
    for tempSt retSt
  proof (rule triple_pre [where b = "detailOk d"])
    assume "detailOk d"
    then have p: "edRetained d = [] \<or> retPath (edRetained d)" by (simp add: detailOk_def)
    have "triple (safe C) (\<lambda>s. safe C s \<and> pin (edRetained d) retSt (xsFS s) (xsD s)) (?rest tempSt retSt) (\<lambda>_. safe C)"
      by (rule triple_bind [OF triple_lstatDest], rule triple_bind [OF triple_linkedOld [OF assms p] triple_placeState [OF assms p]])
    then show ?thesis by (rule triple_weaken) (auto simp: pin_def)
  qed simp
  have temp: "triple (safe C) (\<lambda>s. safe C s \<and> ?J (xsFS s) (xsD s)) (lstatDest v (edTemp d)) (\<lambda>_ s. safe C s \<and> ?J (xsFS s) (xsD s))"
    by (rule triple_frame [OF sfx.keeps_lstatDest [where J = ?J]])
  show "triple (safe C) (\<lambda>s. safe C s \<and> (detailOk d \<and> edRetained (xsD s) = edRetained d))
      (bindX (require (case rec0 of Some r \<Rightarrow> drSourceID r = deSourceID d | None \<Rightarrow> True) ErrItem)
       (\<lambda>_. bindX (lstatDest v (edTemp d)) (\<lambda>tempSt. bindX (lstatDest v (edRetained d)) (?rest tempSt)))) (\<lambda>_. safe C)"
    by (rule triple_bind [OF triple_frame [OF keeps_require]], rule triple_bind [OF temp],
        rule triple_bind [OF triple_lstatDest [where J = ?J] rest])
qed

section \<open>Adoptions, moves and links\<close>

lemma safe_fallbackPlace: "envOk v \<Longrightarrow> okPath item \<Longrightarrow> keeps (safe C) (fallbackPlace v item)"
  unfolding fallbackPlace_def by (intro keeps_bind keeps_basic sf.reads safe_place safe_setOutcome)

lemma safe_putCopy: "envOk v \<Longrightarrow> okPath item \<Longrightarrow> keeps (safe C) (putCopy v item)"
  unfolding putCopy_def by (intro keeps_bind sf.reads safe_place)

lemma safe_adoptItem: "envOk v \<Longrightarrow> okPath item \<Longrightarrow> keeps (safe C) (adoptItem v item)"
  unfolding adoptItem_def
  by (intro keeps_bind keeps_basic sf.reads safe_fallbackPlace safe_tryAdopt safe_recordAdopted safe_setOutcome)

lemma safe_recordMoved: "okPath to \<Longrightarrow> keeps (safe C) (recordMoved v rec to)"
  unfolding recordMoved_def by (intro keeps_bind keeps_basic sf.reads safe_writeTx rok_moveTx)

lemma okPath_temp: "okPath p \<Longrightarrow> \<not> tempPath p"
  by (simp add: okPath_def)

lemma safe_moveNow: "envOk v \<Longrightarrow> okPath to \<Longrightarrow> keeps (safe C) (moveNow v rec from to fromSt toSt)"
  unfolding moveNow_def
  by (intro keeps_bind keeps_basic sf.reads safe_fallbackPlace safe_displace safe_MoveFile safe_recordMoved okPath_temp)

lemma safe_moveItem: "envOk v \<Longrightarrow> okPath to \<Longrightarrow> keeps (safe C) (moveItem v to)"
  unfolding moveItem_def
  by (intro keeps_bind keeps_basic sf.reads safe_fallbackPlace safe_recordMoved safe_moveNow safe_setOutcome)

lemma safe_makeLink: "keeps (safe C) (makeLink v dest p st)"
  unfolding makeLink_def by (intro keeps_bind keeps_basic sf.reads safe_LinkFile)

lemma safe_recordLink: "okPath dest \<Longrightarrow> keeps (safe C) (recordLink v dest mode p src retained)"
  unfolding recordLink_def by (intro keeps_bind keeps_basic sf.reads safe_writeTx rok_linkTx safe_setOutcome)

lemma safe_clearName: "envOk v \<Longrightarrow> okPath dest \<Longrightarrow> keeps (safe C) (clearName v dest rec0 ours retained src f)"
  unfolding clearName_def
  by (intro keeps_bind keeps_basic sf.reads safe_retainName safe_tryAdopt safe_recordAdopted safe_setOutcome safe_displace)

lemma safe_linkNow: "envOk v \<Longrightarrow> okPath dest \<Longrightarrow> keeps (safe C) (linkNow v dest mode rec0 ours recorded p pd src)"
  unfolding linkNow_def
  by (intro keeps_bind keeps_basic sf.reads safe_clearName safe_makeLink safe_recordLink)

lemma safe_linkItem: "envOk v \<Longrightarrow> okPath dest \<Longrightarrow> keeps (safe C) (linkItem v dest)"
  unfolding linkItem_def Let_def
  by (intro keeps_bind keeps_basic sf.reads safe_fallbackPlace safe_linkNow safe_setOutcome)
    (auto intro!: keeps_bind keeps_basic sf.reads safe_linkNow safe_setOutcome split: prod.split option.split)

section \<open>Promotes and retains\<close>

text \<open>A record that is read has a path of the destination outside retention.\<close>

definition okRow :: "destRecord option \<Rightarrow> bool" where
  "okRow r = (case r of Some x \<Rightarrow> okPath (drRelPath x) | None \<Rightarrow> True)"

lemma gives_readRows: "(\<And>rows. rowsOk rows \<Longrightarrow> R (q rows)) \<Longrightarrow> gives (safe C) (readRows v q) R"
  unfolding readRows_def by (intro gives_bind sf.reads gives_gets) (simp add: safe_def)

lemma okRow_reads: "rowsOk rows \<Longrightarrow> okRow (getTx i rows)" "rowsOk rows \<Longrightarrow> okRow (liveAtTx dest rel rows)"
  unfolding okRow_def getTx_def liveAtTx_def by (auto split: option.split intro: find_okPath)

lemma keeps_row:
  assumes "\<And>rows. rowsOk rows \<Longrightarrow> okRow (q rows)" "keeps (safe C) m" "\<And>y. okPath (drRelPath y) \<Longrightarrow> keeps (safe C) (f y)"
  shows "keeps (safe C) (bindX (readRows v q) (\<lambda>x. case x of None \<Rightarrow> m | Some y \<Rightarrow> f y))"
proof (rule keeps_bind_gives [OF sf.keeps_readRows gives_readRows [where R = okRow]])
  show "okRow x \<Longrightarrow> keeps (safe C) (case x of None \<Rightarrow> m | Some y \<Rightarrow> f y)" for x
    using assms(2,3) by (cases x) (auto simp: okRow_def)
qed (rule assms(1))

lemma safe_recordPromote:
  "okPath (drRelPath t) \<Longrightarrow> okPath (drRelPath w) \<Longrightarrow> keeps (safe C) (recordPromote v t w moved)"
  unfolding recordPromote_def by (intro keeps_bind keeps_basic sf.reads safe_writeTx rok_promoteTx)

lemma safe_promoteFile:
  "envOk v \<Longrightarrow> okPath item \<Longrightarrow> okPath (drRelPath t) \<Longrightarrow> okPath (drRelPath w) \<Longrightarrow> keeps (safe C) (promoteFile v item t w)"
  unfolding promoteFile_def
  by (intro keeps_bind keeps_basic sf.reads safe_recordPromote safe_displace safe_MoveFile okPath_temp)

lemma safe_promoteItem: "envOk v \<Longrightarrow> okPath item \<Longrightarrow> keeps (safe C) (promoteItem v item)"
  unfolding promoteItem_def
  by (rule keeps_bind [OF keeps_gets], rule keeps_row, erule okRow_reads, rule keeps_throw, rule keeps_if,
      intro keeps_bind sf.reads safe_setOutcome, rule keeps_row, erule okRow_reads, rule keeps_throw)
    (intro keeps_bind keeps_basic sf.reads safe_promoteFile safe_recordPromote)

lemma safe_recordRetain: "okPath (drRelPath w) \<Longrightarrow> keeps (safe C) (recordRetain v w gone heir retained)"
  unfolding recordRetain_def by (intro keeps_bind keeps_basic sf.reads safe_writeTx rok_retainTx safe_setOutcome)

lemma safe_retainFile: "envOk v \<Longrightarrow> okPath (drRelPath w) \<Longrightarrow> keeps (safe C) (retainFile v w isRelease retained fin)"
  unfolding retainFile_def by (intro keeps_bind keeps_basic sf.reads safe_keepInRetention)

lemma safe_retainLive: "envOk v \<Longrightarrow> okPath (drRelPath w) \<Longrightarrow> keeps (safe C) (retainLive v w)"
  unfolding retainLive_def Let_def
  by (intro keeps_bind keeps_basic sf.reads safe_retainFile safe_recordRetain safe_writeTx rok_deleteRecord safe_setOutcome)

lemma safe_retainItem: "envOk v \<Longrightarrow> keeps (safe C) (retainItem v)"
  unfolding retainItem_def
  by (rule keeps_bind [OF keeps_gets], rule keeps_row, erule okRow_reads)
    (intro keeps_bind keeps_basic sf.reads safe_setOutcome safe_retainLive)+

section \<open>Items that stop\<close>

lemma safe_settle: "envOk v \<Longrightarrow> okPath (drRelPath rec) \<Longrightarrow> keeps (safe C) (settle v rec w)"
  unfolding settle_def
  by (intro keeps_bind keeps_basic sf.reads safe_writeTx rok_settleTx safe_MoveFile okPath_temp)

lemma safe_putBack: "envOk v \<Longrightarrow> keeps (safe C) (putBack v act item)"
proof -
  assume v: "envOk v"
  have row: "gives (safe C) (tryX (readRows v q)) (\<lambda>r. case r of Inr x \<Rightarrow> okRow x | Inl _ \<Rightarrow> True)"
    if "\<And>rows. rowsOk rows \<Longrightarrow> okRow (q rows)" for q
    using gives_readRows [of okRow q C v] that unfolding gives_def tryX_def
    by (auto split: prod.splits sum.splits execErr.splits)
  have sel: "okRow ((if act = ActionRetain then getTx i else liveAtTx dest item) rows)" if "rowsOk rows" for rows i dest
    using okRow_reads that by simp
  show ?thesis
    unfolding putBack_def
    by (rule keeps_bind [OF keeps_gets], rule keeps_if, rule keeps_ret,
        rule keeps_bind_gives [OF keeps_tryX [OF sf.keeps_readRows] row], erule sel)
      (auto simp: okRow_def split: sum.split option.split intro!: keeps_bind keeps_basic safe_settle v)
qed

lemma safe_cleanupTemp: "keeps (safe C) (cleanupTemp v item)"
  unfolding cleanupTemp_def
  by (intro keeps_bind keeps_basic sf.reads safe_removeTemp) (auto intro!: keeps_basic safe_removeTemp split: sum.split)

lemma safe_salvage: "envOk v \<Longrightarrow> okPath item \<Longrightarrow> keeps (safe C) (salvage v act item)"
  unfolding salvage_def by (intro keeps_bind keeps_basic safe_putBack safe_recordEarlierDisplace safe_removeTemp)

lemma safe_runAction: "envOk v \<Longrightarrow> okPath item \<Longrightarrow> keeps (safe C) (runAction v act item)"
  unfolding runAction_def
  by (rule keeps_bind [OF safe_recordEarlierDisplace], assumption, cases act)
    (auto intro!: safe_putCopy safe_adoptItem safe_moveItem safe_linkItem safe_promoteItem safe_retainItem keeps_throw)

lemma safe_runItem: "envOk v \<Longrightarrow> okPath item \<Longrightarrow> keeps (safe C) (runItem v act item)"
  unfolding runItem_def
  by (intro keeps_bind keeps_basic sf.reads safe_runAction safe_putBack safe_cleanupTemp safe_salvage)

end
