(* ===== verification/SyncRun.thy ===== *)
theory SyncRun
  imports ExecSafety
begin

text \<open>
  The execution of a sync's plan: \<open>execute\<close> (internal/syncer/exec.go) runs the pending items phase
  by phase, in batches of the job's item table (internal/jobqueue/items.go), each under the
  destination's transfer window (internal/syncer/window.go).  An item's detail and status are read
  from its row and written back to it as the item saves them.  An error that stops the job, a
  deferral included, is the result; a later attempt starts from the state it left.
\<close>

section \<open>Items of a job\<close>

record runRow =
  rrID :: ident
  rrAction :: itemAction
  rrRel :: string
  rrStatus :: itemStatus
  rrDetail :: execDetail

record runState =
  rsTick :: nat
  rsFS :: destFS
  rsRows :: recTable
  rsItems :: "runRow list"
  rsSince :: nat

definition pendingBatch :: nat where
  "pendingBatch = 500"

definition Pending :: "ident \<Rightarrow> nat \<Rightarrow> runRow list \<Rightarrow> runRow list" where
  "Pending after n items =
     take n (sort_key rrID (filter (\<lambda>r. rrStatus r = ItemPending \<and> rrID r > after) items))"

definition phases :: "itemAction list list" where
  "phases = [[ActionPromote], [ActionMove], [ActionCopy, ActionUpdate, ActionAdopt], [ActionLink], [ActionRetain]]"

section \<open>One item\<close>

text \<open>An item the window's end cancelled stays pending, and fails when it was cut before.\<close>

definition windowCut :: "execEnv \<Rightarrow> unit exec" where
  "windowCut v =
     bindX (gets (\<lambda>s. edWindowCuts (xsD s)))
       (\<lambda>n. if n \<ge> 1 then failRun v
            else bindX (modD (\<lambda>d. d\<lparr>edWindowCuts := n + 1\<rparr>)) (\<lambda>_. bindX (saveDetail v) (\<lambda>_. throw ErrFatal)))"

definition runInWindow :: "execEnv \<Rightarrow> itemAction \<Rightarrow> string \<Rightarrow> unit exec" where
  "runInWindow v act itemRel =
     bindX (tryX (runItem v act itemRel))
       (\<lambda>r. case r of
              Inr _ \<Rightarrow> ret ()
            | Inl e \<Rightarrow>
                bindX (gets (\<lambda>s. xvCut v (xsTick s) \<and> \<not> xvCancelled v (xsTick s)))
                (\<lambda>cut. if cut then windowCut v else throw e))"

definition runWindowed :: "execEnv \<Rightarrow> itemAction \<Rightarrow> string \<Rightarrow> unit exec" where
  "runWindowed v act itemRel =
     bindX (gets (\<lambda>s. xvWindow v (xsTick s)))
       (\<lambda>w. case w of
              WindowDefer \<Rightarrow> throw ErrFatal
            | WindowOversize \<Rightarrow>
                if act = ActionCopy \<or> act = ActionUpdate then failRun v else runInWindow v act itemRel
            | WindowRun \<Rightarrow> runInWindow v act itemRel)"

definition loadItem :: "runState \<Rightarrow> runRow \<Rightarrow> execState" where
  "loadItem s it = \<lparr>xsTick = rsTick s, xsFS = rsFS s, xsRows = rsRows s, xsD = rrDetail it, xsSaved = rrDetail it, xsStatus = rrStatus it\<rparr>"

definition storeItem :: "runRow \<Rightarrow> execState \<Rightarrow> runState \<Rightarrow> runState" where
  "storeItem it x s = s\<lparr>rsTick := xsTick x, rsFS := xsFS x, rsRows := xsRows x,
     rsItems := map (\<lambda>r. if rrID r = rrID it then r\<lparr>rrDetail := xsSaved x, rrStatus := xsStatus x\<rparr> else r) (rsItems s)\<rparr>"

definition execItem :: "execEnv \<Rightarrow> runRow \<Rightarrow> runState \<Rightarrow> (execErr + unit) \<times> runState" where
  "execItem v it s =
     (case runWindowed v (rrAction it) (rrRel it) (loadItem s it) of (r, x) \<Rightarrow> (r, storeItem it x s))"

section \<open>Batches and phases\<close>

text \<open>A step of the run itself: a read of the database, or the check of the destination's marker.\<close>

definition stepRun :: "execEnv \<Rightarrow> runState \<Rightarrow> (execErr + unit) \<times> runState" where
  "stepRun v s =
     ((case xvFault v (rsTick s) of Some e \<Rightarrow> Inl e | None \<Rightarrow> Inr ()), s\<lparr>rsTick := Suc (rsTick s)\<rparr>)"

definition afterItem :: "execEnv \<Rightarrow> runState \<Rightarrow> (execErr + unit) \<times> runState" where
  "afterItem v s =
     (if Suc (rsSince s) \<ge> xvRecheckEvery v then stepRun v (s\<lparr>rsSince := 0\<rparr>)
      else (Inr (), s\<lparr>rsSince := Suc (rsSince s)\<rparr>))"

fun runBatch :: "execEnv \<Rightarrow> itemAction list \<Rightarrow> runRow list \<Rightarrow> runState \<Rightarrow> (execErr + unit) \<times> runState" where
  "runBatch v acts [] s = (Inr (), s)"
| "runBatch v acts (it # its) s =
     (if rrAction it \<notin> set acts then runBatch v acts its s
      else if xvCancelled v (rsTick s) then (Inl ErrFatal, s)
      else (case execItem v it s of
              (Inl e, s1) \<Rightarrow> (Inl e, s1)
            | (Inr _, s1) \<Rightarrow>
                (case afterItem v s1 of
                   (Inl e, s2) \<Rightarrow> (Inl e, s2)
                 | (Inr _, s2) \<Rightarrow> runBatch v acts its s2)))"

lemma storeItem_ids [simp]: "map rrID (rsItems (storeItem it x s)) = map rrID (rsItems s)"
  by (simp add: storeItem_def)

lemma afterItem_items [simp]: "rsItems (snd (afterItem v s)) = rsItems s"
  by (simp add: afterItem_def stepRun_def)

lemma runBatch_ids: "map rrID (rsItems (snd (runBatch v acts its s))) = map rrID (rsItems s)"
proof (induction its arbitrary: s)
  case (Cons it its)
  obtain r s1 where e: "execItem v it s = (r, s1)" by (cases "execItem v it s")
  then have e1: "map rrID (rsItems s1) = map rrID (rsItems s)" by (auto simp: execItem_def split: prod.splits)
  obtain r2 s2 where a: "afterItem v s1 = (r2, s2)" by (cases "afterItem v s1")
  then have "map rrID (rsItems s2) = map rrID (rsItems s)" using e1 afterItem_items [of v s1] by simp
  with e e1 a Cons show ?case by (auto split: sum.split)
qed simp

function runPhase :: "execEnv \<Rightarrow> itemAction list \<Rightarrow> ident \<Rightarrow> runState \<Rightarrow> (execErr + unit) \<times> runState" where
  "runPhase v acts after s =
     (case stepRun v s of
        (Inl e, s0) \<Rightarrow> (Inl e, s0)
      | (Inr _, s0) \<Rightarrow>
          (let batch = Pending after pendingBatch (rsItems s0)
           in if batch = [] then (Inr (), s0)
              else (case runBatch v acts batch s0 of
                      (Inl e, s1) \<Rightarrow> (Inl e, s1)
                    | (Inr _, s1) \<Rightarrow> runPhase v acts (rrID (last batch)) s1)))"
  by pat_completeness auto

lemma Pending_set: "it \<in> set (Pending after n items) \<Longrightarrow> it \<in> set items \<and> rrStatus it = ItemPending \<and> rrID it > after"
  by (auto simp: Pending_def dest: in_set_takeD)

lemma ids_above_less:
  fixes items items1 :: "runRow list"
  assumes "it \<in> set items" "rrID it > after" "map rrID items1 = map rrID items"
  shows "length (filter (\<lambda>r. rrID r > rrID it) items1) < length (filter (\<lambda>r. rrID r > after) items)"
proof -
  have len: "length (filter (\<lambda>r. rrID r > k) xs) = length (filter (\<lambda>i. i > k) (map rrID xs))" for k and xs :: "runRow list"
    by (induction xs) auto
  have sub: "length (filter (\<lambda>i. i > rrID it) xs) \<le> length (filter (\<lambda>i. i > after) xs)" for xs :: "ident list"
    using assms(2) by (induction xs) auto
  have lt: "length (filter (\<lambda>i. i > rrID it) xs) < length (filter (\<lambda>i. i > after) xs)" if "rrID it \<in> set xs" for xs
    using that
  proof (induction xs)
    case (Cons x xs)
    with sub [of xs] assms(2) show ?case by (cases "x = rrID it") (auto simp: less_Suc_eq_le)
  qed simp
  show ?thesis unfolding len assms(3) by (rule lt) (use assms(1) in simp)
qed

termination runPhase
proof (relation "measure (\<lambda>(v, acts, after, s). length (filter (\<lambda>r. rrID r > after) (rsItems s)))")
  fix v acts after s p1 p2 y s0 batch q1 q2 z s1
  assume p: "(p1, s0) = stepRun v s" "batch = Pending after pendingBatch (rsItems s0)" "batch \<noteq> []"
    "(q1, s1) = runBatch v acts batch s0"
  have "rsItems s0 = rsItems s" using p(1) by (simp add: stepRun_def)
  moreover have "map rrID (rsItems s1) = map rrID (rsItems s0)" using runBatch_ids [of v acts batch s0] by (simp flip: p(4))
  moreover have "last batch \<in> set (rsItems s0) \<and> rrID (last batch) > after" using p(2,3) Pending_set last_in_set by metis
  ultimately show "((v, acts, rrID (last batch), s1), (v, acts, after, s)) \<in> measure (\<lambda>(v, acts, after, s). length (filter (\<lambda>r. rrID r > after) (rsItems s)))"
    using ids_above_less [of "last batch" "rsItems s0" after "rsItems s1"] by simp
qed simp

declare runPhase.simps [simp del]

fun runPhases :: "execEnv \<Rightarrow> itemAction list list \<Rightarrow> runState \<Rightarrow> (execErr + unit) \<times> runState" where
  "runPhases v [] s = (Inr (), s)"
| "runPhases v (acts # rest) s =
     (case (if ActionRetain \<in> set acts then stepRun v s else (Inr (), s)) of
        (Inl e, s0) \<Rightarrow> (Inl e, s0)
      | (Inr _, s0) \<Rightarrow>
          (case runPhase v acts 0 s0 of
             (Inl e, s1) \<Rightarrow> (Inl e, s1)
           | (Inr _, s1) \<Rightarrow> runPhases v rest s1))"

definition execute :: "execEnv \<Rightarrow> runState \<Rightarrow> (execErr + unit) \<times> runState" where
  "execute v s = (case stepRun v s of (Inl e, s0) \<Rightarrow> (Inl e, s0) | (Inr _, s0) \<Rightarrow> runPhases v phases s0)"

section \<open>Nothing is lost\<close>

definition runRowOk :: "runRow \<Rightarrow> bool" where
  "runRowOk r \<longleftrightarrow> okPath (rrRel r) \<and> detailOk (rrDetail r)"

definition runSafe :: "string set \<Rightarrow> runState \<Rightarrow> bool" where
  "runSafe C s \<longleftrightarrow> fsOk (rsFS s) \<and> (\<forall>c \<in> C. holds (rsFS s) c) \<and> rowsOk (rsRows s)
     \<and> list_all runRowOk (rsItems s)"

lemma safe_windowCut: "keeps (safe C) (windowCut v)"
  unfolding windowCut_def by (intro keeps_bind keeps_basic sf.reads safe_modD) (simp add: detailOk_def)

lemma safe_runWindowed: "envOk v \<Longrightarrow> okPath item \<Longrightarrow> keeps (safe C) (runWindowed v act item)"
  unfolding runWindowed_def runInWindow_def
  by (auto intro!: keeps_bind keeps_basic sf.reads safe_runItem safe_windowCut split: windowVerdict.split)

lemma runSafe_store: "runSafe C s \<Longrightarrow> safe C x \<Longrightarrow> runSafe C (storeItem it x s)"
  by (auto simp: runSafe_def safe_def storeItem_def list_all_iff runRowOk_def)

lemma runSafe_tick [simp]:
  "runSafe C (s\<lparr>rsTick := t\<rparr>) = runSafe C s" "runSafe C (s\<lparr>rsSince := n\<rparr>) = runSafe C s"
  by (simp_all add: runSafe_def)

lemma runSafe_stepRun: "runSafe C s \<Longrightarrow> runSafe C (snd (stepRun v s))"
  by (simp add: stepRun_def)

lemma runSafe_afterItem: "runSafe C s \<Longrightarrow> runSafe C (snd (afterItem v s))"
  by (simp add: afterItem_def runSafe_stepRun)

lemma runSafe_execItem:
  assumes "envOk v" "runSafe C s" "runRowOk it"
  shows "runSafe C (snd (execItem v it s))"
proof -
  have "safe C (loadItem s it)" using assms(2,3) by (simp add: runSafe_def safe_def loadItem_def runRowOk_def)
  moreover have "keeps (safe C) (runWindowed v (rrAction it) (rrRel it))"
    using safe_runWindowed [OF assms(1)] assms(3) by (simp add: runRowOk_def)
  ultimately have "safe C (snd (runWindowed v (rrAction it) (rrRel it) (loadItem s it)))" by (simp add: keeps_def)
  then show ?thesis using runSafe_store [OF assms(2)] by (auto simp: execItem_def split: prod.split)
qed

lemma runSafe_runBatch:
  "envOk v \<Longrightarrow> runSafe C s \<Longrightarrow> \<forall>it \<in> set its. runRowOk it \<Longrightarrow> runSafe C (snd (runBatch v acts its s))"
proof (induction its arbitrary: s)
  case (Cons it its)
  obtain r s1 where e: "execItem v it s = (r, s1)" by (cases "execItem v it s")
  obtain r2 s2 where a: "afterItem v s1 = (r2, s2)" by (cases "afterItem v s1")
  have "runSafe C s1" using runSafe_execItem [OF Cons(2,3), of it] Cons(4) e by simp
  moreover from this have "runSafe C s2" using runSafe_afterItem [of C s1 v] a by simp
  ultimately show ?case using Cons e a by (auto split: sum.split)
qed simp

lemma runSafe_runPhase: "envOk v \<Longrightarrow> runSafe C s \<Longrightarrow> runSafe C (snd (runPhase v acts after s))"
proof (induction v acts after s rule: runPhase.induct)
  case (1 v acts after s)
  obtain r s0 where p: "stepRun v s = (r, s0)" by (cases "stepRun v s")
  have s0: "runSafe C s0" using runSafe_stepRun [OF 1(3), of v] p by simp
  let ?batch = "Pending after pendingBatch (rsItems s0)"
  obtain q s1 where b: "runBatch v acts ?batch s0 = (q, s1)" by (cases "runBatch v acts ?batch s0")
  have "\<forall>it \<in> set ?batch. runRowOk it" using s0 by (auto simp: runSafe_def list_all_iff dest: Pending_set)
  from runSafe_runBatch [OF 1(2) s0 this, of acts] b have s1: "runSafe C s1" by simp
  from 1(1) [OF p [symmetric]] s0 s1 p b 1(2) show ?case
    by (subst runPhase.simps) (auto simp: Let_def split: sum.split)
qed

lemma runSafe_runPhases: "envOk v \<Longrightarrow> runSafe C s \<Longrightarrow> runSafe C (snd (runPhases v phs s))"
proof (induction phs arbitrary: s)
  case (Cons acts rest)
  let ?p = "if ActionRetain \<in> set acts then stepRun v s else (Inr (), s)"
  obtain r s0 where p: "?p = (r, s0)" by (cases ?p)
  have s0: "runSafe C s0" using runSafe_stepRun [OF Cons(3), of v] Cons(3) p by (auto split: if_splits)
  obtain q s1 where b: "runPhase v acts 0 s0 = (q, s1)" by (cases "runPhase v acts 0 s0")
  have s1: "runSafe C s1" using runSafe_runPhase [OF Cons(2) s0, of acts 0] b by simp
  have "runPhases v (acts # rest) s = (case r of Inl e \<Rightarrow> (Inl e, s0) | Inr _ \<Rightarrow> (case q of Inl e \<Rightarrow> (Inl e, s1) | Inr _ \<Rightarrow> runPhases v rest s1))"
    unfolding runPhases.simps p by (simp add: b split: sum.split)
  with Cons s0 s1 show ?case by (auto split: sum.split)
qed simp

lemma runSafe_execute: "envOk v \<Longrightarrow> runSafe C s \<Longrightarrow> runSafe C (snd (execute v s))"
proof -
  assume v: "envOk v" and s: "runSafe C s"
  have "runSafe C (snd (runPhases v phases s0))" if "stepRun v s = (r, s0)" for r s0
    using runSafe_runPhases [OF v] runSafe_stepRun [OF s, of v] that by simp
  with runSafe_stepRun [OF s, of v] show ?thesis by (auto simp: execute_def split: prod.split sum.split)
qed

text \<open>The attempts of a job: each starts from what the one before left, a crash included.\<close>

definition attempts :: "execEnv list \<Rightarrow> runState \<Rightarrow> runState" where
  "attempts vs s = foldl (\<lambda>s v. snd (execute v s)) s vs"

lemma runSafe_attempts: "\<forall>v \<in> set vs. envOk v \<Longrightarrow> runSafe C s \<Longrightarrow> runSafe C (attempts vs s)"
  unfolding attempts_def by (induction vs arbitrary: s) (auto intro: runSafe_execute)

section \<open>Every item is settled\<close>

text \<open>A program that returns leaves the item with a final status.\<close>

definition settles :: "'a exec \<Rightarrow> bool" where
  "settles m \<longleftrightarrow> (\<forall>s x s1. m s = (Inr x, s1) \<longrightarrow> xsStatus s1 \<noteq> ItemPending)"

lemma settles_bind: "(\<And>x. settles (f x)) \<Longrightarrow> settles (bindX m f)"
  unfolding settles_def bindX_def by (auto split: prod.splits sum.splits)

lemma settles_throw: "settles (throw e)"
  by (simp add: settles_def throw_def)

lemma settles_modifies: "(\<And>s. xsStatus (f s) \<noteq> ItemPending) \<Longrightarrow> settles (modifies f)"
  by (auto simp: settles_def modifies_def)

lemma settles_if: "(b \<Longrightarrow> settles m) \<Longrightarrow> (\<not> b \<Longrightarrow> settles n) \<Longrightarrow> settles (if b then m else n)"
  by simp

lemma settles_option:
  "(x = None \<Longrightarrow> settles m) \<Longrightarrow> (\<And>y. x = Some y \<Longrightarrow> settles (f y)) \<Longrightarrow> settles (case x of None \<Rightarrow> m | Some y \<Rightarrow> f y)"
  by (cases x) auto

lemma settles_finishItem: "st \<noteq> ItemPending \<Longrightarrow> settles (finishItem v st)"
  unfolding finishItem_def by (intro settles_bind settles_modifies) simp

lemma settles_doneItem: "settles (doneItem v)"
  unfolding doneItem_def by (rule settles_finishItem) simp

lemma settles_failRun: "settles (failRun v)"
  unfolding failRun_def by (intro settles_bind settles_modifies) simp

lemmas settles_rules = settles_bind settles_throw settles_if settles_option settles_doneItem settles_failRun

lemma settles_place: "settles (putCopy v p)" "settles (fallbackPlace v p)"
  unfolding putCopy_def fallbackPlace_def by (intro settles_rules settles_finishItem; simp)+

lemma settles_adoptItem: "settles (adoptItem v p)"
  unfolding adoptItem_def by (intro settles_rules settles_place)

lemma settles_recordMoved: "settles (recordMoved v rec p)"
  unfolding recordMoved_def by (intro settles_rules)

lemma settles_moveItem: "settles (moveItem v p)"
  unfolding moveItem_def moveNow_def by (intro settles_rules settles_place settles_recordMoved)

lemma settles_linkItem: "settles (linkItem v p)"
  unfolding linkItem_def linkNow_def recordLink_def Let_def
  by (intro settles_rules settles_place) (auto split: prod.split intro!: settles_rules)

lemma settles_promoteItem: "settles (promoteItem v p)"
  unfolding promoteItem_def promoteFile_def recordPromote_def by (intro settles_rules)

lemma settles_retainItem: "settles (retainItem v)"
  unfolding retainItem_def retainLive_def recordRetain_def Let_def by (intro settles_rules settles_finishItem; simp)

lemma settles_runAction: "settles (runAction v act p)"
  unfolding runAction_def
  by (rule settles_bind, cases act)
    (simp_all add: settles_place settles_adoptItem settles_moveItem settles_linkItem settles_promoteItem settles_retainItem settles_throw)

lemma settles_try:
  assumes "settles m" "\<And>e. settles (g e)"
  shows "settles (bindX (tryX m) (\<lambda>r. case r of Inr _ \<Rightarrow> ret () | Inl e \<Rightarrow> g e))"
  using assms unfolding settles_def bindX_def tryX_def ret_def
  by (auto split: prod.splits sum.splits execErr.splits)

lemma settles_runItem: "settles (runItem v act p)"
  unfolding runItem_def
  by (intro settles_bind settles_if settles_finishItem settles_try settles_runAction settles_throw settles_failRun; simp)

lemma settles_windowCut: "settles (windowCut v)"
  unfolding windowCut_def by (intro settles_rules)

lemma settles_runInWindow: "settles (runInWindow v act p)"
  unfolding runInWindow_def
  by (intro settles_try settles_runItem settles_bind settles_if settles_windowCut settles_throw)

lemma settles_runWindowed: "settles (runWindowed v act p)"
  unfolding runWindowed_def
  by (rule settles_bind) (auto split: windowVerdict.split intro: settles_throw settles_failRun settles_runInWindow)

text \<open>Rows go on from pending, never back to it.\<close>

definition rowGoesOn :: "runRow \<Rightarrow> runRow \<Rightarrow> bool" where
  "rowGoesOn a b \<longleftrightarrow> rrID b = rrID a \<and> rrAction b = rrAction a \<and> (rrStatus a \<noteq> ItemPending \<longrightarrow> rrStatus b \<noteq> ItemPending)"

definition goesOn :: "runState \<Rightarrow> runState \<Rightarrow> bool" where
  "goesOn s t = list_all2 rowGoesOn (rsItems s) (rsItems t)"

lemma goesOn_refl: "rsItems t = rsItems s \<Longrightarrow> goesOn s t"
  by (simp add: goesOn_def list_all2_same rowGoesOn_def)

lemma goesOn_trans: "goesOn s t \<Longrightarrow> goesOn t u \<Longrightarrow> goesOn s u"
  unfolding goesOn_def by (rule list_all2_trans) (auto simp: rowGoesOn_def)

lemma goesOn_row: "goesOn s t \<Longrightarrow> r \<in> set (rsItems t) \<Longrightarrow> \<exists>a \<in> set (rsItems s). rowGoesOn a r"
  unfolding goesOn_def list_all2_conv_all_nth by (metis in_set_conv_nth)

definition settled :: "ident \<Rightarrow> runState \<Rightarrow> bool" where
  "settled i s = list_all (\<lambda>r. rrID r = i \<longrightarrow> rrStatus r \<noteq> ItemPending) (rsItems s)"

lemma settled_goesOn: "goesOn s t \<Longrightarrow> settled i s \<Longrightarrow> settled i t"
  unfolding settled_def list_all_iff using goesOn_row rowGoesOn_def by metis

lemma execItem_settles:
  assumes "execItem v it s = (Inr (), t)"
  shows "goesOn s t" "settled (rrID it) t"
proof -
  obtain x where x: "runWindowed v (rrAction it) (rrRel it) (loadItem s it) = (Inr (), x)" and t: "t = storeItem it x s"
    using assms by (auto simp: execItem_def split: prod.splits)
  have st: "xsStatus x \<noteq> ItemPending" using settles_runWindowed x unfolding settles_def by blast
  show "goesOn s t" by (auto simp: t goesOn_def storeItem_def list_all2_map2 rowGoesOn_def st intro!: list_all2_refl)
  show "settled (rrID it) t" by (auto simp: t settled_def storeItem_def list_all_iff st)
qed

lemma runBatch_settles:
  assumes "runBatch v acts its s = (Inr (), t)"
  shows "goesOn s t \<and> (\<forall>it \<in> set its. rrAction it \<in> set acts \<longrightarrow> settled (rrID it) t)"
  using assms
proof (induction its arbitrary: s)
  case (Cons it its)
  show ?case
  proof (cases "rrAction it \<in> set acts")
    case True
    obtain s1 s2 where s1: "execItem v it s = (Inr (), s1)" and s2: "afterItem v s1 = (Inr (), s2)"
      and rest: "runBatch v acts its s2 = (Inr (), t)"
      using Cons(2) True by (auto split: prod.splits sum.splits if_splits)
    have s12: "goesOn s1 s2" using s2 afterItem_items [of v s1] by (auto intro: goesOn_refl)
    with execItem_settles [OF s1] Cons(1) [OF rest] show ?thesis
      by (auto intro: goesOn_trans settled_goesOn)
  qed (use Cons in auto)
qed (simp add: goesOn_refl)

text \<open>A batch holds the first pending rows.\<close>

lemma Pending_first:
  assumes "r \<in> set items" "rrStatus r = ItemPending" "rrID r > after" "rrID r \<le> rrID (last (Pending after n items))"
    "Pending after n items \<noteq> []" "distinct (map rrID items)"
  shows "r \<in> set (Pending after n items)"
proof -
  let ?l = "sort_key rrID (filter (\<lambda>r. rrStatus r = ItemPending \<and> rrID r > after) items)"
  have r: "r \<in> set (take n ?l) \<union> set (drop n ?l)" using assms(1-3) by (simp flip: set_append)
  have "r \<in> set (take n ?l)" if d: "r \<in> set (drop n ?l)"
  proof -
    have lst: "last (take n ?l) \<in> set (take n ?l)" using assms(5) by (intro last_in_set) (simp add: Pending_def)
    have "sorted (map rrID (take n ?l @ drop n ?l))" by simp
    then have "rrID (last (take n ?l)) \<le> rrID r" using lst d unfolding map_append sorted_append by simp
    with assms(4) have "rrID r = rrID (last (take n ?l))" by (simp add: Pending_def)
    moreover have "last (take n ?l) \<in> set items" using in_set_takeD [OF lst] by simp
    ultimately have "r = last (take n ?l)" using assms(1,6) by (auto simp: distinct_map dest: inj_onD)
    with lst show ?thesis by simp
  qed
  with r show ?thesis by (auto simp: Pending_def)
qed

lemma runPhase_settles:
  assumes "runPhase v acts after s = (Inr (), t)" "distinct (map rrID (rsItems s))"
  shows "goesOn s t \<and> (\<forall>r \<in> set (rsItems t). rrAction r \<in> set acts \<longrightarrow> rrID r > after \<longrightarrow> rrStatus r \<noteq> ItemPending)"
  using assms
proof (induction v acts after s rule: runPhase.induct)
  case (1 v acts after s)
  obtain r0 s0 where p: "stepRun v s = (r0, s0)" by (cases "stepRun v s")
  then have i0: "rsItems s0 = rsItems s" by (auto simp: stepRun_def)
  let ?b = "Pending after pendingBatch (rsItems s0)"
  obtain u where ok: "r0 = Inr u" using 1(2) p by (subst (asm) runPhase.simps) (auto split: sum.splits)
  show ?case
  proof (cases "?b = []")
    case True
    have "t = s0" using 1(2) p ok True by (subst (asm) runPhase.simps) simp
    moreover have "set (sort_key rrID (filter (\<lambda>r. rrStatus r = ItemPending \<and> rrID r > after) (rsItems s0))) = {}"
      using True by (simp add: Pending_def pendingBatch_def)
    then have "rrStatus r \<noteq> ItemPending" if "r \<in> set (rsItems s0)" "rrID r > after" for r
      using that by auto
    ultimately show ?thesis using goesOn_refl [OF i0] by auto
  next
    case False
    obtain s1 where b: "runBatch v acts ?b s0 = (Inr (), s1)" and rest: "runPhase v acts (rrID (last ?b)) s1 = (Inr (), t)"
      using 1(2) p ok False by (subst (asm) runPhase.simps) (auto simp: Let_def split: prod.splits sum.splits)
    have ids: "map rrID (rsItems s1) = map rrID (rsItems s)" using runBatch_ids [of v acts ?b s0] b i0 by simp
    have ih: "goesOn s1 t" "\<forall>r \<in> set (rsItems t). rrAction r \<in> set acts \<longrightarrow> rrID r > rrID (last ?b) \<longrightarrow> rrStatus r \<noteq> ItemPending"
      using 1(1) [OF p [symmetric] ok refl False b [symmetric] refl rest] 1(3) ids by simp_all
    note bs = runBatch_settles [OF b]
    have s0t: "goesOn s0 t" using bs ih(1) goesOn_trans by blast
    have "rrStatus r \<noteq> ItemPending" if r: "r \<in> set (rsItems t)" "rrAction r \<in> set acts" "rrID r > after" for r
    proof (cases "rrID r > rrID (last ?b)")
      case False
      obtain a where a: "a \<in> set (rsItems s0)" "rowGoesOn a r" using goesOn_row [OF s0t r(1)] by blast
      show ?thesis
      proof (cases "rrStatus a = ItemPending")
        case True
        have "a \<in> set ?b"
          by (rule Pending_first [OF a(1) True _ _ \<open>?b \<noteq> []\<close>]) (use a(2) r False 1(3) i0 in \<open>auto simp: rowGoesOn_def\<close>)
        moreover have "rrAction a \<in> set acts" using a(2) r(2) by (simp add: rowGoesOn_def)
        ultimately have "settled (rrID a) t" using bs settled_goesOn [OF ih(1)] by blast
        with r(1) a(2) show ?thesis by (auto simp: settled_def list_all_iff rowGoesOn_def)
      qed (use a(2) in \<open>simp add: rowGoesOn_def\<close>)
    qed (use ih(2) r in blast)
    then show ?thesis using s0t i0 by (auto simp: goesOn_def)
  qed
qed

lemma runPhases_settles:
  assumes "runPhases v phs s = (Inr (), t)" "distinct (map rrID (rsItems s))"
  shows "goesOn s t \<and> (\<forall>r \<in> set (rsItems t). rrAction r \<in> set (concat phs) \<longrightarrow> rrID r > 0 \<longrightarrow> rrStatus r \<noteq> ItemPending)"
  using assms
proof (induction phs arbitrary: s)
  case (Cons acts rest)
  let ?p = "if ActionRetain \<in> set acts then stepRun v s else (Inr (), s)"
  obtain r s0 where p: "?p = (r, s0)" by (cases ?p)
  have i0: "rsItems s0 = rsItems s" using p by (auto simp: stepRun_def split: if_splits)
  obtain s1 where b: "runPhase v acts 0 s0 = (Inr (), s1)" and more: "runPhases v rest s1 = (Inr (), t)"
    using Cons(2) unfolding runPhases.simps p by (auto split: sum.splits prod.splits)
  have ph: "goesOn s0 s1" "\<forall>r \<in> set (rsItems s1). rrAction r \<in> set acts \<longrightarrow> rrID r > 0 \<longrightarrow> rrStatus r \<noteq> ItemPending"
    using runPhase_settles [OF b] Cons(3) i0 by auto
  have "map rrID (rsItems s1) = map rrID (rsItems s0)"
    using ph(1) by (intro nth_equalityI) (auto simp: goesOn_def list_all2_conv_all_nth rowGoesOn_def)
  then have ih: "goesOn s1 t" "\<forall>r \<in> set (rsItems t). rrAction r \<in> set (concat rest) \<longrightarrow> rrID r > 0 \<longrightarrow> rrStatus r \<noteq> ItemPending"
    using Cons(1) [OF more] Cons(3) i0 by auto
  have "rrStatus r \<noteq> ItemPending" if r: "r \<in> set (rsItems t)" "rrAction r \<in> set acts" "rrID r > 0" for r
    using goesOn_row [OF ih(1) r(1)] ph(2) r(2,3) by (auto simp: rowGoesOn_def)
  moreover have "goesOn s t" using goesOn_trans [OF ph(1) ih(1)] i0 by (simp add: goesOn_def)
  ultimately show ?case using ih(2) by auto
qed (simp add: goesOn_refl)

section \<open>The properties\<close>

text \<open>A run that replaces a file: the environment crashes at a given step, or never.\<close>

definition exSettings :: syncSettings where
  "exSettings = \<lparr>ssAdoptExisting = AdoptSizeMtime, ssMtimeWindowSec = 0, ssMaxChangePercent = 50, ssMaxChangeFiles = 10\<rparr>"

definition exRunEnv :: "nat option \<Rightarrow> execEnv" where
  "exRunEnv crash = \<lparr>xvDest = 1, xvJob = 7, xvRetentionDir = ''.bunkarr/retention/7'', xvDeletedDays = 30, xvHardlinks = True,
     xvGranularityNs = 1, xvSettings = exSettings, xvVerify = VerifyFull, xvAllowChanges = True, xvLinkMode = True,
     xvIdentity = True, xvHasRoot = True, xvHash = (\<lambda>d. d), xvNow = (\<lambda>_. 100),
     xvFault = (\<lambda>t. if Some t = crash then Some ErrCrash else None), xvCancelled = (\<lambda>_. False),
     xvRandom = (\<lambda>t. replicate t (CHR ''x'')), xvNlink = (\<lambda>_. 1),
     xvSrcStat = (\<lambda>_ p. Inr (if p = ''a'' then Some \<lparr>stSize = 3, stMtimeNs = 9, stRegular = True, fsIno = 0, fsNlink = 1\<rparr> else None)),
     xvSrcData = (\<lambda>_ _. Inr ''new''), xvInCatalog = (\<lambda>_ _. Inr False), xvNotBackedUp = (\<lambda>_ _. Inr []),
     xvRecheckEvery = 500, xvWindow = (\<lambda>_. WindowRun), xvCut = (\<lambda>_. False), xvCheckRelease = (\<lambda>_ _. Inr [])\<rparr>"

definition exRunState :: runState where
  "exRunState = \<lparr>rsTick = 0, rsFS = \<lparr>dfNames = (\<lambda>p. if p = ''m/a'' then Some 0 else None),
       dfNodes = (\<lambda>_. \<lparr>fnRegular = True, fnMtimeNs = 5, fnData = ''before''\<rparr>), dfNext = 1\<rparr>,
     rsRows = [zeroRecord\<lparr>drID := 1, drDestinationID := 1, drSourceID := 1, drRelPath := ''m/a'', drSourceRelPath := ''a'',
       drSize := 6, drMtimeNs := 5, drJobID := 3\<rparr>],
     rsItems = [\<lparr>rrID = 1, rrAction = ActionUpdate, rrRel = ''m/a'', rrStatus = ItemPending,
       rrDetail = detail.extend (zeroDetail\<lparr>deSourceID := 1, deSource := ''a''\<rparr>)
         (execDetail.fields [] False 0 0 [] [] 0 0 [] [] [] 0 0 [] 0)\<rparr>], rsSince = 0\<rparr>"

lemma envOk_exRunEnv: "envOk (exRunEnv crash)"
  unfolding envOk_def exRunEnv_def by simp

lemma runSafe_exRunState: "runSafe {} exRunState"
proof -
  have "okPath ''m/a''" by code_simp
  then show ?thesis
    by (auto simp: runSafe_def exRunState_def fsOk_def rowsOk_def runRowOk_def detailOk_def execDetail.defs detail.defs split: if_splits)
qed

text \<open>C1: Whatever faults, crashes, deferrals and changes of the source the attempts of a sync job meet, and
  however often it is resumed: a content that a file of the destination has under a name that is no temp
  name is there under such a name afterwards.  The names of retention are no temp names, so a replaced or
  retained version is still at the destination.  Assumed of the environment: the random
  part of a temp name has no slash and the hash of a file has no collisions; of the start: the recorded
  paths are clean paths outside retention, and what an item kept or displaced before is in retention.\<close>

theorem attempts_lose_nothing:
  assumes "\<forall>v \<in> set vs. envOk v" "runSafe {} s" "holds (rsFS s) c"
  shows "holds (rsFS (attempts vs s)) c"
  using runSafe_attempts [OF assms(1), of "{c}" s] assms(2,3) by (simp add: runSafe_def)


theorem attempts_lose_nothing_witness:
  "envOk (exRunEnv (Some 20)) \<and> envOk (exRunEnv None) \<and> runSafe {} exRunState \<and> holds (rsFS exRunState) ''before''
     \<and> holds (rsFS (attempts [exRunEnv (Some 20), exRunEnv None] exRunState)) ''before''"
proof -
  have env: "\<forall>v \<in> set [exRunEnv (Some 20), exRunEnv None]. envOk v" by (simp add: envOk_exRunEnv)
  have "\<not> tempPath ''m/a''" by code_simp
  then have held: "holds (rsFS exRunState) ''before''"
    unfolding holds_def by (intro exI [of _ "''m/a''"] exI [of _ 0]) (simp add: exRunState_def)
  show ?thesis using envOk_exRunEnv held runSafe_exRunState attempts_lose_nothing [OF env runSafe_exRunState held] by blast
qed

text \<open>C12: An execution that returns has settled every item of the plan in one of its phases: done, failed,
  skipped or held, none is left pending.\<close>

theorem execute_settles_items:
  assumes "execute v s = (Inr (), t)" "distinct (map rrID (rsItems s))" "\<forall>r \<in> set (rsItems s). rrID r > 0"
  shows "filter (\<lambda>r. rrAction r \<in> set (concat phases) \<and> rrStatus r = ItemPending) (rsItems t) = []"
proof -
  obtain s0 where s0: "stepRun v s = (Inr (), s0)" "runPhases v phases s0 = (Inr (), t)"
    using assms(1) by (auto simp: execute_def split: prod.splits sum.splits)
  then have i0: "rsItems s0 = rsItems s" by (auto simp: stepRun_def)
  have "goesOn s0 t" and st: "\<forall>r \<in> set (rsItems t). rrAction r \<in> set (concat phases) \<longrightarrow> rrID r > 0 \<longrightarrow> rrStatus r \<noteq> ItemPending"
    using runPhases_settles [OF s0(2)] assms(2) i0 by auto
  have "rrID r > 0" if "r \<in> set (rsItems t)" for r
    using goesOn_row [OF \<open>goesOn s0 t\<close> that] assms(3) i0 by (auto simp: rowGoesOn_def)
  with st show ?thesis by (auto simp: filter_empty_conv)
qed

theorem execute_settles_items_witness:
  "\<exists>t. execute (exRunEnv None) exRunState = (Inr (), t)
     \<and> filter (\<lambda>r. rrAction r \<in> set (concat phases) \<and> rrStatus r = ItemPending) (rsItems t) = []"
proof -
  have "fst (execute (exRunEnv None) exRunState) = Inr ()" by code_simp
  then obtain t where t: "execute (exRunEnv None) exRunState = (Inr (), t)" by (metis prod.collapse)
  have "filter (\<lambda>r. rrAction r \<in> set (concat phases) \<and> rrStatus r = ItemPending) (rsItems t) = []"
    by (rule execute_settles_items [OF t]) (simp_all add: exRunState_def)
  with t show ?thesis by blast
qed

section \<open>A replaced name whose old version is lost from the records\<close>

definition exLinkEnv :: "nat option \<Rightarrow> execEnv" where
  "exLinkEnv crash = (exRunEnv crash)\<lparr>xvIdentity := False,
     xvSrcStat := (\<lambda>_ p. Inr (if p = ''a'' \<or> p = ''b'' then Some \<lparr>stSize = 3, stMtimeNs = 9, stRegular = True, fsIno = 0, fsNlink = 2\<rparr> else None))\<rparr>"

definition exLinkState :: runState where
  "exLinkState = \<lparr>rsTick = 0, rsFS = \<lparr>dfNames = (\<lambda>p. if p = ''m/a'' then Some 0 else if p = ''m/b'' then Some 1 else None),
       dfNodes = (\<lambda>i. if i = 0 then \<lparr>fnRegular = True, fnMtimeNs = 9, fnData = ''new''\<rparr> else \<lparr>fnRegular = True, fnMtimeNs = 5, fnData = ''before''\<rparr>), dfNext = 2\<rparr>,
     rsRows = [zeroRecord\<lparr>drID := 1, drDestinationID := 1, drSourceID := 1, drRelPath := ''m/a'', drSourceRelPath := ''a'',
         drSize := 3, drMtimeNs := 9, drJobID := 3\<rparr>,
       zeroRecord\<lparr>drID := 2, drDestinationID := 1, drSourceID := 1, drRelPath := ''m/b'', drSourceRelPath := ''b'',
         drSize := 6, drMtimeNs := 5, drJobID := 3\<rparr>],
     rsItems = [\<lparr>rrID = 1, rrAction = ActionLink, rrRel = ''m/b'', rrStatus = ItemPending,
       rrDetail = detail.extend (zeroDetail\<lparr>deSourceID := 1, deSource := ''b'', dePrimary := ''a''\<rparr>)
         (execDetail.fields [] False 0 0 [] [] 0 0 [] [] [] 0 0 [] 0)\<rparr>], rsSince = 0\<rparr>"

text \<open>A run that shows a fault of the code.  A link item moved the name's own old version into retention and made the hardlink, and crashed
  before it recorded them.  On a destination whose inode numbers do not identify files and whose client
  reports a link count of 1, the resumed item takes its own hardlink for an unmanaged file and adopts it:
  the record's retention intent is cleared, and the old version stays in retention without a record.\<close>

theorem link_adoption_orphans_old_version:
  "let s = attempts [exLinkEnv (Some 22), exLinkEnv None] exLinkState
   in map rrStatus (rsItems s) = [ItemDone]
      \<and> map_option fnData (nodeAt ''.bunkarr/retention/7/m/b'' (rsFS s)) = Some ''before''
      \<and> list_all (\<lambda>r. drRetainedPath r \<noteq> ''.bunkarr/retention/7/m/b'') (rsRows s)"
  by code_simp

end
