(* ===== verification/Reconcile.thy ===== *)
theory Reconcile
  imports SyncRun RecordLinks
begin

text \<open>
  The settling of what stopped jobs left at a destination (internal/syncer/reconcile.go), which every
  sync, verify and retention job runs first: the pending items of the jobs that own a directory in
  retention are swept, then every other retention intent is settled (\<open>settle\<close>, in SyncExec).  The
  entries of the retention directory, the stopped jobs' items and the sources that still exist are
  answers of the environment; a sweep writes no item, so the batches in which the items are read are
  left out.
\<close>

section \<open>The sweep\<close>

record recEnv =
  rcExec :: execEnv
  rcEntries :: "(string \<times> bool) list"
  rcItems :: "ident \<Rightarrow> runRow list"
  rcSource :: "nat \<Rightarrow> ident \<Rightarrow> bool"

definition syncActions :: "itemAction list" where
  "syncActions = [ActionCopy, ActionUpdate, ActionAdopt, ActionMove, ActionLink, ActionPromote, ActionRetain]"

text \<open>An unmanaged file that the item displaced is recorded, as an orphan when its source is gone.\<close>

definition sweepDisplaced :: "recEnv \<Rightarrow> execEnv \<Rightarrow> string \<Rightarrow> string \<Rightarrow> execDetail \<Rightarrow> unit exec" where
  "sweepDisplaced r v jobDir itemRel d =
     (if edDisplaced d = [] \<or> \<not> hasPrefix (edDisplaced d) (jobDir @ ''/'') then ret ()
      else bindX (lstatDest v (edDisplaced d))
        (\<lambda>st. case st of
                None \<Rightarrow> ret ()
              | Some x \<Rightarrow>
                  if \<not> stRegular x then ret ()
                  else bindX (gets (\<lambda>s. if rcSource r (xsTick s) (deSourceID d) then deSourceID d else 0))
                    (\<lambda>sid. writeTx v (\<lambda>e. insertRetained (retainedRow e sid itemRel (deSource d) (edDisplaced d)
                              (stSize x) (stMtimeNs x) [] ReasonDisplaced)))))"

text \<open>A replacement that is complete at the destination is recorded as its item would have.\<close>

definition finishPlacedTx :: "string \<Rightarrow> execDetail \<Rightarrow> txEnv \<Rightarrow> recTable \<Rightarrow> dbError + recTable" where
  "finishPlacedTx itemRel d e rows =
     (case liveAtTx (txDest e) itemRel rows of
        Some cur \<Rightarrow> if drRetainedPath cur \<noteq> edRetained d \<or> drSourceID cur \<noteq> deSourceID d then Inr rows
                    else placedTx e itemRel d True rows
      | None \<Rightarrow> Inr rows)"

definition finishPlaced :: "execEnv \<Rightarrow> string \<Rightarrow> execDetail \<Rightarrow> unit exec" where
  "finishPlaced v itemRel d =
     bindX (lstatDest v (edTemp d))
       (\<lambda>temp. if temp \<noteq> None then ret ()
               else bindX (lstatDest v itemRel)
       (\<lambda>fin. case fin of
                None \<Rightarrow> ret ()
              | Some f \<Rightarrow>
                  if \<not> stRegular f \<or> stSize f \<noteq> edTempSize d
                     \<or> \<not> MtimeMatch (stMtimeNs f) (edTempMtimeNs d) (xvGranularityNs v) 0 then ret ()
                  else bindX (lstatDest v (edRetained d))
       (\<lambda>kept. case kept of
                 None \<Rightarrow> ret ()
               | Some k \<Rightarrow>
                   bindX (sameDestFile v itemRel f (edRetained d) k)
                   (\<lambda>same. if same then ret () else writeTx v (finishPlacedTx itemRel d)))))"

definition sweepItem :: "recEnv \<Rightarrow> ident \<Rightarrow> string \<Rightarrow> runRow \<Rightarrow> unit exec" where
  "sweepItem r jobID jobDir it =
     (let v = (rcExec r)\<lparr>xvJob := jobID\<rparr>; d = rrDetail it
      in if rrAction it \<notin> set syncActions then ret ()
         else bindX (sweepDisplaced r v jobDir (rrRel it) d)
           (\<lambda>_. bindX (if edTemp d \<noteq> [] \<and> edTempDone d \<and> hasPrefix (edRetained d) (jobDir @ ''/'')
                       then finishPlaced v (rrRel it) d else ret ())
           (\<lambda>_. if edTemp d \<noteq> [] then CleanupTemp v (edTemp d) else ret ())))"

text \<open>\<open>fail\<close>: an error is a warning, unless it is fatal or the job is cancelled.\<close>

definition tolerate :: "execEnv \<Rightarrow> nat \<Rightarrow> unit exec \<Rightarrow> nat exec" where
  "tolerate v n m =
     bindX (tryX m)
       (\<lambda>x. case x of
              Inr _ \<Rightarrow> ret n
            | Inl e \<Rightarrow> bindX (gets (\<lambda>s. xvCancelled v (xsTick s)))
                         (\<lambda>c. if c \<or> e = ErrFatal then throw ErrFatal else ret (Suc n)))"

fun sweepItems :: "recEnv \<Rightarrow> ident \<Rightarrow> string \<Rightarrow> runRow list \<Rightarrow> nat \<Rightarrow> nat exec" where
  "sweepItems r jobID jobDir [] n = ret n"
| "sweepItems r jobID jobDir (it # its) n =
     bindX (tolerate (rcExec r) n (sweepItem r jobID jobDir it)) (sweepItems r jobID jobDir its)"

text \<open>The job in the name of a retention directory: what follows the last \<open>-job\<close>, a positive number.\<close>

definition ParseInt64 :: "string \<Rightarrow> int option" where
  "ParseInt64 s =
     (let neg = (s \<noteq> [] \<and> hd s = CHR ''-'');
          digits = (if s \<noteq> [] \<and> (hd s = CHR ''-'' \<or> hd s = CHR ''+'') then tl s else s)
      in case parseDec digits of
           None \<Rightarrow> None
         | Some n \<Rightarrow> let i = (if neg then - int n else int n) in if min_int64 \<le> i \<and> i \<le> max_int64 then Some i else None)"

fun afterLast :: "string \<Rightarrow> string \<Rightarrow> string option" where
  "afterLast sep [] = (if sep = [] then Some [] else None)"
| "afterLast sep (c # s) =
     (case afterLast sep s of
        Some t \<Rightarrow> Some t
      | None \<Rightarrow> if hasPrefix (c # s) sep then Some (drop (length sep) (c # s)) else None)"

definition jobOfDir :: "string \<Rightarrow> ident option" where
  "jobOfDir name =
     (case afterLast ''-job'' name of
        None \<Rightarrow> None
      | Some t \<Rightarrow> (case ParseInt64 t of Some i \<Rightarrow> if i \<le> 0 then None else Some i | None \<Rightarrow> None))"

fun sweepDirs :: "recEnv \<Rightarrow> string \<Rightarrow> (string \<times> bool) list \<Rightarrow> nat \<Rightarrow> nat exec" where
  "sweepDirs r ownDir [] n = ret n"
| "sweepDirs r ownDir ((name, isDir) # es) n =
     (let jobDir = RetentionRoot @ ''/'' @ name
      in case jobOfDir name of
           None \<Rightarrow> sweepDirs r ownDir es n
         | Some jobID \<Rightarrow>
             if \<not> isDir \<or> jobDir = ownDir then sweepDirs r ownDir es n
             else bindX (faultPoint (rcExec r))
               (\<lambda>_. bindX (sweepItems r jobID jobDir
                             (sort_key rrID (filter (\<lambda>it. rrStatus it = ItemPending) (rcItems r jobID))) n)
               (sweepDirs r ownDir es)))"

definition sweep :: "recEnv \<Rightarrow> string \<Rightarrow> nat exec" where
  "sweep r ownDir = bindX (faultPoint (rcExec r)) (\<lambda>_. sweepDirs r ownDir (rcEntries r) 0)"

section \<open>Intents\<close>

fun settleAll :: "execEnv \<Rightarrow> string \<Rightarrow> destRecord list \<Rightarrow> nat \<Rightarrow> nat exec" where
  "settleAll v ownDir [] n = ret n"
| "settleAll v ownDir (rec # recs) n =
     (if ownDir \<noteq> [] \<and> hasPrefix (drRetainedPath rec) (ownDir @ ''/'') then settleAll v ownDir recs n
      else bindX (tolerate v n (settle v rec None)) (settleAll v ownDir recs))"

definition reconcile :: "recEnv \<Rightarrow> string \<Rightarrow> nat exec" where
  "reconcile r ownDir =
     bindX (sweep r ownDir)
       (\<lambda>n. bindX (readRows (rcExec r) (intents (xvDest (rcExec r)))) (\<lambda>recs. settleAll (rcExec r) ownDir recs n))"

section \<open>Nothing is lost\<close>

definition recOk :: "recEnv \<Rightarrow> bool" where
  "recOk r \<longleftrightarrow> envOk (rcExec r) \<and> (\<forall>i. \<forall>it \<in> set (rcItems r i). runRowOk it)"

lemma envOk_job [simp]: "envOk (v\<lparr>xvJob := j\<rparr>) = envOk v"
  by (simp add: envOk_def)

lemma safe_tolerate: "keeps (safe C) m \<Longrightarrow> keeps (safe C) (tolerate v n m)"
  unfolding tolerate_def by (intro keeps_bind keeps_basic)

lemma safe_sweepDisplaced: "okPath item \<Longrightarrow> keeps (safe C) (sweepDisplaced r v jobDir item d)"
  unfolding sweepDisplaced_def
  by (intro keeps_bind keeps_basic sf.reads safe_writeTx rok_insertRetained) simp_all

lemma safe_finishPlaced: "okPath item \<Longrightarrow> keeps (safe C) (finishPlaced v item d)"
  unfolding finishPlaced_def
  by (intro keeps_bind keeps_basic sf.reads safe_writeTx)
    (auto simp: finishPlacedTx_def rok_placedTx split: option.split)

lemma safe_sweepItem: "runRowOk it \<Longrightarrow> keeps (safe C) (sweepItem r jobID jobDir it)"
  unfolding sweepItem_def Let_def
  by (intro keeps_bind keeps_basic safe_sweepDisplaced safe_finishPlaced safe_CleanupTemp) (simp_all add: runRowOk_def)

lemma safe_sweepItems: "\<forall>it \<in> set its. runRowOk it \<Longrightarrow> keeps (safe C) (sweepItems r jobID jobDir its n)"
  by (induction its arbitrary: n) (auto intro!: keeps_bind keeps_basic safe_tolerate safe_sweepItem)

lemma safe_sweepDirs: "recOk r \<Longrightarrow> keeps (safe C) (sweepDirs r ownDir es n)"
proof (induction es arbitrary: n)
  case (Cons e es)
  then have its: "\<forall>it \<in> set (sort_key rrID (filter (\<lambda>it. rrStatus it = ItemPending) (rcItems r jobID))). runRowOk it" for jobID
    by (auto simp: recOk_def)
  show ?case
    by (cases e) (simp only: sweepDirs.simps Let_def,
      intro keeps_option keeps_if keeps_bind sf.reads safe_sweepItems its Cons)
qed (simp add: keeps_ret)

lemma safe_settleAll:
  "envOk v \<Longrightarrow> \<forall>rec \<in> set recs. okPath (drRelPath rec) \<Longrightarrow> keeps (safe C) (settleAll v ownDir recs n)"
  by (induction recs arbitrary: n) (auto intro!: keeps_bind keeps_basic safe_tolerate safe_settle)

lemma safe_reconcile:
  assumes "recOk r"
  shows "keeps (safe C) (reconcile r ownDir)"
proof -
  have v: "envOk (rcExec r)" using assms by (simp add: recOk_def)
  have rows: "gives (safe C) (readRows (rcExec r) (intents dest)) (\<lambda>recs. \<forall>rec \<in> set recs. okPath (drRelPath rec))" for dest
    by (rule gives_readRows) (auto simp: intents_def dest: rowsOk_row)
  show ?thesis
    unfolding reconcile_def sweep_def
    by (intro keeps_bind [OF keeps_bind [OF sf.keeps_faultPoint safe_sweepDirs [OF assms]]]
        keeps_bind_gives [OF sf.keeps_readRows rows] safe_settleAll v)
qed

section \<open>Every intent is settled\<close>

text \<open>The intents of a destination as record and place in retention.\<close>

definition intentKeys :: "ident \<Rightarrow> recTable \<Rightarrow> (ident \<times> string) set" where
  "intentKeys dest rows = (\<lambda>rec. (drID rec, drRetainedPath rec)) ` set (intents dest rows)"

interpretation rx: step_invariant "\<lambda>s. J (xsRows s)" for J
  by unfold_locales simp_all

lemma rows_modFS: "keeps (\<lambda>s. J (xsRows s)) (modFS f)"
  by (simp add: keeps_def modFS_def modifies_def)

lemma rows_MoveFile: "keeps (\<lambda>s. J (xsRows s)) (MoveFile v p q b)"
  unfolding MoveFile_def renameName_def by (intro keeps_bind keeps_basic rx.reads rows_modFS)

text \<open>An invariant of the table that a retained row and a recorded replacement keep is kept by the
  sweep, and one that a settled intent keeps as well by the whole reconciliation.\<close>

locale sweep_invariant =
  fixes Q :: "recTable \<Rightarrow> bool"
  assumes retained: "Q rows \<Longrightarrow> insertRetained (retainedRow e sid rel srel p sz m h reason) rows = Inr t \<Longrightarrow> Q t"
    and placed: "Q rows \<Longrightarrow> placedTx e dest d kept rows = Inr t \<Longrightarrow> Q t"
begin

lemma keeps_finishPlacedTx: "Q rows \<Longrightarrow> finishPlacedTx item d e rows = Inr t \<Longrightarrow> Q t"
  by (auto simp: finishPlacedTx_def dest: placed split: option.splits if_splits)

lemma keeps_sweepItem: "keeps (\<lambda>s. Q (xsRows s)) (sweepItem r jobID jobDir it)"
  unfolding sweepItem_def sweepDisplaced_def finishPlaced_def CleanupTemp_def Let_def
  by (intro keeps_bind keeps_basic rx.reads rx.keeps_writeTx rows_modFS) (auto dest: keeps_finishPlacedTx retained)

lemma keeps_tolerate: "keeps (\<lambda>s. Q (xsRows s)) m \<Longrightarrow> keeps (\<lambda>s. Q (xsRows s)) (tolerate v n m)"
  unfolding tolerate_def by (intro keeps_bind keeps_basic)

lemma keeps_sweepItems: "keeps (\<lambda>s. Q (xsRows s)) (sweepItems r jobID jobDir its n)"
  by (induction its arbitrary: n) (auto intro!: keeps_bind keeps_basic keeps_tolerate keeps_sweepItem)

lemma keeps_sweepDirs: "keeps (\<lambda>s. Q (xsRows s)) (sweepDirs r ownDir es n)"
proof (induction es arbitrary: n)
  case (Cons e es)
  show ?case
    by (cases e) (simp only: sweepDirs.simps Let_def, intro keeps_option keeps_if keeps_bind rx.reads keeps_sweepItems Cons)
qed (simp add: keeps_ret)

end

locale reconcile_invariant = sweep_invariant +
  assumes settled: "Q rows \<Longrightarrow> settleTx e rec w unknown isRec sz m rows = Inr t \<Longrightarrow> Q t"
begin

lemma keeps_settle: "keeps (\<lambda>s. Q (xsRows s)) (settle v rec w)"
  unfolding settle_def
  by (intro keeps_bind keeps_basic rx.reads rx.keeps_writeTx rows_MoveFile) (auto dest: settled)

lemma keeps_settleAll: "keeps (\<lambda>s. Q (xsRows s)) (settleAll v ownDir recs n)"
  by (induction recs arbitrary: n) (auto intro!: keeps_bind keeps_basic keeps_tolerate keeps_settle)

lemma keeps_reconcile: "keeps (\<lambda>s. Q (xsRows s)) (reconcile r ownDir)"
  unfolding reconcile_def sweep_def by (intro keeps_bind rx.reads keeps_sweepDirs keeps_settleAll)

end

interpretation tr: reconcile_invariant tableOk
  by unfold_locales (auto intro: insertRetained_ok placedTx_ok settleTx_ok)

lemma triple_writeTx:
  assumes "\<And>e rows t. P rows \<Longrightarrow> tx e rows = Inr t \<Longrightarrow> Q t" 
  shows "triple (\<lambda>_. True) (\<lambda>s. P (xsRows s)) (writeTx v tx) (\<lambda>_ s. Q (xsRows s))"
  unfolding triple_def writeTx_def bindX_def gets_def faultPoint_def ask_def throw_def modifies_def
  using assms by (fastforce split: prod.splits sum.splits option.splits dbError.splits)

lemma updateRows_Inr: "updateRows P f rows = Inr t \<Longrightarrow> t = map (\<lambda>x. if P x then f x else x) rows"
  by (auto simp: updateRows_def constrained_def split: if_splits)

definition intent :: "ident \<Rightarrow> destRecord \<Rightarrow> bool" where
  "intent dest x \<longleftrightarrow> drDestinationID x = dest \<and> isLive x \<and> drRetainedPath x \<noteq> []"

definition intentKey :: "destRecord \<Rightarrow> ident \<times> string" where
  "intentKey x = (drID x, drRetainedPath x)"

lemma intentKeys_rows: "intentKeys dest rows = intentKey ` {x \<in> set rows. intent dest x}"
  by (auto simp: intentKeys_def intents_def intent_def intentKey_def image_iff)

lemma intentKeys_map:
  assumes "\<And>x. intent dest (f x) \<Longrightarrow> intent dest x \<and> intentKey (f x) = intentKey x \<and> intentKey x \<notin> K"
  shows "intentKeys dest (map f rows) \<subseteq> intentKeys dest rows - K"
proof
  fix k assume "k \<in> intentKeys dest (map f rows)"
  then obtain x where x: "x \<in> set rows" "intent dest (f x)" "k = intentKey (f x)" by (auto simp: intentKeys_rows)
  with assms [OF x(2)] show "k \<in> intentKeys dest rows - K" by (auto simp: intentKeys_rows)
qed

lemma intentKeys_insertRetained:
  assumes "insertRetained rec rows = Inr t" "drState rec = StateRetained"
  shows "intentKeys dest t = intentKeys dest rows"
proof -
  have "t = rows \<or> t = rows @ [rec\<lparr>drID := nextRowID (map drID rows)\<rparr>]"
    using assms(1) by (auto simp: insertRetained_def insertRecord_def constrained_def split: if_splits)
  then show ?thesis using assms(2) by (auto simp: intentKeys_rows intent_def isLive_def)
qed

lemma intentKeys_clearIntentTx:
  assumes "clearIntentTx i p rows = Inr t"
  shows "intentKeys dest t \<subseteq> intentKeys dest rows - {(i, p)}"
  unfolding updateRows_Inr [OF assms [unfolded clearIntentTx_def]]
  by (rule intentKeys_map) (auto simp: intent_def intentKey_def isLive_def split: if_splits)

lemma sbind_Inr: "sbind m f = Inr t \<longleftrightarrow> (\<exists>x. m = Inr x \<and> f x = Inr t)"
  by (cases m) (simp_all add: sbind_def)

lemma settledRow_state [simp]: "drState (settledRow e rec w sz m) = StateRetained"
  by (simp add: settledRow_def retainedRow_def Let_def)

lemma intentKeys_settleTx:
  assumes "settleTx e rec w unknown isRec sz m rows = Inr t"
  shows "intentKeys dest t \<subseteq> intentKeys dest rows - {(drID rec, drRetainedPath rec)}"
proof -
  obtain t1 t2 where
    t1: "(if unknown then updateRows (\<lambda>x. drID x = drID rec \<and> drRetainedPath x = drRetainedPath rec
        \<and> drState x \<in> {StatePresent, StateLinked}) (\<lambda>x. x\<lparr>drState := StateMissing\<rparr>) rows else Inr rows) = Inr t1"
    and t2: "(if isRec then insertRetained (settledRow e rec w sz m) t1 else Inr t1) = Inr t2"
    and t3: "clearIntentTx (drID rec) (drRetainedPath rec) t2 = Inr t"
    using assms unfolding settleTx_def sbind_Inr by blast
  have "intentKeys dest t1 \<subseteq> intentKeys dest rows"
  proof (cases unknown)
    case True
    have "t1 = map (\<lambda>x. if drID x = drID rec \<and> drRetainedPath x = drRetainedPath rec \<and> drState x \<in> {StatePresent, StateLinked}
        then x\<lparr>drState := StateMissing\<rparr> else x) rows"
      using t1 True by (simp add: updateRows_Inr)
    moreover have "intentKeys dest (map (\<lambda>x. if drID x = drID rec \<and> drRetainedPath x = drRetainedPath rec \<and> drState x \<in> {StatePresent, StateLinked}
        then x\<lparr>drState := StateMissing\<rparr> else x) rows) \<subseteq> intentKeys dest rows - {}"
      by (rule intentKeys_map) (auto simp: intent_def intentKey_def isLive_def split: if_splits)
    ultimately show ?thesis by simp
  qed (use t1 in simp)
  moreover have "intentKeys dest t2 = intentKeys dest t1"
    using t2 intentKeys_insertRetained [of "settledRow e rec w sz m" t1 t2 dest] by (cases isRec) simp_all
  ultimately show ?thesis using intentKeys_clearIntentTx [OF t3, of dest] by blast
qed

text \<open>Every path of \<open>settle\<close> that returns ends with its transaction; what comes before writes no row.\<close>

lemma triple_rows:
  "keeps (\<lambda>s. J (xsRows s)) m \<Longrightarrow> (\<And>x. triple (\<lambda>_. True) (\<lambda>s. J (xsRows s)) (f x) Q)
     \<Longrightarrow> triple (\<lambda>_. True) (\<lambda>s. J (xsRows s)) (bindX m f) Q"
  by (rule triple_bind [where R = "\<lambda>_ s. J (xsRows s)"]) (auto simp: triple_def keeps_def dest: sndI)

lemma triple_option:
  "(x = None \<Longrightarrow> triple I P m Q) \<Longrightarrow> (\<And>y. x = Some y \<Longrightarrow> triple I P (f y) Q)
     \<Longrightarrow> triple I P (case x of None \<Rightarrow> m | Some y \<Rightarrow> f y) Q"
  by (cases x) auto

lemma triple_settle:
  "triple (\<lambda>_. True) (\<lambda>s. intentKeys dest (xsRows s) \<subseteq> A) (settle v rec w)
     (\<lambda>_ s. intentKeys dest (xsRows s) \<subseteq> A - {(drID rec, drRetainedPath rec)})"
proof -
  let ?Q = "\<lambda>_ s. intentKeys dest (xsRows s) \<subseteq> A - {(drID rec, drRetainedPath rec)}"
  have tx: "triple (\<lambda>_. True) (\<lambda>s. intentKeys dest (xsRows s) \<subseteq> A) (writeTx v (\<lambda>e. settleTx e rec w u k sz m)) ?Q" for u k sz m
    by (rule triple_writeTx) (use intentKeys_settleTx in blast)
  show ?thesis
    unfolding settle_def by (intro triple_rows triple_option tx keeps_bind keeps_basic rx.reads rows_MoveFile)
qed

lemma tripleD: "triple I P m Q \<Longrightarrow> P s \<Longrightarrow> m s = (Inr x, s1) \<Longrightarrow> Q x s1"
  by (simp add: triple_def)

lemma tolerate_Inr:
  assumes "tolerate v n m s = (Inr n1, t)"
  shows "n \<le> n1" "n1 = 0 \<Longrightarrow> \<exists>x. m s = (Inr x, t)"
  using assms unfolding tolerate_def bindX_def tryX_def gets_def throw_def ret_def
  by (auto split: prod.splits sum.splits execErr.splits if_splits)

lemma settleAll_mono: "settleAll v ownDir recs n s = (Inr n1, t) \<Longrightarrow> n \<le> n1"
proof (induction recs arbitrary: n s)
  case (Cons rec recs)
  show ?case
  proof (cases "ownDir \<noteq> [] \<and> hasPrefix (drRetainedPath rec) (ownDir @ ''/'')")
    case False
    then obtain k s1 where "tolerate v n (settle v rec None) s = (Inr k, s1)" "settleAll v ownDir recs k s1 = (Inr n1, t)"
      using Cons(2) by (auto simp: bindX_def split: if_splits prod.splits sum.splits)
    then have "n \<le> k" "k \<le> n1" using tolerate_Inr(1) Cons(1) by blast+
    then show ?thesis by simp
  qed (use Cons in auto)
qed (simp add: ret_def)

definition ownIntent :: "string \<Rightarrow> string \<Rightarrow> bool" where
  "ownIntent ownDir p \<longleftrightarrow> ownDir \<noteq> [] \<and> hasPrefix p (ownDir @ ''/'')"

lemma settleAll_keys:
  assumes "settleAll v ownDir recs n s = (Inr 0, t)"
    "intentKeys dest (xsRows s) \<subseteq> intentKey ` set recs \<union> {k. ownIntent ownDir (snd k)}"
  shows "intentKeys dest (xsRows t) \<subseteq> {k. ownIntent ownDir (snd k)}"
  using assms
proof (induction recs arbitrary: n s)
  case (Cons rec recs)
  let ?own = "{k. ownIntent ownDir (snd k)}"
  show ?case
  proof (cases "ownIntent ownDir (drRetainedPath rec)")
    case True
    then have "intentKeys dest (xsRows s) \<subseteq> intentKey ` set recs \<union> ?own" using Cons(3) by (auto simp: intentKey_def)
    moreover have "settleAll v ownDir recs n s = (Inr 0, t)" using Cons(2) True by (simp add: ownIntent_def)
    ultimately show ?thesis using Cons(1) by blast
  next
    case False
    obtain n1 s1 where one: "tolerate v n (settle v rec None) s = (Inr n1, s1)" and rest: "settleAll v ownDir recs n1 s1 = (Inr 0, t)"
      using Cons(2) False by (auto simp: bindX_def ownIntent_def split: if_splits prod.splits sum.splits)
    obtain x where "settle v rec None s = (Inr x, s1)" using tolerate_Inr(2) [OF one] settleAll_mono [OF rest] by auto
    then have "intentKeys dest (xsRows s1) \<subseteq> intentKeys dest (xsRows s) - {intentKey rec}"
      unfolding intentKey_def by (rule tripleD [OF triple_settle subset_refl])
    then have "intentKeys dest (xsRows s1) \<subseteq> intentKey ` set recs \<union> ?own" using Cons(3) by auto
    with Cons(1) [OF rest] show ?thesis by blast
  qed
qed (simp add: ret_def)

section \<open>What was kept is recorded or back\<close>

definition settledAt :: "string \<Rightarrow> destFS \<Rightarrow> recTable \<Rightarrow> bool" where
  "settledAt p fs rows \<longleftrightarrow> dfNames fs p = None \<or> list_ex (\<lambda>x. drState x = StateRetained \<and> drRetainedPath x = p) rows"

interpretation fr: step_invariant "\<lambda>s. J (xsFS s) (xsRows s)" for J
  by unfold_locales simp_all

lemma list_ex_retained_map:
  assumes "\<And>x. drState x = StateRetained \<Longrightarrow> f x = x"
  shows "list_ex (\<lambda>x. drState x = StateRetained \<and> drRetainedPath x = p) rows
    \<Longrightarrow> list_ex (\<lambda>x. drState x = StateRetained \<and> drRetainedPath x = p) (map f rows)"
  using assms by (auto simp: list_ex_iff) metis

lemma retained_settleTx:
  assumes "settleTx e rec w unknown isRec sz m rows = Inr t"
  shows "list_ex (\<lambda>x. drState x = StateRetained \<and> drRetainedPath x = p) rows \<or> isRec \<and> p = drRetainedPath rec
    \<Longrightarrow> list_ex (\<lambda>x. drState x = StateRetained \<and> drRetainedPath x = p) t"
proof -
  let ?R = "list_ex (\<lambda>x. drState x = StateRetained \<and> drRetainedPath x = p)"
  obtain t1 t2 where
    t1: "(if unknown then updateRows (\<lambda>x. drID x = drID rec \<and> drRetainedPath x = drRetainedPath rec
        \<and> drState x \<in> {StatePresent, StateLinked}) (\<lambda>x. x\<lparr>drState := StateMissing\<rparr>) rows else Inr rows) = Inr t1"
    and t2: "(if isRec then insertRetained (settledRow e rec w sz m) t1 else Inr t1) = Inr t2"
    and t3: "clearIntentTx (drID rec) (drRetainedPath rec) t2 = Inr t"
    using assms unfolding settleTx_def sbind_Inr by blast
  have 1: "?R t1" if "?R rows"
    using t1 that list_ex_retained_map [of _ p rows]
    by (cases unknown) (auto dest!: updateRows_Inr)
  have 2: "?R t2" if "?R t1 \<or> isRec \<and> p = drRetainedPath rec"
    using t2 that
    by (auto simp: insertRetained_def insertRecord_def constrained_def retainedExists_def list_ex_iff split: if_splits)
       (auto simp: settledRow_def retainedRow_def Let_def)
  have 3: "?R t" if "?R t2"
    using that unfolding updateRows_Inr [OF t3 [unfolded clearIntentTx_def]]
    by (rule list_ex_retained_map [rotated]) (simp add: isLive_def)
  show "?R rows \<or> isRec \<and> p = drRetainedPath rec \<Longrightarrow> ?R t" using 1 2 3 by blast
qed

lemma settledAt_settleTx:
  "settledAt p fs rows \<Longrightarrow> settleTx e rec w unknown isRec sz m rows = Inr t \<Longrightarrow> settledAt p fs t"
  unfolding settledAt_def using retained_settleTx by blast

lemma keeps_MoveFile:
  assumes "\<And>fs rows. J fs rows \<Longrightarrow> J (renameFS p q fs) rows"
  shows "keeps (\<lambda>s. J (xsFS s) (xsRows s)) (MoveFile v p q b)"
proof -
  have "keeps (\<lambda>s. J (xsFS s) (xsRows s)) (modFS (renameFS p q))" using assms by (simp add: keeps_def modFS_def modifies_def)
  then show ?thesis unfolding MoveFile_def renameName_def by (intro keeps_bind keeps_basic fr.reads)
qed

lemma settle_keeps_settled:
  assumes "p \<noteq> drRelPath rec"
  shows "keeps (\<lambda>s. settledAt p (xsFS s) (xsRows s)) (settle v rec w)"
proof -
  have "settledAt p (renameFS a (drRelPath rec) fs) rows" if "settledAt p fs rows" for a fs rows
    using that assms by (auto simp: settledAt_def renameFS_def)
  then show ?thesis
    unfolding settle_def
    by (intro keeps_bind keeps_basic fr.reads fr.keeps_writeTx keeps_MoveFile) (auto dest: settledAt_settleTx)
qed

lemma triple_lstatDest_none:
  "p \<noteq> [] \<Longrightarrow> triple (\<lambda>_. True) (\<lambda>_. True) (lstatDest v p) (\<lambda>st s. st = None \<longrightarrow> dfNames (xsFS s) p = None)"
  unfolding triple_def lstatDest_def bindX_def require_def faultPoint_def ask_def gets_def ret_def throw_def
  by (auto split: prod.splits sum.splits option.splits if_splits)

lemma triple_MoveFile_from:
  "triple (\<lambda>_. True) (\<lambda>_. True) (MoveFile v p q True) (\<lambda>_ s. dfNames (xsFS s) p = None)"
  unfolding triple_def MoveFile_def requireRegular_def renameName_def bindX_def require_def faultPoint_def ask_def gets_def ret_def
    throw_def modFS_def modifies_def renameFS_def nodeAt_def
  by (auto split: prod.splits sum.splits option.splits if_splits)

lemma settle_settles:
  assumes "drRetainedPath rec \<noteq> []"
  shows "triple (\<lambda>_. True) (\<lambda>_. True) (settle v rec w) (\<lambda>_ s. settledAt (drRetainedPath rec) (xsFS s) (xsRows s))"
proof -
  let ?p = "drRetainedPath rec"
  have tx: "triple (\<lambda>_. True) (\<lambda>s. isRec \<or> dfNames (xsFS s) ?p = None) (writeTx v (\<lambda>e. settleTx e rec w u isRec sz m))
      (\<lambda>_ s. settledAt ?p (xsFS s) (xsRows s))" for u isRec sz m
    unfolding triple_def writeTx_def bindX_def gets_def faultPoint_def ask_def throw_def modifies_def
    by (auto simp: settledAt_def split: prod.splits sum.splits option.splits dbError.splits dest: retained_settleTx [where p = ?p])
  have moved: "triple (\<lambda>_. True) (\<lambda>_. True) (case cur of
           Inl _ \<Rightarrow> ret (True, False)
         | Inr None \<Rightarrow> bindX (tryX (MoveFile v ?p (drRelPath rec) True)) (\<lambda>r. ret (case r of Inl _ \<Rightarrow> True | Inr _ \<Rightarrow> False, False))
         | Inr (Some c) \<Rightarrow> bindX (sameDestFile v (drRelPath rec) c ?p k) (\<lambda>same. ret (True, \<not> same)))
       (\<lambda>ru s. fst ru \<or> dfNames (xsFS s) ?p = None)" for cur k
  proof -
    have "triple (\<lambda>_. True) (\<lambda>_. True) (bindX (tryX (MoveFile v ?p (drRelPath rec) True)) (\<lambda>r. ret (case r of Inl _ \<Rightarrow> True | Inr _ \<Rightarrow> False, False)))
       (\<lambda>ru s. fst ru \<or> dfNames (xsFS s) ?p = None)"
      by (rule triple_bind [OF triple_tryX [OF triple_MoveFile_from]], rule triple_ret) (auto split: sum.splits)
    moreover have "triple (\<lambda>_. True) (\<lambda>_. True) (bindX (sameDestFile v (drRelPath rec) c ?p k) (\<lambda>same. ret (True, \<not> same)))
       (\<lambda>ru s. fst ru \<or> dfNames (xsFS s) ?p = None)" for c
      by (rule triple_bind [where R = "\<lambda>_ _. True"]) (simp_all add: triple_def ret_def)
    ultimately show ?thesis by (auto intro: triple_ret split: sum.split option.split)
  qed
  have any: "triple (\<lambda>_. True) (\<lambda>_. True) n (\<lambda>_ _. True)" for n :: "'b exec" by (simp add: triple_def)
  show ?thesis
    unfolding settle_def
    by (rule triple_bind [OF triple_lstatDest_none [OF assms]], rule triple_option, rule triple_weaken [OF tx], simp, assumption,
        rule triple_weaken [OF triple_bind [OF any triple_bind [OF any triple_bind [OF moved tx]]]]) simp_all
qed

lemma settleAll_settles:
  assumes "settleAll v ownDir recs n s = (Inr 0, t)" "\<forall>rec \<in> set recs. drRetainedPath rec \<noteq> []"
    "\<forall>rec \<in> set recs. \<forall>x \<in> set recs. drRetainedPath rec \<noteq> drRelPath x"
  shows "\<forall>rec \<in> set recs. ownIntent ownDir (drRetainedPath rec) \<or> settledAt (drRetainedPath rec) (xsFS t) (xsRows t)"
proof -
  have kept: "settledAt p (xsFS t2) (xsRows t2)"
    if "settleAll v ownDir rs k s2 = (x, t2)" "settledAt p (xsFS s2) (xsRows s2)" "\<forall>x \<in> set rs. p \<noteq> drRelPath x" for p rs k s2 x t2
  proof -
    have "keeps (\<lambda>s. settledAt p (xsFS s) (xsRows s)) (settleAll v ownDir rs k)"
      using that(3) by (induction rs arbitrary: k)
        (auto simp: tolerate_def intro!: keeps_bind keeps_basic settle_keeps_settled)
    with that(1,2) show ?thesis unfolding keeps_def by (metis snd_conv)
  qed
  from assms show ?thesis
  proof (induction recs arbitrary: n s)
    case (Cons rec recs)
    show ?case
    proof (cases "ownIntent ownDir (drRetainedPath rec)")
      case True
      then have "settleAll v ownDir recs n s = (Inr 0, t)" using Cons(2) by (simp add: ownIntent_def)
      with Cons(1) Cons(3,4) True show ?thesis by simp
    next
      case False
      obtain n1 s1 where one: "tolerate v n (settle v rec None) s = (Inr n1, s1)" and rest: "settleAll v ownDir recs n1 s1 = (Inr 0, t)"
        using Cons(2) False by (auto simp: bindX_def ownIntent_def split: if_splits prod.splits sum.splits)
      obtain x where "settle v rec None s = (Inr x, s1)" using tolerate_Inr(2) [OF one] settleAll_mono [OF rest] by auto
      then have "settledAt (drRetainedPath rec) (xsFS s1) (xsRows s1)"
        using tripleD [OF settle_settles] Cons(3) by auto
      from kept [OF rest this] Cons(4) have "settledAt (drRetainedPath rec) (xsFS t) (xsRows t)" by simp
      with Cons(1) [OF rest] Cons(3,4) show ?thesis by simp
    qed
  qed simp
qed

section \<open>The sweep keeps the places of intents\<close>

definition intentIn :: "destRecord \<Rightarrow> bool" where
  "intentIn x \<longleftrightarrow> \<not> isLive x \<or> drRetainedPath x = [] \<or> inRetention (drRetainedPath x)"

definition iok :: "dbError + recTable \<Rightarrow> bool" where
  "iok m = (case m of Inl _ \<Rightarrow> True | Inr t \<Rightarrow> list_all intentIn t)"

lemma iok_simps [simp]: "iok (Inl e)" "iok (Inr t) = list_all intentIn t"
  by (simp_all add: iok_def)

lemma iok_sbind: "iok m \<Longrightarrow> (\<And>t. list_all intentIn t \<Longrightarrow> iok (f t)) \<Longrightarrow> iok (sbind m f)"
  by (cases m) (simp_all add: sbind_def)

lemma iok_updateRows: "list_all intentIn rows \<Longrightarrow> (\<And>x. P x \<Longrightarrow> intentIn x \<Longrightarrow> intentIn (f x)) \<Longrightarrow> iok (updateRows P f rows)"
  by (auto simp: updateRows_def constrained_def list_all_iff)

lemma iok_updateRecord: "list_all intentIn rows \<Longrightarrow> intentIn rec \<Longrightarrow> iok (updateRecord rec rows)"
  by (auto simp: updateRecord_def intentIn_def isLive_def intro!: iok_updateRows)

lemma iok_insertRecord: "list_all intentIn rows \<Longrightarrow> intentIn rec \<Longrightarrow> iok (insertRecord rec rows)"
  by (auto simp: insertRecord_def constrained_def intentIn_def isLive_def)

lemma intentIn_retained [simp]: "intentIn (retainedRow e sid rel srel p sz m h reason)"
  by (simp add: intentIn_def isLive_def retainedRow_def)

lemma iok_insertRetained: "list_all intentIn rows \<Longrightarrow> intentIn rec \<Longrightarrow> iok (insertRetained rec rows)"
  by (simp add: insertRetained_def iok_insertRecord)

lemma iok_loseLinks: "list_all intentIn rows \<Longrightarrow> iok (loseLinks i is rows)"
  by (induction "is" arbitrary: rows) (auto simp: intentIn_def isLive_def intro!: iok_sbind iok_updateRows)

lemma iok_releaseAll: "list_all intentIn rows \<Longrightarrow> \<forall>d \<in> set ds. isLive d \<and> intentIn d \<Longrightarrow> iok (releaseAll ds rows)"
  by (induction ds arbitrary: rows) (auto simp: intentIn_def isLive_def intro!: iok_sbind iok_updateRecord)

lemma iok_releaseDependents: "list_all intentIn rows \<Longrightarrow> iok (releaseDependents cur rows)"
  by (auto simp: releaseDependents_def Dependents_def list_all_iff intro!: iok_releaseAll)

lemma iok_placedTx: "list_all intentIn rows \<Longrightarrow> iok (placedTx e dest d retained rows)"
  unfolding placedTx_def Let_def
  by (rule iok_sbind)
    (auto split: option.splits simp: intentIn_def zeroRecord_def isLive_def retainedRow_def
      intro!: iok_sbind iok_loseLinks iok_releaseDependents iok_updateRecord iok_insertRecord iok_insertRetained)

interpretation iw: sweep_invariant "list_all intentIn"
proof
  fix rows e sid rel srel p sz m h reason t
  assume "list_all intentIn rows" "insertRetained (retainedRow e sid rel srel p sz m h reason) rows = Inr t"
  then show "list_all intentIn t" using iok_insertRetained [of rows "retainedRow e sid rel srel p sz m h reason"] by simp
next
  fix rows e dest d retained t
  assume "list_all intentIn rows" "placedTx e dest d retained rows = Inr t"
  then show "list_all intentIn t" using iok_placedTx [of rows e dest d retained] by simp
qed

lemma reconcile_parts:
  assumes "reconcile r ownDir s = (Inr 0, t)"
  obtains n s1 s2 where "sweep r ownDir s = (Inr n, s1)" "xsRows s2 = xsRows s1"
    "settleAll (rcExec r) ownDir (intents (xvDest (rcExec r)) (xsRows s2)) n s2 = (Inr 0, t)"
proof -
  let ?q = "intents (xvDest (rcExec r))"
  obtain n s1 where s1: "sweep r ownDir s = (Inr n, s1)"
      "bindX (readRows (rcExec r) ?q) (\<lambda>recs. settleAll (rcExec r) ownDir recs n) s1 = (Inr 0, t)"
    using assms by (auto simp: reconcile_def bindX_def [of "sweep r ownDir"] split: prod.splits sum.splits)
  obtain recs s2 where s2: "readRows (rcExec r) ?q s1 = (Inr recs, s2)" "settleAll (rcExec r) ownDir recs n s2 = (Inr 0, t)"
    using s1(2) by (auto simp: bindX_def [of "readRows (rcExec r) ?q"] split: prod.splits sum.splits)
  have "xsRows s2 = xsRows s1 \<and> recs = ?q (xsRows s2)"
    using s2(1) by (auto simp: readRows_def bindX_def faultPoint_def ask_def gets_def split: option.splits)
  then show thesis using that [OF s1(1), of s2] s2(2) by simp
qed

section \<open>The property\<close>

text \<open>A run of the settling: a job cut off between the rename into retention and its outcome.\<close>

definition exCutState :: execState where
  "exCutState = loadItem (exRunState\<lparr>rsFS := \<lparr>dfNames = (\<lambda>p. if p = ''.bunkarr/retention/20240102-job3/m/a'' then Some 0 else None),
       dfNodes = (\<lambda>_. \<lparr>fnRegular = True, fnMtimeNs = 5, fnData = ''before''\<rparr>), dfNext = 1\<rparr>,
     rsRows := [zeroRecord\<lparr>drID := 1, drDestinationID := 1, drSourceID := 1, drRelPath := ''m/a'', drSourceRelPath := ''a'',
       drSize := 6, drMtimeNs := 5, drJobID := 3, drRetainedPath := ''.bunkarr/retention/20240102-job3/m/a'', drReason := ReasonDeleted\<rparr>]\<rparr>)
     (hd (rsItems exRunState))"

definition exRecEnv :: recEnv where
  "exRecEnv = \<lparr>rcExec = exRunEnv None, rcEntries = [(''20240102-job3'', True)], rcItems = (\<lambda>_. rsItems exRunState), rcSource = (\<lambda>_ _. True)\<rparr>"

text \<open>C11: A reconciliation that returns without a warning has settled every retention intent that the
  sweep of the stopped jobs left, but those inside the job's own directory: the place it names in retention
  holds no file or has a retained row (nothing stays there unrecorded), and no other live record
  names a place in retention.\<close>

theorem reconcile_settles_intents:
  assumes "reconcile r ownDir s = (Inr 0, t)" "recOk r" "safe {} s" "list_all intentIn (xsRows s)"
  shows "list_all (\<lambda>rec. ownIntent ownDir (drRetainedPath rec) \<or> settledAt (drRetainedPath rec) (xsFS t) (xsRows t))
           (intents (xvDest (rcExec r)) (xsRows (snd (sweep r ownDir s))))
       \<and> list_all (\<lambda>rec. ownIntent ownDir (drRetainedPath rec)) (intents (xvDest (rcExec r)) (xsRows t))"
proof -
  let ?v = "rcExec r"
  let ?dest = "xvDest ?v"
  obtain n s1 s2 where sw: "sweep r ownDir s = (Inr n, s1)" and rows: "xsRows s2 = xsRows s1"
    and run: "settleAll ?v ownDir (intents ?dest (xsRows s2)) n s2 = (Inr 0, t)"
    by (rule reconcile_parts [OF assms(1)])
  have "keeps (safe {}) (sweep r ownDir)" "keeps (\<lambda>s. list_all intentIn (xsRows s)) (sweep r ownDir)"
    unfolding sweep_def by (intro keeps_bind sf.reads safe_sweepDirs assms(2) rx.reads iw.keeps_sweepDirs)+
  with sw assms(3,4) have ok: "rowsOk (xsRows s1)" "list_all intentIn (xsRows s1)" by (force simp: keeps_def safe_def)+
  have "intentKeys ?dest (xsRows s2) \<subseteq> intentKey ` set (intents ?dest (xsRows s2)) \<union> {k. ownIntent ownDir (snd k)}"
    by (auto simp: intentKeys_def intentKey_def)
  from settleAll_keys [OF run this]
  have left: "list_all (\<lambda>rec. ownIntent ownDir (drRetainedPath rec)) (intents ?dest (xsRows t))"
    by (auto simp: intentKeys_def list_all_iff)
  have mem: "x \<in> set (xsRows s1) \<and> isLive x \<and> drRetainedPath x \<noteq> []" if "x \<in> set (intents ?dest (xsRows s2))" for x
    using that by (simp add: intents_def rows)
  then have "inRetention (drRetainedPath x)" "\<not> inRetention (drRelPath x)" if "x \<in> set (intents ?dest (xsRows s2))" for x
    using that ok rowsOk_row [OF ok(1)] by (auto simp: intentIn_def list_all_iff okPath_def)
  with settleAll_settles [OF run] mem
  have "\<forall>rec \<in> set (intents ?dest (xsRows s2)). ownIntent ownDir (drRetainedPath rec) \<or> settledAt (drRetainedPath rec) (xsFS t) (xsRows t)"
    by metis
  with left show ?thesis by (simp add: sw list_all_iff rows)
qed

lemma recOk_exRecEnv: "recOk exRecEnv"
proof -
  have "runRowOk (hd (rsItems exRunState))" using runSafe_exRunState by (simp add: runSafe_def exRunState_def)
  then show ?thesis by (simp add: recOk_def exRecEnv_def envOk_exRunEnv exRunState_def)
qed

theorem reconcile_settles_intents_witness:
  "\<exists>t. reconcile exRecEnv [] exCutState = (Inr 0, t) \<and> recOk exRecEnv \<and> safe {} exCutState \<and> list_all intentIn (xsRows exCutState)
     \<and> list_all (\<lambda>rec. ownIntent [] (drRetainedPath rec) \<or> settledAt (drRetainedPath rec) (xsFS t) (xsRows t))
           (intents (xvDest (rcExec exRecEnv)) (xsRows (snd (sweep exRecEnv [] exCutState))))
     \<and> list_all (\<lambda>rec. ownIntent [] (drRetainedPath rec)) (intents (xvDest (rcExec exRecEnv)) (xsRows t))"
proof -
  have "fst (reconcile exRecEnv [] exCutState) = Inr 0" by code_simp
  then obtain t where t: "reconcile exRecEnv [] exCutState = (Inr 0, t)" by (metis prod.collapse)
  have item: "runRowOk (hd (rsItems exRunState))" using runSafe_exRunState by (simp add: runSafe_def exRunState_def)
  have r: "recOk exRecEnv" by (rule recOk_exRecEnv)
  have "okPath ''m/a''" by code_simp
  with item have s: "safe {} exCutState"
    by (auto simp: safe_def exCutState_def loadItem_def fsOk_def rowsOk_def runRowOk_def split: if_splits)
  have i: "list_all intentIn (xsRows exCutState)" by code_simp
  show ?thesis using t r s i reconcile_settles_intents [OF t r s i] by blast
qed

end
