(* ===== verification/JobItems.thy ===== *)
theory JobItems
  imports Reconcile
begin

text \<open>
  What the retention and the verify job of a destination have in common (internal/syncer/retention.go
  and verify.go, internal/jobqueue/items.go): both settle what stopped jobs left, plan items in
  batches unless a complete plan is there, and then run the pending items one by one, with the
  destination's window and marker checked between them.
\<close>

section \<open>Steps\<close>

text \<open>A point where only a crash happens.\<close>

definition crashPoint :: "execEnv \<Rightarrow> unit exec" where
  "crashPoint v = ask (\<lambda>t. if xvFault v t = Some ErrCrash then Inl ErrCrash else Inr ())"

definition finishStatus :: "execEnv \<Rightarrow> itemStatus \<Rightarrow> unit exec" where
  "finishStatus v st = bindX (faultPoint v) (\<lambda>_. modifies (\<lambda>s. s\<lparr>xsStatus := st\<rparr>))"

definition zeroExecDetail :: execDetail where
  "zeroExecDetail = detail.extend zeroDetail (execDetail.fields [] False 0 0 [] [] 0 0 [] [] [] 0 0 [] 0)"

text \<open>A program of the job itself, of no item.\<close>

definition onRun :: "'a exec \<Rightarrow> runState \<Rightarrow> (execErr + 'a) \<times> runState" where
  "onRun m s =
     (case m \<lparr>xsTick = rsTick s, xsFS = rsFS s, xsRows = rsRows s, xsD = zeroExecDetail, xsSaved = zeroExecDetail,
               xsStatus = ItemPending\<rparr> of
        (x, y) \<Rightarrow> (x, s\<lparr>rsTick := xsTick y, rsFS := xsFS y, rsRows := xsRows y\<rparr>))"

section \<open>Plans\<close>

record itemsState =
  isRun :: runState
  isPlanned :: bool
  isNextID :: ident

definition stepItems :: "execEnv \<Rightarrow> itemsState \<Rightarrow> (execErr + unit) \<times> itemsState" where
  "stepItems v s = (case stepRun v (isRun s) of (x, t) \<Rightarrow> (x, s\<lparr>isRun := t\<rparr>))"

text \<open>\<open>AddItems\<close>: one transaction; the last one of a plan marks it complete.  The items of these jobs
  have no window cuts to carry over from an earlier plan.\<close>

definition AddItems :: "execEnv \<Rightarrow> runRow list \<Rightarrow> bool \<Rightarrow> itemsState \<Rightarrow> (execErr + unit) \<times> itemsState" where
  "AddItems v items final s =
     (case stepItems v s of
        (Inl e, s1) \<Rightarrow> (Inl e, s1)
      | (Inr _, s1) \<Rightarrow>
          (let ids = map (\<lambda>k. isNextID s + int k) [0..<length items]
           in (Inr (), s1\<lparr>isRun := (isRun s1)\<lparr>rsItems := rsItems (isRun s1) @ map2 (\<lambda>i it. it\<lparr>rrID := i\<rparr>) ids items\<rparr>,
                 isPlanned := isPlanned s \<or> final, isNextID := isNextID s + int (length items)\<rparr>)))"

definition DeleteItems :: "execEnv \<Rightarrow> itemsState \<Rightarrow> (execErr + unit) \<times> itemsState" where
  "DeleteItems v s =
     (case stepItems v s of
        (Inl e, s1) \<Rightarrow> (Inl e, s1)
      | (Inr _, s1) \<Rightarrow> (Inr (), s1\<lparr>isRun := (isRun s1)\<lparr>rsItems := []\<rparr>, isPlanned := False\<rparr>))"

text \<open>A plan that is not complete is made anew.\<close>

definition planOnce ::
    "execEnv \<Rightarrow> (itemsState \<Rightarrow> (execErr + unit) \<times> itemsState) \<Rightarrow> itemsState \<Rightarrow> (execErr + unit) \<times> itemsState" where
  "planOnce v planner s =
     (case stepItems v s of
        (Inl e, s1) \<Rightarrow> (Inl e, s1)
      | (Inr _, s1) \<Rightarrow>
          if isPlanned s1 then (Inr (), s1)
          else (case DeleteItems v s1 of
                  (Inl e, s2) \<Rightarrow> (Inl e, s2)
                | (Inr _, s2) \<Rightarrow> planner s2))"

section \<open>The items\<close>

text \<open>The value that the items hand on is what the run remembers between them.\<close>

definition jobItem :: "(runRow \<Rightarrow> 'c \<Rightarrow> 'c exec) \<Rightarrow> runRow \<Rightarrow> 'c \<Rightarrow> runState \<Rightarrow> (execErr + 'c) \<times> runState" where
  "jobItem prog it c s = (case prog it c (loadItem s it) of (x, y) \<Rightarrow> (x, storeItem it y s))"

fun jobBatch ::
    "execEnv \<Rightarrow> itemAction \<Rightarrow> (runRow \<Rightarrow> 'c \<Rightarrow> 'c exec) \<Rightarrow> runRow list \<Rightarrow> 'c \<Rightarrow> runState \<Rightarrow> (execErr + 'c) \<times> runState" where
  "jobBatch v act prog [] c s = (Inr c, s)"
| "jobBatch v act prog (it # its) c s =
     (if xvCancelled v (rsTick s) then (Inl ErrFatal, s)
      else if rrAction it \<noteq> act then jobBatch v act prog its c s
      else if xvWindow v (rsTick s) = WindowDefer then (Inl ErrFatal, s)
      else (case jobItem prog it c s of
              (Inl e, s1) \<Rightarrow> (Inl e, s1)
            | (Inr c1, s1) \<Rightarrow>
                (case afterItem v s1 of
                   (Inl e, s2) \<Rightarrow> (Inl e, s2)
                 | (Inr _, s2) \<Rightarrow> jobBatch v act prog its c1 s2)))"

lemma jobBatch_ids: "map rrID (rsItems (snd (jobBatch v act prog its c s))) = map rrID (rsItems s)"
proof (induction its arbitrary: c s)
  case (Cons it its)
  obtain x s1 where e: "jobItem prog it c s = (x, s1)" by (cases "jobItem prog it c s")
  then have e1: "map rrID (rsItems s1) = map rrID (rsItems s)" by (auto simp: jobItem_def split: prod.splits)
  obtain r2 s2 where a: "afterItem v s1 = (r2, s2)" by (cases "afterItem v s1")
  then have "map rrID (rsItems s2) = map rrID (rsItems s)" using e1 afterItem_items [of v s1] by simp
  with e e1 a Cons show ?case by (auto split: sum.split)
qed simp

function jobLoop ::
    "execEnv \<Rightarrow> itemAction \<Rightarrow> (runRow \<Rightarrow> 'c \<Rightarrow> 'c exec) \<Rightarrow> ident \<Rightarrow> 'c \<Rightarrow> runState \<Rightarrow> (execErr + 'c) \<times> runState" where
  "jobLoop v act prog after c s =
     (case stepRun v s of
        (Inl e, s0) \<Rightarrow> (Inl e, s0)
      | (Inr _, s0) \<Rightarrow>
          (let batch = Pending after pendingBatch (rsItems s0)
           in if batch = [] then (Inr c, s0)
              else (case jobBatch v act prog batch c s0 of
                      (Inl e, s1) \<Rightarrow> (Inl e, s1)
                    | (Inr c1, s1) \<Rightarrow> jobLoop v act prog (rrID (last batch)) c1 s1)))"
  by pat_completeness auto
termination
proof (relation "measure (\<lambda>(v, act, prog, after, c, s). length (filter (\<lambda>it. rrID it > after) (rsItems s)))")
  fix v act prog after c s p1 s0 y batch q1 s1 z
  assume p: "(p1, s0) = stepRun v s" "batch = Pending after pendingBatch (rsItems s0)" "batch \<noteq> []"
    "(q1, s1) = jobBatch v act prog batch c s0"
  have "rsItems s0 = rsItems s" using p(1) by (simp add: stepRun_def)
  moreover have "map rrID (rsItems s1) = map rrID (rsItems s0)" using jobBatch_ids [of v act prog batch c s0] by (simp flip: p(4))
  moreover have "last batch \<in> set (rsItems s0) \<and> rrID (last batch) > after" using p(2,3) Pending_set last_in_set by metis
  ultimately show "((v, act, prog, rrID (last batch), z, s1), (v, act, prog, after, c, s))
      \<in> measure (\<lambda>(v, act, prog, after, c, s). length (filter (\<lambda>it. rrID it > after) (rsItems s)))"
    using ids_above_less [of "last batch" "rsItems s0" after "rsItems s1"] by simp
qed simp

declare jobLoop.simps [simp del]

text \<open>The run of the items: a first step (the marker, or the counts of the items), then the loop.\<close>

definition executeItems ::
    "execEnv \<Rightarrow> itemAction \<Rightarrow> (runRow \<Rightarrow> 'c \<Rightarrow> 'c exec) \<Rightarrow> 'c \<Rightarrow> runState \<Rightarrow> (execErr + 'c) \<times> runState" where
  "executeItems v act prog c s =
     (case stepRun v s of
        (Inl e, s0) \<Rightarrow> (Inl e, s0)
      | (Inr _, s0) \<Rightarrow> jobLoop v act prog 0 c (s0\<lparr>rsSince := 0\<rparr>))"

text \<open>The job: its result is the number of things that could not be settled.  A dry run only plans.\<close>

definition runJob ::
    "recEnv \<Rightarrow> bool \<Rightarrow> (itemsState \<Rightarrow> (execErr + unit) \<times> itemsState) \<Rightarrow> (runState \<Rightarrow> (execErr + 'c) \<times> runState)
       \<Rightarrow> itemsState \<Rightarrow> (execErr + nat) \<times> itemsState" where
  "runJob r dryRun planner run s =
     (case (if dryRun then (Inr 0, isRun s) else onRun (reconcile r []) (isRun s)) of
        (Inl e, s1) \<Rightarrow> (Inl e, s\<lparr>isRun := s1\<rparr>)
      | (Inr unsettled, s1) \<Rightarrow>
          (case planOnce (rcExec r) planner (s\<lparr>isRun := s1\<rparr>) of
             (Inl e, s2) \<Rightarrow> (Inl e, s2)
           | (Inr _, s2) \<Rightarrow>
               if dryRun then (Inr unsettled, s2)
               else (case run (isRun s2) of
                       (Inl e, s3) \<Rightarrow> (Inl e, s2\<lparr>isRun := s3\<rparr>)
                     | (Inr _, s3) \<Rightarrow> (Inr unsettled, s2\<lparr>isRun := s3\<rparr>))))"

section \<open>Invariants\<close>

lemma triple_bind_gives:
  assumes "keeps I m" "gives I m R" "\<And>x. R x \<Longrightarrow> triple I I (f x) Q"
  shows "triple I I (bindX m f) Q"
proof (rule triple_bind [where R = "\<lambda>x s. I s \<and> R x"])
  show "triple I I m (\<lambda>x s. I s \<and> R x)"
    using assms(1,2) unfolding triple_def keeps_def gives_def by (metis snd_conv)
  show "triple I (\<lambda>s. I s \<and> R x) (f x) Q" for x
    using assms(3) [of x] unfolding triple_def by blast
qed

lemma gives_any: "gives I m (\<lambda>_. True)"
  by (simp add: gives_def)

lemma triple_sum:
  "(\<And>y. x = Inl y \<Longrightarrow> triple I P (f y) Q) \<Longrightarrow> (\<And>y. x = Inr y \<Longrightarrow> triple I P (g y) Q)
     \<Longrightarrow> triple I P (case x of Inl y \<Rightarrow> f y | Inr y \<Rightarrow> g y) Q"
  by (cases x) auto

lemma keeps_crashPoint: "keeps (\<lambda>s. J (xsFS s) (xsRows s)) (crashPoint v)"
  unfolding crashPoint_def by (rule fr.keeps_ask)

lemma keeps_finishStatus: "keeps (\<lambda>s. J (xsFS s) (xsRows s)) (finishStatus v st)"
  unfolding finishStatus_def by (intro keeps_bind fr.reads) (simp add: keeps_def modifies_def)

lemma gives_read:
  "(\<And>fs rows. J fs rows \<Longrightarrow> R (q rows)) \<Longrightarrow> gives (\<lambda>s. J (xsFS s) (xsRows s)) (readRows v q) R"
  unfolding readRows_def by (intro gives_bind fr.reads gives_gets) blast

lemma stepRun_frame [simp]: "rsFS (snd (stepRun v s)) = rsFS s" "rsRows (snd (stepRun v s)) = rsRows s"
  by (simp_all add: stepRun_def)

lemma afterItem_frame [simp]: "rsFS (snd (afterItem v s)) = rsFS s" "rsRows (snd (afterItem v s)) = rsRows s"
  by (simp_all add: afterItem_def)

text \<open>What every item keeps of the destination, and of what it hands on, the run keeps.\<close>

locale item_program =
  fixes prog :: "runRow \<Rightarrow> 'c \<Rightarrow> 'c exec" and J :: "destFS \<Rightarrow> recTable \<Rightarrow> bool" and P :: "'c \<Rightarrow> bool"
  assumes item: "P c \<Longrightarrow> triple (\<lambda>s. J (xsFS s) (xsRows s)) (\<lambda>s. J (xsFS s) (xsRows s)) (prog it c)
    (\<lambda>c s. J (xsFS s) (xsRows s) \<and> P c)"
begin

lemma jobItem_keeps:
  assumes "P c" "J (rsFS s) (rsRows s)" "jobItem prog it c s = (x, t)"
  shows "J (rsFS t) (rsRows t) \<and> (\<forall>c. x = Inr c \<longrightarrow> P c)"
proof -
  obtain y where e: "prog it c (loadItem s it) = (x, y)" "t = storeItem it y s"
    using assms(3) by (auto simp: jobItem_def split: prod.splits)
  have "J (xsFS (loadItem s it)) (xsRows (loadItem s it))" using assms(2) by (simp add: loadItem_def)
  with item [OF assms(1), of it] e(1) have "J (xsFS y) (xsRows y) \<and> (\<forall>c. x = Inr c \<longrightarrow> P c)" by (fastforce simp: triple_def)
  then show ?thesis by (simp add: e(2) storeItem_def)
qed

lemma jobBatch_keeps:
  "P c \<Longrightarrow> J (rsFS s) (rsRows s) \<Longrightarrow> jobBatch v act prog its c s = (x, t)
     \<Longrightarrow> J (rsFS t) (rsRows t) \<and> (\<forall>c. x = Inr c \<longrightarrow> P c)"
proof (induction its arbitrary: c s)
  case (Cons it its)
  obtain y s1 where e: "jobItem prog it c s = (y, s1)" by (cases "jobItem prog it c s")
  obtain z s2 where a: "afterItem v s1 = (z, s2)" by (cases "afterItem v s1")
  have one: "J (rsFS s1) (rsRows s1) \<and> (\<forall>c. y = Inr c \<longrightarrow> P c)" by (rule jobItem_keeps [OF Cons(2,3) e])
  have s2: "rsFS s2 = rsFS s1" "rsRows s2 = rsRows s1" using afterItem_frame [of v s1] unfolding a by simp_all
  then have "jobBatch v act prog its c s2 = (x, t) \<Longrightarrow> y = Inr c \<Longrightarrow> ?case" for c using Cons(1) [of c s2] one by simp
  with one s2 Cons e a show ?case by (auto split: if_splits sum.splits)
qed auto

lemma jobLoop_keeps:
  "q = prog \<Longrightarrow> P c \<Longrightarrow> J (rsFS s) (rsRows s) \<Longrightarrow> J (rsFS (snd (jobLoop v act q after c s))) (rsRows (snd (jobLoop v act q after c s)))"
proof (induction v act q after c s rule: jobLoop.induct)
  case (1 v act q after c s)
  obtain x s0 where p: "stepRun v s = (x, s0)" by (cases "stepRun v s")
  have s0: "rsFS s0 = rsFS s" "rsRows s0 = rsRows s" using stepRun_frame [of v s] unfolding p by simp_all
  let ?b = "Pending after pendingBatch (rsItems s0)"
  obtain y s1 where b: "jobBatch v act q ?b c s0 = (y, s1)" by (cases "jobBatch v act q ?b c s0")
  have "J (rsFS s1) (rsRows s1) \<and> (\<forall>c. y = Inr c \<longrightarrow> P c)"
    by (rule jobBatch_keeps [OF 1(3) _ b [unfolded 1(2)]]) (use 1(4) s0 in simp)
  with 1(1) [OF p [symmetric]] 1(2-4) p b s0 show ?case
    by (subst (1 2) jobLoop.simps) (auto simp: Let_def split: sum.split)
qed

lemma executeItems_keeps:
  "P c \<Longrightarrow> J (rsFS s) (rsRows s)
     \<Longrightarrow> J (rsFS (snd (executeItems v act prog c s))) (rsRows (snd (executeItems v act prog c s)))"
proof -
  assume c: "P c" and s: "J (rsFS s) (rsRows s)"
  obtain x s0 where p: "stepRun v s = (x, s0)" by (cases "stepRun v s")
  have s0: "rsFS s0 = rsFS s" "rsRows s0 = rsRows s" using stepRun_frame [of v s] unfolding p by simp_all
  show ?thesis using jobLoop_keeps [OF refl c, of "s0\<lparr>rsSince := 0\<rparr>" v act 0] s s0 by (auto simp: executeItems_def p split: sum.split)
qed

end

text \<open>Planning writes items only.\<close>

definition sameDest :: "itemsState \<Rightarrow> itemsState \<Rightarrow> bool" where
  "sameDest s t \<longleftrightarrow> rsFS (isRun t) = rsFS (isRun s) \<and> rsRows (isRun t) = rsRows (isRun s)"

lemma sameDest_trans: "sameDest s t \<Longrightarrow> sameDest t u \<Longrightarrow> sameDest s u"
  by (simp add: sameDest_def)

lemma stepItems_same: "sameDest s (snd (stepItems v s))"
  by (simp add: sameDest_def stepItems_def stepRun_def)

lemma AddItems_same: "sameDest s (snd (AddItems v items final s))"
  by (simp add: sameDest_def AddItems_def stepItems_def stepRun_def Let_def split: sum.split option.split)

lemma planOnce_same:
  assumes "\<And>s. sameDest s (snd (planner s))"
  shows "sameDest s (snd (planOnce v planner s))"
proof -
  have planner: "sameDest s (snd (planner u))" if "sameDest s u" for u using sameDest_trans [OF that assms] .
  show ?thesis unfolding planOnce_def DeleteItems_def stepItems_def stepRun_def
    by (auto simp: sameDest_def intro!: planner [unfolded sameDest_def] split: sum.split option.split)
qed

lemma runJob_parts:
  fixes r dryRun s
  defines "s1 \<equiv> (if dryRun then isRun s else snd (onRun (reconcile r []) (isRun s)))"
  assumes planner: "\<And>s. sameDest s (snd (planner s))" and J: "J (rsFS s1) (rsRows s1)"
    and run: "\<And>u. rsFS u = rsFS s1 \<Longrightarrow> rsRows u = rsRows s1 \<Longrightarrow> J (rsFS (snd (run u))) (rsRows (snd (run u)))"
  shows "J (rsFS (isRun (snd (runJob r dryRun planner run s)))) (rsRows (isRun (snd (runJob r dryRun planner run s))))"
proof -
  obtain u where u: "(if dryRun then (Inr 0, isRun s) else onRun (reconcile r []) (isRun s)) = (u, s1)"
    unfolding s1_def by (cases dryRun) (auto, metis prod.collapse)
  obtain x s2 where p: "planOnce (rcExec r) planner (s\<lparr>isRun := s1\<rparr>) = (x, s2)" by (cases "planOnce (rcExec r) planner (s\<lparr>isRun := s1\<rparr>)")
  then have s2: "rsFS (isRun s2) = rsFS s1" "rsRows (isRun s2) = rsRows s1"
    using planOnce_same [of planner "s\<lparr>isRun := s1\<rparr>" "rcExec r"] planner by (simp_all add: sameDest_def)
  obtain y s3 where e: "run (isRun s2) = (y, s3)" by (cases "run (isRun s2)")
  with run [OF s2] have "J (rsFS s3) (rsRows s3)" by simp
  with J s2 show ?thesis unfolding runJob_def u by (cases u; cases x; cases y) (simp_all add: p e)
qed

text \<open>The destination as the items of a job find it, once the reconciliation is done.\<close>

definition reconciled :: "recEnv \<Rightarrow> bool \<Rightarrow> runState \<Rightarrow> runState" where
  "reconciled r dryRun s = (if dryRun then s else snd (onRun (reconcile r []) s))"

lemma detailOk_zero [simp]: "detailOk zeroExecDetail"
  by (simp add: detailOk_def zeroExecDetail_def execDetail.defs detail.defs)

lemma onRun_keeps:
  assumes "keeps I m" "I \<lparr>xsTick = rsTick s, xsFS = rsFS s, xsRows = rsRows s, xsD = zeroExecDetail, xsSaved = zeroExecDetail, xsStatus = ItemPending\<rparr>"
  obtains y where "I y" "rsFS (snd (onRun m s)) = xsFS y" "rsRows (snd (onRun m s)) = xsRows y"
  using assms by (auto simp: onRun_def keeps_def split: prod.split intro: that)

lemma reconciled_keeps:
  assumes "recOk r" "runSafe {} s" "tableOk (rsRows s)"
  shows "tableOk (rsRows (reconciled r dryRun s))" "holds (rsFS s) c \<Longrightarrow> holds (rsFS (reconciled r dryRun s)) c"
    "rowsOk (rsRows (reconciled r dryRun s))"
proof -
  have "safe {} \<lparr>xsTick = rsTick s, xsFS = rsFS s, xsRows = rsRows s, xsD = zeroExecDetail, xsSaved = zeroExecDetail, xsStatus = ItemPending\<rparr>"
    using assms(2) by (simp add: safe_def runSafe_def)
  then show "rowsOk (rsRows (reconciled r dryRun s))" using assms(2)
    by (auto simp: reconciled_def safe_def runSafe_def intro: onRun_keeps [OF safe_reconcile [OF assms(1), of "{}" "[]"]])
  show "tableOk (rsRows (reconciled r dryRun s))"
    using assms(3) by (auto simp: reconciled_def intro: onRun_keeps [OF tr.keeps_reconcile [of r "[]"], of s])
  assume c: "holds (rsFS s) c"
  show "holds (rsFS (reconciled r dryRun s)) c"
  proof (cases dryRun)
    case False
    have "safe {c} \<lparr>xsTick = rsTick s, xsFS = rsFS s, xsRows = rsRows s, xsD = zeroExecDetail, xsSaved = zeroExecDetail, xsStatus = ItemPending\<rparr>"
      using c assms(2) by (simp add: safe_def runSafe_def)
    then show ?thesis using False by (auto simp: reconciled_def safe_def intro: onRun_keeps [OF safe_reconcile [OF assms(1), of "{c}" "[]"]])
  qed (simp add: reconciled_def c)
qed

end
