(* ===== verification/Retention.thy ===== *)
theory Retention
  imports JobItems
begin

text \<open>
  The retention job of a destination (internal/syncer/retention.go, and \<open>flagHold\<close> of tiers.go): it
  settles what stopped jobs left, plans one item per expired retained record of a linked source, and
  expires them, each checked again (\<open>Expire\<close> of internal/engines/filecopy/ops.go deletes the file).
  The coverage of the irreplaceable flags (\<open>tiers.Coverage\<close>) is an answer of the environment, read at
  the first expiry of a run and kept for the others.  The filesystem has no directories, so a name
  that is taken on the way to a retained file is no directory.
\<close>

section \<open>The deletion of a retained file\<close>

definition insideJobDir :: "string \<Rightarrow> bool" where
  "insideJobDir rel \<longleftrightarrow> hasPrefix rel (RetentionRoot @ ''/'') \<and> CHR ''/'' \<in> set (drop (length RetentionRoot + 1) rel)"

definition parentDirs :: "string \<Rightarrow> string list" where
  "parentDirs rel = (let ws = splitSlash rel in map (\<lambda>k. joinSlash (take k ws)) (rev [1..<length ws]))"

fun checkDirs :: "execEnv \<Rightarrow> string list \<Rightarrow> unit exec" where
  "checkDirs v [] = ret ()"
| "checkDirs v (d # ds) =
     bindX (faultPoint v)
       (\<lambda>_. bindX (gets (\<lambda>s. dfNames (xsFS s) d))
       (\<lambda>n. bindX (require (n = None) ErrItem) (\<lambda>_. checkDirs v ds)))"

text \<open>\<open>True\<close>: removed; \<open>False\<close>: it was gone already.\<close>

definition Expire :: "execEnv \<Rightarrow> string \<Rightarrow> int \<Rightarrow> bool exec" where
  "Expire v retainedRel wantSize =
     bindX (require (checkRel retainedRel \<and> insideJobDir retainedRel) ErrItem)
       (\<lambda>_. bindX (checkDirs v (parentDirs retainedRel))
       (\<lambda>_. bindX (faultPoint v)
       (\<lambda>_. bindX (gets (\<lambda>s. nodeAt retainedRel (xsFS s)))
       (\<lambda>n. case n of
              None \<Rightarrow> ret False
            | Some x \<Rightarrow>
                bindX (require (fnRegular x \<and> int (length (fnData x)) = wantSize) ErrItem)
                (\<lambda>_. bindX (faultPoint v)
                (\<lambda>_. bindX (modFS (removeFS retainedRel))
                (\<lambda>_. bindX (crashPoint v) (\<lambda>_. ret True))))))))"

section \<open>The plan\<close>

type_synonym coverage = "ident \<Rightarrow> string \<Rightarrow> ident option"

record retEnv =
  reRec :: recEnv
  reSourceIDs :: "ident list"
  reTiers :: bool
  reCoverage :: "nat \<Rightarrow> execErr + coverage"
  rePlanBatch :: nat

definition reExec :: "retEnv \<Rightarrow> execEnv" where
  "reExec r = rcExec (reRec r)"

definition linked :: "retEnv \<Rightarrow> ident \<Rightarrow> bool" where
  "linked r sourceID \<longleftrightarrow> sourceID \<noteq> 0 \<and> sourceID \<in> set (reSourceIDs r)"

definition expireItem :: "destRecord \<Rightarrow> runRow" where
  "expireItem rec = \<lparr>rrID = 0, rrAction = ActionExpire, rrRel = drRetainedPath rec, rrStatus = ItemPending,
     rrDetail = zeroExecDetail\<lparr>deSourceID := drSourceID rec, deSource := drSourceRelPath rec, deRecordID := drID rec,
       deSize := drSize rec, deReason := drReason rec, deRetainedPath := drRetainedPath rec\<rparr>\<rparr>"

definition planItems :: "retEnv \<Rightarrow> gotime \<Rightarrow> recTable \<Rightarrow> runRow list" where
  "planItems r now rows =
     map expireItem (filter (\<lambda>rec. linked r (drSourceID rec)) (Expired (xvDest (reExec r)) now rows))"

function addBatches :: "execEnv \<Rightarrow> nat \<Rightarrow> runRow list \<Rightarrow> itemsState \<Rightarrow> (execErr + unit) \<times> itemsState" where
  "addBatches v k items s =
     (if length items \<le> max 1 k then AddItems v items True s
      else (case AddItems v (take (max 1 k) items) False s of
              (Inl e, s1) \<Rightarrow> (Inl e, s1)
            | (Inr _, s1) \<Rightarrow> addBatches v k (drop (max 1 k) items) s1))"
  by pat_completeness auto
termination
  by (relation "measure (\<lambda>(_, _, items, _). length items)") auto

declare addBatches.simps [simp del]

definition planRetention :: "retEnv \<Rightarrow> gotime \<Rightarrow> itemsState \<Rightarrow> (execErr + unit) \<times> itemsState" where
  "planRetention r now s =
     (case stepItems (reExec r) s of
        (Inl e, s1) \<Rightarrow> (Inl e, s1)
      | (Inr _, s1) \<Rightarrow> addBatches (reExec r) (rePlanBatch r) (planItems r now (rsRows (isRun s1))) s1)"

section \<open>One expiry\<close>

definition flagHold :: "retEnv \<Rightarrow> destRecord \<Rightarrow> coverage option \<Rightarrow> (bool \<times> coverage option) exec" where
  "flagHold r rec cov =
     (if \<not> reTiers r \<or> drSourceID rec = 0 then ret (False, cov)
      else bindX (case cov of Some f \<Rightarrow> ret f | None \<Rightarrow> ask (reCoverage r))
        (\<lambda>f. ret (f (drSourceID rec) (drSourceRelPath rec) \<noteq> None, Some f)))"

definition expireFile :: "execEnv \<Rightarrow> destRecord \<Rightarrow> unit exec" where
  "expireFile v rec =
     bindX (tryX (Expire v (drRetainedPath rec) (drSize rec)))
       (\<lambda>x. case x of
              Inr _ \<Rightarrow>
                bindX (crashPoint v)
                (\<lambda>_. bindX (writeTx v (\<lambda>e. deleteRecord (drID rec)))
                (\<lambda>_. bindX (crashPoint v) (\<lambda>_. finishStatus v ItemDone)))
            | Inl e \<Rightarrow>
                if e = ErrItem then finishStatus v ItemFailed
                else bindX (gets (\<lambda>s. xvCancelled v (xsTick s)))
                  (\<lambda>c. if c \<or> e = ErrFatal then throw ErrFatal else finishStatus v ItemFailed))"

definition expire :: "retEnv \<Rightarrow> coverage option \<Rightarrow> coverage option exec" where
  "expire r cov =
     (let v = reExec r; finish = (\<lambda>st c. bindX (finishStatus v st) (\<lambda>_. ret c))
      in bindX (gets xsD)
      (\<lambda>d. bindX (readRows v (getTx (deRecordID d)))
      (\<lambda>rec0. case rec0 of
                None \<Rightarrow> finish ItemDone cov
              | Some rec \<Rightarrow>
                  if drState rec \<noteq> StateRetained \<or> drRetainedPath rec \<noteq> deRetainedPath d \<or> drDestinationID rec \<noteq> xvDest v
                  then finish ItemSkipped cov
                  else bindX (gets (\<lambda>s. xvNow v (xsTick s)))
      (\<lambda>now. if (case drExpiresAt rec of None \<Rightarrow> True | Some t \<Rightarrow> t > now) \<or> \<not> linked r (drSourceID rec)
             then finish ItemSkipped cov
             else bindX (readRows v (Dependents (drID rec)))
      (\<lambda>deps. if deps \<noteq> [] then finish ItemSkipped cov
              else bindX (flagHold r rec cov)
      (\<lambda>hc. if fst hc then finish ItemHeld (snd hc)
            else bindX (expireFile v rec) (\<lambda>_. ret (snd hc))))))))"

section \<open>The run\<close>

definition executeRetention :: "retEnv \<Rightarrow> runState \<Rightarrow> (execErr + coverage option) \<times> runState" where
  "executeRetention r = executeItems (reExec r) ActionExpire (\<lambda>it. expire r) None"

text \<open>The result: files planned, expired, kept, held and failed, and the warnings.\<close>

record retentionStats =
  rsPlannedN :: nat
  rsExpiredN :: nat
  rsKeptN :: nat
  rsHeldN :: nat
  rsFailedN :: nat
  rsWarnings :: nat

definition countStatus :: "itemStatus \<Rightarrow> runRow list \<Rightarrow> nat" where
  "countStatus st items = length (filter (\<lambda>it. rrStatus it = st) items)"

definition retentionResult :: "nat \<Rightarrow> runRow list \<Rightarrow> retentionStats" where
  "retentionResult unsettled items =
     \<lparr>rsPlannedN = length items, rsExpiredN = countStatus ItemDone items, rsKeptN = countStatus ItemSkipped items,
      rsHeldN = countStatus ItemHeld items, rsFailedN = countStatus ItemFailed items,
      rsWarnings = countStatus ItemFailed items + countStatus ItemSkipped items + countStatus ItemHeld items + unsettled\<rparr>"

definition runRetention :: "retEnv \<Rightarrow> bool \<Rightarrow> itemsState \<Rightarrow> (execErr + retentionStats) \<times> itemsState" where
  "runRetention r dryRun s =
     (let started = xvNow (reExec r) (rsTick (isRun s))
      in case runJob (reRec r) dryRun (planRetention r started) (executeRetention r) s of
           (Inl e, t) \<Rightarrow> (Inl e, t)
         | (Inr unsettled, t) \<Rightarrow> (Inr (retentionResult unsettled (rsItems (isRun t))), t))"

section \<open>What a run may delete\<close>

text \<open>The flags, as the environment answers, do not cover the record's source path.\<close>

definition unflagged :: "retEnv \<Rightarrow> destRecord \<Rightarrow> bool" where
  "unflagged r rec \<longleftrightarrow> \<not> reTiers r \<or> (\<exists>k f. reCoverage r k = Inr f \<and> f (drSourceID rec) (drSourceRelPath rec) = None)"

text \<open>A retained record of a linked source, expired by a given time, that no live record links to.\<close>

definition expirable :: "retEnv \<Rightarrow> gotime \<Rightarrow> recTable \<Rightarrow> destRecord \<Rightarrow> bool" where
  "expirable r now rows rec \<longleftrightarrow> drState rec = StateRetained \<and> drDestinationID rec = xvDest (reExec r)
     \<and> (case drExpiresAt rec of Some t \<Rightarrow> t \<le> now | None \<Rightarrow> False) \<and> linked r (drSourceID rec)
     \<and> list_all (\<lambda>x. \<not> (isLive x \<and> drLinkOf x = drID rec)) rows \<and> unflagged r rec"

text \<open>The file of a record: at its place in a job's directory in retention, regular, of the recorded size.\<close>

definition fileOf :: "destFS \<Rightarrow> destRecord \<Rightarrow> string \<Rightarrow> bool" where
  "fileOf fs rec p \<longleftrightarrow> p = drRetainedPath rec \<and> insideJobDir p
     \<and> (case nodeAt p fs of Some n \<Rightarrow> fnRegular n \<and> int (length (fnData n)) = drSize rec | None \<Rightarrow> False)"

text \<open>From one state to another, only expired files and their records go.\<close>

definition expiredOnly :: "retEnv \<Rightarrow> gotime \<Rightarrow> destFS \<Rightarrow> recTable \<Rightarrow> destFS \<Rightarrow> recTable \<Rightarrow> bool" where
  "expiredOnly r now fs rows fs1 rows1 \<longleftrightarrow> dfNodes fs1 = dfNodes fs
     \<and> (\<forall>p. dfNames fs1 p = dfNames fs p
          \<or> dfNames fs1 p = None \<and> list_ex (\<lambda>rec. expirable r now rows rec \<and> fileOf fs rec p) rows)
     \<and> filter isLive rows1 = filter isLive rows
     \<and> list_all (\<lambda>x. list_ex (\<lambda>y. x = y\<lparr>drLinkOf := drLinkOf x\<rparr>) rows) rows1
     \<and> list_all (\<lambda>rec. drID rec \<in> set (map drID rows1)
          \<or> expirable r now rows rec \<and> dfNames fs1 (drRetainedPath rec) = None) rows"

lemma relinked_self: "x \<in> set rows \<Longrightarrow> list_ex (\<lambda>y. x = y\<lparr>drLinkOf := drLinkOf x\<rparr>) rows" for x :: destRecord
  unfolding list_ex_iff by (rule bexI [of _ x]) simp_all

lemma expiredOnly_refl: "expiredOnly r now fs rows fs rows"
  unfolding expiredOnly_def list_all_iff by (simp add: relinked_self)

section \<open>The effects of an expiry\<close>

lemma relinked_row:
  assumes "expiredOnly r now fs0 rows0 fs rows" "x \<in> set rows"
  obtains y l where "y \<in> set rows0" "x = y\<lparr>drLinkOf := l\<rparr>"
proof -
  have "list_ex (\<lambda>y. x = y\<lparr>drLinkOf := drLinkOf x\<rparr>) rows0"
    using assms unfolding expiredOnly_def list_all_iff by blast
  then show thesis unfolding list_ex_iff using that by blast
qed

lemma relinked_ex: "expiredOnly r now fs0 rows0 fs rows \<Longrightarrow> x \<in> set rows \<Longrightarrow> \<exists>y. y \<in> set rows0 \<and> (\<exists>l. x = y\<lparr>drLinkOf := l\<rparr>)"
  by (erule (1) relinked_row) blast

lemma expiredOnly_remove:
  assumes J: "expiredOnly r now fs0 rows0 fs rows" and y: "y \<in> set rows0" "expirable r now rows0 y"
    and p: "insideJobDir (drRetainedPath y)" "nodeAt (drRetainedPath y) fs = Some n" "fnRegular n" "int (length (fnData n)) = drSize y"
  shows "expiredOnly r now fs0 rows0 (removeFS (drRetainedPath y) fs) rows"
proof -
  let ?p = "drRetainedPath y"
  obtain i where i: "dfNames fs ?p = Some i" "dfNodes fs i = n" using p(2) by (auto simp: nodeAt_def)
  have "dfNames fs0 ?p = Some i" "dfNodes fs0 = dfNodes fs" using J i(1) unfolding expiredOnly_def by (metis option.distinct(1))+
  then have "fileOf fs0 y ?p" using p i(2) by (simp add: fileOf_def nodeAt_def)
  with y have gone: "list_ex (\<lambda>rec. expirable r now rows0 rec \<and> fileOf fs0 rec ?p) rows0" by (auto simp: list_ex_iff)
  have names: "dfNames (removeFS ?p fs) q = (if q = ?p then None else dfNames fs q)" "dfNodes (removeFS ?p fs) = dfNodes fs" for q
    by (simp_all add: removeFS_def)
  from J gone show ?thesis unfolding expiredOnly_def names list_all_iff by auto
qed

lemma deleteRecord_Inr:
  "deleteRecord i rows = Inr t \<Longrightarrow>
     t = filter (\<lambda>x. drID x \<noteq> i) (map (\<lambda>x. if drLinkOf x = i \<and> \<not> isLive x then x\<lparr>drLinkOf := 0\<rparr> else x) rows)"
  unfolding deleteRecord_def sbind_Inr by (auto dest!: updateRows_Inr split: if_splits)

lemma expiredOnly_delete:
  assumes J: "expiredOnly r now fs0 rows0 fs rows" and y: "y \<in> set rows0" "expirable r now rows0 y" "distinct (map drID rows0)"
    and gone: "dfNames fs (drRetainedPath y) = None" and del: "deleteRecord (drID y) rows = Inr t"
  shows "expiredOnly r now fs0 rows0 fs t"
proof -
  let ?u = "\<lambda>x. if drLinkOf x = drID y \<and> \<not> isLive x then x\<lparr>drLinkOf := 0\<rparr> else x"
  note t = deleteRecord_Inr [OF del]
  have live: "filter isLive rows = filter isLive rows0" using J by (simp add: expiredOnly_def)
  have same: "x = y" if "x \<in> set rows0" "drID x = drID y" for x using y(1,3) that by (metis distinct_map inj_onD)
  have "\<not> isLive x" if "x \<in> set rows" "drID x = drID y" for x
  proof
    assume "isLive x"
    with that(1) have "x \<in> set (filter isLive rows0)" unfolding live [symmetric] by simp
    then have "x \<in> set rows0" by simp
    then have "x = y" using same that(2) by blast
    with y(2) \<open>isLive x\<close> show False by (simp add: expirable_def isLive_def)
  qed
  then have "filter isLive t = filter isLive rows"
    unfolding t by (induction rows) (auto simp: isLive_def)
  moreover have "list_all (\<lambda>x. list_ex (\<lambda>z. x = z\<lparr>drLinkOf := drLinkOf x\<rparr>) rows0) t"
  proof -
    have "\<exists>z \<in> set rows0. ?u x = z\<lparr>drLinkOf := drLinkOf (?u x)\<rparr>" if x: "x \<in> set rows" for x
    proof -
      obtain z l where z: "z \<in> set rows0" "x = z\<lparr>drLinkOf := l\<rparr>" using relinked_row [OF J x] .
      show ?thesis by (rule bexI [of _ z]) (use z in simp_all)
    qed
    note unlinked = this
    show ?thesis
      unfolding list_all_iff list_ex_iff
    proof
      fix w assume "w \<in> set t"
      then obtain x where "x \<in> set rows" "w = ?u x" unfolding t by auto
      with unlinked [of x] show "\<exists>z \<in> set rows0. w = z\<lparr>drLinkOf := drLinkOf w\<rparr>" by blast
    qed
  qed
  moreover have "drID x \<in> set (map drID t) \<or> expirable r now rows0 x \<and> dfNames fs (drRetainedPath x) = None" if x: "x \<in> set rows0" for x
  proof (cases "drID x = drID y")
    case True
    with same x y(2) gone show ?thesis by auto
  next
    case False
    have "set (map drID t) = set (map drID rows) - {drID y}" unfolding t by (induction rows) auto
    then have "drID x \<in> set (map drID rows) \<Longrightarrow> drID x \<in> set (map drID t)" using False by blast
    with J x show ?thesis by (auto simp: expiredOnly_def list_all_iff)
  qed
  ultimately show ?thesis using J by (simp add: expiredOnly_def list_all_iff)
qed

section \<open>One expiry\<close>

definition validCov :: "retEnv \<Rightarrow> coverage option \<Rightarrow> bool" where
  "validCov r cov = (case cov of None \<Rightarrow> True | Some f \<Rightarrow> \<exists>k. reCoverage r k = Inr f)"

lemma gives_flagHold:
  assumes "validCov r cov" "drSourceID rec \<noteq> 0"
  shows "gives I (flagHold r rec cov) (\<lambda>hc. validCov r (snd hc) \<and> (fst hc \<or> unflagged r rec))"
  using assms unfolding gives_def flagHold_def bindX_def ask_def ret_def
  by (auto simp: validCov_def unflagged_def split: option.splits sum.splits if_splits)

lemma keeps_flagHold: "keeps (\<lambda>s. J (xsFS s) (xsRows s)) (flagHold r rec cov)"
  unfolding flagHold_def by (intro keeps_bind keeps_basic fr.keeps_ask)

lemma keeps_checkDirs: "keeps (\<lambda>s. J (xsFS s) (xsRows s)) (checkDirs v ds)"
  by (induction ds) (auto intro!: keeps_bind keeps_basic fr.reads)

text \<open>After the deletion the file is gone, and only it.\<close>

lemma triple_Expire:
  assumes y: "y \<in> set rows0" "expirable r now rows0 y"
  shows "triple (\<lambda>s. expiredOnly r now fs0 rows0 (xsFS s) (xsRows s)) (\<lambda>s. expiredOnly r now fs0 rows0 (xsFS s) (xsRows s))
    (Expire v (drRetainedPath y) (drSize y))
    (\<lambda>_ s. expiredOnly r now fs0 rows0 (xsFS s) (xsRows s) \<and> dfNames (xsFS s) (drRetainedPath y) = None)"
proof (cases "insideJobDir (drRetainedPath y)")
  case True
  let ?J = "expiredOnly r now fs0 rows0"
  let ?I = "\<lambda>s. ?J (xsFS s) (xsRows s)"
  let ?p = "drRetainedPath y"
  let ?K = "\<lambda>n fs. nodeAt ?p fs = Some n \<and> fnRegular n \<and> int (length (fnData n)) = drSize y"
  let ?N = "\<lambda>_ s. ?I s \<and> dfNames (xsFS s) ?p = None"
  have rem: "triple ?I (\<lambda>s. ?I s \<and> ?K n (xsFS s)) (modFS (removeFS ?p)) ?N" for n
    using expiredOnly_remove [OF _ y True] by (simp add: triple_def modFS_def modifies_def removeFS_def)
  have found: "triple ?I (\<lambda>s. ?I s \<and> nodeAt ?p (xsFS s) = Some n)
      (bindX (require (fnRegular n \<and> int (length (fnData n)) = drSize y) ErrItem)
        (\<lambda>_. bindX (faultPoint v) (\<lambda>_. bindX (modFS (removeFS ?p)) (\<lambda>_. bindX (crashPoint v) (\<lambda>_. ret True))))) ?N" for n
  proof (rule triple_bind [where R = "\<lambda>_ s. ?I s \<and> ?K n (xsFS s)"])
    show "triple ?I (\<lambda>s. ?I s \<and> ?K n (xsFS s)) (bindX (faultPoint v) (\<lambda>_. bindX (modFS (removeFS ?p)) (\<lambda>_. bindX (crashPoint v) (\<lambda>_. ret True)))) ?N"
      by (rule triple_bind [OF triple_frame [OF fr.keeps_faultPoint [where J = "\<lambda>fs rows. ?J fs rows \<and> ?K n fs"]]],
          rule triple_bind [OF rem],
          rule triple_bind [OF triple_frame [OF keeps_crashPoint [where J = "\<lambda>fs rows. ?J fs rows \<and> dfNames fs ?p = None"]]])
        (rule triple_ret, simp)
  qed (auto intro: triple_require)
  show ?thesis
    unfolding Expire_def
  proof (rule triple_bind [OF keeps_triple [THEN iffD1, OF keeps_require]],
      rule triple_bind [OF keeps_triple [THEN iffD1, OF keeps_checkDirs [where J = ?J]]],
      rule triple_bind [OF keeps_triple [THEN iffD1, OF fr.keeps_faultPoint [where J = ?J]]],
      rule triple_bind [where R = "\<lambda>n s. ?I s \<and> nodeAt ?p (xsFS s) = n"])
    show "triple ?I ?I (gets (\<lambda>s. nodeAt ?p (xsFS s))) (\<lambda>n s. ?I s \<and> nodeAt ?p (xsFS s) = n)" by (rule triple_gets) simp
    show "triple ?I (\<lambda>s. ?I s \<and> nodeAt ?p (xsFS s) = n) (case n of None \<Rightarrow> ret False
        | Some x \<Rightarrow> bindX (require (fnRegular x \<and> int (length (fnData x)) = drSize y) ErrItem)
            (\<lambda>_. bindX (faultPoint v) (\<lambda>_. bindX (modFS (removeFS ?p)) (\<lambda>_. bindX (crashPoint v) (\<lambda>_. ret True))))) ?N" for n
    proof (cases n)
      case None
      then show ?thesis by (auto simp: nodeAt_def intro: triple_ret)
    qed (simp add: found)
  qed
next
  case False
  then show ?thesis by (simp add: Expire_def triple_def bindX_def require_def throw_def)
qed

lemma keeps_expireFile:
  assumes y: "y \<in> set rows0" "expirable r now rows0 y" "distinct (map drID rows0)"
  shows "keeps (\<lambda>s. expiredOnly r now fs0 rows0 (xsFS s) (xsRows s)) (expireFile v y)"
proof -
  let ?J = "expiredOnly r now fs0 rows0"
  let ?I = "\<lambda>s. ?J (xsFS s) (xsRows s)"
  let ?G = "\<lambda>fs rows. ?J fs rows \<and> dfNames fs (drRetainedPath y) = None"
  have del: "keeps (\<lambda>s. ?G (xsFS s) (xsRows s)) (writeTx v (\<lambda>e. deleteRecord (drID y)))"
    by (rule fr.keeps_writeTx) (auto intro: expiredOnly_delete [OF _ y])
  have fin: "keeps (\<lambda>s. ?G (xsFS s) (xsRows s)) (bindX (crashPoint v) (\<lambda>_. bindX (writeTx v (\<lambda>e. deleteRecord (drID y)))
      (\<lambda>_. bindX (crashPoint v) (\<lambda>_. finishStatus v ItemDone))))"
    by (intro keeps_bind keeps_crashPoint [where J = ?G] keeps_finishStatus [where J = ?G] del)
  then have fin1: "triple ?I (\<lambda>s. ?G (xsFS s) (xsRows s)) (bindX (crashPoint v) (\<lambda>_. bindX (writeTx v (\<lambda>e. deleteRecord (drID y)))
      (\<lambda>_. bindX (crashPoint v) (\<lambda>_. finishStatus v ItemDone)))) (\<lambda>_. ?I)"
    unfolding triple_def keeps_def by (metis snd_conv)
  show ?thesis
    unfolding expireFile_def keeps_triple
    by (rule triple_bind [OF triple_tryX [OF triple_Expire [OF y(1,2)]]], rule triple_sum, rule triple_keeps)
      (intro keeps_bind keeps_basic keeps_finishStatus [where J = ?J], simp, rule triple_weaken [OF fin1], auto)
qed

lemma expireFile_relink: "expireFile v (y\<lparr>drLinkOf := l\<rparr>) = expireFile v y"
  by (simp add: expireFile_def cong del: sum.case_cong_weak)

lemma Dependents_none:
  assumes "expiredOnly r now fs0 rows0 fs rows" "Dependents i rows = []"
  shows "list_all (\<lambda>x. \<not> (isLive x \<and> drLinkOf x = i)) rows0"
proof -
  have none: "filter (\<lambda>x. drLinkOf x = i \<and> isLive x) rows = []"
    using assms(2) unfolding Dependents_def by (metis set_empty2 set_sort)
  have "filter isLive rows0 = filter isLive rows" using assms(1) by (simp add: expiredOnly_def)
  have "\<not> (isLive x \<and> drLinkOf x = i)" if "x \<in> set rows0" for x
  proof
    assume x: "isLive x \<and> drLinkOf x = i"
    with that have "x \<in> set (filter isLive rows0)" by simp
    then have "x \<in> set (filter isLive rows)" unfolding \<open>filter isLive rows0 = filter isLive rows\<close> .
    with x none show False by (auto simp: filter_empty_conv)
  qed
  then show ?thesis by (simp add: list_all_iff)
qed

lemma triple_finish: "validCov r c \<Longrightarrow> triple (\<lambda>s. J (xsFS s) (xsRows s)) (\<lambda>s. J (xsFS s) (xsRows s))
    (bindX (finishStatus v st) (\<lambda>_. ret c)) (\<lambda>c s. J (xsFS s) (xsRows s) \<and> validCov r c)"
  by (rule triple_bind [OF keeps_triple [THEN iffD1, OF keeps_finishStatus [where J = J]]]) (rule triple_ret, simp)

text \<open>What an expiry does to the destination is what it may do, and the coverage it hands on is one the
  environment answered.\<close>

lemma triple_expire:
  assumes now: "\<forall>k. xvNow (reExec r) k \<le> now" and ids: "distinct (map drID rows0)" and cov: "validCov r cov"
  shows "triple (\<lambda>s. expiredOnly r now fs0 rows0 (xsFS s) (xsRows s)) (\<lambda>s. expiredOnly r now fs0 rows0 (xsFS s) (xsRows s))
    (expire r cov) (\<lambda>c s. expiredOnly r now fs0 rows0 (xsFS s) (xsRows s) \<and> validCov r c)"
proof -
  let ?J = "expiredOnly r now fs0 rows0"
  let ?I = "\<lambda>s. ?J (xsFS s) (xsRows s)"
  let ?row = "\<lambda>x. case x of None \<Rightarrow> True | Some rec \<Rightarrow> \<exists>y l. y \<in> set rows0 \<and> rec = y\<lparr>drLinkOf := l\<rparr>"
  have row: "gives ?I (readRows v (getTx i)) ?row" for v i
    by (rule gives_read) (auto simp: getTx_def find_Some_iff split: option.split intro: relinked_ex [OF _ nth_mem])
  have deps: "gives ?I (readRows v (Dependents i)) (\<lambda>ds. ds = [] \<longrightarrow> list_all (\<lambda>x. \<not> (isLive x \<and> drLinkOf x = i)) rows0)" for v i
    by (rule gives_read) (auto dest: Dependents_none)
  have time: "gives ?I (gets (\<lambda>s. xvNow (reExec r) (xsTick s))) (\<lambda>t. t \<le> now)" using now by (simp add: gives_gets)
  have gone: "triple ?I ?I (bindX (expireFile v rec) (\<lambda>_. ret c)) (\<lambda>c s. ?I s \<and> validCov r c)"
    if "y \<in> set rows0" "rec = y\<lparr>drLinkOf := l\<rparr>" "expirable r now rows0 rec" "validCov r c" for v rec y l c
  proof (rule triple_bind [where R = "\<lambda>_. ?I"])
    have "expirable r now rows0 y" using that(3) unfolding that(2) by (simp add: expirable_def unflagged_def)
    then show "triple ?I ?I (expireFile v rec) (\<lambda>_. ?I)"
      unfolding that(2) expireFile_relink using keeps_expireFile [OF that(1) _ ids] by (simp add: keeps_triple)
  qed (rule triple_ret, simp add: that)
  show ?thesis
    unfolding expire_def Let_def
    apply (rule triple_bind_gives [OF keeps_gets gives_any])
    apply (rule triple_bind_gives [OF fr.keeps_readRows [where J = ?J] row])
    apply (rule triple_option, rule triple_finish [OF cov])
    apply (rule triple_cond, rule triple_finish [OF cov])
    apply (rule triple_bind_gives [OF keeps_gets time])
    apply (rule triple_cond, rule triple_finish [OF cov])
    apply (rule triple_bind_gives [OF fr.keeps_readRows [where J = ?J] deps])
    apply (rule triple_cond, rule triple_finish [OF cov])
    apply (rule triple_bind_gives [OF keeps_flagHold [where J = ?J] gives_flagHold [OF cov]])
    apply (simp add: linked_def)
    apply (rule triple_cond, rule triple_finish, blast)
    subgoal premises p for d rec0 rec t ds hc
    proof -
      obtain y l where y: "y \<in> set rows0" "rec = y\<lparr>drLinkOf := l\<rparr>" using p(2,3) by auto
      have "expirable r now rows0 rec" using p by (auto simp: expirable_def split: option.splits)
      from gone [OF y this] show ?thesis using p by blast
    qed
    done
qed

section \<open>The whole run\<close>

definition runInv :: "retEnv \<Rightarrow> gotime \<Rightarrow> destFS \<Rightarrow> recTable \<Rightarrow> destFS \<Rightarrow> recTable \<Rightarrow> bool" where
  "runInv r now fs0 rows0 fs rows \<longleftrightarrow> (\<forall>k. xvNow (reExec r) k \<le> now) \<and> distinct (map drID rows0) \<and> expiredOnly r now fs0 rows0 fs rows"

interpretation ex: item_program "\<lambda>it. expire r" "runInv r now fs0 rows0" "validCov r" for r now fs0 rows0
proof
  fix c it
  assume c: "validCov r c"
  show "triple (\<lambda>s. runInv r now fs0 rows0 (xsFS s) (xsRows s)) (\<lambda>s. runInv r now fs0 rows0 (xsFS s) (xsRows s)) (expire r c)
      (\<lambda>c s. runInv r now fs0 rows0 (xsFS s) (xsRows s) \<and> validCov r c)"
  proof (cases "(\<forall>k. xvNow (reExec r) k \<le> now) \<and> distinct (map drID rows0)")
    case True
    then show ?thesis using triple_expire [of r now rows0 c fs0] c unfolding runInv_def by simp
  next
    case False
    then have "\<not> runInv r now fs0 rows0 fs rows" for fs rows unfolding runInv_def by blast
    then show ?thesis by (simp add: triple_def)
  qed
qed

lemma addBatches_same: "sameDest s (snd (addBatches v k items s))"
proof (induction v k items s rule: addBatches.induct)
  case (1 v k items s)
  obtain x s1 where a: "AddItems v (take (max 1 k) items) False s = (x, s1)" by (cases "AddItems v (take (max 1 k) items) False s")
  then have s1: "sameDest s s1" using AddItems_same [of s v "take (max 1 k) items" False] by simp
  with 1 a show ?case by (subst addBatches.simps) (auto simp: AddItems_same split: sum.split intro: sameDest_trans [OF s1])
qed

lemma planRetention_same: "sameDest s (snd (planRetention r now s))"
proof -
  obtain x s1 where p: "stepItems (reExec r) s = (x, s1)" by (cases "stepItems (reExec r) s")
  have "sameDest s s1" using stepItems_same [of s "reExec r"] unfolding p by simp
  then show ?thesis by (auto simp: planRetention_def p split: sum.split intro: sameDest_trans [OF _ addBatches_same])
qed

section \<open>The property\<close>

text \<open>C6: A retention job of a destination, whatever faults or crash it meets, first loses nothing (what was at
  the destination under a name that is no temp name is there after the reconciliation), and from then on
  deletes only expired files: a name that goes is the place in a job's retention directory of a retained
  record of the destination, expired by the latest time the job's clock shows, of a source still linked,
  that no live record links to and no irreplaceable flag covers, and its file is regular and of the recorded
  size.  Every other name keeps its file, every live record stays as it is, and a record goes only when
  it is such a record and its file is gone.\<close>

theorem expire_deletes_only_expired:
  assumes "recOk (reRec r)" "runSafe {} (isRun s)" "tableOk (rsRows (isRun s))" "\<forall>k. xvNow (reExec r) k \<le> now"
  shows "(holds (rsFS (isRun s)) c \<longrightarrow> holds (rsFS (reconciled (reRec r) dryRun (isRun s))) c)
    \<and> expiredOnly r now (rsFS (reconciled (reRec r) dryRun (isRun s))) (rsRows (reconciled (reRec r) dryRun (isRun s)))
        (rsFS (isRun (snd (runRetention r dryRun s)))) (rsRows (isRun (snd (runRetention r dryRun s))))"
proof -
  let ?s1 = "reconciled (reRec r) dryRun (isRun s)"
  let ?plan = "planRetention r (xvNow (reExec r) (rsTick (isRun s)))"
  let ?J = "runInv r now (rsFS ?s1) (rsRows ?s1)"
  have start: "?J (rsFS ?s1) (rsRows ?s1)"
    using reconciled_keeps(1) [OF assms(1-3), of dryRun] assms(4) by (simp add: runInv_def expiredOnly_refl tableOk_def)
  have exec: "?J (rsFS (snd (executeRetention r u))) (rsRows (snd (executeRetention r u)))" if "rsFS u = rsFS ?s1" "rsRows u = rsRows ?s1" for u
    unfolding executeRetention_def by (rule ex.executeItems_keeps) (use start that in \<open>simp_all add: validCov_def\<close>)
  have "?J (rsFS (isRun (snd (runJob (reRec r) dryRun ?plan (executeRetention r) s))))
      (rsRows (isRun (snd (runJob (reRec r) dryRun ?plan (executeRetention r) s))))"
    by (rule runJob_parts) (use start exec planRetention_same in \<open>auto simp: reconciled_def\<close>)
  moreover have "snd (runRetention r dryRun s) = snd (runJob (reRec r) dryRun ?plan (executeRetention r) s)"
    by (simp add: runRetention_def Let_def split: prod.split sum.split)
  ultimately have "expiredOnly r now (rsFS ?s1) (rsRows ?s1)
      (rsFS (isRun (snd (runRetention r dryRun s)))) (rsRows (isRun (snd (runRetention r dryRun s))))"
    by (simp add: runInv_def)
  then show ?thesis using reconciled_keeps(2) [OF assms(1-3)] by blast
qed

definition exRetEnv :: retEnv where
  "exRetEnv = \<lparr>reRec = exRecEnv, reSourceIDs = [1], reTiers = True, reCoverage = (\<lambda>_. Inr (\<lambda>_ p. if p = ''b'' then Some 4 else None)),
     rePlanBatch = 1\<rparr>"

text \<open>Two retained files are expired; an irreplaceable flag covers the second.\<close>

definition exRetState :: itemsState where
  "exRetState = \<lparr>isRun = \<lparr>rsTick = 0, rsFS = \<lparr>dfNames = (\<lambda>p. if p = ''.bunkarr/retention/20240102-job3/m/a'' then Some 0
         else if p = ''.bunkarr/retention/20240102-job3/m/b'' then Some 1 else None),
       dfNodes = (\<lambda>i. \<lparr>fnRegular = True, fnMtimeNs = 5, fnData = (if i = 0 then ''before'' else ''flagged'')\<rparr>), dfNext = 2\<rparr>,
     rsRows = [zeroRecord\<lparr>drID := 1, drDestinationID := 1, drSourceID := 1, drRelPath := ''m/a'', drSourceRelPath := ''a'',
         drSize := 6, drState := StateRetained, drRetainedPath := ''.bunkarr/retention/20240102-job3/m/a'', drReason := ReasonDeleted, drExpiresAt := Some 50\<rparr>,
       zeroRecord\<lparr>drID := 2, drDestinationID := 1, drSourceID := 1, drRelPath := ''m/b'', drSourceRelPath := ''b'',
         drSize := 7, drState := StateRetained, drRetainedPath := ''.bunkarr/retention/20240102-job3/m/b'', drReason := ReasonDeleted, drExpiresAt := Some 50\<rparr>],
     rsItems = [], rsSince = 0\<rparr>, isPlanned = False, isNextID = 1\<rparr>"

theorem expire_deletes_only_expired_witness:
  "recOk (reRec exRetEnv) \<and> runSafe {} (isRun exRetState) \<and> tableOk (rsRows (isRun exRetState))
     \<and> holds (rsFS (reconciled (reRec exRetEnv) False (isRun exRetState))) ''before''
     \<and> expiredOnly exRetEnv 100 (rsFS (reconciled (reRec exRetEnv) False (isRun exRetState))) (rsRows (reconciled (reRec exRetEnv) False (isRun exRetState)))
        (rsFS (isRun (snd (runRetention exRetEnv False exRetState)))) (rsRows (isRun (snd (runRetention exRetEnv False exRetState))))
     \<and> map drID (rsRows (isRun (snd (runRetention exRetEnv False exRetState)))) = [2]
     \<and> map rrStatus (rsItems (isRun (snd (runRetention exRetEnv False exRetState)))) = [ItemDone, ItemHeld]
     \<and> nodeAt ''.bunkarr/retention/20240102-job3/m/a'' (rsFS (isRun (snd (runRetention exRetEnv False exRetState)))) = None"
proof -
  have r: "recOk (reRec exRetEnv)" by (simp add: exRetEnv_def recOk_exRecEnv)
  have "okPath ''m/a''" "okPath ''m/b''" by code_simp+
  then have s: "runSafe {} (isRun exRetState)"
    by (auto simp: runSafe_def exRetState_def fsOk_def rowsOk_def split: if_splits)
  have t: "tableOk (rsRows (isRun exRetState))" by code_simp
  have now: "\<forall>k. xvNow (reExec exRetEnv) k \<le> 100" by (simp add: exRetEnv_def reExec_def exRecEnv_def exRunEnv_def)
  have "\<not> tempPath ''.bunkarr/retention/20240102-job3/m/a''" by code_simp
  then have held: "holds (rsFS (isRun exRetState)) ''before''"
    unfolding holds_def by (intro exI [of _ "''.bunkarr/retention/20240102-job3/m/a''"] exI [of _ 0]) (simp add: exRetState_def)
  have run: "map drID (rsRows (isRun (snd (runRetention exRetEnv False exRetState)))) = [2]"
    "map rrStatus (rsItems (isRun (snd (runRetention exRetEnv False exRetState)))) = [ItemDone, ItemHeld]"
    "nodeAt ''.bunkarr/retention/20240102-job3/m/a'' (rsFS (isRun (snd (runRetention exRetEnv False exRetState)))) = None"
    by code_simp+
  show ?thesis using r s t run held expire_deletes_only_expired [OF r s t now, of "''before''" False] by blast
qed

end
