(* ===== verification/VerifyRun.thy ===== *)
theory VerifyRun
  imports JobItems
begin

text \<open>
  The verify job of a destination (internal/syncer/verify.go): every record that should have a file is
  checked for existence and size, a sample is read again and hashed; a file that is missing or damaged
  marks its record missing, so that the next sync copies it again.  Messages, progress and the counters
  of the result are left out.
\<close>

section \<open>The plan\<close>

record verEnv =
  veRec :: recEnv
  veSamplePercent :: int
  vePlanBatch :: nat

definition veExec :: "verEnv \<Rightarrow> execEnv" where
  "veExec r = rcExec (veRec r)"

definition checkStat :: string where "checkStat = ''stat''"
definition checkHash :: string where "checkHash = ''hash''"

definition DefaultSamplePercent :: int where
  "DefaultSamplePercent = 5"

definition hasFile :: "destRecord \<Rightarrow> bool" where
  "hasFile rec \<longleftrightarrow> drState rec = StatePresent \<or> drState rec = StateLinked"

definition sampleSize :: "verEnv \<Rightarrow> int \<Rightarrow> int" where
  "sampleSize r n =
     (case xvVerify (veExec r) of
        VerifyFull \<Rightarrow> n
      | VerifySample \<Rightarrow> (n * (if veSamplePercent r \<le> 0 then DefaultSamplePercent else veSamplePercent r) + 99) div 100
      | VerifyOff \<Rightarrow> 0)"

text \<open>The least recently verified first, those never verified before all.\<close>

definition verifySample :: "verEnv \<Rightarrow> recTable \<Rightarrow> ident list" where
  "verifySample r rows =
     (let recs = filter (\<lambda>x. drDestinationID x = xvDest (veExec r) \<and> hasFile x) rows;
          n = sampleSize r (int (length recs))
      in map drID (take (nat n)
           (sort_key (\<lambda>x. if drVerifiedAt x = None then 0 else 1 :: int)
             (sort_key (\<lambda>x. case drVerifiedAt x of Some t \<Rightarrow> t | None \<Rightarrow> 0) (sort_key drID recs)))))"

text \<open>\<open>statProblem\<close>: whether a record's file fails the cheap check.\<close>

definition statProblem :: "execEnv \<Rightarrow> destRecord \<Rightarrow> bool exec" where
  "statProblem v rec =
     bindX (lstatDest v (drRelPath rec))
       (\<lambda>st. ret (case st of None \<Rightarrow> True | Some x \<Rightarrow> \<not> stRegular x \<or> stSize x \<noteq> drSize rec))"

definition verifyDetail :: "destRecord \<Rightarrow> string \<Rightarrow> runRow" where
  "verifyDetail rec check = \<lparr>rrID = 0, rrAction = ActionVerify, rrRel = drRelPath rec, rrStatus = ItemPending,
     rrDetail = zeroExecDetail\<lparr>deSourceID := drSourceID rec, deSource := drSourceRelPath rec, deRecordID := drID rec,
       deSize := drSize rec, deMtimeNs := drMtimeNs rec, deCheck := check\<rparr>\<rparr>"

definition planned :: "ident list \<Rightarrow> destRecord \<Rightarrow> bool \<Rightarrow> runRow list" where
  "planned sample rec problem =
     (if problem then [verifyDetail rec checkStat] else if drID rec \<in> set sample then [verifyDetail rec checkHash] else [])"

fun planFiles ::
    "verEnv \<Rightarrow> ident list \<Rightarrow> destRecord list \<Rightarrow> runRow list \<Rightarrow> itemsState \<Rightarrow> (execErr + runRow list) \<times> itemsState" where
  "planFiles r sample [] batch s = (Inr batch, s)"
| "planFiles r sample (rec # recs) batch s =
     (if \<not> hasFile rec then planFiles r sample recs batch s
      else if xvCancelled (veExec r) (rsTick (isRun s)) then (Inl ErrFatal, s)
      else (case afterItem (veExec r) (isRun s) of
              (Inl e, s1) \<Rightarrow> (Inl e, s\<lparr>isRun := s1\<rparr>)
            | (Inr _, s1) \<Rightarrow>
                (case onRun (statProblem (veExec r) rec) s1 of
                   (Inl e, s2) \<Rightarrow> (Inl e, s\<lparr>isRun := s2\<rparr>)
                 | (Inr problem, s2) \<Rightarrow>
                     (let batch1 = batch @ planned sample rec problem
                      in if planned sample rec problem = [] \<or> length batch1 < vePlanBatch r
                         then planFiles r sample recs batch1 (s\<lparr>isRun := s2\<rparr>)
                         else (case AddItems (veExec r) batch1 False (s\<lparr>isRun := s2\<rparr>) of
                                 (Inl e, s3) \<Rightarrow> (Inl e, s3)
                               | (Inr _, s3) \<Rightarrow> planFiles r sample recs [] s3)))))"

definition planVerify :: "verEnv \<Rightarrow> itemsState \<Rightarrow> (execErr + unit) \<times> itemsState" where
  "planVerify r s =
     (case stepItems (veExec r) s of
        (Inl e, s1) \<Rightarrow> (Inl e, s1)
      | (Inr _, s1) \<Rightarrow>
          (let rows = rsRows (isRun s1);
               recs = sort_key drID (filter (\<lambda>x. drDestinationID x = xvDest (veExec r) \<and> isLive x) rows)
           in case planFiles r (verifySample r rows) recs [] (s1\<lparr>isRun := (isRun s1)\<lparr>rsSince := 0\<rparr>\<rparr>) of
                (Inl e, s2) \<Rightarrow> (Inl e, s2)
              | (Inr batch, s2) \<Rightarrow> AddItems (veExec r) batch True s2))"

section \<open>The check of a file\<close>

text \<open>No value: the file is missing, not regular, of another size, or of another content.\<close>

definition VerifyFile :: "execEnv \<Rightarrow> string \<Rightarrow> int \<Rightarrow> string \<Rightarrow> string option exec" where
  "VerifyFile v rel wantSize wantHash =
     bindX (require (checkRel rel) ErrOther)
       (\<lambda>_. bindX (faultPoint v)
       (\<lambda>_. bindX (gets (\<lambda>s. nodeAt rel (xsFS s)))
       (\<lambda>n. case n of
              None \<Rightarrow> ret None
            | Some x \<Rightarrow>
                if \<not> fnRegular x \<or> int (length (fnData x)) \<noteq> wantSize then ret None
                else bindX (faultPoint v)
                  (\<lambda>_. ret (if wantHash \<noteq> [] \<and> xvHash v (fnData x) \<noteq> wantHash then None else Some (xvHash v (fnData x)))))))"

definition itemError :: "execEnv \<Rightarrow> execErr \<Rightarrow> unit exec" where
  "itemError v e =
     bindX (gets (\<lambda>s. xvCancelled v (xsTick s)))
       (\<lambda>c. if c \<or> e = ErrFatal then throw ErrFatal else finishStatus v ItemFailed)"

text \<open>The primary of a damaged hardlink is marked too, when both names have the same content.\<close>

definition markSharedInode :: "execEnv \<Rightarrow> destRecord \<Rightarrow> unit exec" where
  "markSharedInode v rec =
     (if \<not> (drState rec = StateLinked \<or> drState rec = StateMissing) \<or> drLinkOf rec = 0 then ret ()
      else bindX (readRows v (getTx (drLinkOf rec)))
        (\<lambda>p. case p of
               None \<Rightarrow> ret ()
             | Some prim \<Rightarrow>
                 if drState prim \<noteq> StatePresent then ret ()
                 else bindX (tryX (lstatDest v (drRelPath rec)))
        (\<lambda>a. bindX (tryX (lstatDest v (drRelPath prim)))
        (\<lambda>b. case (a, b) of
               (Inr (Some x), Inr (Some y)) \<Rightarrow>
                 bindX (tryX (sameDestFile v (drRelPath rec) x (drRelPath prim) y))
                 (\<lambda>r. case r of
                        Inl e \<Rightarrow> bindX (gets (\<lambda>s. xvCancelled v (xsTick s))) (\<lambda>c. if c \<or> e = ErrFatal then throw ErrFatal else ret ())
                      | Inr same \<Rightarrow> if same then writeTx v (\<lambda>e. markMissing (drID prim)) else ret ())
             | _ \<Rightarrow> ret ()))))"

definition markDamaged :: "execEnv \<Rightarrow> destRecord \<Rightarrow> unit exec" where
  "markDamaged v rec =
     bindX (writeTx v (\<lambda>e. markMissing (drID rec)))
       (\<lambda>_. bindX (markSharedInode v rec) (\<lambda>_. bindX (crashPoint v) (\<lambda>_. finishStatus v ItemFailed)))"

definition verifyStat :: "execEnv \<Rightarrow> destRecord \<Rightarrow> unit exec" where
  "verifyStat v rec =
     bindX (tryX (statProblem v rec))
       (\<lambda>r. case r of
              Inl e \<Rightarrow> itemError v e
            | Inr problem \<Rightarrow> if problem then markDamaged v rec else finishStatus v ItemDone)"

definition verifyHash :: "execEnv \<Rightarrow> destRecord \<Rightarrow> unit exec" where
  "verifyHash v rec =
     bindX (tryX (VerifyFile v (drRelPath rec) (drSize rec) (drHash rec)))
       (\<lambda>r. case r of
              Inl e \<Rightarrow> itemError v e
            | Inr got \<Rightarrow>
                (case got of
                   None \<Rightarrow> markDamaged v rec
                 | Some h \<Rightarrow> bindX (writeTx v (\<lambda>e. setVerified (drID rec) h (txNow e))) (\<lambda>_. finishStatus v ItemDone)))"

definition verifyItem :: "execEnv \<Rightarrow> string \<Rightarrow> unit exec" where
  "verifyItem v itemRel =
     bindX (gets xsD)
       (\<lambda>d. bindX (readRows v (getTx (deRecordID d)))
       (\<lambda>rec0. case rec0 of
                 None \<Rightarrow> finishStatus v ItemSkipped
               | Some rec \<Rightarrow>
                   if drState rec = StateMissing then bindX (markSharedInode v rec) (\<lambda>_. finishStatus v ItemFailed)
                   else if \<not> hasFile rec \<or> drRelPath rec \<noteq> itemRel then finishStatus v ItemSkipped
                   else if deCheck d = checkStat then verifyStat v rec
                   else verifyHash v rec))"

definition executeVerify :: "verEnv \<Rightarrow> runState \<Rightarrow> (execErr + unit) \<times> runState" where
  "executeVerify r = executeItems (veExec r) ActionVerify (\<lambda>it _. verifyItem (veExec r) (rrRel it)) ()"

definition runVerify :: "verEnv \<Rightarrow> bool \<Rightarrow> itemsState \<Rightarrow> (execErr + nat) \<times> itemsState" where
  "runVerify r dryRun s = runJob (veRec r) dryRun (planVerify r) (executeVerify r) s"

section \<open>What a run may write\<close>

definition damaged :: "execEnv \<Rightarrow> destFS \<Rightarrow> destRecord \<Rightarrow> bool" where
  "damaged v fs x =
     (case nodeAt (drRelPath x) fs of
        None \<Rightarrow> True
      | Some n \<Rightarrow> \<not> fnRegular n \<or> int (length (fnData n)) \<noteq> drSize x \<or> drHash x \<noteq> [] \<and> xvHash v (fnData n) \<noteq> drHash x)"

definition intact :: "execEnv \<Rightarrow> destFS \<Rightarrow> destRecord \<Rightarrow> bool" where
  "intact v fs x =
     (case nodeAt (drRelPath x) fs of
        None \<Rightarrow> False
      | Some n \<Rightarrow> fnRegular n \<and> int (length (fnData n)) = drSize x \<and> xvHash v (fnData n) = drHash x)"

definition sameContent :: "destFS \<Rightarrow> string \<Rightarrow> string \<Rightarrow> bool" where
  "sameContent fs p q = (case (nodeAt p fs, nodeAt q fs) of (Some m, Some n) \<Rightarrow> fnData m = fnData n | _ \<Rightarrow> False)"

text \<open>A hardlink of the record with its content is damaged, or was found missing by an earlier attempt.\<close>

definition sharesDamage :: "execEnv \<Rightarrow> destFS \<Rightarrow> recTable \<Rightarrow> destRecord \<Rightarrow> bool" where
  "sharesDamage v fs rows x = list_ex (\<lambda>z. drLinkOf z = drID x \<and> (drState z = StateMissing \<or> damaged v fs z)
     \<and> sameContent fs (drRelPath z) (drRelPath x)) rows"

text \<open>A record before and after: marked missing only when it is damaged, with a new time of verification
  (and a first hash) only when its file is as recorded.\<close>

definition unverified :: "destRecord \<Rightarrow> destRecord" where
  "unverified x = x\<lparr>drState := StatePresent, drVerifiedAt := None, drHash := []\<rparr>"

definition verifiedRow :: "execEnv \<Rightarrow> destFS \<Rightarrow> recTable \<Rightarrow> destRecord \<Rightarrow> destRecord \<Rightarrow> bool" where
  "verifiedRow v fs rows x y \<longleftrightarrow> unverified y = unverified x
     \<and> (drState y = drState x
        \<or> drState y = StateMissing \<and> hasFile x \<and> (damaged v fs x \<or> sharesDamage v fs rows x))
     \<and> (drVerifiedAt y = drVerifiedAt x \<and> drHash y = drHash x
        \<or> intact v fs y \<and> (drHash x = [] \<or> drHash y = drHash x))"

definition verifiedOnly :: "execEnv \<Rightarrow> destFS \<Rightarrow> recTable \<Rightarrow> destFS \<Rightarrow> recTable \<Rightarrow> bool" where
  "verifiedOnly v fs rows fs1 rows1 \<longleftrightarrow> fs1 = fs \<and> list_all2 (verifiedRow v fs rows) rows rows1"

lemma verifiedRow_refl: "verifiedRow v fs rows x x"
  by (simp add: verifiedRow_def)

lemma unverified_fields:
  "drID (unverified x) = drID x" "drRelPath (unverified x) = drRelPath x" "drSize (unverified x) = drSize x" "drLinkOf (unverified x) = drLinkOf x"
  by (simp_all add: unverified_def)

lemma unverified_writes [simp]:
  "unverified (x\<lparr>drState := st\<rparr>) = unverified x" "unverified (x\<lparr>drVerifiedAt := t, drHash := h\<rparr>) = unverified x"
  by (simp_all add: unverified_def)

lemma verifiedRow_fields:
  assumes "verifiedRow v fs rows x y"
  shows "drID y = drID x" "drRelPath y = drRelPath x" "drSize y = drSize x" "drLinkOf y = drLinkOf x"
  using assms unverified_fields unfolding verifiedRow_def by metis+

text \<open>A record that was checked in the run and is damaged was so before: the files do not change.\<close>

lemma damaged_before:
  assumes "verifiedRow v fs rows x y" "damaged v fs y"
  shows "damaged v fs x"
proof -
  have "\<not> intact v fs y" using assms(2) by (auto simp: damaged_def intact_def split: option.splits)
  then have "drHash y = drHash x" using assms(1) by (simp add: verifiedRow_def)
  with assms(2) show ?thesis unfolding damaged_def verifiedRow_fields [OF assms(1)] by (simp split: option.splits)
qed

definition verInv :: "execEnv \<Rightarrow> destFS \<Rightarrow> recTable \<Rightarrow> destFS \<Rightarrow> recTable \<Rightarrow> bool" where
  "verInv v fs rows fs1 rows1 \<longleftrightarrow> envOk v \<and> rowsOk rows \<and> tableOk rows \<and> verifiedOnly v fs rows fs1 rows1"

lemma verInv_row:
  assumes "verInv v fs rows fs1 rows1" "y \<in> set rows1"
  obtains x where "x \<in> set rows" "verifiedRow v fs rows x y"
proof -
  have "list_all2 (verifiedRow v fs rows) rows rows1" using assms(1) by (simp add: verInv_def verifiedOnly_def)
  with assms(2) show thesis by (metis that in_set_conv_nth list_all2_conv_all_nth)
qed

lemma verInv_map:
  assumes "verInv v fs rows fs1 rows1"
    "\<And>x y. x \<in> set rows \<Longrightarrow> y \<in> set rows1 \<Longrightarrow> verifiedRow v fs rows x y \<Longrightarrow> verifiedRow v fs rows x (f y)"
  shows "verInv v fs rows fs1 (map f rows1)"
  using assms unfolding verInv_def verifiedOnly_def list.rel_map(2) by (auto elim: list.rel_mono_strong)

lemma verInv_markMissing:
  assumes J: "verInv v fs rows fs1 rows1" and x0: "x0 \<in> set rows" "damaged v fs x0 \<or> sharesDamage v fs rows x0"
    and t: "markMissing (drID x0) rows1 = Inr t"
  shows "verInv v fs rows fs1 t"
  unfolding updateRows_Inr [OF t [unfolded markMissing_def]]
proof (rule verInv_map [OF J])
  fix x y assume x: "x \<in> set rows" and r: "verifiedRow v fs rows x y"
  have ok: "tableOk rows" using J by (simp add: verInv_def)
  show "verifiedRow v fs rows x (if drID y = drID x0 \<and> drState y \<in> {StatePresent, StateLinked} then y\<lparr>drState := StateMissing\<rparr> else y)"
  proof (cases "drID y = drID x0 \<and> drState y \<in> {StatePresent, StateLinked}")
    case True
    then have "x = x0" using rec_unique [OF ok x x0(1)] verifiedRow_fields(1) [OF r] by simp
    moreover have "hasFile x" using r True by (auto simp: verifiedRow_def hasFile_def)
    moreover have "intact v fs (y\<lparr>drState := StateMissing\<rparr>) = intact v fs y" by (simp add: intact_def split: option.split)
    ultimately show ?thesis using r True x0(2) by (auto simp: verifiedRow_def)
  qed (use r in auto)
qed

lemma verInv_setVerified:
  assumes J: "verInv v fs rows fs1 rows1" and x0: "x0 \<in> set rows"
    and n: "nodeAt (drRelPath x0) fs = Some n" "fnRegular n" "int (length (fnData n)) = drSize x0"
    and h: "drHash x0 = [] \<or> xvHash v (fnData n) = drHash x0"
    and t: "setVerified (drID x0) (xvHash v (fnData n)) now rows1 = Inr t"
  shows "verInv v fs rows fs1 t"
  unfolding updateRows_Inr [OF t [unfolded setVerified_def]]
proof (rule verInv_map [OF J])
  fix x y assume x: "x \<in> set rows" and r: "verifiedRow v fs rows x y"
  let ?f = "\<lambda>y. y\<lparr>drVerifiedAt := Some now, drHash := (if drHash y = [] then xvHash v (fnData n) else drHash y)\<rparr>"
  have ok: "tableOk rows" using J by (simp add: verInv_def)
  show "verifiedRow v fs rows x (if drID y = drID x0 then ?f y else y)"
  proof (cases "drID y = drID x0")
    case True
    then have "x = x0" using rec_unique [OF ok x x0] verifiedRow_fields(1) [OF r] by simp
    note y = verifiedRow_fields [OF r [unfolded \<open>x = x0\<close>]]
    have "drHash y = drHash x0 \<or> xvHash v (fnData n) = drHash y"
      using r n y by (auto simp: \<open>x = x0\<close> verifiedRow_def intact_def)
    then have "intact v fs (?f y)" using n h y by (auto simp: intact_def)
    then show ?thesis using r True by (auto simp: verifiedRow_def)
  qed (use r in auto)
qed

section \<open>The checks of a file\<close>

definition statAt :: "destFS \<Rightarrow> string \<Rightarrow> fullStat option \<Rightarrow> bool" where
  "statAt fs p st = (case st of None \<Rightarrow> nodeAt p fs = None | Some x \<Rightarrow> \<exists>k i. dfNames fs p = Some i \<and> x = statOf k i (dfNodes fs i))"

lemma verInv_FS: "verInv v fs rows fs1 rows1 \<Longrightarrow> fs1 = fs"
  by (simp add: verInv_def verifiedOnly_def)

lemma gives_lstat:
  assumes "p \<noteq> []"
  shows "gives (\<lambda>s. verInv w fs rows (xsFS s) (xsRows s)) (lstatDest v p) (statAt fs p)"
proof -
  have "gives (\<lambda>s. verInv w fs rows (xsFS s) (xsRows s))
      (gets (\<lambda>s. map_option (\<lambda>i. statOf (xvNlink v (xsTick s)) i (dfNodes (xsFS s) i)) (dfNames (xsFS s) p))) (statAt fs p)"
    by (rule gives_gets) (auto dest!: verInv_FS simp: statAt_def nodeAt_def split: option.split)
  then show ?thesis using assms unfolding lstatDest_def
    by (auto intro!: gives_bind keeps_require fr.keeps_faultPoint)
qed

lemma gives_HashFile:
  "gives (\<lambda>s. verInv w fs rows (xsFS s) (xsRows s)) (HashFile v p) (\<lambda>h. \<exists>n. nodeAt p fs = Some n \<and> h = xvHash v (fnData n))"
proof -
  let ?I = "\<lambda>s. verInv w fs rows (xsFS s) (xsRows s)"
  have "gives ?I (bindX (requireRegular p) (\<lambda>_. gets (\<lambda>s. case nodeAt p (xsFS s) of Some n \<Rightarrow> xvHash v (fnData n) | None \<Rightarrow> [])))
      (\<lambda>h. \<exists>n. nodeAt p fs = Some n \<and> h = xvHash v (fnData n))"
    unfolding gives_def requireRegular_def bindX_def gets_def require_def ret_def throw_def
    by (auto dest!: verInv_FS split: option.splits if_splits)
  then show ?thesis unfolding HashFile_def by (rule gives_bind [OF keeps_require gives_bind [OF fr.keeps_faultPoint]])
qed

lemma gives_bind_gives:
  "keeps I m \<Longrightarrow> gives I m R \<Longrightarrow> (\<And>x. R x \<Longrightarrow> gives I (f x) Q) \<Longrightarrow> gives I (bindX m f) Q"
  unfolding gives_def keeps_def bindX_def by (auto split: prod.splits sum.splits) (metis snd_conv)

lemma gives_ret: "R x \<Longrightarrow> gives I (ret x) R"
  by (simp add: gives_def ret_def)

lemma gives_sameDestFile:
  assumes "envOk v" "statAt fs p (Some a)" "statAt fs q (Some b)"
  shows "gives (\<lambda>s. verInv w fs rows (xsFS s) (xsRows s)) (sameDestFile v p a q b) (\<lambda>same. same \<longrightarrow> sameContent fs p q)"
proof -
  let ?I = "\<lambda>s. verInv w fs rows (xsFS s) (xsRows s)"
  have inj: "xvHash v x = xvHash v y \<Longrightarrow> x = y" for x y using assms(1) by (simp add: envOk_def inj_eq)
  have id: "sameFile a b \<longrightarrow> sameContent fs p q" using assms(2,3) by (auto simp: statAt_def sameFile_def statOf_def sameContent_def nodeAt_def)
  have hash: "gives ?I (bindX (HashFile v p) (\<lambda>ha. bindX (HashFile v q) (\<lambda>hb. ret (ha = hb)))) (\<lambda>same. same \<longrightarrow> sameContent fs p q)"
    by (rule gives_bind_gives [OF fr.keeps_HashFile gives_HashFile], rule gives_bind_gives [OF fr.keeps_HashFile gives_HashFile], rule gives_ret)
      (auto simp: sameContent_def dest: inj)
  show ?thesis unfolding sameDestFile_def
    by (rule gives_bind [OF fr.keeps_faultPoint]) (auto intro!: gives_ret hash id [rule_format])
qed

lemma gives_tryX: "gives I m R \<Longrightarrow> gives I (tryX m) (\<lambda>r. case r of Inr x \<Rightarrow> R x | Inl _ \<Rightarrow> True)"
  unfolding gives_def tryX_def by (auto split: prod.splits sum.splits execErr.splits)

section \<open>One item\<close>

lemma verInv_path: "verInv v fs rows fs1 rows1 \<Longrightarrow> x \<in> set rows \<Longrightarrow> drRelPath x \<noteq> []"
  by (auto simp: verInv_def dest!: rowsOk_row) (simp add: okPath_def goodName_def)

text \<open>A hardlink that is found missing is damaged, or was missing before the run.\<close>

lemma missing_link:
  assumes "verInv v fs rows fs1 rows1" "z \<in> set rows" "verifiedRow v fs rows z y" "drState y = StateMissing" "drLinkOf z \<noteq> 0"
  shows "drState z = StateMissing \<or> damaged v fs z"
proof (rule ccontr)
  assume not: "\<not> (drState z = StateMissing \<or> damaged v fs z)"
  then have "sharesDamage v fs rows z" using assms(3,4) by (auto simp: verifiedRow_def)
  then obtain u where u: "u \<in> set rows" "drLinkOf u = drID z" by (auto simp: sharesDamage_def list_ex_iff)
  have ok: "tableOk rows" using assms(1) by (simp add: verInv_def)
  have "drID z \<noteq> 0" using ok assms(2) by (auto simp: tableOk_def list_all_iff)
  then obtain p where "p \<in> set rows" "drID p = drID z" "holder p" using tableOk_row [OF ok u(1)] u(2) by (auto simp: linkOk_def)
  with rec_unique [OF ok _ assms(2)] assms(5) show False by (auto simp: holder_def)
qed

definition rowOf :: "execEnv \<Rightarrow> destFS \<Rightarrow> recTable \<Rightarrow> destRecord \<Rightarrow> destRecord \<Rightarrow> bool" where
  "rowOf v fs rows x y \<longleftrightarrow> envOk v \<and> x \<in> set rows \<and> drRelPath x \<noteq> [] \<and> verifiedRow v fs rows x y
     \<and> (drState y = StateMissing \<longrightarrow> drLinkOf x \<noteq> 0 \<longrightarrow> drState x = StateMissing \<or> damaged v fs x)"

lemma gives_row:
  "gives (\<lambda>s. verInv v fs rows (xsFS s) (xsRows s)) (readRows w (getTx i))
     (\<lambda>r. case r of None \<Rightarrow> True | Some y \<Rightarrow> drID y = i \<and> (\<exists>x. rowOf v fs rows x y))"
proof (rule gives_read)
  fix fs1 rows1 assume J: "verInv v fs rows fs1 rows1"
  have "drID y = i \<and> (\<exists>x. rowOf v fs rows x y)" if "getTx i rows1 = Some y" for y
  proof -
    have y: "y \<in> set rows1" "drID y = i" using that unfolding getTx_def by (auto dest: find_memD)
    obtain x where "x \<in> set rows" "verifiedRow v fs rows x y" using verInv_row [OF J y(1)] .
    then show ?thesis using y(2) J missing_link [OF J] verInv_path [OF J] by (auto simp: rowOf_def verInv_def)
  qed
  then show "case getTx i rows1 of None \<Rightarrow> True | Some y \<Rightarrow> drID y = i \<and> (\<exists>x. rowOf v fs rows x y)" by (auto split: option.split)
qed

lemma keeps_markMissing:
  assumes "x \<in> set rows" "damaged v fs x \<or> sharesDamage v fs rows x" "drID y = drID x"
  shows "keeps (\<lambda>s. verInv v fs rows (xsFS s) (xsRows s)) (writeTx w (\<lambda>e. markMissing (drID y)))"
  by (rule fr.keeps_writeTx) (auto simp: assms(3) intro: verInv_markMissing [OF _ assms(1,2)])

lemma keeps_markSharedInode:
  assumes z: "rowOf v fs rows z rec" and bad: "drState rec = StateLinked \<Longrightarrow> damaged v fs z"
  shows "keeps (\<lambda>s. verInv v fs rows (xsFS s) (xsRows s)) (markSharedInode v rec)"
proof -
  let ?I = "\<lambda>s. verInv v fs rows (xsFS s) (xsRows s)"
  have zr: "verifiedRow v fs rows z rec" "z \<in> set rows" "envOk v" "drRelPath z \<noteq> []" using z by (simp_all add: rowOf_def)
  have rec: "drRelPath rec = drRelPath z" "drLinkOf rec = drLinkOf z" using verifiedRow_fields [OF zr(1)] by simp_all
  have mark: "keeps ?I (writeTx v (\<lambda>e. markMissing (drID prim)))"
    if "drState rec = StateLinked \<or> drState rec = StateMissing" "drLinkOf rec \<noteq> 0"
      "rowOf v fs rows x prim" "drID prim = drLinkOf rec" "sameContent fs (drRelPath rec) (drRelPath prim)" for x prim
  proof (rule keeps_markMissing)
    have xr: "verifiedRow v fs rows x prim" "x \<in> set rows" using that(3) by (simp_all add: rowOf_def)
    then show "x \<in> set rows" "drID prim = drID x" using verifiedRow_fields by auto
    have "drState z = StateMissing \<or> damaged v fs z" using that(1,2) z bad rec by (auto simp: rowOf_def)
    then show "damaged v fs x \<or> sharesDamage v fs rows x"
      using zr(2) that(4,5) rec verifiedRow_fields [OF xr(1)] by (auto simp: sharesDamage_def list_ex_iff)
  qed
  have same: "keeps ?I (bindX (tryX (sameDestFile v (drRelPath rec) a (drRelPath prim) b))
      (\<lambda>r. case r of
             Inl e \<Rightarrow> bindX (gets (\<lambda>s. xvCancelled v (xsTick s))) (\<lambda>c. if c \<or> e = ErrFatal then throw ErrFatal else ret ())
           | Inr same \<Rightarrow> if same then writeTx v (\<lambda>e. markMissing (drID prim)) else ret ()))"
    if "drState rec = StateLinked \<or> drState rec = StateMissing" "drLinkOf rec \<noteq> 0"
      "rowOf v fs rows x prim" "drID prim = drLinkOf rec" "statAt fs (drRelPath rec) (Some a)" "statAt fs (drRelPath prim) (Some b)" for x prim a b
    by (rule keeps_bind_gives [OF keeps_tryX [OF fr.keeps_sameDestFile] gives_tryX [OF gives_sameDestFile [OF zr(3) that(5,6)]]])
      (auto intro!: keeps_sum keeps_bind keeps_basic mark [OF that(1-4)])
  show ?thesis
    unfolding markSharedInode_def
    apply (rule keeps_if, rule keeps_ret)
    apply (rule keeps_bind_gives [OF fr.keeps_readRows gives_row])
    apply (rule keeps_option, rule keeps_ret, rule keeps_if, rule keeps_ret)
    apply (rule keeps_bind_gives [OF keeps_tryX [OF fr.keeps_lstatDest] gives_tryX [OF gives_lstat]], simp add: rec zr)
    subgoal premises p for r prim a
      apply (rule keeps_bind_gives [OF keeps_tryX [OF fr.keeps_lstatDest] gives_tryX [OF gives_lstat]])
      using p by (auto simp: rowOf_def verifiedRow_fields intro!: keeps_ret same split: sum.split option.split)
    done
qed

lemma keeps_markDamaged:
  assumes "rowOf v fs rows x rec" "damaged v fs rec"
  shows "keeps (\<lambda>s. verInv v fs rows (xsFS s) (xsRows s)) (markDamaged v rec)"
proof -
  have x: "x \<in> set rows" "verifiedRow v fs rows x rec" using assms(1) by (simp_all add: rowOf_def)
  have "damaged v fs x" by (rule damaged_before [OF x(2) assms(2)])
  then show ?thesis
    unfolding markDamaged_def using x(1) verifiedRow_fields(1) [OF x(2)]
    by (intro keeps_bind keeps_markMissing [of x] keeps_markSharedInode [OF assms(1)] keeps_crashPoint keeps_finishStatus) simp_all
qed

lemma keeps_itemError: "keeps (\<lambda>s. J (xsFS s) (xsRows s)) (itemError v e)"
  unfolding itemError_def by (intro keeps_bind keeps_basic keeps_finishStatus)

lemma keeps_verifyStat:
  assumes "rowOf v fs rows x rec"
  shows "keeps (\<lambda>s. verInv v fs rows (xsFS s) (xsRows s)) (verifyStat v rec)"
proof -
  let ?I = "\<lambda>s. verInv v fs rows (xsFS s) (xsRows s)"
  have "drRelPath rec \<noteq> []" using assms verifiedRow_fields(2) by (auto simp: rowOf_def)
  then have stat: "gives ?I (statProblem v rec) (\<lambda>problem. problem \<longrightarrow> damaged v fs rec)"
    unfolding statProblem_def
    by (intro gives_bind_gives [OF fr.keeps_lstatDest gives_lstat] gives_ret)
      (auto simp: damaged_def statAt_def statOf_def nodeAt_def split: option.splits)
  have reads: "keeps ?I (statProblem v rec)" unfolding statProblem_def by (intro keeps_bind keeps_basic fr.reads)
  show ?thesis
    unfolding verifyStat_def
    by (rule keeps_bind_gives [OF keeps_tryX [OF reads] gives_tryX [OF stat]])
      (auto intro!: keeps_sum keeps_itemError keeps_if keeps_markDamaged [OF assms] keeps_finishStatus)
qed

lemma gives_VerifyFile:
  "gives (\<lambda>s. verInv w fs rows (xsFS s) (xsRows s)) (VerifyFile v (drRelPath rec) (drSize rec) (drHash rec))
     (\<lambda>got. case got of
              None \<Rightarrow> damaged v fs rec
            | Some h \<Rightarrow> \<exists>n. nodeAt (drRelPath rec) fs = Some n \<and> fnRegular n \<and> int (length (fnData n)) = drSize rec
                \<and> h = xvHash v (fnData n) \<and> (drHash rec = [] \<or> h = drHash rec))"
  unfolding VerifyFile_def
proof (rule gives_bind [OF keeps_require gives_bind [OF fr.keeps_faultPoint]],
    rule gives_bind_gives [OF keeps_gets gives_gets [where R = "\<lambda>n. n = nodeAt (drRelPath rec) fs"]])
  show "verInv w fs rows (xsFS s) (xsRows s) \<Longrightarrow> nodeAt (drRelPath rec) (xsFS s) = nodeAt (drRelPath rec) fs" for s
    by (auto dest: verInv_FS)
qed (auto simp: damaged_def intro!: gives_ret gives_bind [OF fr.keeps_faultPoint] split: option.split)

lemma keeps_VerifyFile: "keeps (\<lambda>s. J (xsFS s) (xsRows s)) (VerifyFile v p sz h)"
  unfolding VerifyFile_def by (intro keeps_bind keeps_basic fr.reads)

lemma keeps_verifyHash:
  assumes row: "rowOf v fs rows x rec"
  shows "keeps (\<lambda>s. verInv v fs rows (xsFS s) (xsRows s)) (verifyHash v rec)"
proof -
  let ?I = "\<lambda>s. verInv v fs rows (xsFS s) (xsRows s)"
  have x: "x \<in> set rows" "verifiedRow v fs rows x rec" using row by (simp_all add: rowOf_def)
  note f = verifiedRow_fields [OF x(2)]
  have ver: "keeps ?I (writeTx v (\<lambda>e. setVerified (drID rec) (xvHash v (fnData n)) (txNow e)))"
    if n: "nodeAt (drRelPath rec) fs = Some n" "fnRegular n" "int (length (fnData n)) = drSize rec"
      "drHash rec = [] \<or> xvHash v (fnData n) = drHash rec" for n
  proof (rule fr.keeps_writeTx)
    fix s e t assume J: "?I s" and t: "setVerified (drID rec) (xvHash v (fnData n)) (txNow e) (xsRows s) = Inr t"
    have "drHash x = [] \<or> xvHash v (fnData n) = drHash x" using x(2) n(4) by (auto simp: verifiedRow_def)
    then show "verInv v fs rows (xsFS (s\<lparr>xsRows := t\<rparr>)) (xsRows (s\<lparr>xsRows := t\<rparr>))"
      using verInv_setVerified [OF J x(1)] n t f by simp
  qed
  show ?thesis
    unfolding verifyHash_def
    by (rule keeps_bind_gives [OF keeps_tryX [OF keeps_VerifyFile] gives_tryX [OF gives_VerifyFile]])
      (auto intro!: keeps_sum keeps_itemError keeps_option keeps_bind keeps_markDamaged [OF row] ver keeps_finishStatus)
qed

lemma keeps_verifyItem: "keeps (\<lambda>s. verInv v fs rows (xsFS s) (xsRows s)) (verifyItem v itemRel)"
proof -
  let ?I = "\<lambda>s. verInv v fs rows (xsFS s) (xsRows s)"
  have "keeps ?I (markSharedInode v rec)" if "rowOf v fs rows x rec" "drState rec = StateMissing" for x rec
    using that by (intro keeps_markSharedInode) auto
  then show ?thesis
    unfolding verifyItem_def
    by (intro keeps_bind keeps_gets keeps_bind_gives [OF fr.keeps_readRows gives_row])
      (auto intro!: keeps_option keeps_if keeps_bind keeps_finishStatus intro: keeps_verifyStat keeps_verifyHash)
qed

section \<open>The whole run\<close>

interpretation ve: item_program "\<lambda>it _. verifyItem v (rrRel it)" "verInv v fs rows" "\<lambda>_. True" for v fs rows
  by unfold_locales (simp add: keeps_verifyItem flip: keeps_triple)

lemma onRun_same:
  assumes "keeps (\<lambda>s. xsFS s = rsFS u \<and> xsRows s = rsRows u) m" "onRun m u = (x, t)"
  shows "rsFS t = rsFS u" "rsRows t = rsRows u"
proof -
  obtain y :: execState where "xsFS y = rsFS u \<and> xsRows y = rsRows u" "rsFS (snd (onRun m u)) = xsFS y" "rsRows (snd (onRun m u)) = xsRows y"
    by (rule onRun_keeps [OF assms(1), of u]) auto
  with assms(2) show "rsFS t = rsFS u" "rsRows t = rsRows u" by simp_all
qed

lemma planFiles_same: "planFiles r sample recs batch s = (x, t) \<Longrightarrow> sameDest s t"
proof (induction recs arbitrary: batch s)
  case (Cons rec recs)
  obtain a s1 where a: "afterItem (veExec r) (isRun s) = (a, s1)" by (cases "afterItem (veExec r) (isRun s)")
  have s1: "rsFS s1 = rsFS (isRun s)" "rsRows s1 = rsRows (isRun s)" using afterItem_frame [of "veExec r" "isRun s"] unfolding a by simp_all
  obtain b s2 where b: "onRun (statProblem (veExec r) rec) s1 = (b, s2)" by (cases "onRun (statProblem (veExec r) rec) s1")
  have "keeps (\<lambda>s. xsFS s = rsFS s1 \<and> xsRows s = rsRows s1) (statProblem (veExec r) rec)"
    unfolding statProblem_def by (intro keeps_bind keeps_basic fr.keeps_lstatDest [where J = "\<lambda>fs rows. fs = rsFS s1 \<and> rows = rsRows s1"])
  then have s2: "sameDest s (s\<lparr>isRun := s2\<rparr>)" using onRun_same [OF _ b] s1 by (simp add: sameDest_def)
  have step: "sameDest s t" if "planFiles r sample recs c u = (x, t)" "sameDest s u" for c u
    using sameDest_trans [OF that(2) Cons(1) [OF that(1)]] .
  have add: "sameDest s s3" if "AddItems (veExec r) items False (s\<lparr>isRun := s2\<rparr>) = (y, s3)" for items y s3
    using sameDest_trans [OF s2 AddItems_same [of _ "veExec r" items False]] unfolding that by simp
  have s1': "sameDest s (s\<lparr>isRun := s1\<rparr>)" using s1 by (simp add: sameDest_def)
  show ?case using Cons(2) a b s1' s2
    by (auto simp: Let_def split: if_splits sum.splits prod.splits intro: Cons(1) step add) (auto simp: sameDest_def)
qed (simp add: sameDest_def)

lemma planVerify_same: "sameDest s (snd (planVerify r s))"
proof -
  obtain x s1 where p: "stepItems (veExec r) s = (x, s1)" by (cases "stepItems (veExec r) s")
  have s1: "sameDest s s1" using stepItems_same [of s "veExec r"] unfolding p by simp
  have files: "sameDest s t" if "planFiles r sample recs [] (s1\<lparr>isRun := (isRun s1)\<lparr>rsSince := 0\<rparr>\<rparr>) = (y, t)" for sample recs y t
    using planFiles_same [OF that] s1 by (simp add: sameDest_def)
  show ?thesis unfolding planVerify_def p Let_def
    by (auto simp: s1 split: sum.split prod.split intro: files sameDest_trans [OF files AddItems_same])
qed

section \<open>The property\<close>

text \<open>C7: A verify job of a destination, whatever faults or crash it meets, loses nothing: every content
  that was at the destination under a name that is no temp name is there under such a name after the job,
  with the reconciliation that it starts with (which may put back what a stopped sync moved away, and
  removes temp files).  From the reconciled state on it changes no file, and of the records only what it
  checked: a record becomes missing only when its file is missing, not regular, of another size or of
  another content than recorded, or when a hardlink with the same content is; and a record is verified
  (and gets its first hash) only when its file has the recorded size and the hash the record then says.\<close>

theorem verify_marks_only_damaged:
  assumes "recOk (veRec r)" "runSafe {} (isRun s)" "tableOk (rsRows (isRun s))"
  shows "(holds (rsFS (isRun s)) c \<longrightarrow> holds (rsFS (isRun (snd (runVerify r dryRun s)))) c)
    \<and> verifiedOnly (veExec r) (rsFS (reconciled (veRec r) dryRun (isRun s))) (rsRows (reconciled (veRec r) dryRun (isRun s)))
        (rsFS (isRun (snd (runVerify r dryRun s)))) (rsRows (isRun (snd (runVerify r dryRun s))))"
proof -
  let ?s1 = "reconciled (veRec r) dryRun (isRun s)"
  let ?J = "verInv (veExec r) (rsFS ?s1) (rsRows ?s1)"
  have start: "?J (rsFS ?s1) (rsRows ?s1)"
    using reconciled_keeps(1,3) [OF assms] assms(1)
    by (auto simp: verInv_def verifiedOnly_def recOk_def veExec_def verifiedRow_refl list_all2_refl intro: list.rel_refl)
  have exec: "?J (rsFS (snd (executeVerify r u))) (rsRows (snd (executeVerify r u)))" if "rsFS u = rsFS ?s1" "rsRows u = rsRows ?s1" for u
    unfolding executeVerify_def by (rule ve.executeItems_keeps) (use start that in simp_all)
  have "?J (rsFS (isRun (snd (runVerify r dryRun s)))) (rsRows (isRun (snd (runVerify r dryRun s))))"
    unfolding runVerify_def by (rule runJob_parts) (use start exec planVerify_same in \<open>auto simp: reconciled_def\<close>)
  then show ?thesis using reconciled_keeps(2) [OF assms] by (simp add: verInv_def verifiedOnly_def)
qed

definition exVerEnv :: verEnv where
  "exVerEnv = \<lparr>veRec = exRecEnv, veSamplePercent = 100, vePlanBatch = 1\<rparr>"

text \<open>Three recorded files: one is as recorded and gets its first hash, one has another content, one is gone.\<close>

definition exVerState :: itemsState where
  "exVerState = \<lparr>isRun = \<lparr>rsTick = 0, rsFS = \<lparr>dfNames = (\<lambda>p. if p = ''m/a'' then Some 0 else if p = ''m/b'' then Some 1 else None),
       dfNodes = (\<lambda>i. \<lparr>fnRegular = True, fnMtimeNs = 5, fnData = (if i = 0 then ''good'' else ''rots'')\<rparr>), dfNext = 2\<rparr>,
     rsRows = [zeroRecord\<lparr>drID := 1, drDestinationID := 1, drSourceID := 1, drRelPath := ''m/a'', drSourceRelPath := ''a'', drSize := 4\<rparr>,
       zeroRecord\<lparr>drID := 2, drDestinationID := 1, drSourceID := 1, drRelPath := ''m/b'', drSourceRelPath := ''b'', drSize := 4, drHash := ''copy''\<rparr>,
       zeroRecord\<lparr>drID := 3, drDestinationID := 1, drSourceID := 1, drRelPath := ''m/c'', drSourceRelPath := ''c'', drSize := 4\<rparr>],
     rsItems = [], rsSince = 0\<rparr>, isPlanned = False, isNextID = 1\<rparr>"

theorem verify_marks_only_damaged_witness:
  "recOk (veRec exVerEnv) \<and> runSafe {} (isRun exVerState) \<and> tableOk (rsRows (isRun exVerState))
     \<and> holds (rsFS (isRun (snd (runVerify exVerEnv False exVerState)))) ''rots''
     \<and> verifiedOnly (veExec exVerEnv) (rsFS (reconciled (veRec exVerEnv) False (isRun exVerState)))
        (rsRows (reconciled (veRec exVerEnv) False (isRun exVerState)))
        (rsFS (isRun (snd (runVerify exVerEnv False exVerState)))) (rsRows (isRun (snd (runVerify exVerEnv False exVerState))))
     \<and> map (\<lambda>x. (drState x, drHash x)) (rsRows (isRun (snd (runVerify exVerEnv False exVerState))))
        = [(StatePresent, ''good''), (StateMissing, ''copy''), (StateMissing, [])]
     \<and> map rrStatus (rsItems (isRun (snd (runVerify exVerEnv False exVerState)))) = [ItemDone, ItemFailed, ItemFailed]"
proof -
  have r: "recOk (veRec exVerEnv)" by (simp add: exVerEnv_def recOk_exRecEnv)
  have "okPath ''m/a''" "okPath ''m/b''" "okPath ''m/c''" by code_simp+
  then have s: "runSafe {} (isRun exVerState)"
    by (auto simp: runSafe_def exVerState_def fsOk_def rowsOk_def split: if_splits)
  have t: "tableOk (rsRows (isRun exVerState))" by code_simp
  have run: "map (\<lambda>x. (drState x, drHash x)) (rsRows (isRun (snd (runVerify exVerEnv False exVerState))))
      = [(StatePresent, ''good''), (StateMissing, ''copy''), (StateMissing, [])]"
    "map rrStatus (rsItems (isRun (snd (runVerify exVerEnv False exVerState)))) = [ItemDone, ItemFailed, ItemFailed]"
    by code_simp+
  have "\<not> tempPath ''m/b''" by code_simp
  then have held: "holds (rsFS (isRun exVerState)) ''rots''"
    unfolding holds_def by (intro exI [of _ "''m/b''"] exI [of _ 1]) (simp add: exVerState_def)
  show ?thesis using r s t run held verify_marks_only_damaged [OF r s t, of "''rots''" False] by blast
qed

end
