(* ===== verification/VerifyComplete.thy ===== *)
theory VerifyComplete
  imports VerifyRun
begin

text \<open>
  A full verification that finds nothing to complain of has read every recorded file: the plan has an
  item for every record that should have a file, an item is done only when its file is as recorded, and
  no later item undoes that.
\<close>

section \<open>Items that are done\<close>

definition statOk :: "destFS \<Rightarrow> destRecord \<Rightarrow> bool" where
  "statOk fs x = (case nodeAt (drRelPath x) fs of None \<Rightarrow> False | Some n \<Rightarrow> fnRegular n \<and> int (length (fnData n)) = drSize x)"

definition doneOk :: "execEnv \<Rightarrow> destFS \<Rightarrow> recTable \<Rightarrow> execDetail \<Rightarrow> bool" where
  "doneOk v fs rows d =
     list_ex (\<lambda>y. drID y = deRecordID d \<and> (if deCheck d = checkStat then statOk fs y else intact v fs y)) rows"

lemma verInv_rowAt:
  assumes "verInv v fs rows fs1 rows1" "x \<in> set rows"
  obtains y where "y \<in> set rows1" "verifiedRow v fs rows x y"
proof -
  have "list_all2 (verifiedRow v fs rows) rows rows1" using assms(1) by (simp add: verInv_def verifiedOnly_def)
  with assms(2) show thesis by (metis that in_set_conv_nth list_all2_conv_all_nth)
qed

lemma statOk_row: "verifiedRow v fs rows x y \<Longrightarrow> statOk fs y = statOk fs x"
  by (simp add: statOk_def verifiedRow_fields split: option.split)

lemma intact_row:
  assumes "verifiedRow v fs rows x y" "intact v fs x"
  shows "intact v fs y"
proof (cases "drHash y = drHash x")
  case True
  with assms(2) show ?thesis unfolding intact_def verifiedRow_fields [OF assms(1)] by (simp split: option.splits)
qed (use assms(1) in \<open>simp add: verifiedRow_def\<close>)

lemma doneOk_later:
  assumes J: "verInv v fs rows fs1 rows1" and "doneOk v fs rows d"
  shows "doneOk v fs rows1 d"
proof -
  obtain x where x: "x \<in> set rows" "drID x = deRecordID d" "if deCheck d = checkStat then statOk fs x else intact v fs x"
    using assms(2) by (auto simp: doneOk_def list_ex_iff)
  obtain y where y: "y \<in> set rows1" "verifiedRow v fs rows x y" using verInv_rowAt [OF J x(1)] .
  then have "drID y = deRecordID d" "if deCheck d = checkStat then statOk fs y else intact v fs y"
    using x verifiedRow_fields(1) [OF y(2)] statOk_row [OF y(2)] intact_row [OF y(2)] by auto
  with y(1) show ?thesis by (auto simp: doneOk_def list_ex_iff)
qed

lemma triple_finishStatus:
  "triple (\<lambda>s. J (xsFS s) (xsRows s)) (\<lambda>s. J (xsFS s) (xsRows s) \<and> Q (xsRows s)) (finishStatus v st)
     (\<lambda>_ s. J (xsFS s) (xsRows s) \<and> Q (xsRows s) \<and> xsStatus s = st)"
  unfolding triple_def finishStatus_def bindX_def faultPoint_def ask_def modifies_def
  by (auto split: option.splits)

lemma triple_status:
  assumes "st \<noteq> ItemDone"
  shows "triple (\<lambda>s. J (xsFS s) (xsRows s)) (\<lambda>s. J (xsFS s) (xsRows s)) (finishStatus v st)
     (\<lambda>_ s. J (xsFS s) (xsRows s) \<and> (xsStatus s = ItemDone \<longrightarrow> Q (xsRows s)))"
  by (rule triple_weaken [OF triple_finishStatus [where Q = "\<lambda>_. True"]]) (use assms in auto)

lemma triple_done:
  "triple (\<lambda>s. J (xsFS s) (xsRows s)) (\<lambda>s. J (xsFS s) (xsRows s) \<and> Q (xsRows s)) (finishStatus v ItemDone)
     (\<lambda>_ s. J (xsFS s) (xsRows s) \<and> (xsStatus s = ItemDone \<longrightarrow> Q (xsRows s)))"
  by (rule triple_weaken [OF triple_finishStatus [where Q = Q and J = J]]) auto

lemma triple_writeTx_post:
  assumes "keeps (\<lambda>s. J (xsFS s) (xsRows s)) (writeTx v tx)" "\<And>fs rows e t. J fs rows \<Longrightarrow> tx e rows = Inr t \<Longrightarrow> Q t"
  shows "triple (\<lambda>s. J (xsFS s) (xsRows s)) (\<lambda>s. J (xsFS s) (xsRows s)) (writeTx v tx) (\<lambda>_ s. J (xsFS s) (xsRows s) \<and> Q (xsRows s))"
proof -
  have "Q (xsRows t)" if "J (xsFS s) (xsRows s)" "writeTx v tx s = (Inr x, t)" for s x t
    using that assms(2) unfolding writeTx_def bindX_def gets_def faultPoint_def ask_def throw_def modifies_def
    by (auto split: option.splits sum.splits dbError.splits)
  with assms(1) show ?thesis unfolding triple_def keeps_def by (metis snd_conv)
qed

text \<open>What ends an item that is not done: its status is another one.\<close>

lemma triple_itemError:
  "triple (\<lambda>s. J (xsFS s) (xsRows s)) (\<lambda>s. J (xsFS s) (xsRows s)) (itemError v e)
     (\<lambda>_ s. J (xsFS s) (xsRows s) \<and> (xsStatus s = ItemDone \<longrightarrow> Q (xsRows s)))"
  unfolding itemError_def
  by (rule triple_bind [OF triple_gets [where Q = "\<lambda>_ s. J (xsFS s) (xsRows s)"]], simp)
    (intro triple_cond triple_throw triple_status, simp_all)

lemma triple_markDamaged:
  assumes "rowOf v fs rows x rec" "damaged v fs rec"
  shows "triple (\<lambda>s. verInv v fs rows (xsFS s) (xsRows s)) (\<lambda>s. verInv v fs rows (xsFS s) (xsRows s)) (markDamaged v rec)
     (\<lambda>_ s. verInv v fs rows (xsFS s) (xsRows s) \<and> (xsStatus s = ItemDone \<longrightarrow> Q (xsRows s)))"
proof -
  let ?I = "\<lambda>s. verInv v fs rows (xsFS s) (xsRows s)"
  have x: "x \<in> set rows" "verifiedRow v fs rows x rec" using assms(1) by (simp_all add: rowOf_def)
  have "damaged v fs x" by (rule damaged_before [OF x(2) assms(2)])
  then have "keeps ?I (writeTx v (\<lambda>e. markMissing (drID rec)))" "keeps ?I (markSharedInode v rec)"
    using keeps_markMissing [OF x(1)] verifiedRow_fields(1) [OF x(2)] keeps_markSharedInode [OF assms(1)] by auto
  then show ?thesis
    unfolding markDamaged_def
    by (intro triple_bind [OF keeps_triple [THEN iffD1]] keeps_crashPoint triple_status) simp_all
qed

lemma triple_verifyStat:
  assumes "rowOf v fs rows x rec"
  shows "triple (\<lambda>s. verInv v fs rows (xsFS s) (xsRows s)) (\<lambda>s. verInv v fs rows (xsFS s) (xsRows s)) (verifyStat v rec)
    (\<lambda>_ s. verInv v fs rows (xsFS s) (xsRows s)
       \<and> (xsStatus s = ItemDone \<longrightarrow> list_ex (\<lambda>y. drID y = drID rec \<and> statOk fs y) (xsRows s)))"
proof -
  let ?J = "verInv v fs rows"
  let ?I = "\<lambda>s. ?J (xsFS s) (xsRows s)"
  let ?Q = "list_ex (\<lambda>y. drID y = drID rec \<and> statOk fs y)"
  have x: "x \<in> set rows" "verifiedRow v fs rows x rec" "drRelPath rec \<noteq> []"
    using assms verifiedRow_fields(2) by (auto simp: rowOf_def)
  have stat: "gives ?I (statProblem v rec) (\<lambda>problem. if problem then damaged v fs rec else statOk fs rec)"
    unfolding statProblem_def
    by (intro gives_bind_gives [OF fr.keeps_lstatDest gives_lstat] gives_ret)
      (auto simp: x(3) damaged_def statOk_def statAt_def statOf_def nodeAt_def split: option.splits)
  have reads: "keeps ?I (statProblem v rec)" unfolding statProblem_def by (intro keeps_bind keeps_basic fr.reads)
  have at: "?Q rows1" if J: "?J fs1 rows1" and ok: "statOk fs rec" for fs1 rows1
  proof -
    obtain y where y: "y \<in> set rows1" "verifiedRow v fs rows x y" using verInv_rowAt [OF J x(1)] .
    then show ?thesis using ok statOk_row [OF y(2)] statOk_row [OF x(2)] verifiedRow_fields(1) [OF y(2)] verifiedRow_fields(1) [OF x(2)]
      by (auto simp: list_ex_iff)
  qed
  have fin: "triple ?I ?I (finishStatus v ItemDone) (\<lambda>_ s. ?I s \<and> (xsStatus s = ItemDone \<longrightarrow> ?Q (xsRows s)))" if "statOk fs rec"
    by (rule triple_weaken [OF triple_done [where J = ?J and Q = ?Q]]) (use at that in auto)
  show ?thesis
    unfolding verifyStat_def
    by (rule triple_bind_gives [OF keeps_tryX [OF reads] gives_tryX [OF stat]])
      (auto intro!: triple_sum triple_itemError [where J = ?J] triple_markDamaged [OF assms] fin split: if_splits)
qed

lemma verified_intact:
  assumes "verifiedRow v fs rows x y" "nodeAt (drRelPath x) fs = Some n" "fnRegular n" "int (length (fnData n)) = drSize x"
    "drHash x = [] \<or> xvHash v (fnData n) = drHash x"
  shows "intact v fs (y\<lparr>drVerifiedAt := t, drHash := (if drHash y = [] then xvHash v (fnData n) else drHash y)\<rparr>)"
proof -
  note f = verifiedRow_fields [OF assms(1)]
  have "drHash y = drHash x \<or> xvHash v (fnData n) = drHash y"
    using assms(1,2) f by (auto simp: verifiedRow_def intact_def)
  then show ?thesis using assms(2-5) f by (auto simp: intact_def)
qed

lemma triple_verifyHash:
  assumes row: "rowOf v fs rows x rec"
  shows "triple (\<lambda>s. verInv v fs rows (xsFS s) (xsRows s)) (\<lambda>s. verInv v fs rows (xsFS s) (xsRows s)) (verifyHash v rec)
    (\<lambda>_ s. verInv v fs rows (xsFS s) (xsRows s)
       \<and> (xsStatus s = ItemDone \<longrightarrow> list_ex (\<lambda>y. drID y = drID rec \<and> intact v fs y) (xsRows s)))"
proof -
  let ?J = "verInv v fs rows"
  let ?I = "\<lambda>s. ?J (xsFS s) (xsRows s)"
  let ?Q = "list_ex (\<lambda>y. drID y = drID rec \<and> intact v fs y)"
  have x: "x \<in> set rows" "verifiedRow v fs rows x rec" using row by (simp_all add: rowOf_def)
  note f = verifiedRow_fields [OF x(2)]
  have ver: "triple ?I ?I (bindX (writeTx v (\<lambda>e. setVerified (drID rec) (xvHash v (fnData n)) (txNow e))) (\<lambda>_. finishStatus v ItemDone))
      (\<lambda>_ s. ?I s \<and> (xsStatus s = ItemDone \<longrightarrow> ?Q (xsRows s)))"
    if n: "nodeAt (drRelPath rec) fs = Some n" "fnRegular n" "int (length (fnData n)) = drSize rec"
      "drHash rec = [] \<or> xvHash v (fnData n) = drHash rec" for n
  proof (rule triple_bind [OF triple_writeTx_post [where J = ?J and Q = ?Q] triple_done [where J = ?J and Q = ?Q]])
    have h: "drHash x = [] \<or> xvHash v (fnData n) = drHash x" using x(2) n(4) by (auto simp: verifiedRow_def)
    have nx: "nodeAt (drRelPath x) fs = Some n" "int (length (fnData n)) = drSize x" using n f by simp_all
    show "keeps ?I (writeTx v (\<lambda>e. setVerified (drID rec) (xvHash v (fnData n)) (txNow e)))"
      by (rule fr.keeps_writeTx) (use verInv_setVerified [OF _ x(1) nx(1) n(2) nx(2) h] f in auto)
    fix fs1 rows1 e t
    assume J: "?J fs1 rows1" and t: "setVerified (drID rec) (xvHash v (fnData n)) (txNow e) rows1 = Inr t"
    obtain y where y: "y \<in> set rows1" "verifiedRow v fs rows x y" using verInv_rowAt [OF J x(1)] .
    let ?y = "y\<lparr>drVerifiedAt := Some (txNow e), drHash := (if drHash y = [] then xvHash v (fnData n) else drHash y)\<rparr>"
    have id: "drID y = drID rec" using verifiedRow_fields(1) [OF y(2)] f by simp
    then have "?y \<in> set t" using y(1) unfolding updateRows_Inr [OF t [unfolded setVerified_def]] by force
    moreover have "intact v fs ?y" by (rule verified_intact [OF y(2) nx(1) n(2) nx(2) h])
    moreover have "drID ?y = drID rec" using id by simp
    ultimately show "?Q t" unfolding list_ex_iff by blast
  qed
  show ?thesis
    unfolding verifyHash_def
    by (rule triple_bind_gives [OF keeps_tryX [OF keeps_VerifyFile] gives_tryX [OF gives_VerifyFile]])
      (auto intro!: triple_sum triple_option triple_itemError [where J = ?J] triple_markDamaged [OF row] ver)
qed

lemma triple_verifyItem:
  "triple (\<lambda>s. verInv v fs rows (xsFS s) (xsRows s)) (\<lambda>s. verInv v fs rows (xsFS s) (xsRows s) \<and> xsD s = d) (verifyItem v itemRel)
    (\<lambda>_ s. verInv v fs rows (xsFS s) (xsRows s) \<and> (xsStatus s = ItemDone \<longrightarrow> doneOk v fs (xsRows s) d))"
proof -
  let ?J = "verInv v fs rows"
  let ?I = "\<lambda>s. ?J (xsFS s) (xsRows s)"
  let ?post = "\<lambda>_ s. ?I s \<and> (xsStatus s = ItemDone \<longrightarrow> doneOk v fs (xsRows s) d)"
  have check: "triple ?I ?I (if deCheck d = checkStat then verifyStat v rec else verifyHash v rec) ?post"
    if "rowOf v fs rows x rec" "drID rec = deRecordID d" for x rec
    using triple_verifyStat [OF that(1)] triple_verifyHash [OF that(1)] that(2)
    by (cases "deCheck d = checkStat") (auto simp: doneOk_def elim!: triple_weaken)
  have shared: "triple ?I ?I (bindX (markSharedInode v rec) (\<lambda>_. finishStatus v ItemFailed)) ?post"
    if "rowOf v fs rows x rec" "drState rec = StateMissing" for x rec
    using keeps_markSharedInode [OF that(1)] that(2)
    by (intro triple_bind [OF keeps_triple [THEN iffD1]] triple_status) auto
  have main: "triple ?I ?I (bindX (readRows v (getTx (deRecordID d)))
       (\<lambda>rec0. case rec0 of
                 None \<Rightarrow> finishStatus v ItemSkipped
               | Some rec \<Rightarrow>
                   if drState rec = StateMissing then bindX (markSharedInode v rec) (\<lambda>_. finishStatus v ItemFailed)
                   else if \<not> hasFile rec \<or> drRelPath rec \<noteq> itemRel then finishStatus v ItemSkipped
                   else if deCheck d = checkStat then verifyStat v rec
                   else verifyHash v rec)) ?post"
    by (rule triple_bind_gives [OF fr.keeps_readRows gives_row], rule triple_option, rule triple_status, simp)
      (auto intro!: triple_cond shared triple_status dest: check split: if_splits)
  show ?thesis
    unfolding verifyItem_def
  proof (rule triple_bind [where R = "\<lambda>x s. ?I s \<and> x = d"])
    show "triple ?I (\<lambda>s. ?I s \<and> xsD s = d) (gets xsD) (\<lambda>x s. ?I s \<and> x = d)" by (rule triple_gets) simp
  qed (rule triple_pre [where b = "_ = d"], simp, use main in \<open>auto elim: triple_weaken\<close>)
qed

section \<open>The run of the items\<close>

text \<open>An item keeps its detail and the constraints of the table.\<close>

interpretation dt: step_invariant "\<lambda>s. xsD s = d \<and> xsSaved s = d" for d
  by unfold_locales simp_all

lemmas verify_defs = verifyItem_def verifyStat_def verifyHash_def markDamaged_def markSharedInode_def itemError_def
  statProblem_def VerifyFile_def crashPoint_def finishStatus_def

lemma keeps_casePair:
  assumes "\<And>x y. keeps I (f x y)" "keeps I g"
  shows "keeps I (case (a, b) of (Inr (Some x), Inr (Some y)) \<Rightarrow> f x y | _ \<Rightarrow> g)"
  using assms by (auto split: sum.split option.split)

lemma detail_verifyItem: "keeps (\<lambda>s. xsD s = d \<and> xsSaved s = d) (verifyItem v itemRel)"
  unfolding verify_defs
  by (intro keeps_bind keeps_basic keeps_casePair dt.reads dt.keeps_writeTx) (simp_all add: keeps_def modifies_def)

lemma table_verifyItem: "keeps (\<lambda>s. tableOk (xsRows s)) (verifyItem v itemRel)"
proof -
  have "keeps (\<lambda>s. tableOk (xsRows s)) (writeTx v (\<lambda>e. markMissing i))" "keeps (\<lambda>s. tableOk (xsRows s)) (writeTx v (\<lambda>e. setVerified i h (txNow e)))" for i h
    by (rule rx.keeps_writeTx; auto intro: recStep_ok recStep.missing recStep.verified)+
  then show ?thesis
    unfolding verify_defs
    by (intro keeps_bind keeps_basic keeps_casePair rx.reads) (simp_all add: keeps_def modifies_def)
qed

lemma verInv_rowsOk: "verInv v fs rows fs1 rows1 \<Longrightarrow> rowsOk rows1"
  unfolding verInv_def verifiedOnly_def rowsOk_def
  by (auto simp: list_all_length list_all2_conv_all_nth verifiedRow_fields)

lemma verInv_start: "envOk v \<Longrightarrow> rowsOk rows \<Longrightarrow> tableOk rows \<Longrightarrow> verInv v fs rows fs rows"
  by (auto simp: verInv_def verifiedOnly_def verifiedRow_refl intro: list.rel_refl)

definition verRunOk :: "execEnv \<Rightarrow> destFS \<Rightarrow> (ident \<times> execDetail) list \<Rightarrow> runState \<Rightarrow> bool" where
  "verRunOk v fs L u \<longleftrightarrow> rsFS u = fs \<and> rowsOk (rsRows u) \<and> tableOk (rsRows u)
     \<and> map (\<lambda>r. (rrID r, rrDetail r)) (rsItems u) = L
     \<and> (\<forall>r \<in> set (rsItems u). rrStatus r = ItemDone \<longrightarrow> doneOk v fs (rsRows u) (rrDetail r))"

lemma verRunOk_frame: "rsFS t = rsFS u \<Longrightarrow> rsRows t = rsRows u \<Longrightarrow> rsItems t = rsItems u \<Longrightarrow> verRunOk v fs L t = verRunOk v fs L u"
  by (simp add: verRunOk_def)

lemma verRunOk_item:
  assumes ok: "envOk v" "distinct (map fst L)" "verRunOk v fs L u" and it: "(rrID it, rrDetail it) \<in> set L"
    and run: "jobItem (\<lambda>it _. verifyItem v (rrRel it)) it () u = (Inr (), t)"
  shows "verRunOk v fs L t"
proof -
  obtain y where y: "verifyItem v (rrRel it) (loadItem u it) = (Inr (), y)" "t = storeItem it y u"
    using run by (auto simp: jobItem_def split: prod.splits)
  have u: "rsFS u = fs" "rowsOk (rsRows u)" "tableOk (rsRows u)" "map (\<lambda>r. (rrID r, rrDetail r)) (rsItems u) = L"
    using ok(3) by (simp_all add: verRunOk_def)
  have J: "verInv v fs (rsRows u) (xsFS (loadItem u it)) (xsRows (loadItem u it))"
    using verInv_start [OF ok(1) u(2,3), of fs] u(1) by (simp add: loadItem_def)
  have y1: "verInv v fs (rsRows u) (xsFS y) (xsRows y)" "xsStatus y = ItemDone \<longrightarrow> doneOk v fs (xsRows y) (rrDetail it)"
    using tripleD [OF triple_verifyItem _ y(1), of fs "rsRows u" "rrDetail it"] J by (simp_all add: loadItem_def)
  have "xsD (loadItem u it) = rrDetail it \<and> xsSaved (loadItem u it) = rrDetail it" by (simp add: loadItem_def)
  then have saved: "xsSaved y = rrDetail it" using detail_verifyItem [of "rrDetail it" v "rrRel it"] y(1) unfolding keeps_def by (metis snd_conv)
  have table: "tableOk (xsRows y)" using table_verifyItem [of v "rrRel it"] u(3) y(1) unfolding keeps_def by (metis loadItem_def execState.select_convs(3) snd_conv)
  let ?f = "\<lambda>r. if rrID r = rrID it then r\<lparr>rrDetail := xsSaved y, rrStatus := xsStatus y\<rparr> else r"
  have items: "rsItems t = map ?f (rsItems u)" by (simp add: y(2) storeItem_def)
  have same: "rrDetail r = rrDetail it" if "r \<in> set (rsItems u)" "rrID r = rrID it" for r
  proof -
    have "(rrID r, rrDetail r) \<in> set L" using that(1) u(4) by auto
    with it that(2) ok(2) show ?thesis by (metis distinct_map fst_conv inj_onD snd_conv)
  qed
  have "map (\<lambda>r. (rrID r, rrDetail r)) (rsItems t) = L" unfolding items u(4) [symmetric] using same saved by auto
  moreover have "doneOk v fs (xsRows y) (rrDetail r)" if "r \<in> set (rsItems t)" "rrStatus r = ItemDone" for r
    using that ok(3) y1(2) saved doneOk_later [OF y1(1)] unfolding items verRunOk_def by (auto split: if_splits)
  ultimately show ?thesis
    using verInv_FS [OF y1(1)] verInv_rowsOk [OF y1(1)] table by (simp add: verRunOk_def y(2) storeItem_def)
qed

lemma verRunOk_batch:
  assumes ok: "envOk v" "distinct (map fst L)"
  shows "verRunOk v fs L u \<Longrightarrow> \<forall>it \<in> set its. (rrID it, rrDetail it) \<in> set L
    \<Longrightarrow> jobBatch v act (\<lambda>it _. verifyItem v (rrRel it)) its () u = (Inr x, t) \<Longrightarrow> verRunOk v fs L t"
proof (induction its arbitrary: u)
  case (Cons it its)
  let ?prog = "\<lambda>it _. verifyItem v (rrRel it)"
  obtain y u1 where e: "jobItem ?prog it () u = (y, u1)" by (cases "jobItem ?prog it () u")
  obtain z u2 where a: "afterItem v u1 = (z, u2)" by (cases "afterItem v u1")
  have "verRunOk v fs L u1" if "y = Inr ()" by (rule verRunOk_item [OF ok Cons(2) _ e [unfolded that]]) (use Cons(3) in simp)
  moreover have "verRunOk v fs L u2 = verRunOk v fs L u1"
    by (rule verRunOk_frame) (use afterItem_frame [of v u1] afterItem_items [of v u1] a in simp_all)
  moreover have "jobBatch v act ?prog its () u2 = (Inr x, t) \<and> y = Inr ()" if "rrAction it = act"
    using Cons(4) that by (cases y; cases z) (simp_all add: e a split: if_splits)
  moreover have "jobBatch v act ?prog its () u = (Inr x, t)" if "rrAction it \<noteq> act"
    using Cons(4) that by (simp split: if_splits)
  ultimately show ?case using Cons(1) [of u] Cons(1) [of u2] Cons(2,3) by (cases "rrAction it = act") simp_all
qed simp

lemma verRunOk_loop:
  assumes ok: "envOk v" "distinct (map fst L)"
  shows "q = (\<lambda>it _. verifyItem v (rrRel it)) \<Longrightarrow> verRunOk v fs L u \<Longrightarrow> jobLoop v act q after c u = (Inr x, t) \<Longrightarrow> verRunOk v fs L t"
  using ok
proof (induction v act q after c u rule: jobLoop.induct)
  case (1 v act q after c u)
  obtain y u0 where p: "stepRun v u = (y, u0)" by (cases "stepRun v u")
  have u0: "verRunOk v fs L u0" using 1(3) p by (auto simp: stepRun_def verRunOk_def)
  let ?b = "Pending after pendingBatch (rsItems u0)"
  obtain z u1 where b: "jobBatch v act q ?b c u0 = (z, u1)" by (cases "jobBatch v act q ?b c u0")
  have "(rrID it, rrDetail it) \<in> set L" if "it \<in> set ?b" for it
    using Pending_set [OF that] u0 unfolding verRunOk_def by force
  then have u1: "verRunOk v fs L u1" if "z = Inr ()"
    using verRunOk_batch [OF 1(5,6) u0, of ?b act _ u1] b that 1(2) by simp
  note loop = 1(4) [unfolded jobLoop.simps [of v act q after c u] p]
  have y: "y = Inr ()" using loop by (cases y) simp_all
  show ?case
  proof (cases "?b = []")
    case False
    have step: "(case z of Inl e \<Rightarrow> (Inl e, u1) | Inr c1 \<Rightarrow> jobLoop v act q (rrID (last ?b)) c1 u1) = (Inr x, t)"
      using loop unfolding y Let_def prod.case sum.case if_not_P [OF False] b .
    have z: "z = Inr ()" using step by (cases z) auto
    have z2: "jobLoop v act q (rrID (last ?b)) () u1 = (Inr x, t)" using step by (simp only: z sum.case)
    show ?thesis by (rule 1(1) [OF p [symmetric] y refl False b [symmetric] z 1(2) u1 [OF z] z2 1(5,6)])
  next
    case True
    then have "u0 = t" using loop by (simp add: y)
    with u0 show ?thesis by simp
  qed
qed

lemma executeVerify_inv:
  assumes "verInv (veExec r) fs rows (rsFS u) (rsRows u)" "executeVerify r u = (x, t)"
  shows "verInv (veExec r) fs rows (rsFS t) (rsRows t)"
proof -
  have "verInv (veExec r) fs rows (rsFS (snd (executeVerify r u))) (rsRows (snd (executeVerify r u)))"
    unfolding executeVerify_def by (rule ve.executeItems_keeps) (use assms(1) in simp_all)
  with assms(2) show ?thesis by simp
qed

lemma verRunOk_execute:
  assumes "envOk (veExec r)" "distinct (map fst L)" "verRunOk (veExec r) fs L u" "executeVerify r u = (Inr x, t)"
  shows "verRunOk (veExec r) fs L t"
proof -
  obtain y u0 where p: "stepRun (veExec r) u = (y, u0)" by (cases "stepRun (veExec r) u")
  have "verRunOk (veExec r) fs L (u0\<lparr>rsSince := 0\<rparr>)" using assms(3) p by (auto simp: stepRun_def verRunOk_def)
  from verRunOk_loop [OF assms(1,2) refl this] assms(4) show ?thesis
    by (auto simp: executeVerify_def executeItems_def p split: sum.splits)
qed

section \<open>The plan\<close>

definition unnumbered :: "runRow \<Rightarrow> runRow" where
  "unnumbered it = it\<lparr>rrID := 0\<rparr>"

definition planOf :: "destFS \<Rightarrow> ident list \<Rightarrow> destRecord list \<Rightarrow> runRow list" where
  "planOf fs sample recs = concat (map (\<lambda>rec. planned sample rec (\<not> statOk fs rec)) (filter hasFile recs))"

definition numbered :: "itemsState \<Rightarrow> bool" where
  "numbered s \<longleftrightarrow> distinct (map rrID (rsItems (isRun s))) \<and> (\<forall>it \<in> set (rsItems (isRun s)). rrID it < isNextID s)"

lemma AddItems_adds:
  assumes "AddItems v items final s = (Inr x, t)"
  shows "map unnumbered (rsItems (isRun t)) = map unnumbered (rsItems (isRun s)) @ map unnumbered items"
    "numbered s \<Longrightarrow> numbered t"
proof -
  let ?ids = "map (\<lambda>k. isNextID s + int k) [0..<length items]"
  have t: "rsItems (isRun t) = rsItems (isRun s) @ map2 (\<lambda>i it. it\<lparr>rrID := i\<rparr>) ?ids items" "isNextID t = isNextID s + int (length items)"
    using assms by (auto simp: AddItems_def stepItems_def stepRun_def Let_def split: sum.splits option.splits)
  have "map unnumbered (map2 (\<lambda>i it. it\<lparr>rrID := i\<rparr>) ids items) = map unnumbered items" if "length ids = length items" for ids
    using that by (induction ids items rule: list_induct2) (simp_all add: unnumbered_def)
  then show "map unnumbered (rsItems (isRun t)) = map unnumbered (rsItems (isRun s)) @ map unnumbered items" by (simp add: t(1))
  have ids: "map rrID (map2 (\<lambda>i it. it\<lparr>rrID := i\<rparr>) ids items) = ids" if "length ids = length items" for ids
    using that by (induction ids items rule: list_induct2) simp_all
  assume s: "numbered s"
  have "map rrID (rsItems (isRun t)) = map rrID (rsItems (isRun s)) @ ?ids" using ids [of ?ids] by (simp add: t(1))
  moreover have "distinct ?ids" by (simp add: distinct_map inj_on_def)
  moreover have "set (map rrID (rsItems (isRun s))) \<inter> set ?ids = {}" using s by (auto simp: numbered_def)
  ultimately have "distinct (map rrID (rsItems (isRun t)))" "\<forall>i \<in> set (map rrID (rsItems (isRun t))). i < isNextID t"
    using s unfolding numbered_def t(2) by auto
  then show "numbered t" by (simp add: numbered_def)
qed

lemma onRun_statProblem:
  assumes "drRelPath rec \<noteq> []" "onRun (statProblem v rec) u = (Inr problem, t)"
  shows "problem = (\<not> statOk (rsFS u) rec)" "rsFS t = rsFS u" "rsItems t = rsItems u"
  using assms
  by (auto simp: onRun_def statProblem_def lstatDest_def bindX_def ret_def gets_def faultPoint_def ask_def require_def throw_def statOk_def statOf_def nodeAt_def
      split: prod.splits sum.splits option.splits if_splits)

text \<open>The batches together are the plan.\<close>

lemma planFiles_plan:
  "list_all (\<lambda>rec. drRelPath rec \<noteq> []) recs \<Longrightarrow> planFiles r sample recs batch s = (Inr b, t) \<Longrightarrow> fs = rsFS (isRun s)
     \<Longrightarrow> map unnumbered (rsItems (isRun t) @ b) = map unnumbered (rsItems (isRun s) @ batch @ planOf fs sample recs)
       \<and> (numbered s \<longrightarrow> numbered t)"
proof (induction recs arbitrary: batch s)
  case (Cons rec recs)
  show ?case
  proof (cases "hasFile rec")
    case True
    let ?v = "veExec r"
    obtain s1 where a: "afterItem ?v (isRun s) = (Inr (), s1)"
      using Cons(3) True by (cases "afterItem ?v (isRun s)"; cases "fst (afterItem ?v (isRun s))") (auto split: if_splits)
    have s1: "rsFS s1 = fs" "rsItems s1 = rsItems (isRun s)"
      using afterItem_frame [of ?v "isRun s"] afterItem_items [of ?v "isRun s"] Cons(4) unfolding a by simp_all
    obtain problem s2 where p: "onRun (statProblem ?v rec) s1 = (Inr problem, s2)"
      using Cons(3) True a by (cases "onRun (statProblem ?v rec) s1"; cases "fst (onRun (statProblem ?v rec) s1)") (auto split: if_splits)
    have s2: "problem = (\<not> statOk fs rec)" "rsFS s2 = fs" "rsItems s2 = rsItems (isRun s)"
      using onRun_statProblem [OF _ p] Cons(2) s1 by simp_all
    let ?new = "planned sample rec problem"
    have plan: "planOf fs sample (rec # recs) = ?new @ planOf fs sample recs" using True s2(1) by (simp add: planOf_def)
    have num: "numbered (s\<lparr>isRun := s2\<rparr>) = numbered s" using s2(3) by (simp add: numbered_def)
    show ?thesis
    proof (cases "?new = [] \<or> length (batch @ ?new) < vePlanBatch r")
      case more: True
      have "planFiles r sample recs (batch @ ?new) (s\<lparr>isRun := s2\<rparr>) = (Inr b, t)"
        using Cons(3) True more by (auto simp: a p Let_def split: if_splits)
      from Cons(1) [OF _ this] Cons(2) s2 show ?thesis by (simp add: plan num)
    next
      case full: False
      obtain s3 where add: "AddItems ?v (batch @ ?new) False (s\<lparr>isRun := s2\<rparr>) = (Inr (), s3)"
        and rest: "planFiles r sample recs [] s3 = (Inr b, t)"
        using Cons(3) True full
        by (cases "AddItems ?v (batch @ ?new) False (s\<lparr>isRun := s2\<rparr>)") (auto simp: a p Let_def split: if_splits sum.splits)
      have "rsFS (isRun s3) = fs" using AddItems_same [of "s\<lparr>isRun := s2\<rparr>" ?v "batch @ ?new" False] s2(2) unfolding add by (simp add: sameDest_def)
      with Cons(1) [OF _ rest] Cons(2) AddItems_adds [OF add] s2(3) show ?thesis by (simp add: plan num)
    qed
  qed (use Cons in \<open>simp add: planOf_def\<close>)
qed (simp add: planOf_def)

lemma planVerify_plan:
  assumes "rowsOk (rsRows (isRun s))" "planVerify r s = (Inr x, t)"
  shows "map unnumbered (rsItems (isRun t)) = map unnumbered (rsItems (isRun s) @ planOf (rsFS (isRun s)) (verifySample r (rsRows (isRun s)))
      (sort_key drID (filter (\<lambda>x. drDestinationID x = xvDest (veExec r) \<and> isLive x) (rsRows (isRun s)))))"
    "numbered s \<Longrightarrow> numbered t"
proof -
  let ?v = "veExec r"
  let ?recs = "sort_key drID (filter (\<lambda>x. drDestinationID x = xvDest ?v \<and> isLive x) (rsRows (isRun s)))"
  obtain y s1 where p: "stepItems ?v s = (y, s1)" by (cases "stepItems ?v s")
  have s1: "rsRows (isRun s1) = rsRows (isRun s)" "rsFS (isRun s1) = rsFS (isRun s)" "rsItems (isRun s1) = rsItems (isRun s)" "isNextID s1 = isNextID s"
    using p by (auto simp: stepItems_def stepRun_def)
  let ?s = "s1\<lparr>isRun := (isRun s1)\<lparr>rsSince := 0\<rparr>\<rparr>"
  obtain b s2 where f: "planFiles r (verifySample r (rsRows (isRun s))) ?recs [] ?s = (Inr b, s2)" "AddItems ?v b True s2 = (Inr x, t)"
    using assms(2) unfolding planVerify_def p Let_def by (auto simp: s1 split: sum.splits prod.splits)
  have rel: "list_all (\<lambda>rec. drRelPath rec \<noteq> []) ?recs" using assms(1) by (auto simp: list_all_iff dest!: rowsOk_row) (simp add: okPath_def goodName_def)
  note plan = planFiles_plan [OF rel f(1) refl]
  show "map unnumbered (rsItems (isRun t)) = map unnumbered (rsItems (isRun s) @ planOf (rsFS (isRun s)) (verifySample r (rsRows (isRun s))) ?recs)"
    using plan AddItems_adds(1) [OF f(2)] by (simp add: s1)
  assume "numbered s"
  then have "numbered ?s" by (simp add: numbered_def s1)
  with plan show "numbered t" using AddItems_adds(2) [OF f(2)] by simp
qed

lemma full_sample:
  assumes "xvVerify (veExec r) = VerifyFull" "x \<in> set rows" "drDestinationID x = xvDest (veExec r)" "hasFile x"
  shows "drID x \<in> set (verifySample r rows)"
  using assms by (auto simp: verifySample_def sampleSize_def Let_def)

lemma planOf_item:
  assumes "x \<in> set recs" "hasFile x" "drID x \<in> set sample"
  shows "verifyDetail x (if statOk fs x then checkHash else checkStat) \<in> set (planOf fs sample recs)"
  using assms by (auto simp: planOf_def planned_def)

text \<open>What a job that ran to its end did: a fresh plan, then its items.\<close>

lemma planOnce_fresh:
  assumes "planOnce v planner s = (Inr x, u)" "\<not> isPlanned s"
  obtains s1 where "planner s1 = (Inr x, u)" "sameDest s s1" "rsItems (isRun s1) = []"
  using assms that
  by (auto simp: planOnce_def DeleteItems_def stepItems_def stepRun_def sameDest_def split: sum.splits option.splits)

lemma runJob_fresh:
  assumes "runJob r False planner run s = (Inr n, t)" "\<not> isPlanned s"
  obtains s1 s2 c u where "planner s1 = (Inr (), s2)" "rsItems (isRun s1) = []" "sameDest (s\<lparr>isRun := reconciled r False (isRun s)\<rparr>) s1"
    "run (isRun s2) = (Inr c, u)" "isRun t = u"
proof -
  obtain k a where a: "onRun (reconcile r []) (isRun s) = (Inr k, a)"
    using assms(1) by (cases "onRun (reconcile r []) (isRun s)"; cases "fst (onRun (reconcile r []) (isRun s))") (auto simp: runJob_def)
  obtain x s2 where p: "planOnce (rcExec r) planner (s\<lparr>isRun := a\<rparr>) = (x, s2)" by (cases "planOnce (rcExec r) planner (s\<lparr>isRun := a\<rparr>)")
  obtain y u where e: "run (isRun s2) = (y, u)" by (cases "run (isRun s2)")
  obtain c where x: "x = Inr ()" "y = Inr c" "isRun t = u" using assms(1) by (cases x; cases y) (auto simp: runJob_def a p e)
  obtain s1 where "planner s1 = (Inr (), s2)" "sameDest (s\<lparr>isRun := a\<rparr>) s1" "rsItems (isRun s1) = []"
    using planOnce_fresh [OF p [unfolded x(1)]] assms(2) by auto
  with x e show thesis by (intro that [of s1 s2 c u]) (simp_all add: reconciled_def a)
qed

lemma planOf_pending: "it \<in> set (planOf fs sample recs) \<Longrightarrow> rrStatus it = ItemPending"
  by (auto simp: planOf_def planned_def verifyDetail_def split: if_splits)

lemma unnumbered_same: "unnumbered x = unnumbered y \<Longrightarrow> rrDetail x = rrDetail y \<and> rrStatus x = rrStatus y"
  unfolding unnumbered_def by (metis runRow.select_convs runRow.surjective runRow.update_convs(1) runRow.cases_scheme)

lemma unnumbered_in:
  assumes "map unnumbered xs = map unnumbered ys" "x \<in> set xs"
  obtains y where "y \<in> set ys" "rrDetail y = rrDetail x" "rrStatus y = rrStatus x"
proof -
  have "unnumbered x \<in> unnumbered ` set ys" using assms by (metis image_eqI list.set_map)
  then show thesis using that unnumbered_same by (metis imageE)
qed

text \<open>The one record with the item's number is as the item says.\<close>

lemma doneOk_record:
  assumes "doneOk v fs rows (rrDetail (verifyDetail x check))" "RecordLinks.tableOk rows" "y \<in> set rows" "drID y = drID x"
  shows "if check = checkStat then statOk fs y else intact v fs y"
proof -
  obtain y1 where y1: "y1 \<in> set rows" "drID y1 = drID x" "if check = checkStat then statOk fs y1 else intact v fs y1"
    using assms(1) by (auto simp: doneOk_def list_ex_iff verifyDetail_def)
  moreover have "inj_on drID (set rows)" using assms(2) by (simp add: RecordLinks.tableOk_def distinct_map)
  ultimately have "y1 = y" using assms(3,4) by (metis inj_onD)
  with y1(3) show ?thesis by (simp only:)
qed

lemma hasFile_before:
  assumes "verifiedRow v fs rows x y" "hasFile y"
  shows "hasFile x" "drDestinationID x = drDestinationID y"
proof -
  show "hasFile x" using assms by (auto simp: verifiedRow_def hasFile_def)
  have "drDestinationID (unverified z) = drDestinationID z" for z by (simp add: unverified_def)
  then show "drDestinationID x = drDestinationID y" using assms(1) unfolding verifiedRow_def by metis
qed

section \<open>The property\<close>

text \<open>What a job that ran to its end with a fresh plan leaves: the plan's items, each done one in order.\<close>

lemma verify_ran:
  fixes r s
  defines "v \<equiv> veExec r" and "fs \<equiv> rsFS (reconciled (veRec r) False (isRun s))" and "rows \<equiv> rsRows (reconciled (veRec r) False (isRun s))"
  assumes ok: "recOk (veRec r)" "runSafe {} (isRun s)" "RecordLinks.tableOk (rsRows (isRun s))"
    and run: "\<not> isPlanned s" "runVerify r False s = (Inr n, t)"
  shows "verInv v fs rows (rsFS (isRun t)) (rsRows (isRun t))" "RecordLinks.tableOk (rsRows (isRun t))"
    "item \<in> set (planOf fs (verifySample r rows) (sort_key drID (filter (\<lambda>x. drDestinationID x = xvDest v \<and> isLive x) rows)))
       \<Longrightarrow> \<exists>it \<in> set (rsItems (isRun t)). rrDetail it = rrDetail item \<and> (rrStatus it = ItemDone \<longrightarrow> doneOk v fs (rsRows (isRun t)) (rrDetail item))"
proof -
  obtain s1 s2 c u where p: "planVerify r s1 = (Inr (), s2)" "rsItems (isRun s1) = []"
      "sameDest (s\<lparr>isRun := reconciled (veRec r) False (isRun s)\<rparr>) s1" "executeVerify r (isRun s2) = (Inr c, u)" "isRun t = u"
    using runJob_fresh [OF run(2) [unfolded runVerify_def] run(1)] .
  note start = reconciled_keeps(1,3) [OF ok, of False, folded rows_def]
  have s1: "rsFS (isRun s1) = fs" "rsRows (isRun s1) = rows" using p(3) by (simp_all add: sameDest_def fs_def rows_def)
  have s2: "rsFS (isRun s2) = fs" "rsRows (isRun s2) = rows" using planVerify_same [of s1 r] s1 unfolding p(1) by (simp_all add: sameDest_def)
  let ?plan = "planOf fs (verifySample r rows) (sort_key drID (filter (\<lambda>x. drDestinationID x = xvDest v \<and> isLive x) rows))"
  have plan: "map unnumbered (rsItems (isRun s2)) = map unnumbered ?plan" "numbered s2"
    using planVerify_plan [OF _ p(1)] start(2) s1 p(2) by (simp_all add: numbered_def v_def)
  let ?L = "map (\<lambda>r. (rrID r, rrDetail r)) (rsItems (isRun s2))"
  have env: "envOk v" using ok(1) by (simp add: recOk_def veExec_def v_def)
  have "rrStatus it = ItemPending" if "it \<in> set (rsItems (isRun s2))" for it
    using planOf_pending unnumbered_in [OF plan(1) that] by metis
  then have "verRunOk v fs ?L (isRun s2)" using start s2 by (auto simp: verRunOk_def)
  then have ran: "verRunOk v fs ?L u"
    using verRunOk_execute [of r ?L, OF _ _ _ p(4)] plan(2) env by (auto simp: v_def numbered_def comp_def)
  then show "RecordLinks.tableOk (rsRows (isRun t))" by (simp add: verRunOk_def p(5))
  show "verInv v fs rows (rsFS (isRun t)) (rsRows (isRun t))"
    unfolding p(5) v_def by (rule executeVerify_inv [OF _ p(4)]) (use verInv_start [OF env] start s2 in \<open>simp add: v_def\<close>)
  assume "item \<in> set ?plan"
  then obtain it where "it \<in> set (rsItems (isRun s2))" "rrDetail it = rrDetail item" using unnumbered_in [OF plan(1) [symmetric]] by metis
  then have "(rrID it, rrDetail item) \<in> set (map (\<lambda>r. (rrID r, rrDetail r)) (rsItems u))" using ran by (force simp: verRunOk_def)
  then show "\<exists>it \<in> set (rsItems (isRun t)). rrDetail it = rrDetail item \<and> (rrStatus it = ItemDone \<longrightarrow> doneOk v fs (rsRows (isRun t)) (rrDetail item))"
    using ran p(5) by (auto simp: verRunOk_def)
qed

text \<open>C40: A full verification that runs to its end with a fresh plan, and whose items are all done, has
  checked everything: every record of the destination that should have a file (after the reconciliation
  that the job starts with) then has a regular file of the recorded size, whose content has the hash
  the record says.\<close>

theorem clean_full_verify_intact:
  assumes ok: "recOk (veRec r)" "runSafe {} (isRun s)" "RecordLinks.tableOk (rsRows (isRun s))"
    and full: "xvVerify (veExec r) = VerifyFull" "\<not> isPlanned s" "runVerify r False s = (Inr n, t)"
    and clean: "list_all (\<lambda>it. rrStatus it = ItemDone) (rsItems (isRun t))"
  shows "list_all2 (\<lambda>x y. drID y = drID x \<and> (drDestinationID x = xvDest (veExec r) \<and> hasFile x \<longrightarrow> intact (veExec r) (rsFS (isRun t)) y))
    (rsRows (reconciled (veRec r) False (isRun s))) (rsRows (isRun t))"
proof -
  let ?v = "veExec r" let ?fs = "rsFS (isRun t)"
  let ?rows = "rsRows (reconciled (veRec r) False (isRun s))"
  note ran = verify_ran [OF ok full(2,3)]
  have fs: "rsFS (reconciled (veRec r) False (isRun s)) = ?fs" using verInv_FS [OF ran(1)] by simp
  have "list_all2 (verifiedRow ?v ?fs ?rows) ?rows (rsRows (isRun t))" using ran(1) unfolding fs by (simp add: verInv_def verifiedOnly_def)
  then show ?thesis
  proof (rule list.rel_mono_strong, intro conjI impI)
    fix x y assume x: "x \<in> set ?rows" and y: "y \<in> set (rsRows (isRun t))" and xy: "verifiedRow ?v ?fs ?rows x y"
    show id: "drID y = drID x" using verifiedRow_fields(1) [OF xy] .
    assume f: "drDestinationID x = xvDest ?v \<and> hasFile x"
    let ?check = "if statOk ?fs x then checkHash else checkStat"
    have "isLive x" using f by (auto simp: hasFile_def isLive_def)
    then have "verifyDetail x ?check \<in> set (planOf ?fs (verifySample r ?rows) (sort_key drID (filter (\<lambda>x. drDestinationID x = xvDest ?v \<and> isLive x) ?rows)))"
      using planOf_item full_sample [OF full(1) x] x f by simp
    then have "doneOk ?v ?fs (rsRows (isRun t)) (rrDetail (verifyDetail x ?check))"
      using ran(3) [unfolded fs] clean by (auto simp: list_all_iff)
    then have "if ?check = checkStat then statOk ?fs y else intact ?v ?fs y" by (rule doneOk_record [OF _ ran(2) y id])
    then show "intact ?v ?fs y" using statOk_row [OF xy] by (auto simp: checkHash_def checkStat_def split: if_splits)
  qed
qed

text \<open>One file was hashed before, the other was not.\<close>

definition exCleanState :: itemsState where
  "exCleanState = exVerState\<lparr>isRun := (isRun exVerState)\<lparr>rsRows :=
     [zeroRecord\<lparr>drID := 1, drDestinationID := 1, drSourceID := 1, drRelPath := ''m/a'', drSourceRelPath := ''a'', drSize := 4\<rparr>,
      zeroRecord\<lparr>drID := 2, drDestinationID := 1, drSourceID := 1, drRelPath := ''m/b'', drSourceRelPath := ''b'', drSize := 4, drHash := ''rots''\<rparr>]\<rparr>\<rparr>"

theorem clean_full_verify_intact_witness:
  "fst (runVerify exVerEnv False exCleanState) = Inr 0
     \<and> map rrStatus (rsItems (isRun (snd (runVerify exVerEnv False exCleanState)))) = [ItemDone, ItemDone]
     \<and> list_all2 (\<lambda>x y. drID y = drID x \<and> (drDestinationID x = xvDest (veExec exVerEnv) \<and> hasFile x
           \<longrightarrow> intact (veExec exVerEnv) (rsFS (isRun (snd (runVerify exVerEnv False exCleanState)))) y))
         (rsRows (reconciled (veRec exVerEnv) False (isRun exCleanState))) (rsRows (isRun (snd (runVerify exVerEnv False exCleanState))))"
proof -
  have r: "recOk (veRec exVerEnv)" by (simp add: exVerEnv_def recOk_exRecEnv)
  have "okPath ''m/a''" "okPath ''m/b''" by code_simp+
  then have s: "runSafe {} (isRun exCleanState)"
    by (auto simp: runSafe_def exCleanState_def exVerState_def fsOk_def rowsOk_def split: if_splits)
  have t: "RecordLinks.tableOk (rsRows (isRun exCleanState))" "xvVerify (veExec exVerEnv) = VerifyFull" "\<not> isPlanned exCleanState" by code_simp+
  have run: "fst (runVerify exVerEnv False exCleanState) = Inr 0"
    "map rrStatus (rsItems (isRun (snd (runVerify exVerEnv False exCleanState)))) = [ItemDone, ItemDone]" by code_simp+
  then have res: "runVerify exVerEnv False exCleanState = (Inr 0, snd (runVerify exVerEnv False exCleanState))" by (metis prod.collapse)
  have "list_all (\<lambda>it. rrStatus it = ItemDone) (rsItems (isRun (snd (runVerify exVerEnv False exCleanState))))" by code_simp
  from clean_full_verify_intact [OF r s t res this] run show ?thesis by blast
qed

end
