(* ===== verification/Spec2Isabelle.thy ===== *)
theory Spec2Isabelle
  imports TierFiles Scheduler ResticKeep SyncGuard RecordLinks Retention VerifyComplete
begin

text \<open>
  \<^bold>\<open>Bunkarr\<close> backs up media libraries.  Sources are folders of files that a scanner records in a
  catalog; tier rules decide which files are backed up in full; a sync plans and executes the changes
  of a destination; versioned destinations are restic repositories whose snapshots a prune forgets;
  jobs run all this from a persistent queue, on request or from cron schedules.  The development
  models the parts of the program that make these decisions and shows that they are right.

  \<^bold>\<open>Parts and theories.\<close>

  \<^item> \<^bold>\<open>Prelude\<close>: 64-bit wrap-around, Go's \<open>strings\<close> and \<open>path\<close> functions, lemmas on lists and maps.

  \<^item> \<^bold>\<open>Tier rules\<close> (internal/tiers).  \<open>Tiers\<close> is the vocabulary (tiers, fields, operators, facts,
    decisions), \<open>TierRules\<close> the validation and compilation of conditions (fields.go, rules.go),
    \<open>TierEval\<close> the three-valued evaluator (evaluate.go), \<open>TierFiles\<close> the decisions of a whole source
    with its hardlink groups.  Shown: the evaluator is Kleene's strong logic; an unknown fact never
    lowers protection (settling facts is monotone in the information order), up to the date of
    \<open>file.age\<close>, for which a counterexample is shown; without a matching rule a file is backed up
    in full; a hardlink group gets one decision and no member loses protection by it; the age of a file
    is computed without overflow in an explicit range, and with overflow outside it.

  \<^item> \<^bold>\<open>Jobs\<close> (internal/jobs/contract.go, internal/jobqueue).  \<open>JobParams\<close>: types, parameters, their
    normal form and the lock keys.  \<open>JobStore\<close>: the table of jobs with its operations (store.go,
    coalesce.go, defer.go) as functions on a list of rows, the invariant of the rows and the steps a row
    may take; a request is answered by a job that does all of it.  \<open>JobManager\<close>: the manager's memory
    (running jobs, held keys, slots, hooks) and its handlers (manager.go).  \<open>ManagerSafety\<close>: a step relation
    over those handlers, with the interleavings of requests, dispatcher passes, runs that end, cancels,
    stops and crashes; in every reachable state two running jobs share no lock key, the pools and slots
    are within their limits and a job's hooks fire once.  A pass of the dispatcher refines the steps.

  \<^item> \<^bold>\<open>Schedules\<close> (schedules.go, scheduler.go).  \<open>Schedules\<close>: the table and its synchronisation with
    the schedules a setting asks for.  \<open>Scheduler\<close>: the timer loop, in which no schedule fires twice for
    one time, and a fire queues a job that does the schedule's work or notes a reason that is true.  The cron parser is third-party code and a parameter.

  \<^item> \<^bold>\<open>Restic snapshots\<close> (internal/engines/restic).  \<open>ResticTags\<close>: the tags of a snapshot and their
    parser, exact on both sides.  \<open>GoTime\<close>: Go's civil time in a zone.  \<open>ResticKeep\<close>: the set of
    snapshots a prune keeps (keep.go) and the filter of a forget request.

  \<^item> \<^bold>\<open>Sync\<close> (internal/syncer, internal/engines/filecopy).  \<open>DestRecords\<close>: records of the
    destination, the check of names and the comparison of times.  \<open>SyncPlan\<close>: the plan of a source
    (plan.go, tiers.go) as passes over the state of the planner, with the items' pointers to each other
    as numbers.  \<open>SyncPlanSafety\<close>: a plan removes only what vanished, is complete (but for what a targeted sync
    counts as deferred), saves the content
    of hardlinks and moves equal content only.  \<open>SyncGuard\<close>: the mass-change guard (guards.go) over the plan.
    \<open>RecordTable\<close> and \<open>RecordLinks\<close>: the statements and transactions on \<open>destination_files\<close> (store.go and
    the writes of exec.go and reconcile.go) with the constraints of the schema; every sequence of them keeps the table
    well formed, so a hardlink's record always points to a live record that has content.

  \<^item> \<^bold>\<open>Execution of a sync\<close> (internal/syncer/exec.go, identity.go, reconcile.go, window.go,
    internal/engines/filecopy).  \<open>DestFS\<close>: a filesystem of names and inodes, the operations of the copy engine
    (temp files, renames, links, names in retention) and a monad of programs over the filesystem, the records
    and the item's detail.  \<open>SyncExec\<close>: every action of an item (copy, update, adopt, move, link, promote,
    retain), what a resumed item makes of an earlier attempt's traces, and what a stopped item settles.
    \<open>ExecRules\<close>: invariants and triples of such programs.  \<open>ExecSafety\<close>: no step of an item loses content.
    \<open>SyncRun\<close>: the loop over phases and batches, and the attempts of a job; with any faults and crashes
    nothing is lost, and an execution that returns settled every item.

  \<^item> \<^bold>\<open>The other jobs of a destination\<close> (reconcile.go, retention.go, verify.go).  \<open>Reconcile\<close>: the sweep of the stopped
    jobs' items and the settling of retention intents, which every job of a destination runs first; it loses no
    content, keeps the table well formed, and without a warning nothing stays in retention unrecorded.  \<open>JobItems\<close>: the
    items table, the plan made once and the loop over the items that the next two share.  \<open>Retention\<close>: the
    retention job of a destination, from its plan to the deletion of a file; it deletes only the files of expired
    records that nothing holds, and a record only after its file.  \<open>VerifyRun\<close>: the verify job, which loses nothing, changes no file
    after its reconciliation, marks only damaged files missing, and calls verified only what is as recorded.
    \<open>VerifyComplete\<close>: a full verification whose items are all done has checked every recorded file.

  \<^bold>\<open>Modelling.\<close>  Tables are lists of rows in the order of their ids, with SQL statements as functions on
  them; \<open>int64\<close> arithmetic that can overflow is wrapped by \<open>wrap64\<close>; times are integers (nanoseconds or
  seconds as in the code); errors are values of sum types.  Every loop is a total function: structural
  recursion over the list it ranges over, or with a measure (the guard's loop decreases the number of open
  items, the loop over batches the number of items above the last id).  No fuel is used.  The planner's view of the
  filesystems, the hash of a file, Unicode case folding, the redaction of
  secrets, the cron parser and the time zone database are parameters.

  \<^bold>\<open>Faults.\<close>  The execution of a sync, a reconciliation and a retention job run in an environment that answers by the number of the step and may
  answer anything: the source's files and their data, the clock, the catalog, and at every step an error of any
  class or a crash, which no handler sees.  A filesystem operation and a transaction are one step each; a crash
  leaves a temp file empty or as it was read.  Names are compared exactly: case-insensitive destinations are
  outside this part of the model, and so are the directories, which no file's content depends on.  The copy of an
  irreplaceable flag with a move (\<open>MoveFlagsTx\<close>) is left out of the move's transaction.

  \<^bold>\<open>Interfaces.\<close>  \<open>lock_table\<close> (JobManager) is the contract of the table of held keys, interpreted on
  the manager's own; \<open>row_store\<close> (JobStore) is the contract by which the rows of the table only take
  allowed steps, interpreted on the store's operations; \<open>step_invariant\<close> (ExecRules) is the contract of an
  invariant that the steps of the environment keep, interpreted on the invariant of the destination, alone
  and with further facts about the filesystem and the item; \<open>sweep_invariant\<close> and its extension
  \<open>reconcile_invariant\<close> (Reconcile) are the contracts of an invariant of the table that the sweep and the whole
  reconciliation keep, interpreted on the places of intents and on the well-formed tables; \<open>item_program\<close> (JobItems) is
  the contract of the program of an item, from which the run of all items follows, interpreted on the expiry and
  on the verification of a file.

  \<^bold>\<open>Not modelled.\<close>  The daily retention job that queues one job per destination, the opening and locking of destinations, HTTP handlers and clients, the child processes of restic and rclone, the catalog scanner, the media index, notifications,
  manifests and the backups of third-party databases are effects on systems outside the program;
  the decisions they carry out are the modelled ones.
\<close>

end
